(* ===== verification/Prelude.thy ===== *)
theory Prelude
  imports Complex_Main "HOL-Library.Word" "HOL-Library.AList" "HOL-Library.Char_ord"
    "HOL-Library.List_Lexorder" "HOL-Library.Product_Lexorder" "HOL-Library.Log_Nat"
    "HOL-Library.Multiset"
begin

text \<open>
  Shared vocabulary of the development: the Python values the modules exchange (UUIDs,
  datetimes, floats, dictionaries, option values), the exceptions as an error type, tables of the
  database as lists of rows, and the generic lemmas on them. The theorem collections declared here
  carry the proofs of the component theories.
\<close>

section \<open>Theorem collections\<close>

named_theorems result_simps \<open>rewriting of error results\<close>
named_theorems table_simps \<open>rewriting of table operations\<close>

section \<open>Exceptions and results\<close>

text \<open>
  A raise of the source is a value of \<open>py_error\<close>, with the class of the exception and the
  message where the source fixes one; a function that may raise returns a sum whose left side is
  the exception.
\<close>

datatype py_error =
    ValueError string
  | RuntimeError string
  | KeyError
  | IndexError
  | AssertionError

fun rbind :: "'e + 'a \<Rightarrow> ('a \<Rightarrow> 'e + 'b) \<Rightarrow> 'e + 'b" where
  "rbind (Inl e) f = Inl e"
| "rbind (Inr x) f = f x"

definition require :: "bool \<Rightarrow> 'e \<Rightarrow> 'e + unit" where
  "require b e = (if b then Inr () else Inl e)"

lemma rbind_Inr_iff [result_simps]: "rbind m f = Inr y \<longleftrightarrow> (\<exists>x. m = Inr x \<and> f x = Inr y)"
  by (cases m) auto

lemma rbind_Inl_iff [result_simps]:
  "rbind m f = Inl e \<longleftrightarrow> m = Inl e \<or> (\<exists>x. m = Inr x \<and> f x = Inl e)"
  by (cases m) auto

lemma require_Inr_iff [result_simps]: "require b e = Inr u \<longleftrightarrow> b"
  by (auto simp: require_def)

lemma require_Inl_iff [result_simps]: "require b e = Inl e' \<longleftrightarrow> \<not> b \<and> e' = e"
  by (auto simp: require_def)

lemma require_simps [simp]: "require True e = Inr ()" "require False e = Inl e"
  by (simp_all add: require_def)

lemma rbind_cong [fundef_cong]:
  "m = m' \<Longrightarrow> (\<And>x. m' = Inr x \<Longrightarrow> f x = f' x) \<Longrightarrow> rbind m f = rbind m' f'"
  by (cases m') auto

section \<open>Dictionaries\<close>

text \<open>
  A dictionary whose order matters is an association list in insertion order
  (\<open>AList.update\<close> keeps the position of a key that is present and appends a new one, as Python
  does); one that is only read by key is a map. \<open>dget m k d\<close> is \<open>m.get(k, d)\<close>.
\<close>

definition dget :: "('k \<rightharpoonup> 'v) \<Rightarrow> 'k \<Rightarrow> 'v \<Rightarrow> 'v" where
  "dget m k d = (case m k of None \<Rightarrow> d | Some v \<Rightarrow> v)"

lemma dget_upd [simp]: "dget (m(k \<mapsto> v)) k' d = (if k' = k then v else dget m k' d)"
  by (simp add: dget_def)

lemma dget_None [simp]: "m k = None \<Longrightarrow> dget m k d = d"
  by (simp add: dget_def)

lemma dget_Some [simp]: "m k = Some v \<Longrightarrow> dget m k d = v"
  by (simp add: dget_def)

lemma dget_map_of_update [simp]:
  "dget (map_of (AList.update k v xs)) u d = (if u = k then v else dget (map_of xs) u d)"
  by (simp add: update_conv' dget_def)

section \<open>Lists\<close>

lemma map_zip_fst: "length xs = length ys \<Longrightarrow> map (\<lambda>p. f (fst p)) (zip xs ys) = map f xs"
  by (induction xs ys rule: list_induct2) auto

text \<open>In a sorted list without repeated keys, an index is the number of smaller keys.\<close>

lemma sorted_distinct_index:
  assumes "sorted (map f xs)" "distinct (map f xs)" "i < length xs"
  shows "length (filter (\<lambda>u. f u < f (xs ! i)) xs) = i"
  using assms
proof (induction xs arbitrary: i)
  case (Cons x xs)
  show ?case
  proof (cases i)
    case 0
    have "filter (\<lambda>u. f u < f x) xs = []"
      using Cons.prems(1) by (auto simp: filter_empty_conv)
    with 0 show ?thesis by simp
  next
    case (Suc j)
    then have "f x \<le> f (xs ! j)" "f x \<noteq> f (xs ! j)"
      using Cons.prems by (auto simp: image_iff)
    then have "f x < f (xs ! j)" by simp
    then show ?thesis using Suc Cons by simp
  qed
qed simp

lemma length_filter_sort_key: "length (filter P (sort_key f xs)) = length (filter P xs)"
  by (metis mset_filter mset_sort size_mset)

section \<open>Bytes, UUIDs and their textual order\<close>

type_synonym bytes = string

text \<open>
  A UUID is its 128-bit integer. The source orders UUIDs by \<open>str\<close>, the 32 lower-case
  hexadecimal digits in groups of 8, 4, 4, 4 and 12; \<open>uuid_str_less\<close> shows that this is the order
  of the integers, which the model uses.
\<close>

type_synonym uuid = "128 word"

definition hex_digit :: "nat \<Rightarrow> char" where
  "hex_digit n = ''0123456789abcdef'' ! n"

fun hex_digits :: "nat \<Rightarrow> nat \<Rightarrow> string" where
  "hex_digits 0 n = []"
| "hex_digits (Suc w) n = hex_digits w (n div 16) @ [hex_digit (n mod 16)]"

definition uuid_hex :: "uuid \<Rightarrow> string" where
  "uuid_hex u = hex_digits 32 (unat u)"

definition uuid_str :: "uuid \<Rightarrow> string" where
  "uuid_str u =
     (let h = uuid_hex u in
      take 8 h @ ''-'' @ take 4 (drop 8 h) @ ''-'' @ take 4 (drop 12 h) @ ''-'' @
      take 4 (drop 16 h) @ ''-'' @ drop 20 h)"

lemma length_hex_digits [simp]: "length (hex_digits w n) = w"
  by (induction w arbitrary: n) auto

lemma list_less_append:
  fixes a b x y :: "'a::linorder list"
  assumes "length a = length b"
  shows "a @ x < b @ y \<longleftrightarrow> a < b \<or> (a = b \<and> x < y)"
  using assms by (induction a b rule: list_induct2) auto

lemma hex_digit_less_16:
  "\<forall>a\<in>{0..<16}. \<forall>b\<in>{0..<16}. (hex_digit a < hex_digit b \<longleftrightarrow> a < b)
     \<and> (hex_digit a = hex_digit b \<longleftrightarrow> a = b)"
  by code_simp

lemma hex_digit_mono:
  assumes "a < 16" "b < 16"
  shows "hex_digit a < hex_digit b \<longleftrightarrow> a < b" "hex_digit a = hex_digit b \<longleftrightarrow> a = b"
  using hex_digit_less_16 assms by auto

lemma div_mod_16_less:
  fixes a b :: nat
  shows "a < b \<longleftrightarrow> a div 16 < b div 16 \<or> (a div 16 = b div 16 \<and> a mod 16 < b mod 16)"
    and "a = b \<longleftrightarrow> a div 16 = b div 16 \<and> a mod 16 = b mod 16"
proof -
  have digits: "16 * q + r < 16 * q' + r' \<longleftrightarrow> q < q' \<or> (q = q' \<and> r < r')"
    if "r < 16" "r' < 16" for q r q' r' :: nat
    using that by auto
  show "a < b \<longleftrightarrow> a div 16 < b div 16 \<or> (a div 16 = b div 16 \<and> a mod 16 < b mod 16)"
    using digits [of "a mod 16" "b mod 16" "a div 16" "b div 16"] by simp
  show "a = b \<longleftrightarrow> a div 16 = b div 16 \<and> a mod 16 = b mod 16"
    by (metis div_mult_mod_eq)
qed

lemma hex_digits_mono:
  assumes "a < 16 ^ w" "b < 16 ^ w"
  shows "(hex_digits w a < hex_digits w b \<longleftrightarrow> a < b) \<and> (hex_digits w a = hex_digits w b \<longleftrightarrow> a = b)"
  using assms
proof (induction w arbitrary: a b)
  case (Suc w)
  have d: "a div 16 < 16 ^ w" "b div 16 < 16 ^ w"
    using Suc.prems by (simp_all add: less_mult_imp_div_less mult.commute)
  note IH = Suc.IH [OF d]
  have m: "hex_digit (a mod 16) < hex_digit (b mod 16) \<longleftrightarrow> a mod 16 < b mod 16"
    "hex_digit (a mod 16) = hex_digit (b mod 16) \<longleftrightarrow> a mod 16 = b mod 16"
    by (simp_all add: hex_digit_mono)
  show ?case
    using IH m div_mod_16_less [of a b] by (simp add: list_less_append)
qed simp

lemma uuid_hex_less: "uuid_hex a < uuid_hex b \<longleftrightarrow> a < b"
proof -
  have "unat a < 16 ^ 32" "unat b < 16 ^ 32"
    using unsigned_less [of a] unsigned_less [of b] by simp_all
  then show ?thesis
    by (simp add: uuid_hex_def hex_digits_mono word_less_nat_alt)
qed

lemma less_iff_take_drop:
  fixes a b :: "'a::linorder list"
  assumes "length a = length b"
  shows "a < b \<longleftrightarrow> take n a < take n b \<or> (take n a = take n b \<and> drop n a < drop n b)"
  using list_less_append [of "take n a" "take n b" "drop n a" "drop n b"] assms by simp

theorem uuid_str_less: "uuid_str a < uuid_str b \<longleftrightarrow> a < b"
proof -
  define x y where "x = uuid_hex a" and "y = uuid_hex b"
  have len: "length x = 32" "length y = 32"
    by (simp_all add: x_def y_def uuid_hex_def)
  have "x < y \<longleftrightarrow> uuid_str a < uuid_str b"
    using less_iff_take_drop [of x y 8] less_iff_take_drop [of "drop 8 x" "drop 8 y" 4]
      less_iff_take_drop [of "drop 12 x" "drop 12 y" 4]
      less_iff_take_drop [of "drop 16 x" "drop 16 y" 4] len
    by (simp add: uuid_str_def Let_def x_def [symmetric] y_def [symmetric] list_less_append)
  then show ?thesis
    by (simp add: x_def y_def uuid_hex_less)
qed

section \<open>Decimal numerals\<close>

text \<open>\<open>str\<close> of an integer, with the reading function that shows it is injective.\<close>

fun nat_str :: "nat \<Rightarrow> string" where
  "nat_str n = (if n < 10 then [char_of (48 + n)] else nat_str (n div 10) @ [char_of (48 + n mod 10)])"

declare nat_str.simps [simp del]

definition int_str :: "int \<Rightarrow> string" where
  "int_str i = (if i < 0 then CHR ''-'' # nat_str (nat (- i)) else nat_str (nat i))"

definition digit_value :: "char \<Rightarrow> nat" where
  "digit_value c = of_char c - 48"

definition decimal_value :: "string \<Rightarrow> nat" where
  "decimal_value s = foldl (\<lambda>n c. 10 * n + digit_value c) 0 s"

definition char_in :: "char \<Rightarrow> char \<Rightarrow> char \<Rightarrow> bool" where
  "char_in lo hi c = (c \<ge> lo \<and> c \<le> hi)"

definition is_digit :: "char \<Rightarrow> bool" where
  "is_digit = char_in (CHR ''0'') (CHR ''9'')"

definition is_upper :: "char \<Rightarrow> bool" where
  "is_upper = char_in (CHR ''A'') (CHR ''Z'')"

definition is_lower :: "char \<Rightarrow> bool" where
  "is_lower = char_in (CHR ''a'') (CHR ''z'')"

lemma digit_value_char [simp]: "n < 10 \<Longrightarrow> digit_value (char_of (48 + n)) = n"
  by (simp add: digit_value_def)

lemma is_digit_char [simp]: "(n :: nat) < 10 \<Longrightarrow> is_digit (char_of (48 + n))"
  by (simp add: is_digit_def char_in_def less_eq_char_def)

lemma decimal_value_nat_str [simp]: "decimal_value (nat_str n) = n"
proof (induction n rule: nat_str.induct)
  case (1 n)
  then show ?case
    by (subst nat_str.simps) (auto simp: decimal_value_def)
qed

lemma nat_str_digits: "list_all is_digit (nat_str n)"
proof (induction n rule: nat_str.induct)
  case (1 n)
  then show ?case by (subst nat_str.simps) auto
qed

lemma nat_str_nonempty [simp]: "nat_str n \<noteq> []"
  by (subst nat_str.simps) simp

lemma nat_str_inject [simp]: "nat_str m = nat_str n \<longleftrightarrow> m = n"
  by (metis decimal_value_nat_str)

lemma less_eq_char_code_minus: "\<not> CHR ''0'' \<le> CHR ''-''"
  by (simp add: less_eq_char_def)

lemma int_str_inject [simp]: "int_str a = int_str b \<longleftrightarrow> a = b"
proof -
  have minus: "CHR ''-'' # x \<noteq> nat_str n" for x n
    using nat_str_digits [of n] less_eq_char_code_minus by (metis is_digit_def char_in_def list.pred_inject(2))
  then have "nat_str n \<noteq> CHR ''-'' # x" for x n by metis
  with minus show ?thesis by (auto simp: int_str_def)
qed

section \<open>Datetimes\<close>

text \<open>
  A datetime is the number of microseconds since the epoch, of the UTC instant when it carries
  a time zone and of the wall clock when it does not. Columns of the database hold UTC instants,
  which PostgreSQL returns with a zone and SQLite without: the \<open>_as_utc\<close> helpers of the source map
  both to the same instant, so a column is an \<open>instant\<close>. A \<open>timedelta\<close> is a number of
  microseconds.
\<close>

type_synonym instant = int
type_synonym timedelta = int

datatype datetime = Naive instant | Aware instant

fun as_utc :: "datetime \<Rightarrow> instant" where
  "as_utc (Naive t) = t"
| "as_utc (Aware t) = t"

fun tz_aware :: "datetime \<Rightarrow> bool" where
  "tz_aware (Naive t) = False"
| "tz_aware (Aware t) = True"

definition seconds :: "int \<Rightarrow> timedelta" where
  "seconds n = n * 1000000"

definition hours :: "int \<Rightarrow> timedelta" where
  "hours n = seconds (n * 3600)"

text \<open>\<open>int(delta.total_seconds())\<close>: truncation towards zero.\<close>

definition whole_seconds :: "timedelta \<Rightarrow> int" where
  "whole_seconds d = sgn d * (\<bar>d\<bar> div 1000000)"

section \<open>Floats\<close>

text \<open>
  A finite float is the rational it denotes; \<open>fl64\<close> rounds a rational to the nearest binary64
  value, ties to even (exponents stay in the normal range for the magnitudes of this program).
  \<open>round_half_even\<close> is Python's \<open>round\<close>.
\<close>

datatype pyfloat = Fin rat | PInf | NInf | NaN

definition round_half_even :: "rat \<Rightarrow> int" where
  "round_half_even x =
     (let f = \<lfloor>x\<rfloor>; r = x - of_int f in
      if r < 1 / 2 then f else if 1 / 2 < r then f + 1 else if even f then f else f + 1)"

definition fl64 :: "rat \<Rightarrow> rat" where
  "fl64 x =
     (if x = 0 then 0 else
      let (n, d) = quotient_of x;
          e = bitlen \<bar>n\<bar> - bitlen d;
          p = (if power_int 2 e \<le> \<bar>x\<bar> then e else e - 1);
          m = round_half_even (\<bar>x\<bar> * power_int 2 (52 - p))
      in sgn x * of_int m * power_int 2 (p - 52))"

text \<open>
  \<open>delta.total_seconds()\<close> and \<open>timedelta(seconds=x)\<close> for a finite float: the whole seconds count
  exactly, the fraction is scaled to microseconds in binary64, and the sum is rounded half to even.
\<close>

definition total_seconds :: "timedelta \<Rightarrow> rat" where
  "total_seconds d = fl64 (of_int d / 1000000)"

definition timedelta_of_seconds :: "rat \<Rightarrow> timedelta" where
  "timedelta_of_seconds x =
     (let whole = sgn x * of_int \<lfloor>\<bar>x\<bar>\<rfloor> in
      round_half_even (whole * 1000000 + fl64 (1000000 * (x - whole))))"

lemma round_half_even_bounds: "\<lfloor>x\<rfloor> \<le> round_half_even x" "round_half_even x \<le> \<lfloor>x\<rfloor> + 1"
  by (simp_all add: round_half_even_def Let_def)

lemma round_half_even_nonneg: "0 \<le> x \<Longrightarrow> 0 \<le> round_half_even x"
  using round_half_even_bounds(1) [of x] by (meson order_trans zero_le_floor)

lemma fl64_nonneg: "0 \<le> x \<Longrightarrow> 0 \<le> fl64 x"
  by (auto simp: fl64_def Let_def split: prod.splits
      intro!: mult_nonneg_nonneg round_half_even_nonneg)

lemma round_half_even_mono_int: "of_int n \<le> x \<Longrightarrow> n \<le> round_half_even x"
  using round_half_even_bounds(1) [of x] by (meson le_floor_iff order_trans)

text \<open>A delay of at least a whole number of seconds is at least that many microseconds.\<close>

lemma timedelta_of_seconds_ge:
  assumes "of_int n \<le> x" "0 \<le> n"
  shows "seconds n \<le> timedelta_of_seconds x"
proof -
  have x: "0 \<le> x" using assms by (metis of_int_0_le_iff order_trans)
  let ?w = "of_int \<lfloor>x\<rfloor> :: rat"
  have whole: "sgn x * of_int \<lfloor>\<bar>x\<bar>\<rfloor> = ?w"
    using x by (cases "x = 0") (simp_all add: sgn_if)
  have "n \<le> \<lfloor>x\<rfloor>" using assms(1) by (simp add: le_floor_iff)
  then have "of_int (n * 1000000) \<le> ?w * 1000000"
    by simp
  moreover have "0 \<le> fl64 (1000000 * (x - ?w))"
    by (rule fl64_nonneg) simp
  ultimately have "of_int (n * 1000000) \<le> ?w * 1000000 + fl64 (1000000 * (x - ?w))"
    by linarith
  then show ?thesis
    unfolding timedelta_of_seconds_def whole Let_def seconds_def by (rule round_half_even_mono_int)
qed

section \<open>Option values\<close>

text \<open>\<open>OptionValue\<close> of the options registry.\<close>

datatype option_value = OInt int | OBool bool | OText string

section \<open>Tables\<close>

text \<open>
  A table is the list of its rows. \<open>update_row\<close> writes through the primary key,
  \<open>find_row\<close> is \<open>session.get\<close>, and the aggregate queries are sums and counts over the rows.
\<close>

definition find_row :: "('r \<Rightarrow> 'k) \<Rightarrow> 'k \<Rightarrow> 'r list \<Rightarrow> 'r option" where
  "find_row key k rows = find (\<lambda>r. key r = k) rows"

definition update_row :: "('r \<Rightarrow> 'k) \<Rightarrow> 'k \<Rightarrow> ('r \<Rightarrow> 'r) \<Rightarrow> 'r list \<Rightarrow> 'r list" where
  "update_row key k f rows = map (\<lambda>r. if key r = k then f r else r) rows"

definition update_where :: "('r \<Rightarrow> bool) \<Rightarrow> ('r \<Rightarrow> 'r) \<Rightarrow> 'r list \<Rightarrow> 'r list" where
  "update_where P f rows = map (\<lambda>r. if P r then f r else r) rows"

lemma find_row_Some_iff:
  assumes "distinct (map key rows)"
  shows "find_row key k rows = Some r \<longleftrightarrow> r \<in> set rows \<and> key r = k"
  using assms by (induction rows) (auto simp: find_row_def)

lemma find_row_SomeD: "find_row key k rows = Some r \<Longrightarrow> r \<in> set rows \<and> key r = k"
  by (auto simp: find_row_def find_Some_iff)

lemma find_row_None_iff: "find_row key k rows = None \<longleftrightarrow> k \<notin> key ` set rows"
  by (auto simp: find_row_def find_None_iff)

lemma map_update_row [table_simps]:
  "(\<And>r. g (f r) = g r) \<Longrightarrow> map g (update_row key k f rows) = map g rows"
  by (auto simp: update_row_def)

lemma map_update_where [table_simps]:
  "(\<And>r. g (f r) = g r) \<Longrightarrow> map g (update_where P f rows) = map g rows"
  by (auto simp: update_where_def)

lemma filter_update_row: "(\<And>r. key r = k \<Longrightarrow> key (f r) = k) \<Longrightarrow>
    filter (\<lambda>r. key r \<noteq> k) (update_row key k f rows) = filter (\<lambda>r. key r \<noteq> k) rows"
  by (induction rows) (simp_all add: update_row_def)

lemma filter_update_where: "(\<And>r. P r \<Longrightarrow> \<not> Q r \<and> \<not> Q (f r)) \<Longrightarrow>
    filter Q (update_where P f rows) = filter Q rows"
  by (induction rows) (auto simp: update_where_def)

lemma length_update_row [simp]: "length (update_row key k f rows) = length rows"
  by (simp add: update_row_def)

lemma in_update_row:
  "r \<in> set (update_row key k f rows) \<longleftrightarrow>
     (\<exists>s\<in>set rows. r = (if key s = k then f s else s))"
  by (induction rows) (auto simp: update_row_def)

lemma in_update_where:
  "r \<in> set (update_where P f rows) \<longleftrightarrow> (\<exists>s\<in>set rows. r = (if P s then f s else s))"
  by (induction rows) (auto simp: update_where_def)

text \<open>Updating the one row with a key changes a sum over the rows by that row's difference.\<close>

lemma sum_list_update_row:
  fixes w :: "'r \<Rightarrow> int"
  assumes "distinct (map key rows)" "r \<in> set rows" "key r = k"
  shows "sum_list (map w (update_row key k f rows)) = sum_list (map w rows) + (w (f r) - w r)"
  using assms
proof (induction rows)
  case (Cons x xs)
  show ?case
  proof (cases "key x = k")
    case True
    then have "k \<notin> key ` set xs" using Cons.prems(1) by auto
    moreover from this True Cons.prems have "x = r" by (metis image_eqI set_ConsD)
    moreover from calculation have "update_row key k f xs = xs"
      by (auto simp: update_row_def intro!: map_idI)
    ultimately show ?thesis using True by (simp add: update_row_def)
  next
    case False
    then have "update_row key k f (x # xs) = x # update_row key k f xs"
      by (simp add: update_row_def)
    with Cons False show ?thesis by auto
  qed
qed simp

lemma sum_list_update_where:
  fixes w :: "'r \<Rightarrow> int"
  shows "(\<And>r. P r \<Longrightarrow> w (f r) = w r) \<Longrightarrow>
    sum_list (map w (update_where P f rows)) = sum_list (map w rows)"
  by (induction rows) (auto simp: update_where_def)

lemma list_ex_update_row:
  "list_ex P (update_row key k f rows) \<longleftrightarrow> list_ex (\<lambda>s. P (if key s = k then f s else s)) rows"
  by (induction rows) (auto simp: update_row_def)

lemma find_row_append:
  "find_row key k (rows @ [r]) =
     (case find_row key k rows of Some x \<Rightarrow> Some x | None \<Rightarrow> if key r = k then Some r else None)"
  by (induction rows) (auto simp: find_row_def)

lemma find_row_update_row:
  "(\<And>r. key (f r) = key r) \<Longrightarrow>
     find_row key k' (update_row key k f rows)
       = (if k' = k then map_option f (find_row key k rows) else find_row key k' rows)"
  by (induction rows) (auto simp: find_row_def update_row_def)

lemma find_row_put_row:
  "find_row key k (update_row key (key x) (\<lambda>_. x) rows) =
     (if k = key x then map_option (\<lambda>_. x) (find_row key k rows) else find_row key k rows)"
  by (induction rows) (auto simp: find_row_def update_row_def)

lemma filter_key_unique:
  assumes "distinct (map key rows)" "r \<in> set rows"
  shows "filter (\<lambda>x. key x = key r) rows = [r]"
  using assms
proof (induction rows)
  case (Cons x rows)
  show ?case
  proof (cases "x = r")
    case True
    then have "key r \<notin> key ` set rows" using Cons.prems(1) by auto
    then have "filter (\<lambda>x. key x = key r) rows = []"
      by (auto simp: filter_empty_conv image_iff)
    with True show ?thesis by simp
  qed (use Cons in auto)
qed simp

lemma member_le_sum_list_map:
  fixes w :: "'r \<Rightarrow> int"
  assumes "r \<in> set rows" "\<And>x. x \<in> set rows \<Longrightarrow> 0 \<le> w x"
  shows "w r \<le> sum_list (map w rows)"
  using assms
proof (induction rows)
  case (Cons x rows)
  have "0 \<le> w x" "0 \<le> sum_list (map w rows)"
    using Cons.prems(2) by (auto intro!: sum_list_nonneg)
  with Cons show ?case by (cases "r = x") (auto intro: add_increasing)
qed simp

section \<open>Transition systems\<close>

text \<open>
  The invariant rule shared by the state machines of the development: a property of the initial
  states that every step keeps holds in every reachable state.
\<close>

inductive reach :: "('s \<Rightarrow> bool) \<Rightarrow> ('s \<Rightarrow> 's \<Rightarrow> bool) \<Rightarrow> 's \<Rightarrow> bool" for init step where
  reach_init: "init s \<Longrightarrow> reach init step s"
| reach_step: "reach init step s \<Longrightarrow> step s t \<Longrightarrow> reach init step t"

locale invariant_system =
  fixes init :: "'s \<Rightarrow> bool"
    and step :: "'s \<Rightarrow> 's \<Rightarrow> bool"
    and inv :: "'s \<Rightarrow> bool"
  assumes inv_init: "init s \<Longrightarrow> inv s"
    and inv_step: "inv s \<Longrightarrow> step s t \<Longrightarrow> inv t"
begin

lemma reach_inv: "reach init step s \<Longrightarrow> inv s"
  by (induction rule: reach.induct) (auto intro: inv_init inv_step)

lemma steps_inv: "inv s \<Longrightarrow> step\<^sup>*\<^sup>* s t \<Longrightarrow> inv t"
  by (erule rtranclp_induct) (auto intro: inv_step)

end

text \<open>A system that refines an abstract one: every step from the invariant is an abstract step.\<close>

locale refinement_system = invariant_system init step inv
  for init :: "'s \<Rightarrow> bool" and step :: "'s \<Rightarrow> 's \<Rightarrow> bool" and inv :: "'s \<Rightarrow> bool" +
  fixes abs_init :: "'a \<Rightarrow> bool"
    and abs_step :: "'a \<Rightarrow> 'a \<Rightarrow> bool"
    and abs_of :: "'s \<Rightarrow> 'a"
  assumes refines_init: "init s \<Longrightarrow> abs_init (abs_of s)"
    and refines_step: "inv s \<Longrightarrow> step s t \<Longrightarrow> abs_step (abs_of s) (abs_of t)"
begin

lemma reach_abs: "reach init step s \<Longrightarrow> reach abs_init abs_step (abs_of s)"
proof (induction rule: reach.induct)
  fix s assume "init s"
  then show "reach abs_init abs_step (abs_of s)" by (intro reach_init refines_init)
next
  fix s t assume r: "reach init step s" "step s t" and IH: "reach abs_init abs_step (abs_of s)"
  show "reach abs_init abs_step (abs_of t)"
    by (rule reach_step [OF IH refines_step [OF reach_inv [OF r(1)] r(2)]])
qed

end

end
