(* ===== verification/Text_Encoding.thy ===== *)
theory Text_Encoding
  imports Prelude
begin

text \<open>
  Python text and its UTF-8 encoding, which the paths of a torrent go through: a \<open>str\<close> is the list of
  its code points, of which the surrogates have no encoding. The result is the round trip of the
  encoder and the decoder, from which the encoder is injective.
\<close>

section \<open>Text\<close>

type_synonym pytext = "nat list"

definition lit :: "string \<Rightarrow> pytext" where
  "lit s = map of_char s"

definition continuation :: "nat \<Rightarrow> bool" where
  "continuation b \<longleftrightarrow> 128 \<le> b \<and> b < 192"

text \<open>\<open>raw.decode("utf-8")\<close>, strict: no overlong form, no surrogate, nothing above U+10FFFF.\<close>

fun utf8_decode :: "nat list \<Rightarrow> pytext option" where
  "utf8_decode [] = Some []"
| "utf8_decode (a # s) =
     (if a < 128 then map_option ((#) a) (utf8_decode s)
      else if a < 194 then None
      else if a < 224 then
        (case s of
           b # s' \<Rightarrow>
             if continuation b then map_option ((#) ((a - 192) * 64 + (b - 128))) (utf8_decode s') else None
         | _ \<Rightarrow> None)
      else if a < 240 then
        (case s of
           b # c # s' \<Rightarrow>
             if continuation b \<and> continuation c \<and> (a = 224 \<longrightarrow> 160 \<le> b) \<and> (a = 237 \<longrightarrow> b < 160)
             then map_option ((#) ((a - 224) * 4096 + (b - 128) * 64 + (c - 128))) (utf8_decode s') else None
         | _ \<Rightarrow> None)
      else if a < 245 then
        (case s of
           b # c # d # s' \<Rightarrow>
             if continuation b \<and> continuation c \<and> continuation d \<and> (a = 240 \<longrightarrow> 144 \<le> b) \<and> (a = 244 \<longrightarrow> b < 144)
             then map_option ((#) ((a - 240) * 262144 + (b - 128) * 4096 + (c - 128) * 64 + (d - 128))) (utf8_decode s')
             else None
         | _ \<Rightarrow> None)
      else None)"

text \<open>
  \<open>text.encode("utf-8")\<close>: \<open>UnicodeEncodeError\<close>, a \<open>ValueError\<close>, where a code point is a surrogate.
\<close>

definition encodable :: "pytext \<Rightarrow> bool" where
  "encodable t \<longleftrightarrow> list_all (\<lambda>c. c < 55296 \<or> 57344 \<le> c \<and> c < 1114112) t"

definition utf8_char :: "nat \<Rightarrow> nat list" where
  "utf8_char c =
     (if c < 128 then [c]
      else if c < 2048 then [192 + c div 64, 128 + c mod 64]
      else if c < 65536 then [224 + c div 4096, 128 + c div 64 mod 64, 128 + c mod 64]
      else [240 + c div 262144, 128 + c div 4096 mod 64, 128 + c div 64 mod 64, 128 + c mod 64])"

definition utf8 :: "pytext \<Rightarrow> string" where
  "utf8 t = map char_of (concat (map utf8_char t))"

text \<open>\<open>len(text.encode("utf-8"))\<close>\<close>

definition utf8_width :: "nat \<Rightarrow> nat" where
  "utf8_width c = (if c < 128 then 1 else if c < 2048 then 2 else if c < 65536 then 3 else 4)"

definition encoded_length :: "pytext \<Rightarrow> nat" where
  "encoded_length t = sum_list (map utf8_width t)"

lemma encoded_length_Cons [simp]: "encoded_length (c # t) = utf8_width c + encoded_length t"
  by (simp add: encoded_length_def)

lemma encoded_length_Nil [simp]: "encoded_length [] = 0"
  by (simp add: encoded_length_def)

lemma utf8_decode_length: "utf8_decode s = Some t \<Longrightarrow> encoded_length t = length s"
  by (induction s arbitrary: t rule: utf8_decode.induct)
    (auto simp: utf8_width_def continuation_def split: if_splits list.splits)

section \<open>Round trip\<close>

lemma encodable_simps [simp]:
  "encodable []" "encodable (c # t) \<longleftrightarrow> (c < 55296 \<or> 57344 \<le> c \<and> c < 1114112) \<and> encodable t"
  by (simp_all add: encodable_def)

lemma length_utf8_char [simp]: "length (utf8_char c) = utf8_width c"
  by (simp add: utf8_char_def utf8_width_def)

lemma length_utf8: "length (utf8 t) = encoded_length t"
  by (induction t) (simp_all add: utf8_def)

lemma encoded_length_bound: "encoded_length t \<le> 4 * length t"
  by (induction t) (auto simp: utf8_width_def)

lemma mod_64: "128 \<le> 128 + n mod 64" "128 + n mod 64 < (192 :: nat)"
  by simp_all

lemma utf8_char_bytes:
  assumes "c < 1114112"
  shows "list_all (\<lambda>b. b < 256) (utf8_char c)"
proof -
  have "c < 2048 \<Longrightarrow> c div 64 < 32" "c < 65536 \<Longrightarrow> c div 4096 < 16" "c div 262144 < 5" "\<And>n. n mod 64 < (64::nat)"
    using assms by (simp_all add: less_mult_imp_div_less)
  moreover have "128 + n mod 64 < (256 :: nat)" for n by (rule less_trans [OF mod_64(2)]) simp
  ultimately show ?thesis by (auto simp: utf8_char_def)
qed

text \<open>The base-64 digits of a code point.\<close>

lemma digit_eqs:
  fixes c :: nat
  shows "c = 64 * (c div 64) + c mod 64" "c div 64 = 64 * (c div 4096) + c div 64 mod 64"
    "c div 4096 = 64 * (c div 262144) + c div 4096 mod 64"
    "c mod 64 < 64" "c div 64 mod 64 < 64" "c div 4096 mod 64 < 64"
proof -
  have "c div 4096 = c div 64 div 64" "c div 262144 = c div 4096 div 64" by (simp_all add: div_mult2_eq [symmetric])
  then show "c = 64 * (c div 64) + c mod 64" "c div 64 = 64 * (c div 4096) + c div 64 mod 64"
    "c div 4096 = 64 * (c div 262144) + c div 4096 mod 64"
    "c mod 64 < 64" "c div 64 mod 64 < 64" "c div 4096 mod 64 < 64" by simp_all
qed

lemma utf8_decode_2:
  assumes "2 \<le> x" "x < 32" "y < 64"
  shows "utf8_decode ((192 + x) # (128 + y) # s) = map_option ((#) (x * 64 + y)) (utf8_decode s)"
  using assms by (simp add: continuation_def)

lemma utf8_decode_3:
  assumes "x < 16" "y < 64" "z < 64" "x = 0 \<Longrightarrow> 32 \<le> y" "x = 13 \<Longrightarrow> y < 32"
  shows "utf8_decode ((224 + x) # (128 + y) # (128 + z) # s) = map_option ((#) (x * 4096 + y * 64 + z)) (utf8_decode s)"
  using assms by (simp add: continuation_def)

lemma utf8_decode_4:
  assumes "x < 5" "w < 64" "y < 64" "z < 64" "x = 0 \<Longrightarrow> 16 \<le> w" "x = 4 \<Longrightarrow> w < 16"
  shows "utf8_decode ((240 + x) # (128 + w) # (128 + y) # (128 + z) # s)
    = map_option ((#) (x * 262144 + w * 4096 + y * 64 + z)) (utf8_decode s)"
  using assms by (simp add: continuation_def)

lemma utf8_decode_char:
  assumes "c < 55296 \<or> 57344 \<le> c \<and> c < 1114112"
  shows "utf8_decode (utf8_char c @ s) = map_option ((#) c) (utf8_decode s)"
proof -
  define x4 x3 x2 x1 w3 w2 where digits: "x4 = c div 262144" "x3 = c div 4096" "x2 = c div 64" "x1 = c mod 64"
    "w3 = c div 4096 mod 64" "w2 = c div 64 mod 64"
  note e = digit_eqs [of c, folded digits]
  consider (1) "c < 128" | (2) "128 \<le> c" "c < 2048" | (3) "2048 \<le> c" "c < 65536" | (4) "65536 \<le> c" by linarith
  then show ?thesis
  proof cases
    case 1
    then show ?thesis by (simp add: utf8_char_def)
  next
    case 2
    have "2 \<le> x2" "x2 < 32" "x2 * 64 + x1 = c" using 2 e by linarith+
    then show ?thesis using 2 utf8_decode_2 [of x2 x1 s] e(4) by (simp add: utf8_char_def digits del: utf8_decode.simps)
  next
    case 3
    have b: "x3 < 16" "x3 = 0 \<Longrightarrow> 32 \<le> w2" "x3 = 13 \<Longrightarrow> w2 < 32" "x3 * 4096 + w2 * 64 + x1 = c"
      using 3 assms e by linarith+
    have "utf8_char c = [224 + x3, 128 + w2, 128 + x1]" using 3 by (simp add: utf8_char_def digits)
    then show ?thesis using utf8_decode_3 [OF b(1) e(5,4) b(2,3), of s] b(4) by (simp del: utf8_decode.simps)
  next
    case 4
    have b: "x4 < 5" "x4 = 0 \<Longrightarrow> 16 \<le> w3" "x4 = 4 \<Longrightarrow> w3 < 16" "x4 * 262144 + w3 * 4096 + w2 * 64 + x1 = c"
      using 4 assms e by linarith+
    have "utf8_char c = [240 + x4, 128 + w3, 128 + w2, 128 + x1]" using 4 by (simp add: utf8_char_def digits)
    then show ?thesis using utf8_decode_4 [OF b(1) e(6,5,4) b(2,3), of s] b(4) by (simp del: utf8_decode.simps)
  qed
qed

lemma utf8_bytes:
  assumes "encodable t"
  shows "map of_char (utf8 t) = concat (map utf8_char t)"
proof -
  have "b < 256" if mem: "b \<in> set (concat (map utf8_char t))" for b
  proof -
    obtain c where "c \<in> set t" "b \<in> set (utf8_char c)" using mem by auto
    moreover have "c < 1114112" using assms calculation(1) by (auto simp: encodable_def list_all_iff)
    ultimately show ?thesis using utf8_char_bytes [of c] by (simp add: list_all_iff)
  qed
  then show ?thesis unfolding utf8_def map_map by (intro map_idI) (simp add: take_bit_eq_mod)
qed

lemma utf8_decode_utf8:
  assumes "encodable t"
  shows "utf8_decode (map of_char (utf8 t)) = Some t"
  unfolding utf8_bytes [OF assms] using assms
proof (induction t)
  case (Cons c t)
  have "utf8_decode (utf8_char c @ concat (map utf8_char t)) = map_option ((#) c) (utf8_decode (concat (map utf8_char t)))"
    by (rule utf8_decode_char) (use Cons.prems in simp)
  then show ?case using Cons by (simp del: utf8_decode.simps)
qed simp

lemma utf8_inject:
  assumes "encodable s" "encodable t"
  shows "utf8 s = utf8 t \<longleftrightarrow> s = t"
proof
  assume "utf8 s = utf8 t"
  then have "utf8_decode (map of_char (utf8 s)) = utf8_decode (map of_char (utf8 t))" by (rule arg_cong)
  then show "s = t" unfolding utf8_decode_utf8 [OF assms(1)] utf8_decode_utf8 [OF assms(2)] by (rule option.inject [THEN iffD1])
qed simp

end
