(* ===== verification/Models.thy ===== *)
theory Models
  imports Text_Encoding "HOL-Library.Sublist"
begin

text \<open>
  The durable state: the enumerations and the rows of the SQLAlchemy models of
  \<open>backend/app/models/torrent_v2.py\<close> (and the columns of the user and option tables the torrent
  code reads), the database as a record of tables, and the CHECK constraints and unique indexes
  as boolean predicates. Every column of the source's table has a field; the prefix of a field
  names its table.
\<close>

section \<open>Enumerations\<close>

datatype managed_torrent_state =
    PENDING | ADDING | DOWNLOADING | PAUSED | RETRY_WAIT | ERROR | READY
  | PURGE_PENDING | PURGING | PURGED

datatype torrent_request_state =
    R_REQUESTED | R_ACTIVE | R_READY | R_CANCELLED | R_EXPIRED

datatype torrent_job_state =
    J_QUEUED | J_RUNNING | J_COMPLETED | J_FAILED | J_CANCELLED

datatype storage_pressure_state = NORMAL | WARNING | CRITICAL

datatype tracker_activity_type = ANNOUNCE | SCRAPE | PROXY_HEALTH | TRACKER_STATUS

datatype tracker_activity_outcome = SUCCESS | DEGRADED | FAILED

datatype tracker_diagnostic_code =
    TIMEOUT | UNAVAILABLE | AUTHENTICATION_FAILED | TRACKER_REJECTED | RATE_LIMITED
  | INVALID_RESPONSE | UNKNOWN_ERROR

text \<open>\<open>ACTIVE_REQUEST_PREDICATE\<close>: the request states that hold a right on the content.\<close>

definition active_request_state :: "torrent_request_state \<Rightarrow> bool" where
  "active_request_state s = (s \<in> {R_REQUESTED, R_ACTIVE, R_READY})"

definition waiting_request_state :: "torrent_request_state \<Rightarrow> bool" where
  "waiting_request_state s = (s \<in> {R_REQUESTED, R_ACTIVE})"

definition active_job_state :: "torrent_job_state \<Rightarrow> bool" where
  "active_job_state s = (s \<in> {J_QUEUED, J_RUNNING})"

definition purge_state :: "managed_torrent_state \<Rightarrow> bool" where
  "purge_state s = (s \<in> {PURGE_PENDING, PURGING, PURGED})"

lemma active_request_state_simps [simp]:
  "active_request_state R_REQUESTED" "active_request_state R_ACTIVE" "active_request_state R_READY"
  "\<not> active_request_state R_CANCELLED" "\<not> active_request_state R_EXPIRED"
  by (simp_all add: active_request_state_def)

lemma waiting_request_state_simps [simp]:
  "waiting_request_state R_REQUESTED" "waiting_request_state R_ACTIVE"
  "\<not> waiting_request_state R_READY" "\<not> waiting_request_state R_CANCELLED"
  "\<not> waiting_request_state R_EXPIRED"
  by (simp_all add: waiting_request_state_def)

lemma waiting_active [intro]: "waiting_request_state s \<Longrightarrow> active_request_state s"
  by (auto simp: waiting_request_state_def)

lemma active_job_state_simps [simp]:
  "active_job_state J_QUEUED" "active_job_state J_RUNNING" "\<not> active_job_state J_COMPLETED"
  "\<not> active_job_state J_FAILED" "\<not> active_job_state J_CANCELLED"
  by (simp_all add: active_job_state_def)

lemma purge_state_simps [simp]:
  "purge_state PURGE_PENDING" "purge_state PURGING" "purge_state PURGED"
  "\<not> purge_state PENDING" "\<not> purge_state ADDING" "\<not> purge_state DOWNLOADING"
  "\<not> purge_state PAUSED" "\<not> purge_state RETRY_WAIT" "\<not> purge_state ERROR"
  "\<not> purge_state READY"
  by (simp_all add: purge_state_def)

section \<open>Rows\<close>

record user =
  u_id :: uuid
  u_username :: string
  u_is_admin :: bool
  u_is_active :: bool
  u_deleted_at :: "instant option"

record storage_ledger =
  l_managed_bytes :: int
  l_disk_total_bytes :: int
  l_disk_free_bytes :: int
  l_pressure :: storage_pressure_state
  l_updated_at :: instant

record user_storage_usage =
  us_user_id :: uuid
  us_logical_bytes :: int
  us_updated_at :: instant

record managed_torrent =
  t_id :: uuid
  t_info_hash :: string
  t_storage_key :: uuid
  t_name :: string
  t_total_size :: int
  t_state :: managed_torrent_state
  t_qb_state :: "string option"
  t_progress :: rat
  t_tracker_account_ref :: "uuid option"
  t_qbittorrent_account_ref :: "uuid option"
  t_retry_at :: "instant option"
  t_last_progress_at :: "instant option"
  t_last_downloaded_bytes :: "int option"
  t_stall_count :: int
  t_scheduler_retry_at :: "instant option"
  t_purge_after :: "instant option"
  t_ready_at :: "instant option"
  t_retention_expires_at :: "instant option"
  t_purge_stop_pending :: bool
  t_lifecycle_generation :: int
  t_manifest_version :: int
  t_manifest_checksum :: "string option"
  t_manifest_file_count :: int
  t_manifest_total_size :: int
  t_desired_active :: bool
  t_admin_forced_active :: bool
  t_desired_priority :: "int option"
  t_desired_download_limit :: int
  t_schedule_generation :: int
  t_created_at :: instant
  t_updated_at :: instant

record scheduler_state =
  ss_lease_owner :: "string option"
  ss_lease_expires_at :: "instant option"
  ss_desired_generation :: int
  ss_applied_generation :: int
  ss_rounds :: int
  ss_cursor_user_id :: "uuid option"
  ss_scan_cursor_created_at :: "instant option"
  ss_scan_cursor_id :: "uuid option"
  ss_dynamic_current_active :: int
  ss_dynamic_last_evaluated_at :: "instant option"
  ss_dynamic_cooldown_until :: "instant option"
  ss_dynamic_sampled_at :: "instant option"
  ss_dynamic_sample_baseline :: "(string \<times> int) list"
  ss_dynamic_observed_bytes_per_second :: int
  ss_dynamic_active_count :: int
  ss_dynamic_waiting_count :: int
  ss_dynamic_next_evaluation_at :: "instant option"
  ss_dynamic_last_decision :: string
  ss_updated_at :: instant

record scheduler_deficit =
  sd_user_id :: uuid
  sd_credit :: int
  sd_updated_at :: instant

record torrent_request =
  r_id :: uuid
  r_user_id :: uuid
  r_managed_torrent_id :: uuid
  r_state :: torrent_request_state
  r_ready_at :: "instant option"
  r_unsubscribe_at :: "instant option"
  r_cancelled_at :: "instant option"
  r_expires_at :: "instant option"
  r_created_at :: instant
  r_updated_at :: instant

record torrent_file =
  f_id :: uuid
  f_managed_torrent_id :: uuid
  f_file_index :: int
  f_relative_path :: pytext
  f_size :: int

record download_lease =
  dl_id :: uuid
  dl_user_id :: uuid
  dl_managed_torrent_id :: uuid
  dl_torrent_request_id :: uuid
  dl_torrent_file_id :: uuid
  dl_kind :: string
  dl_expires_at :: instant
  dl_created_at :: instant
  dl_renewed_at :: instant

record tracker_activity =
  ta_id :: uuid
  ta_event_key :: uuid
  ta_managed_torrent_id :: uuid
  ta_tracker_account_ref :: uuid
  ta_event_type :: tracker_activity_type
  ta_outcome :: tracker_activity_outcome
  ta_diagnostic_code :: "tracker_diagnostic_code option"
  ta_occurred_at :: instant
  ta_created_at :: instant

text \<open>A JSON column: the value \<open>json.loads\<close> gives.\<close>

datatype json =
    JNull
  | JBool bool
  | JInt int
  | JStr string
  | JList "json list"
  | JObj "(string \<times> json) list"

record torrent_job =
  j_id :: uuid
  j_managed_torrent_id :: uuid
  j_torrent_request_id :: "uuid option"
  j_job_type :: string
  j_idempotency_key :: string
  j_recovery_snapshot :: "json option"
  j_state :: torrent_job_state
  j_attempt_count :: int
  j_max_attempts :: int
  j_available_at :: instant
  j_timeout_at :: "instant option"
  j_claimed_by :: "string option"
  j_claim_expires_at :: "instant option"
  j_cancel_requested_at :: "instant option"
  j_last_error_code :: "string option"
  j_finished_at :: "instant option"
  j_created_at :: instant
  j_updated_at :: instant

record database_option =
  o_key :: string
  o_value_type :: string
  o_boolean_value :: "bool option"
  o_integer_value :: "int option"
  o_string_value :: "string option"
  o_minimum_value :: "int option"
  o_maximum_value :: "int option"
  o_choices :: "string list"
  o_editable :: bool
  o_restart_required :: bool
  o_version :: int
  o_updated_by_user_id :: "uuid option"
  o_created_at :: instant
  o_updated_at :: instant

section \<open>Exceptions of the application\<close>

text \<open>
  The exception classes of the torrent services with the data their handlers read: the message
  or bounded code, the storage pressure of an admission error, and the torrent state and the
  \<open>waiting\<close> flag of a worker error. \<open>IntegrityError\<close> is the refusal of an insert by a unique
  index, \<open>HTTPException\<close> the answer of a route (status and error code). Exceptions of the
  language are \<open>Py\<close>.
\<close>

datatype app_error =
    Py py_error
  | StorageAdmissionError string storage_pressure_state
  | TorrentDeduplicationError string
  | TorrentRequestOwnerError string
  | TorrentMetadataConflictError string
  | TorrentDeduplicationRaceError string
  | TorrentPurgeInProgressError string
  | TorrentJobTransitionError string
  | TorrentJobClaimLostError string
  | TransientTorrentJobError string "managed_torrent_state option" bool
  | PermanentTorrentJobError string "managed_torrent_state option"
  | SchedulerLeaseLostError string
  | ReconciliationRecoveryError string
  | TorrentManifestError string
  | TorrentManifestUnavailableError string
  | TorrentManifestChangedError string
  | TorrentValidationError string
  | TrackerActivityError string
  | ManagedDownloadError string
  | DownloadConcurrencyError string
  | IntegrityError
  | HTTPException int string

section \<open>The database\<close>

text \<open>
  The singletons \<open>StorageLedger\<close> and \<open>SchedulerState\<close> (their CHECK fixes \<open>id = 1\<close>) are optional
  rows; every other table is the list of its rows.
\<close>

record db =
  db_users :: "user list"
  db_ledger :: "storage_ledger option"
  db_usages :: "user_storage_usage list"
  db_torrents :: "managed_torrent list"
  db_scheduler :: "scheduler_state option"
  db_deficits :: "scheduler_deficit list"
  db_requests :: "torrent_request list"
  db_files :: "torrent_file list"
  db_leases :: "download_lease list"
  db_activities :: "tracker_activity list"
  db_jobs :: "torrent_job list"
  db_options :: "database_option list"

definition empty_db :: db where
  "empty_db =
     \<lparr>db_users = [], db_ledger = None, db_usages = [], db_torrents = [], db_scheduler = None,
      db_deficits = [], db_requests = [], db_files = [], db_leases = [], db_activities = [],
      db_jobs = [], db_options = []\<rparr>"

text \<open>\<open>DatabaseOption.value\<close>.\<close>

definition option_value_of :: "database_option \<Rightarrow> py_error + option_value" where
  "option_value_of p =
     (if o_value_type p = ''boolean'' \<and> o_boolean_value p \<noteq> None
      then Inr (OBool (the (o_boolean_value p)))
      else if o_value_type p = ''integer'' \<and> o_integer_value p \<noteq> None
      then Inr (OInt (the (o_integer_value p)))
      else if o_value_type p \<in> {''select'', ''text'', ''secret''} \<and> o_string_value p \<noteq> None
      then Inr (OText (the (o_string_value p)))
      else Inl (RuntimeError ''Database option has an inconsistent typed value''))"

text \<open>The largest value of a BIGINT column.\<close>

definition MAX_BIGINT :: int where
  "MAX_BIGINT = 2 ^ 63 - 1"

section \<open>Constraints\<close>

text \<open>
  A CHECK constraint rejects a row only when it is false: a comparison with NULL is unknown and
  passes, which the predicate on \<open>manifest_checksum\<close> keeps.
\<close>

definition lower_char :: "char \<Rightarrow> char" where
  "lower_char c = (if is_upper c then char_of (of_char c + 32 :: nat) else c)"

definition lower :: "string \<Rightarrow> string" where
  "lower s = map lower_char s"

definition ledger_check :: "storage_ledger \<Rightarrow> bool" where
  "ledger_check l \<longleftrightarrow>
     0 \<le> l_managed_bytes l \<and> 0 \<le> l_disk_total_bytes l \<and> 0 \<le> l_disk_free_bytes l
     \<and> l_disk_free_bytes l \<le> l_disk_total_bytes l"

definition usage_check :: "user_storage_usage \<Rightarrow> bool" where
  "usage_check u \<longleftrightarrow> 0 \<le> us_logical_bytes u"

definition torrent_check :: "managed_torrent \<Rightarrow> bool" where
  "torrent_check t \<longleftrightarrow>
     length (t_info_hash t) = 40 \<and> t_info_hash t = lower (t_info_hash t)
     \<and> 0 \<le> t_total_size t
     \<and> 0 \<le> t_progress t \<and> t_progress t \<le> 1
     \<and> 0 \<le> t_desired_download_limit t \<and> 0 \<le> t_schedule_generation t
     \<and> (case t_last_downloaded_bytes t of None \<Rightarrow> True | Some n \<Rightarrow> 0 \<le> n) \<and> 0 \<le> t_stall_count t
     \<and> 0 \<le> t_lifecycle_generation t
     \<and> (t_state t \<in> {PURGE_PENDING, PURGING} \<longrightarrow> t_purge_after t \<noteq> None)
     \<and> (t_state t = PURGED \<longrightarrow> t_purge_after t = None)
     \<and> 0 \<le> t_manifest_version t \<and> 0 \<le> t_manifest_file_count t \<and> 0 \<le> t_manifest_total_size t
     \<and> (t_manifest_version t = 0 \<and> t_manifest_checksum t = None \<and> t_manifest_file_count t = 0
          \<and> t_manifest_total_size t = 0
        \<or> 1 \<le> t_manifest_version t
          \<and> (case t_manifest_checksum t of None \<Rightarrow> True | Some c \<Rightarrow> length c = 64))
     \<and> (if t_desired_active t
        then (case t_desired_priority t of None \<Rightarrow> False | Some p \<Rightarrow> 0 \<le> p)
        else t_desired_priority t = None)"

definition scheduler_state_check :: "scheduler_state \<Rightarrow> bool" where
  "scheduler_state_check s \<longleftrightarrow>
     (ss_lease_owner s = None \<longleftrightarrow> ss_lease_expires_at s = None)
     \<and> 0 \<le> ss_desired_generation s \<and> 0 \<le> ss_applied_generation s
     \<and> ss_applied_generation s \<le> ss_desired_generation s
     \<and> 0 \<le> ss_rounds s
     \<and> 0 \<le> ss_dynamic_current_active s \<and> 0 \<le> ss_dynamic_observed_bytes_per_second s
     \<and> 0 \<le> ss_dynamic_active_count s \<and> 0 \<le> ss_dynamic_waiting_count s
     \<and> (ss_scan_cursor_created_at s = None \<longleftrightarrow> ss_scan_cursor_id s = None)"

definition deficit_check :: "scheduler_deficit \<Rightarrow> bool" where
  "deficit_check d \<longleftrightarrow> 0 \<le> sd_credit d"

definition file_check :: "torrent_file \<Rightarrow> bool" where
  "file_check f \<longleftrightarrow>
     0 \<le> f_file_index f \<and> 0 \<le> f_size f
     \<and> f_relative_path f \<noteq> [] \<and> take 1 (f_relative_path f) \<noteq> lit ''/''
     \<and> f_relative_path f \<noteq> lit ''..''
     \<and> \<not> prefix (lit ''../'') (f_relative_path f)
     \<and> \<not> sublist (lit ''/../'') (f_relative_path f)"

definition lease_check :: "download_lease \<Rightarrow> bool" where
  "lease_check d \<longleftrightarrow> dl_kind d \<in> {''file'', ''archive''}"

definition activity_check :: "tracker_activity \<Rightarrow> bool" where
  "activity_check a \<longleftrightarrow>
     (ta_outcome a = SUCCESS \<and> ta_diagnostic_code a = None)
     \<or> (ta_outcome a \<in> {DEGRADED, FAILED} \<and> ta_diagnostic_code a \<noteq> None)"

definition job_check :: "torrent_job \<Rightarrow> bool" where
  "job_check j \<longleftrightarrow>
     1 \<le> length (j_job_type j) \<and> length (j_job_type j) \<le> 64
     \<and> 1 \<le> length (j_idempotency_key j) \<and> length (j_idempotency_key j) \<le> 128
     \<and> 0 \<le> j_attempt_count j \<and> 1 \<le> j_max_attempts j
     \<and> (j_state j = J_QUEUED \<longrightarrow> j_attempt_count j < j_max_attempts j)
     \<and> (if j_state j = J_RUNNING
        then j_claimed_by j \<noteq> None \<and> j_claim_expires_at j \<noteq> None \<and> j_timeout_at j \<noteq> None
        else j_claimed_by j = None \<and> j_claim_expires_at j = None \<and> j_timeout_at j = None)
     \<and> (if j_state j \<in> {J_COMPLETED, J_FAILED, J_CANCELLED} then j_finished_at j \<noteq> None
        else j_finished_at j = None)"

definition option_check :: "database_option \<Rightarrow> bool" where
  "option_check p \<longleftrightarrow>
     5 \<le> length (o_key p) \<and> length (o_key p) \<le> 128 \<and> take 4 (o_key p) = ''WOS_''
     \<and> o_value_type p \<in> {''boolean'', ''integer'', ''select'', ''text'', ''secret''}
     \<and> 1 \<le> o_version p
     \<and> (o_value_type p = ''boolean'' \<and> o_boolean_value p \<noteq> None \<and> o_integer_value p = None
          \<and> o_string_value p = None
        \<or> o_value_type p = ''integer'' \<and> o_boolean_value p = None \<and> o_integer_value p \<noteq> None
          \<and> o_string_value p = None
        \<or> o_value_type p \<in> {''select'', ''text'', ''secret''} \<and> o_boolean_value p = None
          \<and> o_integer_value p = None \<and> o_string_value p \<noteq> None)
     \<and> (if o_value_type p = ''integer''
        then (case (o_minimum_value p, o_maximum_value p) of
                (Some a, Some b) \<Rightarrow> a \<le> b | _ \<Rightarrow> False)
        else o_minimum_value p = None \<and> o_maximum_value p = None)"

lemma option_value_of_ok: "option_check p \<Longrightarrow> \<exists>v. option_value_of p = Inr v"
  by (auto simp: option_check_def option_value_of_def)

text \<open>The unique indexes: \<open>distinct\<close> on the indexed columns of the rows the index covers.\<close>

definition torrents_unique :: "managed_torrent list \<Rightarrow> bool" where
  "torrents_unique ts \<longleftrightarrow>
     distinct (map t_id ts) \<and> distinct (map t_info_hash ts) \<and> distinct (map t_storage_key ts)"

definition schedule_priority_unique :: "managed_torrent list \<Rightarrow> bool" where
  "schedule_priority_unique ts \<longleftrightarrow>
     distinct (map (\<lambda>t. (t_schedule_generation t, t_desired_priority t)) (filter t_desired_active ts))"

definition request_owner :: "torrent_request \<Rightarrow> uuid \<times> uuid" where
  "request_owner r = (r_user_id r, r_managed_torrent_id r)"

definition active_requests :: "torrent_request list \<Rightarrow> torrent_request list" where
  "active_requests rs = filter (\<lambda>r. active_request_state (r_state r)) rs"

definition requests_unique :: "torrent_request list \<Rightarrow> bool" where
  "requests_unique rs \<longleftrightarrow>
     distinct (map r_id rs) \<and> distinct (map request_owner (active_requests rs))"

definition SYNC_TORRENT_JOB :: string where
  "SYNC_TORRENT_JOB = ''SYNC_TORRENT''"

definition jobs_unique :: "torrent_job list \<Rightarrow> bool" where
  "jobs_unique js \<longleftrightarrow>
     distinct (map j_id js) \<and> distinct (map j_idempotency_key js)
     \<and> distinct (map j_managed_torrent_id
          (filter (\<lambda>j. j_job_type j = SYNC_TORRENT_JOB \<and> active_job_state (j_state j)) js))"

definition files_unique :: "torrent_file list \<Rightarrow> bool" where
  "files_unique fs \<longleftrightarrow>
     distinct (map f_id fs)
     \<and> distinct (map (\<lambda>f. (f_managed_torrent_id f, f_file_index f)) fs)
     \<and> distinct (map (\<lambda>f. (f_managed_torrent_id f, f_relative_path f)) fs)"

text \<open>The rows of a database whose transactions have all committed.\<close>

definition db_ok :: "db \<Rightarrow> bool" where
  "db_ok d \<longleftrightarrow>
     distinct (map u_id (db_users d))
     \<and> (case db_ledger d of None \<Rightarrow> True | Some l \<Rightarrow> ledger_check l)
     \<and> distinct (map us_user_id (db_usages d)) \<and> list_all usage_check (db_usages d)
     \<and> torrents_unique (db_torrents d) \<and> list_all torrent_check (db_torrents d)
     \<and> requests_unique (db_requests d)
     \<and> jobs_unique (db_jobs d) \<and> list_all job_check (db_jobs d)"

end
