(* ===== verification/Storage_Accounting.thy ===== *)
theory Storage_Accounting
  imports Models
begin

text \<open>
  The storage accounting of \<open>backend/app/storage/accounting.py\<close>: disk snapshots, the admission
  policy, the pressure classes and the reservation capacity, the admission check that runs before
  a request is inserted, the counters it keeps (one logical counter per user, one managed counter
  per installation) and their reconciliation from the rows. The last sections state the counter
  invariant the lifecycle theories preserve.
\<close>

section \<open>Snapshots and policies\<close>

record storage_disk_snapshot =
  ds_total_bytes :: int
  ds_free_bytes :: int

definition disk_post_init :: "storage_disk_snapshot \<Rightarrow> app_error + storage_disk_snapshot" where
  "disk_post_init s =
     (if ds_total_bytes s \<le> 0 \<or> \<not> (0 \<le> ds_free_bytes s \<and> ds_free_bytes s \<le> ds_total_bytes s)
      then Inl (Py (ValueError ''storage disk snapshot is invalid'')) else Inr s)"

record storage_admission_policy =
  sp_managed_max_bytes :: int
  sp_user_max_bytes :: int
  sp_min_free_bytes :: int
  sp_min_free_percent :: int
  sp_warning_percent :: int
  sp_critical_percent :: int

definition storage_policy_post_init ::
  "storage_admission_policy \<Rightarrow> app_error + storage_admission_policy" where
  "storage_policy_post_init p =
     (if list_ex (\<lambda>v. v < 0)
           [sp_managed_max_bytes p, sp_user_max_bytes p, sp_min_free_bytes p,
            sp_min_free_percent p, sp_warning_percent p, sp_critical_percent p]
      then Inl (Py (ValueError ''storage admission policy is invalid''))
      else if \<not> (0 \<le> sp_min_free_percent p \<and> sp_min_free_percent p \<le> 90)
      then Inl (Py (ValueError ''storage free-percent policy is invalid''))
      else if \<not> (1 \<le> sp_warning_percent p \<and> sp_warning_percent p < sp_critical_percent p
                \<and> sp_critical_percent p \<le> 99)
      then Inl (Py (ValueError ''storage pressure thresholds are invalid''))
      else Inr p)"

definition storage_integer ::
  "(string \<rightharpoonup> option_value) \<Rightarrow> string \<Rightarrow> app_error + int" where
  "storage_integer values key =
     (case values key of
        Some (OInt n) \<Rightarrow> Inr n
      | _ \<Rightarrow> Inl (Py (ValueError ''storage option snapshot is incomplete'')))"

definition storage_policy_from_options ::
  "(string \<rightharpoonup> option_value) \<Rightarrow> app_error + storage_admission_policy" where
  "storage_policy_from_options values =
     rbind (storage_integer values ''WOS_STORAGE_MANAGED_MAX_BYTES'') (\<lambda>managed.
     rbind (storage_integer values ''WOS_STORAGE_USER_MAX_BYTES'') (\<lambda>user.
     rbind (storage_integer values ''WOS_STORAGE_MIN_FREE_BYTES'') (\<lambda>min_free.
     rbind (storage_integer values ''WOS_STORAGE_MIN_FREE_PERCENT'') (\<lambda>percent.
     rbind (storage_integer values ''WOS_STORAGE_PRESSURE_WARNING_PERCENT'') (\<lambda>warning.
     rbind (storage_integer values ''WOS_STORAGE_PRESSURE_CRITICAL_PERCENT'') (\<lambda>critical.
     storage_policy_post_init
       \<lparr>sp_managed_max_bytes = managed, sp_user_max_bytes = user, sp_min_free_bytes = min_free,
        sp_min_free_percent = percent, sp_warning_percent = warning,
        sp_critical_percent = critical\<rparr>))))))"

section \<open>Capacity and pressure\<close>

definition managed_reservation_capacity ::
  "storage_disk_snapshot \<Rightarrow> storage_admission_policy \<Rightarrow> int" where
  "managed_reservation_capacity disk policy =
     (let reserve_percent = max (sp_min_free_percent policy) (100 - sp_critical_percent policy);
          percent_reserve = (ds_total_bytes disk * reserve_percent + 99) div 100;
          disk_capacity =
            max 0 (ds_total_bytes disk - max (sp_min_free_bytes policy) percent_reserve - 1)
      in if sp_managed_max_bytes policy \<noteq> 0
         then min (sp_managed_max_bytes policy) disk_capacity else disk_capacity)"

definition classify_storage_pressure ::
  "storage_disk_snapshot \<Rightarrow> storage_admission_policy \<Rightarrow> storage_pressure_state" where
  "classify_storage_pressure s policy =
     (let used_percent = ((ds_total_bytes s - ds_free_bytes s) * 100) div ds_total_bytes s;
          free_percent = (ds_free_bytes s * 100) div ds_total_bytes s
      in if used_percent \<ge> sp_critical_percent policy \<or> ds_free_bytes s < sp_min_free_bytes policy
            \<or> free_percent < sp_min_free_percent policy
         then CRITICAL
         else if used_percent \<ge> sp_warning_percent policy then WARNING
         else NORMAL)"

section \<open>The counter rows\<close>

definition usage_row :: "uuid \<Rightarrow> instant \<Rightarrow> db \<Rightarrow> db" where
  "usage_row user_id now d =
     (case find_row us_user_id user_id (db_usages d) of
        Some _ \<Rightarrow> d
      | None \<Rightarrow> d\<lparr>db_usages := db_usages d @
                 [\<lparr>us_user_id = user_id, us_logical_bytes = 0, us_updated_at = now\<rparr>]\<rparr>)"

definition new_storage_ledger :: "instant \<Rightarrow> storage_ledger" where
  "new_storage_ledger now =
     \<lparr>l_managed_bytes = 0, l_disk_total_bytes = 0, l_disk_free_bytes = 0, l_pressure = NORMAL,
      l_updated_at = now\<rparr>"

definition lock_storage_ledger :: "instant \<Rightarrow> db \<Rightarrow> db \<times> storage_ledger" where
  "lock_storage_ledger now d =
     (case db_ledger d of
        Some l \<Rightarrow> (d, l)
      | None \<Rightarrow> (d\<lparr>db_ledger := Some (new_storage_ledger now)\<rparr>, new_storage_ledger now))"

definition usage_bytes :: "db \<Rightarrow> uuid \<Rightarrow> int" where
  "usage_bytes d u =
     (case find_row us_user_id u (db_usages d) of None \<Rightarrow> 0 | Some x \<Rightarrow> us_logical_bytes x)"

definition ledger_bytes :: "db \<Rightarrow> int" where
  "ledger_bytes d = (case db_ledger d of None \<Rightarrow> 0 | Some l \<Rightarrow> l_managed_bytes l)"

definition require_policy ::
  "storage_admission_policy option \<Rightarrow> app_error + storage_admission_policy" where
  "require_policy p =
     (case p of
        None \<Rightarrow> Inl (Py (ValueError ''storage admission policy is required with a disk snapshot''))
      | Some q \<Rightarrow> Inr q)"

section \<open>Admission\<close>

definition active_request_of :: "db \<Rightarrow> uuid \<Rightarrow> uuid \<Rightarrow> torrent_request option" where
  "active_request_of d user_id torrent_id =
     find (\<lambda>r. r_user_id r = user_id \<and> r_managed_torrent_id r = torrent_id
               \<and> active_request_state (r_state r)) (db_requests d)"

definition observe_disk ::
  "storage_admission_policy option \<Rightarrow> storage_disk_snapshot option \<Rightarrow> int \<Rightarrow> bool \<Rightarrow> instant
     \<Rightarrow> storage_ledger \<Rightarrow> app_error + storage_ledger" where
  "observe_disk policy disk total_size missing now ledger =
     (case disk of
        None \<Rightarrow> Inr ledger
      | Some disk \<Rightarrow>
          (let projected_free = ds_free_bytes disk - (if missing then total_size else 0) in
           rbind (disk_post_init
                    \<lparr>ds_total_bytes = ds_total_bytes disk, ds_free_bytes = max 0 projected_free\<rparr>)
             (\<lambda>projected.
           rbind (require_policy policy) (\<lambda>p.
           Inr (ledger\<lparr>l_disk_total_bytes := ds_total_bytes disk,
                       l_disk_free_bytes := ds_free_bytes disk,
                       l_pressure := classify_storage_pressure projected p,
                       l_updated_at := now\<rparr>)))))"

definition admission_checks ::
  "storage_admission_policy \<Rightarrow> storage_disk_snapshot option \<Rightarrow> int \<Rightarrow> bool \<Rightarrow> bool \<Rightarrow> int
     \<Rightarrow> storage_ledger \<Rightarrow> app_error + unit" where
  "admission_checks policy disk total_size missing has_request logical ledger =
     (let pressure = l_pressure ledger in
      rbind (require (\<not> (\<not> has_request \<and> sp_user_max_bytes policy \<noteq> 0
                        \<and> logical + total_size > sp_user_max_bytes policy))
               (StorageAdmissionError ''user_quota_exceeded'' pressure)) (\<lambda>_.
      if \<not> missing then Inr ()
      else
        rbind (require (\<not> (sp_managed_max_bytes policy \<noteq> 0
                          \<and> l_managed_bytes ledger + total_size > sp_managed_max_bytes policy))
                 (StorageAdmissionError ''managed_quota_exceeded'' pressure)) (\<lambda>_.
        case disk of
          None \<Rightarrow> Inl (Py (ValueError ''disk snapshot is required for storage admission''))
        | Some disk \<Rightarrow>
            rbind (require (l_managed_bytes ledger + total_size
                              \<le> managed_reservation_capacity disk policy)
                     (StorageAdmissionError ''managed_capacity_exceeded'' pressure)) (\<lambda>_.
            require (pressure \<noteq> CRITICAL)
              (StorageAdmissionError ''disk_pressure_critical'' pressure)))))"

text \<open>
  The context of the source holds the usage and ledger objects it locked; in the model they are
  the rows of the database, so the result is the database and the pressure.
\<close>

definition content_missing :: "managed_torrent option \<Rightarrow> bool option \<Rightarrow> bool" where
  "content_missing existing given =
     (case given of
        Some b \<Rightarrow> b
      | None \<Rightarrow> (case existing of None \<Rightarrow> True | Some t \<Rightarrow> t_state t = PURGED))"

definition prepare_storage_accounting ::
  "uuid \<Rightarrow> string \<Rightarrow> int \<Rightarrow> storage_admission_policy option \<Rightarrow> storage_disk_snapshot option
     \<Rightarrow> instant \<Rightarrow> bool option \<Rightarrow> db \<Rightarrow> app_error + db \<times> storage_pressure_state" where
  "prepare_storage_accounting user_id info_hash total_size policy disk now physical_missing d =
     (let d1 = usage_row user_id now d;
          (d2, ledger) = lock_storage_ledger now d1;
          existing_torrent = find_row t_info_hash info_hash (db_torrents d2);
          has_request = (case existing_torrent of
                           None \<Rightarrow> False
                         | Some t \<Rightarrow> active_request_of d2 user_id (t_id t) \<noteq> None);
          missing = content_missing existing_torrent physical_missing
      in rbind (observe_disk policy disk total_size missing now ledger) (\<lambda>ledger'.
         rbind (case policy of
                  None \<Rightarrow> Inr ()
                | Some p \<Rightarrow> admission_checks p disk total_size missing has_request
                             (usage_bytes d2 user_id) ledger') (\<lambda>_.
         Inr (d2\<lparr>db_ledger := Some ledger'\<rparr>, l_pressure ledger'))))"

definition add_usage :: "uuid \<Rightarrow> int \<Rightarrow> instant \<Rightarrow> db \<Rightarrow> db" where
  "add_usage user_id n now d =
     d\<lparr>db_usages := update_row us_user_id user_id
        (\<lambda>u. u\<lparr>us_logical_bytes := us_logical_bytes u + n, us_updated_at := now\<rparr>) (db_usages d)\<rparr>"

definition apply_storage_accounting ::
  "uuid \<Rightarrow> bool \<Rightarrow> bool \<Rightarrow> int \<Rightarrow> instant \<Rightarrow> db \<Rightarrow> db" where
  "apply_storage_accounting user_id request_created managed_torrent_created total_size now d =
     (let d1 = (if request_created then add_usage user_id total_size now d else d)
      in if managed_torrent_created
         then d1\<lparr>db_ledger := map_option (\<lambda>l. l\<lparr>l_managed_bytes := l_managed_bytes l + total_size,
                                              l_updated_at := now\<rparr>) (db_ledger d1)\<rparr>
         else d1)"

section \<open>Sums over the rows\<close>

text \<open>
  \<open>request_bytes\<close> is the join of a request with its torrent; \<open>logical_sum\<close> and \<open>managed_sum\<close> are
  the aggregates of the reconciliation queries.
\<close>

definition request_bytes :: "managed_torrent list \<Rightarrow> torrent_request \<Rightarrow> int" where
  "request_bytes ts r =
     (\<Sum>t\<leftarrow>filter (\<lambda>t. t_id t = r_managed_torrent_id r) ts. t_total_size t)"

definition logical_weight :: "managed_torrent list \<Rightarrow> uuid \<Rightarrow> torrent_request \<Rightarrow> int" where
  "logical_weight ts u r =
     (if r_user_id r = u \<and> active_request_state (r_state r) then request_bytes ts r else 0)"

definition logical_sum :: "managed_torrent list \<Rightarrow> torrent_request list \<Rightarrow> uuid \<Rightarrow> int" where
  "logical_sum ts rs u = (\<Sum>r\<leftarrow>rs. logical_weight ts u r)"

definition managed_weight :: "managed_torrent \<Rightarrow> int" where
  "managed_weight t = (if t_state t \<noteq> PURGED then t_total_size t else 0)"

definition managed_sum :: "managed_torrent list \<Rightarrow> int" where
  "managed_sum ts = (\<Sum>t\<leftarrow>ts. managed_weight t)"

section \<open>Reconciliation\<close>

record storage_reconcile_result =
  sr_processed_users :: int
  sr_next_user_id :: "uuid option"
  sr_completed :: bool
  sr_managed_bytes :: int
  sr_pressure :: storage_pressure_state

definition set_usage :: "instant \<Rightarrow> db \<Rightarrow> uuid \<Rightarrow> db" where
  "set_usage now d u =
     (let n = logical_sum (db_torrents d) (db_requests d) u in
      case find_row us_user_id u (db_usages d) of
        Some _ \<Rightarrow> d\<lparr>db_usages := update_row us_user_id u
                     (\<lambda>x. x\<lparr>us_logical_bytes := n, us_updated_at := now\<rparr>) (db_usages d)\<rparr>
      | None \<Rightarrow> d\<lparr>db_usages := db_usages d @
                   [\<lparr>us_user_id = u, us_logical_bytes = n, us_updated_at = now\<rparr>]\<rparr>)"

definition reconcile_page :: "uuid option \<Rightarrow> nat \<Rightarrow> db \<Rightarrow> uuid list" where
  "reconcile_page after n d =
     take n (sort (filter (\<lambda>u. case after of None \<Rightarrow> True | Some a \<Rightarrow> a < u)
                     (map u_id (db_users d))))"

definition reconcile_storage_counters ::
  "storage_admission_policy \<Rightarrow> storage_disk_snapshot \<Rightarrow> int \<Rightarrow> uuid option \<Rightarrow> instant \<Rightarrow> db
     \<Rightarrow> app_error + db \<times> storage_reconcile_result" where
  "reconcile_storage_counters policy disk batch_size after_user_id now d =
     rbind (require (1 \<le> batch_size \<and> batch_size \<le> 500)
              (Py (ValueError ''storage reconciliation batch size is invalid''))) (\<lambda>_.
     let user_ids = reconcile_page after_user_id (nat batch_size + 1) d;
         has_more = length user_ids > nat batch_size;
         selected = take (nat batch_size) user_ids;
         d1 = foldl (set_usage now) d selected;
         (d2, ledger) = lock_storage_ledger now d1;
         ledger' = ledger\<lparr>l_managed_bytes := managed_sum (db_torrents d2),
                          l_disk_total_bytes := ds_total_bytes disk,
                          l_disk_free_bytes := ds_free_bytes disk,
                          l_pressure := classify_storage_pressure disk policy,
                          l_updated_at := now\<rparr>
     in Inr (d2\<lparr>db_ledger := Some ledger'\<rparr>,
             \<lparr>sr_processed_users = int (length selected),
              sr_next_user_id = (if has_more \<and> selected \<noteq> [] then Some (last selected) else None),
              sr_completed = (\<not> has_more),
              sr_managed_bytes = l_managed_bytes ledger',
              sr_pressure = l_pressure ledger'\<rparr>))"

section \<open>Capacity leaves the disk below the critical pressure\<close>

lemma storage_policy_valid:
  assumes "storage_policy_post_init p = Inr q"
  shows "q = p" "0 \<le> sp_managed_max_bytes p" "0 \<le> sp_user_max_bytes p" "0 \<le> sp_min_free_bytes p"
    "0 \<le> sp_min_free_percent p" "sp_min_free_percent p \<le> 90"
    "1 \<le> sp_warning_percent p" "sp_warning_percent p < sp_critical_percent p"
    "sp_critical_percent p \<le> 99"
  using assms by (auto simp: storage_policy_post_init_def split: if_splits)

lemma disk_post_init_iff [result_simps]:
  "disk_post_init s = Inr s' \<longleftrightarrow>
     s' = s \<and> 0 < ds_total_bytes s \<and> 0 \<le> ds_free_bytes s \<and> ds_free_bytes s \<le> ds_total_bytes s"
  by (auto simp: disk_post_init_def)

lemma int_div_less_mult:
  fixes a b c :: int
  assumes "a < c * b" "0 < b"
  shows "a div b < c"
proof (rule ccontr)
  assume "\<not> a div b < c"
  then have "c * b \<le> a div b * b" using assms(2) by simp
  also have "\<dots> \<le> a" using assms(2) by (simp add: minus_mod_eq_div_mult [symmetric])
  finally show False using assms(1) by simp
qed

lemma percent_below:
  fixes a t c :: int
  assumes "0 < t" "a * 100 < t * c"
  shows "(a * 100) div t < c"
proof -
  have "a * 100 < c * t" using assms by (simp add: mult.commute)
  then show ?thesis by (rule int_div_less_mult) (rule assms(1))
qed

lemma percent_reached:
  fixes a t c :: int
  assumes "0 < t" "t * c \<le> a * 100"
  shows "c \<le> (a * 100) div t"
  using zdiv_mono1 [OF assms(2,1)] assms(1) by simp

lemma reserve_not_critical:
  assumes policy: "storage_policy_post_init p = Inr p" and total: "0 < ds_total_bytes s"
    and rp: "rp = max (sp_min_free_percent p) (100 - sp_critical_percent p)"
    and floor: "sp_min_free_bytes p \<le> ds_free_bytes s"
    and reserve: "(ds_total_bytes s * rp + 99) div 100 < ds_free_bytes s"
  shows "classify_storage_pressure s p \<noteq> CRITICAL"
proof -
  have "ds_total_bytes s * rp + 99 < ds_free_bytes s * 100"
    using reserve by (simp add: div_less_iff_less_mult)
  then have free: "ds_total_bytes s * rp < ds_free_bytes s * 100" by simp
  have min: "ds_total_bytes s * sp_min_free_percent p \<le> ds_total_bytes s * rp"
    and crit: "ds_total_bytes s * (100 - sp_critical_percent p) \<le> ds_total_bytes s * rp"
    using total by (simp_all add: rp)
  have "sp_min_free_percent p \<le> (ds_free_bytes s * 100) div ds_total_bytes s"
    by (rule percent_reached [OF total]) (use free min in linarith)
  moreover have "((ds_total_bytes s - ds_free_bytes s) * 100) div ds_total_bytes s
      < sp_critical_percent p"
  proof (rule percent_below [OF total])
    have "ds_total_bytes s * 100 - ds_total_bytes s * sp_critical_percent p
        < ds_free_bytes s * 100"
      using free crit by (simp add: right_diff_distrib)
    then show "(ds_total_bytes s - ds_free_bytes s) * 100
        < ds_total_bytes s * sp_critical_percent p"
      by (simp add: left_diff_distrib)
  qed
  ultimately show ?thesis
    using floor by (auto simp: classify_storage_pressure_def Let_def)
qed

lemma capacity_le_reserve:
  assumes "0 < x" "x \<le> managed_reservation_capacity disk p"
  shows "x \<le> ds_total_bytes disk
     - max (sp_min_free_bytes p)
         ((ds_total_bytes disk * max (sp_min_free_percent p) (100 - sp_critical_percent p) + 99)
           div 100) - 1"
  using assms by (auto simp: managed_reservation_capacity_def Let_def split: if_splits)

text \<open>
  C22: Content that fits the managed reservation capacity never drives the volume to the critical
  pressure class: with a valid policy and a valid disk, if a positive number \<open>x\<close> of bytes of managed
  content is all the volume holds and \<open>x\<close> is at most \<open>managed_reservation_capacity\<close>, then
  \<open>classify_storage_pressure\<close> of the volume with \<open>x\<close> bytes used is not CRITICAL (the integer
  percentages of both functions round in compatible directions).
\<close>
theorem reservation_never_critical:
  assumes "storage_policy_post_init p = Inr p" "disk_post_init disk = Inr disk"
    and "0 < x" "x \<le> managed_reservation_capacity disk p"
  shows "classify_storage_pressure
     \<lparr>ds_total_bytes = ds_total_bytes disk, ds_free_bytes = ds_total_bytes disk - x\<rparr> p \<noteq> CRITICAL"
proof (rule reserve_not_critical [OF assms(1) _ refl])
  show "0 < ds_total_bytes
      \<lparr>ds_total_bytes = ds_total_bytes disk, ds_free_bytes = ds_total_bytes disk - x\<rparr>"
    using assms(2) by (simp add: result_simps)
qed (use capacity_le_reserve [OF assms(3,4)] in simp_all)

definition ex_storage_policy :: storage_admission_policy where
  "ex_storage_policy =
     \<lparr>sp_managed_max_bytes = 0, sp_user_max_bytes = 500, sp_min_free_bytes = 100,
      sp_min_free_percent = 5, sp_warning_percent = 80, sp_critical_percent = 90\<rparr>"

definition ex_disk :: storage_disk_snapshot where
  "ex_disk = \<lparr>ds_total_bytes = 1003, ds_free_bytes = 950\<rparr>"

theorem reservation_never_critical_witness:
  "managed_reservation_capacity ex_disk ex_storage_policy = 901
   \<and> classify_storage_pressure
       \<lparr>ds_total_bytes = 1003, ds_free_bytes = 1003 - 901\<rparr> ex_storage_policy = WARNING
   \<and> classify_storage_pressure
       \<lparr>ds_total_bytes = 1003, ds_free_bytes = 1003 - 901\<rparr> ex_storage_policy \<noteq> CRITICAL"
proof -
  have p: "storage_policy_post_init ex_storage_policy = Inr ex_storage_policy"
    and d: "disk_post_init ex_disk = Inr ex_disk"
    and c: "managed_reservation_capacity ex_disk ex_storage_policy = 901"
    and w: "classify_storage_pressure
       \<lparr>ds_total_bytes = 1003, ds_free_bytes = 1003 - 901\<rparr> ex_storage_policy = WARNING"
    by code_simp+
  show ?thesis
    using reservation_never_critical [OF p d, of 901] c w by (simp add: ex_disk_def)
qed

section \<open>Counters\<close>

text \<open>
  Taking back the bytes of a right that ends, as every release of the source writes it: the
  counter is floored at zero and a user without a counter row is left alone.
\<close>

definition release_usage :: "uuid \<Rightarrow> int \<Rightarrow> instant \<Rightarrow> db \<Rightarrow> db" where
  "release_usage user_id n now d =
     d\<lparr>db_usages := update_row us_user_id user_id
        (\<lambda>u. u\<lparr>us_logical_bytes := max 0 (us_logical_bytes u - n), us_updated_at := now\<rparr>)
        (db_usages d)\<rparr>"

text \<open>
  The counters agree with the rows: each user's logical counter (zero without a row) is the sum
  of the sizes of its active requests, and the managed counter the sum of the sizes of the
  torrents that are not purged.
\<close>

definition accounting_ok :: "db \<Rightarrow> bool" where
  "accounting_ok d \<longleftrightarrow>
     list_all (\<lambda>u. usage_bytes d u = logical_sum (db_torrents d) (db_requests d) u)
       (map us_user_id (db_usages d) @ map r_user_id (db_requests d))
     \<and> ledger_bytes d = managed_sum (db_torrents d)"

lemma logical_sum_no_request:
  "u \<notin> r_user_id ` set rs \<Longrightarrow> logical_sum ts rs u = 0"
  by (induction rs) (auto simp: logical_sum_def logical_weight_def)

lemma accounting_ok_iff:
  "accounting_ok d \<longleftrightarrow>
     (\<forall>u. usage_bytes d u = logical_sum (db_torrents d) (db_requests d) u)
     \<and> ledger_bytes d = managed_sum (db_torrents d)"
proof -
  have "usage_bytes d u = 0" if "u \<notin> us_user_id ` set (db_usages d)" for u
    using that by (simp add: usage_bytes_def find_row_None_iff [THEN iffD2])
  then show ?thesis
    using logical_sum_no_request [of _ "db_requests d" "db_torrents d"]
    by (force simp: accounting_ok_def list_all_iff)
qed

lemma usage_row_frame [simp]:
  "db_users (usage_row u now d) = db_users d" "db_ledger (usage_row u now d) = db_ledger d"
  "db_torrents (usage_row u now d) = db_torrents d" "db_requests (usage_row u now d) = db_requests d"
  "db_jobs (usage_row u now d) = db_jobs d" "db_files (usage_row u now d) = db_files d"
  "db_leases (usage_row u now d) = db_leases d" "db_scheduler (usage_row u now d) = db_scheduler d"
  "db_options (usage_row u now d) = db_options d"
  by (simp_all add: usage_row_def split: option.splits)

lemma usage_row_bytes [simp]: "usage_bytes (usage_row u now d) v = usage_bytes d v"
  by (auto simp: usage_row_def usage_bytes_def find_row_append split: option.splits)

lemma usage_row_present: "u \<in> us_user_id ` set (db_usages (usage_row u now d))"
  by (auto simp: usage_row_def image_iff dest: find_row_SomeD split: option.splits)

lemma usage_row_distinct:
  "distinct (map us_user_id (db_usages d)) \<Longrightarrow>
     distinct (map us_user_id (db_usages (usage_row u now d)))"
  by (auto simp: usage_row_def find_row_None_iff split: option.splits)

lemma add_usage_bytes:
  "usage_bytes (add_usage u n now d) v =
     usage_bytes d v + (if v = u \<and> u \<in> us_user_id ` set (db_usages d) then n else 0)"
  by (auto simp: add_usage_def usage_bytes_def find_row_update_row find_row_None_iff
      split: option.splits dest: find_row_SomeD)

lemma release_usage_bytes:
  assumes "list_all usage_check (db_usages d)"
  shows "usage_bytes (release_usage u n now d) v =
     (if v = u then (if u \<in> us_user_id ` set (db_usages d) then max 0 (usage_bytes d u - n) else 0)
      else usage_bytes d v)"
  by (auto simp: release_usage_def usage_bytes_def find_row_update_row find_row_None_iff
      split: option.splits dest: find_row_SomeD)

text \<open>When the counter covers the bytes given back, the floor at zero plays no part.\<close>

lemma release_usage_exact:
  assumes "n \<le> usage_bytes d u" "0 \<le> n"
  shows "usage_bytes (release_usage u n now d) v = usage_bytes d v - (if v = u then n else 0)"
  using assms by (auto simp: release_usage_def usage_bytes_def find_row_update_row
      split: option.splits)

lemma lock_storage_ledger_cases:
  "lock_storage_ledger now d = (d', l) \<Longrightarrow>
     d' = d\<lparr>db_ledger := Some l\<rparr> \<and> l_managed_bytes l = ledger_bytes d"
  by (auto simp: lock_storage_ledger_def ledger_bytes_def new_storage_ledger_def
      split: option.splits)

lemma request_bytes_of:
  assumes "distinct (map t_id ts)" "t \<in> set ts" "r_managed_torrent_id r = t_id t"
  shows "request_bytes ts r = t_total_size t"
proof -
  have "filter (\<lambda>x. t_id x = t_id t) ts = [t]"
    using assms(1,2) by (rule filter_key_unique)
  then show ?thesis using assms(3) by (simp add: request_bytes_def)
qed

lemma request_bytes_nonneg:
  "list_all torrent_check ts \<Longrightarrow> 0 \<le> request_bytes ts r"
  by (auto simp: request_bytes_def list_all_iff torrent_check_def intro!: sum_list_nonneg)

lemma request_bytes_cong:
  "map (\<lambda>t. (t_id t, t_total_size t)) ts = map (\<lambda>t. (t_id t, t_total_size t)) ts' \<Longrightarrow>
     request_bytes ts = request_bytes ts'"
proof (rule ext)
  fix r
  assume "map (\<lambda>t. (t_id t, t_total_size t)) ts = map (\<lambda>t. (t_id t, t_total_size t)) ts'"
  then show "request_bytes ts r = request_bytes ts' r"
  proof (induction ts arbitrary: ts')
    case (Cons t ts)
    then show ?case by (cases ts') (auto simp: request_bytes_def)
  qed (simp add: request_bytes_def)
qed

lemma logical_weight_nonneg: "list_all torrent_check ts \<Longrightarrow> 0 \<le> logical_weight ts u r"
  by (simp add: logical_weight_def request_bytes_nonneg)

lemma logical_sum_member:
  assumes "list_all torrent_check ts" "r \<in> set rs"
  shows "logical_weight ts u r \<le> logical_sum ts rs u"
  unfolding logical_sum_def
  using assms(2) by (rule member_le_sum_list_map) (rule logical_weight_nonneg [OF assms(1)])

lemma managed_sum_member:
  assumes "list_all torrent_check ts" "t \<in> set ts"
  shows "managed_weight t \<le> managed_sum ts"
  unfolding managed_sum_def using assms(2)
  by (rule member_le_sum_list_map)
    (use assms(1) in \<open>simp add: list_all_iff torrent_check_def managed_weight_def\<close>)

section \<open>What an admission guarantees\<close>

definition admitted_missing :: "db \<Rightarrow> string \<Rightarrow> bool option \<Rightarrow> bool" where
  "admitted_missing d info_hash given =
     content_missing (find_row t_info_hash info_hash (db_torrents d)) given"

definition holds_right :: "db \<Rightarrow> uuid \<Rightarrow> string \<Rightarrow> bool" where
  "holds_right d user_id info_hash =
     (case find_row t_info_hash info_hash (db_torrents d) of
        None \<Rightarrow> False
      | Some t \<Rightarrow> active_request_of d user_id (t_id t) \<noteq> None)"

lemma active_request_of_frame:
  "db_requests d' = db_requests d \<Longrightarrow> active_request_of d' = active_request_of d"
  by (auto simp: active_request_of_def fun_eq_iff)

lemma observe_disk_managed:
  "observe_disk policy disk n m now l = Inr l' \<Longrightarrow> l_managed_bytes l' = l_managed_bytes l"
  by (auto simp: observe_disk_def result_simps Let_def split: option.splits)

lemma prepare_cases:
  assumes "prepare_storage_accounting u h n policy disk now given d = Inr (d', pr)"
  obtains l l' where
    "lock_storage_ledger now (usage_row u now d) = ((usage_row u now d)\<lparr>db_ledger := Some l\<rparr>, l)"
    "observe_disk policy disk n (admitted_missing d h given) now l = Inr l'"
    "d' = (usage_row u now d)\<lparr>db_ledger := Some l'\<rparr>" "pr = l_pressure l'"
    "l_managed_bytes l' = ledger_bytes d"
    "\<And>p. policy = Some p \<Longrightarrow>
       admission_checks p disk n (admitted_missing d h given) (holds_right d u h)
         (usage_bytes d u) l' = Inr ()"
proof -
  obtain d2 l where lock: "lock_storage_ledger now (usage_row u now d) = (d2, l)"
    by fastforce
  have d2: "d2 = (usage_row u now d)\<lparr>db_ledger := Some l\<rparr>"
    and l: "l_managed_bytes l = ledger_bytes (usage_row u now d)"
    using lock_storage_ledger_cases [OF lock] by auto
  have ub: "usage_bytes d2 u = usage_bytes d u"
    using usage_row_bytes [of u now d u] by (simp add: d2 usage_bytes_def)
  have ts: "db_torrents d2 = db_torrents d" by (simp add: d2)
  have rs: "active_request_of d2 = active_request_of d"
    by (rule active_request_of_frame) (simp add: d2)
  have unfolded: "prepare_storage_accounting u h n policy disk now given d =
      rbind (observe_disk policy disk n (admitted_missing d h given) now l) (\<lambda>l'.
      rbind (case policy of None \<Rightarrow> Inr ()
         | Some p \<Rightarrow> admission_checks p disk n (admitted_missing d h given) (holds_right d u h)
                      (usage_bytes d u) l') (\<lambda>_.
      Inr (d2\<lparr>db_ledger := Some l'\<rparr>, l_pressure l')))"
    by (simp only: prepare_storage_accounting_def Let_def lock split_conv ts rs ub
        admitted_missing_def holds_right_def)
  from assms [unfolded unfolded] obtain l' where
    obs: "observe_disk policy disk n (admitted_missing d h given) now l = Inr l'"
    and checks: "(case policy of None \<Rightarrow> Inr ()
       | Some p \<Rightarrow> admission_checks p disk n (admitted_missing d h given) (holds_right d u h)
                    (usage_bytes d u) l') = Inr ()"
    and d': "d' = d2\<lparr>db_ledger := Some l'\<rparr>" and pr: "pr = l_pressure l'"
    by (auto simp: rbind_Inr_iff)
  show thesis
  proof (rule that [OF _ obs _ pr])
    show "l_managed_bytes l' = ledger_bytes d"
      using observe_disk_managed [OF obs] l by (simp add: ledger_bytes_def)
  qed (use lock d2 d' checks in auto)
qed

lemma prepare_frame:
  assumes "prepare_storage_accounting u h n policy disk now given d = Inr (d', pr)"
  shows "db_torrents d' = db_torrents d" "db_requests d' = db_requests d"
    "db_users d' = db_users d" "db_jobs d' = db_jobs d" "db_files d' = db_files d"
    "db_leases d' = db_leases d"
    "usage_bytes d' v = usage_bytes d v" "ledger_bytes d' = ledger_bytes d"
    "db_ledger d' \<noteq> None" "u \<in> us_user_id ` set (db_usages d')"
    "db_usages d' = db_usages (usage_row u now d)"
proof -
  from assms obtain l l' where "d' = (usage_row u now d)\<lparr>db_ledger := Some l'\<rparr>"
    and "l_managed_bytes l' = ledger_bytes d"
    by (rule prepare_cases)
  then show "db_torrents d' = db_torrents d" "db_requests d' = db_requests d"
    "db_users d' = db_users d" "db_jobs d' = db_jobs d" "db_files d' = db_files d"
    "db_leases d' = db_leases d"
    "usage_bytes d' v = usage_bytes d v" "ledger_bytes d' = ledger_bytes d"
    "db_ledger d' \<noteq> None" "u \<in> us_user_id ` set (db_usages d')"
    "db_usages d' = db_usages (usage_row u now d)"
    using usage_row_bytes [of u now d v] usage_row_present [of u now d]
    by (simp_all add: usage_bytes_def ledger_bytes_def)
qed

text \<open>
  C23: A request that passes \<open>prepare_storage_accounting\<close> with a policy respects every limit: a user
  without a right on the torrent stays within the user quota (0 means none); content that is not on
  the volume yet stays within the managed quota and the reservation capacity of the observed disk,
  and the pressure class projected for the volume after the download is not CRITICAL. The counters
  themselves and all rows of torrents and requests are left as they were.
\<close>
theorem prepare_storage_accounting_limits:
  assumes "prepare_storage_accounting u h n (Some p) disk now given d = Inr (d', pr)"
  shows "(holds_right d u h \<or> sp_user_max_bytes p = 0
          \<or> usage_bytes d u + n \<le> sp_user_max_bytes p)
     \<and> (admitted_missing d h given \<longrightarrow>
          (sp_managed_max_bytes p = 0 \<or> ledger_bytes d + n \<le> sp_managed_max_bytes p)
          \<and> (\<exists>s. disk = Some s \<and> ledger_bytes d + n \<le> managed_reservation_capacity s p
               \<and> pr = classify_storage_pressure
                    \<lparr>ds_total_bytes = ds_total_bytes s,
                     ds_free_bytes = max 0 (ds_free_bytes s - n)\<rparr> p
               \<and> pr \<noteq> CRITICAL))
     \<and> usage_bytes d' v = usage_bytes d v \<and> ledger_bytes d' = ledger_bytes d
     \<and> db_torrents d' = db_torrents d \<and> db_requests d' = db_requests d"
proof -
  from assms obtain l l' where obs: "observe_disk (Some p) disk n (admitted_missing d h given) now l
      = Inr l'" and pr: "pr = l_pressure l'" and managed: "l_managed_bytes l' = ledger_bytes d"
    and checks: "admission_checks p disk n (admitted_missing d h given) (holds_right d u h)
         (usage_bytes d u) l' = Inr ()"
    by (rule prepare_cases) blast
  have user: "holds_right d u h \<or> sp_user_max_bytes p = 0
      \<or> usage_bytes d u + n \<le> sp_user_max_bytes p"
    using checks by (auto simp: admission_checks_def Let_def result_simps)
  have missing: "(sp_managed_max_bytes p = 0 \<or> ledger_bytes d + n \<le> sp_managed_max_bytes p)
      \<and> (\<exists>s. disk = Some s \<and> ledger_bytes d + n \<le> managed_reservation_capacity s p
          \<and> pr \<noteq> CRITICAL)" if "admitted_missing d h given"
    using checks that
    by (auto simp: admission_checks_def Let_def result_simps managed pr split: option.splits)
  have press: "pr = classify_storage_pressure
      \<lparr>ds_total_bytes = ds_total_bytes s, ds_free_bytes = max 0 (ds_free_bytes s - n)\<rparr> p"
    if "admitted_missing d h given" "disk = Some s" for s
    using obs that by (auto simp: observe_disk_def Let_def result_simps require_policy_def pr)
  show ?thesis
    using user missing press prepare_frame [OF assms] by auto
qed

definition ex_user :: uuid where "ex_user = 7"

definition ex_account_db :: db where
  "ex_account_db = empty_db\<lparr>
     db_usages := [\<lparr>us_user_id = ex_user, us_logical_bytes = 200, us_updated_at = 5\<rparr>],
     db_ledger := Some ((new_storage_ledger 5)\<lparr>l_managed_bytes := 300\<rparr>)\<rparr>"

theorem prepare_storage_accounting_limits_witness:
  "\<exists>d' pr. prepare_storage_accounting ex_user ''ab'' 250 (Some ex_storage_policy) (Some ex_disk) 9
       None ex_account_db = Inr (d', pr)
     \<and> pr = NORMAL \<and> \<not> holds_right ex_account_db ex_user ''ab''
     \<and> usage_bytes ex_account_db ex_user + 250 \<le> sp_user_max_bytes ex_storage_policy
     \<and> ledger_bytes ex_account_db + 250 \<le> managed_reservation_capacity ex_disk ex_storage_policy"
proof -
  have "case prepare_storage_accounting ex_user ''ab'' 250 (Some ex_storage_policy) (Some ex_disk) 9
       None ex_account_db of Inr (d', pr) \<Rightarrow> pr = NORMAL | Inl _ \<Rightarrow> False"
    by code_simp
  then obtain d' where run: "prepare_storage_accounting ex_user ''ab'' 250 (Some ex_storage_policy)
       (Some ex_disk) 9 None ex_account_db = Inr (d', NORMAL)"
    by (auto split: sum.splits)
  have facts: "\<not> holds_right ex_account_db ex_user ''ab''"
    "admitted_missing ex_account_db ''ab'' None" "sp_user_max_bytes ex_storage_policy \<noteq> 0"
    by code_simp+
  show ?thesis
    using prepare_storage_accounting_limits [OF run, of 0] facts run by blast
qed

section \<open>Reconciliation repairs the counters\<close>

lemma set_usage_frame [simp]:
  "db_torrents (set_usage now d u) = db_torrents d" "db_requests (set_usage now d u) = db_requests d"
  "db_users (set_usage now d u) = db_users d" "db_ledger (set_usage now d u) = db_ledger d"
  by (simp_all add: set_usage_def Let_def split: option.splits)

lemma set_usage_bytes:
  "usage_bytes (set_usage now d u) v =
     (if v = u then logical_sum (db_torrents d) (db_requests d) u else usage_bytes d v)"
  by (auto simp: set_usage_def usage_bytes_def Let_def find_row_append find_row_update_row
      split: option.splits)

lemma foldl_set_usage:
  "db_torrents (foldl (set_usage now) d us) = db_torrents d
   \<and> db_requests (foldl (set_usage now) d us) = db_requests d
   \<and> db_users (foldl (set_usage now) d us) = db_users d
   \<and> usage_bytes (foldl (set_usage now) d us) v =
       (if v \<in> set us then logical_sum (db_torrents d) (db_requests d) v else usage_bytes d v)"
  by (induction us arbitrary: d) (auto simp: set_usage_bytes)

definition counted_up_to :: "uuid option \<Rightarrow> db \<Rightarrow> bool" where
  "counted_up_to c d \<longleftrightarrow>
     list_all (\<lambda>u. (case c of None \<Rightarrow> False | Some a \<Rightarrow> u \<le> a) \<longrightarrow>
        usage_bytes d u = logical_sum (db_torrents d) (db_requests d) u) (map u_id (db_users d))"

lemma sorted_take_last:
  fixes xs :: "'a::linorder list"
  assumes "sorted xs" "x \<in> set xs" "x \<le> last (take n xs)" "take n xs \<noteq> []" "distinct xs"
  shows "x \<in> set (take n xs)"
proof (rule ccontr)
  assume no: "x \<notin> set (take n xs)"
  with assms(2) have "x \<in> set (drop n xs)"
    by (metis Un_iff append_take_drop_id set_append)
  moreover have "last (take n xs) \<in> set (take n xs)" using assms(4) by simp
  moreover have "\<forall>a\<in>set (take n xs). \<forall>b\<in>set (drop n xs). a \<le> b"
    using assms(1) by (metis append_take_drop_id sorted_append)
  ultimately have "last (take n xs) = x" using assms(3) by force
  then show False using no assms(4) by (metis last_in_set)
qed

lemma reconcile_storage_counters_cases:
  assumes "reconcile_storage_counters policy disk n after now d = Inr (d', r)"
  defines "rest \<equiv> sort (filter (\<lambda>u. case after of None \<Rightarrow> True | Some a \<Rightarrow> a < u) (map u_id (db_users d)))"
  shows "1 \<le> n" "n \<le> 500"
    and "db_torrents d' = db_torrents d" "db_requests d' = db_requests d" "db_users d' = db_users d"
    and "usage_bytes d' v = (if v \<in> set (take (nat n) rest)
           then logical_sum (db_torrents d) (db_requests d) v else usage_bytes d v)"
    and "ledger_bytes d' = managed_sum (db_torrents d)"
    and "sr_completed r \<longleftrightarrow> length rest \<le> nat n"
    and "sr_next_user_id r =
           (if sr_completed r then None else Some (last (take (nat n) rest)))"
proof -
  let ?d1 = "foldl (set_usage now) d (take (nat n) rest)"
  obtain d2 l where lock: "lock_storage_ledger now ?d1 = (d2, l)" by fastforce
  have d2: "d2 = ?d1\<lparr>db_ledger := Some l\<rparr>" using lock_storage_ledger_cases [OF lock] by auto
  have page: "take (nat n) (reconcile_page after (nat n + 1) d) = take (nat n) rest"
    by (simp add: reconcile_page_def rest_def min_def)
  have more: "length (reconcile_page after (nat n + 1) d) > nat n \<longleftrightarrow> length rest > nat n"
    by (auto simp: reconcile_page_def rest_def)
  note run = assms(1) [unfolded reconcile_storage_counters_def Let_def page more lock split_conv]
  note fold = foldl_set_usage [of now d "take (nat n) rest"]
  show bounds: "1 \<le> n" "n \<le> 500" using run by (simp_all add: rbind_Inr_iff require_Inr_iff)
  have d': "d' = d2\<lparr>db_ledger := db_ledger d'\<rparr>" and led: "ledger_bytes d' = managed_sum (db_torrents d2)"
    and complete: "sr_completed r \<longleftrightarrow> length rest \<le> nat n"
    and nxt: "sr_next_user_id r = (if length rest > nat n \<and> take (nat n) rest \<noteq> []
        then Some (last (take (nat n) rest)) else None)"
    using run by (auto simp: rbind_Inr_iff require_Inr_iff ledger_bytes_def)
  show "db_torrents d' = db_torrents d" "db_requests d' = db_requests d" "db_users d' = db_users d"
    by (subst d', simp add: d2 fold)+
  show "usage_bytes d' v = (if v \<in> set (take (nat n) rest)
           then logical_sum (db_torrents d) (db_requests d) v else usage_bytes d v)"
    using fold [of v] by (subst d') (simp add: d2 usage_bytes_def)
  show "ledger_bytes d' = managed_sum (db_torrents d)" using led by (simp add: d2 fold)
  show "sr_completed r \<longleftrightarrow> length rest \<le> nat n" by (rule complete)
  show "sr_next_user_id r = (if sr_completed r then None else Some (last (take (nat n) rest)))"
    using nxt complete bounds by auto
qed

text \<open>
  C24: Counter reconciliation is correct page by page and so over a whole pass: if the logical
  counters of all users up to the cursor already agree with the rows, then after one
  \<open>reconcile_storage_counters\<close> call the counters of all users up to the returned cursor agree, and
  of all users when the call reports completion; the managed counter is the sum over the torrents
  that are not purged after every call.
\<close>
theorem reconcile_storage_counters_pass:
  assumes "distinct (map u_id (db_users d))"
    and "counted_up_to after d"
    and "reconcile_storage_counters policy disk n after now d = Inr (d', r)"
  shows "counted_up_to (sr_next_user_id r) d'
     \<and> (sr_completed r \<longrightarrow> list_all (\<lambda>u. usage_bytes d' u =
          logical_sum (db_torrents d') (db_requests d') u) (map u_id (db_users d')))
     \<and> ledger_bytes d' = managed_sum (db_torrents d')"
proof -
  define rest where "rest = sort (filter (\<lambda>u. case after of None \<Rightarrow> True | Some a \<Rightarrow> a < u)
    (map u_id (db_users d)))"
  note c = reconcile_storage_counters_cases [OF assms(3), folded rest_def]
  have rest: "set rest = {u \<in> u_id ` set (db_users d). case after of None \<Rightarrow> True | Some a \<Rightarrow> a < u}"
    "sorted rest" "distinct rest"
    using assms(1) by (auto simp: rest_def)
  have old: "usage_bytes d u = logical_sum (db_torrents d) (db_requests d) u"
    if "u \<in> u_id ` set (db_users d)" "u \<notin> set rest" for u
    using assms(2) that by (auto simp: rest counted_up_to_def list_all_iff split: option.splits)
  have right: "usage_bytes d' u = logical_sum (db_torrents d) (db_requests d) u"
    if "u \<in> u_id ` set (db_users d)" "u \<in> set rest \<Longrightarrow> u \<in> set (take (nat n) rest)" for u
    using old [of u] that by (auto simp: c(6))
  have page: "u \<in> set (take (nat n) rest)"
    if "u \<in> set rest" "sr_completed r \<or> u \<le> last (take (nat n) rest)" for u
    using that sorted_take_last [OF rest(2) that(1) _ _ rest(3), of "nat n"] c(1,8)
    by (cases "sr_completed r"; cases rest) auto
  have "list_all (\<lambda>u. usage_bytes d' u = logical_sum (db_torrents d') (db_requests d') u)
      (map u_id (db_users d'))" if "sr_completed r"
    unfolding list_all_iff c(3-5) using right page that by auto
  moreover have "counted_up_to (sr_next_user_id r) d'"
    unfolding counted_up_to_def list_all_iff c(3-5) c(9) using right page by auto
  ultimately show ?thesis using c(3,7) by simp
qed

definition ex_torrent :: managed_torrent where
  "ex_torrent =
     \<lparr>t_id = 40, t_info_hash = replicate 40 (CHR ''a''), t_storage_key = 41, t_name = ''n'',
      t_total_size = 60, t_state = DOWNLOADING, t_qb_state = None, t_progress = 0,
      t_tracker_account_ref = None, t_qbittorrent_account_ref = None, t_retry_at = None,
      t_last_progress_at = None, t_last_downloaded_bytes = None, t_stall_count = 0,
      t_scheduler_retry_at = None, t_purge_after = None, t_ready_at = None,
      t_retention_expires_at = None, t_purge_stop_pending = False, t_lifecycle_generation = 0,
      t_manifest_version = 0, t_manifest_checksum = None, t_manifest_file_count = 0,
      t_manifest_total_size = 0, t_desired_active = False, t_admin_forced_active = False,
      t_desired_priority = None, t_desired_download_limit = 0, t_schedule_generation = 0,
      t_created_at = 0, t_updated_at = 0\<rparr>"

definition ex_request :: torrent_request where
  "ex_request =
     \<lparr>r_id = 50, r_user_id = ex_user, r_managed_torrent_id = 40, r_state = R_ACTIVE,
      r_ready_at = None, r_unsubscribe_at = None, r_cancelled_at = None, r_expires_at = None,
      r_created_at = 0, r_updated_at = 0\<rparr>"

definition ex_owner :: user where
  "ex_owner =
     \<lparr>u_id = ex_user, u_username = ''alice'', u_is_admin = False, u_is_active = True,
      u_deleted_at = None\<rparr>"

definition ex_drifted_db :: db where
  "ex_drifted_db = ex_account_db\<lparr>
     db_users := [ex_owner, ex_owner\<lparr>u_id := 3\<rparr>], db_torrents := [ex_torrent],
     db_requests := [ex_request]\<rparr>"

theorem reconcile_storage_counters_pass_witness:
  "\<exists>d' r. reconcile_storage_counters ex_storage_policy ex_disk 5 None 9 ex_drifted_db = Inr (d', r)
     \<and> usage_bytes ex_drifted_db ex_user = 200 \<and> usage_bytes d' ex_user = 60
     \<and> ledger_bytes d' = managed_sum (db_torrents d')
     \<and> list_all (\<lambda>u. usage_bytes d' u = logical_sum (db_torrents d') (db_requests d') u)
         (map u_id (db_users d'))"
proof -
  have "case reconcile_storage_counters ex_storage_policy ex_disk 5 None 9 ex_drifted_db of
      Inr (d', r) \<Rightarrow> sr_completed r \<and> usage_bytes d' ex_user = 60 | Inl _ \<Rightarrow> False"
    by code_simp
  then obtain d' r where run: "reconcile_storage_counters ex_storage_policy ex_disk 5 None 9
      ex_drifted_db = Inr (d', r)" "sr_completed r" "usage_bytes d' ex_user = 60"
    by (auto split: sum.splits)
  have pre: "distinct (map u_id (db_users ex_drifted_db))" "counted_up_to None ex_drifted_db"
    "usage_bytes ex_drifted_db ex_user = 200"
    by code_simp+
  show ?thesis
    using reconcile_storage_counters_pass [OF pre(1,2) run(1)] run pre(3) by blast
qed

end
