(* ===== verification/Queue_Visibility.thy ===== *)
theory Queue_Visibility
  imports Storage_Accounting
begin

text \<open>
  The public waiting queue of \<open>backend/app/scheduler/queue_visibility.py\<close>: the status of one
  torrent, membership in the ranked waiting set, the query that decides whether toggling a user
  changes that set, and the page of positions the API shows.
\<close>

section \<open>Status and membership\<close>

datatype torrent_queue_status = Q_WAITING | Q_DOWNLOADING | Q_STALLED | Q_COOLDOWN

record torrent_queue_visibility =
  qv_status :: torrent_queue_status
  qv_position_estimate :: "int option"
  qv_total_estimate :: "int option"

definition in_cooldown :: "managed_torrent \<Rightarrow> instant \<Rightarrow> bool" where
  "in_cooldown t now = (case t_scheduler_retry_at t of None \<Rightarrow> False | Some r \<Rightarrow> r > now)"

definition torrent_queue_status :: "managed_torrent \<Rightarrow> instant \<Rightarrow> torrent_queue_status option" where
  "torrent_queue_status t now =
     (if t_state t \<notin> {PENDING, ADDING, DOWNLOADING, PAUSED, RETRY_WAIT} then None
      else if in_cooldown t now then Some Q_COOLDOWN
      else if prefix ''stalled'' (lower (case t_qb_state t of None \<Rightarrow> [] | Some s \<Rightarrow> s))
      then Some Q_STALLED
      else if t_desired_active t then Some Q_DOWNLOADING
      else Some Q_WAITING)"

definition user_enabled :: "user \<Rightarrow> bool" where
  "user_enabled u = (u_is_active u \<and> u_deleted_at u = None)"

definition has_active_owner :: "db \<Rightarrow> uuid \<Rightarrow> bool" where
  "has_active_owner d torrent_id =
     list_ex (\<lambda>r. r_managed_torrent_id r = torrent_id \<and> waiting_request_state (r_state r)
        \<and> list_ex (\<lambda>u. u_id u = r_user_id r \<and> user_enabled u) (db_users d)) (db_requests d)"

definition queue_candidate :: "managed_torrent \<Rightarrow> instant \<Rightarrow> bool" where
  "queue_candidate t now =
     (t_state t \<in> {DOWNLOADING, PAUSED} \<and> \<not> t_desired_active t \<and> \<not> in_cooldown t now)"

definition is_ranked_queue_member :: "db \<Rightarrow> managed_torrent \<Rightarrow> instant \<Rightarrow> bool" where
  "is_ranked_queue_member d t now = (queue_candidate t now \<and> has_active_owner d (t_id t))"

definition other_active_owner :: "db \<Rightarrow> uuid \<Rightarrow> uuid \<Rightarrow> bool" where
  "other_active_owner d user_id torrent_id =
     list_ex (\<lambda>r. r_managed_torrent_id r = torrent_id \<and> r_user_id r \<noteq> user_id
        \<and> waiting_request_state (r_state r)
        \<and> list_ex (\<lambda>u. u_id u = r_user_id r \<and> user_enabled u) (db_users d)) (db_requests d)"

definition user_active_status_changes_ranked_queue :: "db \<Rightarrow> uuid \<Rightarrow> instant \<Rightarrow> bool" where
  "user_active_status_changes_ranked_queue d user_id now =
     list_ex (\<lambda>t. list_ex (\<lambda>r. r_managed_torrent_id r = t_id t \<and> r_user_id r = user_id
                               \<and> waiting_request_state (r_state r)) (db_requests d)
        \<and> queue_candidate t now \<and> \<not> other_active_owner d user_id (t_id t)) (db_torrents d)"

section \<open>Positions\<close>

definition queue_order :: "managed_torrent \<Rightarrow> instant \<times> uuid" where
  "queue_order t = (t_created_at t, t_id t)"

definition ranked_torrents :: "db \<Rightarrow> instant \<Rightarrow> managed_torrent list" where
  "ranked_torrents d now =
     sort_key queue_order (filter (\<lambda>t. is_ranked_queue_member d t now) (db_torrents d))"

definition ranked_rows :: "db \<Rightarrow> instant \<Rightarrow> (uuid \<times> int \<times> int) list" where
  "ranked_rows d now =
     (let ranked = ranked_torrents d now in
      map (\<lambda>(i, t). (t_id t, int i + 1, int (length ranked))) (zip [0..<length ranked] ranked))"

definition plain_visibility :: "torrent_queue_status \<Rightarrow> torrent_queue_visibility" where
  "plain_visibility s =
     \<lparr>qv_status = s, qv_position_estimate = None, qv_total_estimate = None\<rparr>"

lemma plain_visibility_inj [simp]: "plain_visibility s = plain_visibility s' \<longleftrightarrow> s = s'"
  by (simp add: plain_visibility_def)

definition status_visibility ::
  "managed_torrent list \<Rightarrow> instant \<Rightarrow> uuid \<rightharpoonup> torrent_queue_visibility" where
  "status_visibility torrents now =
     foldl (\<lambda>m t. case torrent_queue_status t now of
                    None \<Rightarrow> m | Some s \<Rightarrow> m(t_id t \<mapsto> plain_visibility s))
       Map.empty torrents"

definition waiting_ids :: "managed_torrent list \<Rightarrow> instant \<Rightarrow> uuid list" where
  "waiting_ids torrents now =
     map t_id (filter (\<lambda>t. status_visibility torrents now (t_id t) = Some (plain_visibility Q_WAITING)
                           \<and> t_state t \<in> {DOWNLOADING, PAUSED}) torrents)"

definition load_torrent_queue_visibility ::
  "db \<Rightarrow> managed_torrent list \<Rightarrow> instant \<Rightarrow> uuid \<rightharpoonup> torrent_queue_visibility" where
  "load_torrent_queue_visibility d torrents now =
     (let visibility = status_visibility torrents now;
          waiting = waiting_ids torrents now
      in if waiting = [] then visibility
         else foldl (\<lambda>m (i, p, n). m(i \<mapsto> \<lparr>qv_status = Q_WAITING, qv_position_estimate = Some p,
                                           qv_total_estimate = Some n\<rparr>))
                visibility (filter (\<lambda>(i, p, n). i \<in> set waiting) (ranked_rows d now)))"

section \<open>Toggling an account\<close>

text \<open>The account switch the query predicts: \<open>is_active\<close> of one user.\<close>

definition set_user_active :: "uuid \<Rightarrow> bool \<Rightarrow> db \<Rightarrow> db" where
  "set_user_active user_id b d =
     d\<lparr>db_users := update_row u_id user_id (\<lambda>u. u\<lparr>u_is_active := b\<rparr>) (db_users d)\<rparr>"

lemma enabled_owner_toggled:
  assumes "\<exists>u\<in>set (db_users d). u_id u = user_id \<and> u_deleted_at u = None"
  shows "list_ex (\<lambda>u. u_id u = k \<and> user_enabled u) (db_users (set_user_active user_id b d)) \<longleftrightarrow>
     (if k = user_id then b else list_ex (\<lambda>u. u_id u = k \<and> user_enabled u) (db_users d))"
  using assms
  by (simp add: set_user_active_def list_ex_update_row) (auto simp: list_ex_iff user_enabled_def)

lemma has_active_owner_toggled:
  assumes "\<exists>u\<in>set (db_users d). u_id u = user_id \<and> u_deleted_at u = None"
  shows "has_active_owner (set_user_active user_id b d) t \<longleftrightarrow>
     other_active_owner d user_id t
     \<or> b \<and> list_ex (\<lambda>r. r_managed_torrent_id r = t \<and> r_user_id r = user_id
                      \<and> waiting_request_state (r_state r)) (db_requests d)"
  by (simp add: has_active_owner_def other_active_owner_def enabled_owner_toggled [OF assms])
     (auto simp: list_ex_iff set_user_active_def split: if_splits)

text \<open>
  C25: \<open>user_active_status_changes_ranked_queue\<close> is exact: for an existing account that is not
  deleted it answers true if and only if some torrent is a member of the ranked waiting set with the
  account enabled and not with it disabled, or conversely.
\<close>
theorem user_active_status_changes_ranked_queue_exact:
  assumes "\<exists>u\<in>set (db_users d). u_id u = user_id \<and> u_deleted_at u = None"
  shows "user_active_status_changes_ranked_queue d user_id now \<longleftrightarrow>
     (\<exists>t\<in>set (db_torrents d).
        is_ranked_queue_member (set_user_active user_id True d) t now
        \<noteq> is_ranked_queue_member (set_user_active user_id False d) t now)"
  by (auto simp: user_active_status_changes_ranked_queue_def is_ranked_queue_member_def
      has_active_owner_toggled [OF assms] list_ex_iff)

theorem user_active_status_changes_ranked_queue_exact_witness:
  "user_active_status_changes_ranked_queue ex_drifted_db ex_user 9
   \<and> (\<exists>t\<in>set (db_torrents ex_drifted_db).
        is_ranked_queue_member (set_user_active ex_user True ex_drifted_db) t 9
        \<noteq> is_ranked_queue_member (set_user_active ex_user False ex_drifted_db) t 9)"
proof -
  have "\<exists>u\<in>set (db_users ex_drifted_db). u_id u = ex_user \<and> u_deleted_at u = None"
    and "user_active_status_changes_ranked_queue ex_drifted_db ex_user 9"
    by code_simp+
  then show ?thesis
    using user_active_status_changes_ranked_queue_exact [of ex_drifted_db ex_user 9] by blast
qed

section \<open>The page of positions\<close>

lemma status_visibility_eq:
  assumes "distinct (map t_id torrents)"
  shows "status_visibility torrents now k =
     (case find_row t_id k torrents of
        None \<Rightarrow> None | Some t \<Rightarrow> map_option plain_visibility (torrent_queue_status t now))"
proof -
  have "foldl (\<lambda>m t. case torrent_queue_status t now of
                    None \<Rightarrow> m | Some s \<Rightarrow> m(t_id t \<mapsto> plain_visibility s)) m torrents k =
     (case find_row t_id k torrents of None \<Rightarrow> m k
      | Some t \<Rightarrow> (case torrent_queue_status t now of None \<Rightarrow> m k | Some s \<Rightarrow> Some (plain_visibility s)))"
    for m
    using assms
  proof (induction torrents arbitrary: m)
    case (Cons t ts)
    have "find_row t_id (t_id t) ts = None"
      using Cons.prems by (auto simp: find_row_None_iff)
    with Cons show ?case by (auto simp: find_row_def split: option.splits)
  qed (simp add: find_row_def)
  then show ?thesis
    by (auto simp: status_visibility_def split: option.splits)
qed

lemma foldl_position_update:
  assumes "distinct (map fst rows)"
  shows "foldl (\<lambda>m (i, p, n). m(i \<mapsto> f p n)) m rows k =
     (case map_of rows k of None \<Rightarrow> m k | Some (p, n) \<Rightarrow> Some (f p n))"
  using assms
proof (induction rows arbitrary: m)
  case (Cons r rows)
  obtain i p n where r: "r = (i, p, n)" by (cases r)
  have "map_of rows i = None" using Cons.prems by (simp add: r map_of_eq_None_iff)
  with Cons r show ?case by (auto split: option.splits)
qed simp

lemma ranked_rows_ids: "map fst (ranked_rows d now) = map t_id (ranked_torrents d now)"
  unfolding ranked_rows_def Let_def by (rule nth_equalityI) (auto simp: case_prod_beta)

lemma ranked_torrents_props:
  assumes "distinct (map t_id (db_torrents d))"
  shows "set (ranked_torrents d now) = {t \<in> set (db_torrents d). is_ranked_queue_member d t now}"
    and "distinct (map t_id (ranked_torrents d now))"
    and "sorted (map queue_order (ranked_torrents d now))"
    and "distinct (map queue_order (ranked_torrents d now))"
proof -
  show "set (ranked_torrents d now) = {t \<in> set (db_torrents d). is_ranked_queue_member d t now}"
    "sorted (map queue_order (ranked_torrents d now))"
    by (auto simp: ranked_torrents_def)
  have "distinct (map t_id (filter (\<lambda>t. is_ranked_queue_member d t now) (db_torrents d)))"
    using assms by (simp add: distinct_map_filter)
  then show ids: "distinct (map t_id (ranked_torrents d now))"
    by (simp add: ranked_torrents_def distinct_map)
  have "distinct (map (snd \<circ> queue_order) (ranked_torrents d now))"
    using ids by (simp add: queue_order_def comp_def)
  then show "distinct (map queue_order (ranked_torrents d now))"
    by (auto simp: distinct_map inj_on_def)
qed

definition queue_rank :: "db \<Rightarrow> managed_torrent \<Rightarrow> instant \<Rightarrow> int" where
  "queue_rank d t now =
     1 + int (length (filter (\<lambda>u. is_ranked_queue_member d u now \<and> queue_order u < queue_order t)
                (db_torrents d)))"

lemma ranked_rows_map:
  assumes "distinct (map t_id (db_torrents d))" "t \<in> set (db_torrents d)"
  shows "map_of (ranked_rows d now) (t_id t) =
     (if is_ranked_queue_member d t now
      then Some (queue_rank d t now,
             int (length (filter (\<lambda>u. is_ranked_queue_member d u now) (db_torrents d))))
      else None)"
proof -
  note props = ranked_torrents_props [OF assms(1), of now]
  have dist: "distinct (map fst (ranked_rows d now))"
    by (simp add: ranked_rows_ids props)
  show ?thesis
  proof (cases "is_ranked_queue_member d t now")
    case True
    then obtain i where i: "i < length (ranked_torrents d now)" "ranked_torrents d now ! i = t"
      using assms(2) props(1) by (metis (mono_tags, lifting) in_set_conv_nth mem_Collect_eq)
    have "length (filter (\<lambda>u. queue_order u < queue_order t) (ranked_torrents d now)) = i"
      using sorted_distinct_index [OF props(3,4) i(1)] i(2) by simp
    then have "queue_rank d t now = int i + 1"
      by (simp add: queue_rank_def ranked_torrents_def length_filter_sort_key conj_commute)
    moreover have "length (ranked_torrents d now)
        = length (filter (\<lambda>u. is_ranked_queue_member d u now) (db_torrents d))"
      by (simp add: ranked_torrents_def)
    moreover have "(t_id t, int i + 1, int (length (ranked_torrents d now))) \<in> set (ranked_rows d now)"
      using i by (force simp: ranked_rows_def Let_def set_zip)
    ultimately show ?thesis
      using True map_of_is_SomeI [OF dist] by simp
  next
    case False
    have "t_id t \<notin> fst ` set (ranked_rows d now)"
    proof
      assume "t_id t \<in> fst ` set (ranked_rows d now)"
      then obtain u where "u \<in> set (ranked_torrents d now)" "t_id u = t_id t"
        by (metis (no_types, lifting) imageE list.set_map ranked_rows_ids)
      then have "u = t" "is_ranked_queue_member d u now"
        using props(1) assms by (auto simp: distinct_map inj_on_def)
      with False show False by simp
    qed
    with False show ?thesis by (simp add: map_of_eq_None_iff)
  qed
qed

lemma map_of_filter_fst: "map_of (filter (\<lambda>(i, p, n). i \<in> S) rows) k
    = (if k \<in> S then map_of rows k else None)"
  by (induction rows) auto

text \<open>
  C26: The positions shown by \<open>load_torrent_queue_visibility\<close> are exact ranks: a torrent of the
  page carries its status, and precisely the torrents that are waiting and members of the ranked set
  carry a position, which is one more than the number of ranked torrents that come before it in the
  (creation time, id) order, together with the size of the ranked set.
\<close>
theorem load_torrent_queue_visibility_positions:
  assumes "distinct (map t_id (db_torrents d))"
    and "distinct (map t_id page)" "set page \<subseteq> set (db_torrents d)" "t \<in> set page"
  shows "load_torrent_queue_visibility d page now (t_id t) =
     map_option (\<lambda>s.
        if s = Q_WAITING \<and> is_ranked_queue_member d t now
        then \<lparr>qv_status = Q_WAITING, qv_position_estimate = Some (queue_rank d t now),
              qv_total_estimate = Some (int (length (filter
                 (\<lambda>u. is_ranked_queue_member d u now) (db_torrents d))))\<rparr>
        else plain_visibility s) (torrent_queue_status t now)"
proof -
  let ?w = "waiting_ids page now"
  let ?rows = "filter (\<lambda>(i, p, n). i \<in> set ?w) (ranked_rows d now)"
  have find: "find_row t_id (t_id u) page = Some u" if "u \<in> set page" for u
    using find_row_Some_iff [OF assms(2)] that by blast
  have vis: "status_visibility page now (t_id u)
      = map_option plain_visibility (torrent_queue_status u now)" if "u \<in> set page" for u
    by (simp add: status_visibility_eq [OF assms(2)] find [OF that])
  have waiting: "t_id t \<in> set ?w \<longleftrightarrow>
      torrent_queue_status t now = Some Q_WAITING \<and> t_state t \<in> {DOWNLOADING, PAUSED}"
  proof -
    have same: "u = t" if "u \<in> set page" "t_id u = t_id t" for u
      using find [OF that(1)] find [OF assms(4)] that(2) by (metis option.inject)
    have "t_id t \<in> set ?w \<longleftrightarrow> (\<exists>u\<in>set page. t_id u = t_id t
        \<and> status_visibility page now (t_id u) = Some (plain_visibility Q_WAITING)
        \<and> t_state u \<in> {DOWNLOADING, PAUSED})"
      unfolding waiting_ids_def set_map set_filter image_iff by (metis (mono_tags, lifting) mem_Collect_eq)
    also have "\<dots> \<longleftrightarrow> status_visibility page now (t_id t) = Some (plain_visibility Q_WAITING)
        \<and> t_state t \<in> {DOWNLOADING, PAUSED}"
      using assms(4) same by metis
    finally show ?thesis by (simp add: vis [OF assms(4)])
  qed
  have ranked: "is_ranked_queue_member d t now \<Longrightarrow> t_state t \<in> {DOWNLOADING, PAUSED}"
    by (simp add: is_ranked_queue_member_def queue_candidate_def)
  have dist: "distinct (map fst ?rows)"
    using ranked_torrents_props(2) [OF assms(1), of now]
    by (simp add: ranked_rows_ids [symmetric] distinct_map_filter)
  have mem: "t \<in> set (db_torrents d)" using assms(3,4) by blast
  have "load_torrent_queue_visibility d page now (t_id t) =
      (case map_of ?rows (t_id t) of None \<Rightarrow> status_visibility page now (t_id t)
       | Some (p, n) \<Rightarrow> Some \<lparr>qv_status = Q_WAITING, qv_position_estimate = Some p,
                             qv_total_estimate = Some n\<rparr>)"
    using foldl_position_update [OF dist, of "\<lambda>p n. \<lparr>qv_status = Q_WAITING,
        qv_position_estimate = Some p, qv_total_estimate = Some n\<rparr>"]
    by (auto simp: load_torrent_queue_visibility_def Let_def map_of_filter_fst)
  then show ?thesis
    using waiting ranked
    by (cases "torrent_queue_status t now")
      (auto simp: vis [OF assms(4)] map_of_filter_fst ranked_rows_map [OF assms(1) mem]
        split: option.splits)
qed

definition ex_queue_db :: db where
  "ex_queue_db = ex_drifted_db\<lparr>
     db_torrents := [ex_torrent\<lparr>t_id := 45, t_created_at := 8\<rparr>, ex_torrent],
     db_requests := [ex_request, ex_request\<lparr>r_id := 51, r_managed_torrent_id := 45\<rparr>]\<rparr>"

theorem load_torrent_queue_visibility_positions_witness:
  "load_torrent_queue_visibility ex_queue_db (db_torrents ex_queue_db) 9 45 =
     Some \<lparr>qv_status = Q_WAITING, qv_position_estimate = Some 2, qv_total_estimate = Some 2\<rparr>"
proof -
  let ?t = "ex_torrent\<lparr>t_id := 45, t_created_at := 8\<rparr>"
  have d: "distinct (map t_id (db_torrents ex_queue_db))" by code_simp
  have m: "?t \<in> set (db_torrents ex_queue_db)" by (simp add: ex_queue_db_def)
  have "is_ranked_queue_member ex_queue_db ?t 9" "queue_rank ex_queue_db ?t 9 = 2"
    "torrent_queue_status ?t 9 = Some Q_WAITING"
    "length (filter (\<lambda>u. is_ranked_queue_member ex_queue_db u 9) (db_torrents ex_queue_db)) = 2"
    by code_simp+
  then show ?thesis
    using load_torrent_queue_visibility_positions [OF d d subset_refl m, of 9] by simp
qed

end
