(* ===== verification/Torrent_Jobs.thy ===== *)
theory Torrent_Jobs
  imports Queue_Visibility
begin

text \<open>
  The durable job state machine of \<open>backend/app/jobs/torrent_jobs.py\<close>: claiming, renewing,
  completing, retrying, failing, cancelling and recovering the rows of \<open>torrent_jobs\<close>. An operation
  on one loaded row maps the row; the ones that query the table map the database. Rows another
  transaction has locked are an argument of the queries that skip locked rows.
\<close>

section \<open>Identifiers\<close>

definition safe_identifier_char :: "char \<Rightarrow> bool" where
  "safe_identifier_char c = (is_upper c \<or> is_lower c \<or> is_digit c \<or> c \<in> set ''_.:-'')"

definition safe_error_char :: "char \<Rightarrow> bool" where
  "safe_error_char c = (is_lower c \<or> is_digit c \<or> c \<in> set ''_.-'')"

definition safe_job_type_char :: "char \<Rightarrow> bool" where
  "safe_job_type_char c = (is_upper c \<or> is_digit c \<or> c = CHR ''_'')"

definition validate_worker_id :: "string \<Rightarrow> app_error + unit" where
  "validate_worker_id s =
     require (1 \<le> length s \<and> length s \<le> 128 \<and> list_all safe_identifier_char s)
       (Py (ValueError ''worker_id must be a safe opaque identifier''))"

definition validate_error_code :: "string \<Rightarrow> app_error + unit" where
  "validate_error_code s =
     require (1 \<le> length s \<and> length s \<le> 64 \<and> list_all safe_error_char s)
       (Py (ValueError ''error_code must be a safe diagnostic code''))"

definition validate_job_type :: "string \<Rightarrow> app_error + unit" where
  "validate_job_type s =
     require (1 \<le> length s \<and> length s \<le> 64 \<and> list_all safe_job_type_char s)
       (Py (ValueError ''job_type must be a safe opaque identifier''))"

section \<open>Operations on a claimed row\<close>

definition passed :: "instant option \<Rightarrow> instant \<Rightarrow> bool" where
  "passed deadline now = (case deadline of None \<Rightarrow> True | Some t \<Rightarrow> now \<ge> t)"

definition require_claim_owner :: "torrent_job \<Rightarrow> string \<Rightarrow> instant \<Rightarrow> app_error + unit" where
  "require_claim_owner job worker_id now =
     rbind (validate_worker_id worker_id) (\<lambda>_.
     rbind (require (j_state job = J_RUNNING \<and> j_claimed_by job = Some worker_id)
              (TorrentJobTransitionError ''the worker does not own this running job'')) (\<lambda>_.
     rbind (require (\<not> passed (j_claim_expires_at job) now)
              (TorrentJobTransitionError ''the job claim has expired'')) (\<lambda>_.
     require (\<not> passed (j_timeout_at job) now)
       (TorrentJobTransitionError ''the job execution timeout has expired''))))"

definition release_claim :: "torrent_job \<Rightarrow> torrent_job" where
  "release_claim job = job\<lparr>j_claimed_by := None, j_claim_expires_at := None, j_timeout_at := None\<rparr>"

definition finish_job :: "torrent_job \<Rightarrow> torrent_job_state \<Rightarrow> instant \<Rightarrow> torrent_job" where
  "finish_job job state now = release_claim (job\<lparr>j_state := state, j_finished_at := Some now\<rparr>)"

definition complete_torrent_job ::
  "torrent_job \<Rightarrow> string \<Rightarrow> instant \<Rightarrow> app_error + torrent_job" where
  "complete_torrent_job job worker_id now =
     rbind (require_claim_owner job worker_id now) (\<lambda>_.
     Inr ((finish_job job
            (if j_cancel_requested_at job \<noteq> None then J_CANCELLED else J_COMPLETED) now)
          \<lparr>j_updated_at := now\<rparr>))"

definition renew_torrent_job_claim ::
  "torrent_job \<Rightarrow> string \<Rightarrow> instant \<Rightarrow> timedelta \<Rightarrow> app_error + torrent_job" where
  "renew_torrent_job_claim job worker_id now claim_ttl =
     rbind (require_claim_owner job worker_id now) (\<lambda>_.
     rbind (require (claim_ttl > 0) (Py (ValueError ''claim_ttl must be positive''))) (\<lambda>_.
     case j_timeout_at job of
       None \<Rightarrow> Inl (Py AssertionError)
     | Some timeout \<Rightarrow>
         Inr (job\<lparr>j_claim_expires_at :=
                    Some (if now + claim_ttl \<le> timeout then now + claim_ttl else timeout),
                  j_updated_at := now\<rparr>)))"

definition retry_torrent_job ::
  "torrent_job \<Rightarrow> string \<Rightarrow> instant \<Rightarrow> instant \<Rightarrow> string \<Rightarrow> app_error + torrent_job" where
  "retry_torrent_job job worker_id now available_at error_code =
     rbind (require_claim_owner job worker_id now) (\<lambda>_.
     rbind (validate_error_code error_code) (\<lambda>_.
     rbind (require (available_at \<ge> now)
              (Py (ValueError ''available_at cannot be in the past''))) (\<lambda>_.
     let job1 = job\<lparr>j_last_error_code := Some error_code, j_updated_at := now\<rparr>
     in Inr (if j_attempt_count job1 \<ge> j_max_attempts job1
             then finish_job job1 J_FAILED now
             else release_claim (job1\<lparr>j_state := J_QUEUED, j_available_at := available_at\<rparr>)))))"

definition fail_torrent_job ::
  "torrent_job \<Rightarrow> string \<Rightarrow> instant \<Rightarrow> string \<Rightarrow> app_error + torrent_job" where
  "fail_torrent_job job worker_id now error_code =
     rbind (require_claim_owner job worker_id now) (\<lambda>_.
     rbind (validate_error_code error_code) (\<lambda>_.
     Inr (finish_job (job\<lparr>j_last_error_code := Some error_code, j_updated_at := now\<rparr>)
            J_FAILED now)))"

definition cancel_claimed_torrent_job ::
  "torrent_job \<Rightarrow> string \<Rightarrow> instant \<Rightarrow> app_error + torrent_job" where
  "cancel_claimed_torrent_job job worker_id now =
     rbind (require_claim_owner job worker_id now) (\<lambda>_.
     rbind (require (j_cancel_requested_at job \<noteq> None)
              (TorrentJobTransitionError ''cancellation was not requested'')) (\<lambda>_.
     Inr ((finish_job job J_CANCELLED now)\<lparr>j_updated_at := now\<rparr>)))"

definition cancel_requested_job :: "instant \<Rightarrow> torrent_job \<Rightarrow> torrent_job" where
  "cancel_requested_job now job =
     (if j_state job = J_QUEUED
      then (finish_job (job\<lparr>j_cancel_requested_at := Some now\<rparr>) J_CANCELLED now)\<lparr>j_updated_at := now\<rparr>
      else if j_state job = J_RUNNING \<and> j_cancel_requested_at job = None
      then job\<lparr>j_cancel_requested_at := Some now, j_updated_at := now\<rparr>
      else job\<lparr>j_updated_at := now\<rparr>)"

definition recovered_job :: "instant \<Rightarrow> timedelta \<Rightarrow> torrent_job \<Rightarrow> torrent_job" where
  "recovered_job now retry_delay job =
     (let job1 = job\<lparr>j_last_error_code :=
                       Some (if j_timeout_at job \<noteq> None \<and> passed (j_timeout_at job) now
                             then ''execution_timeout'' else ''claim_expired''),
                     j_updated_at := now\<rparr>
      in if j_cancel_requested_at job1 \<noteq> None then finish_job job1 J_CANCELLED now
         else if j_attempt_count job1 \<ge> j_max_attempts job1 then finish_job job1 J_FAILED now
         else release_claim (job1\<lparr>j_state := J_QUEUED, j_available_at := now + retry_delay\<rparr>))"

section \<open>Operations on the table\<close>

definition job_priority :: "string \<Rightarrow> int" where
  "job_priority job_type =
     (if job_type \<in> {''PURGE_TORRENT'', ''RECOVER_CANCEL_REQUESTS'', ''RECOVER_PURGE_METADATA''}
      then 0
      else if job_type = ''ADD_TORRENT'' then 1
      else if job_type = ''SYNC_TORRENT'' then 3
      else 2)"

definition claim_order :: "torrent_job \<Rightarrow> int \<times> instant \<times> instant \<times> uuid" where
  "claim_order j = (job_priority (j_job_type j), j_available_at j, j_created_at j, j_id j)"

definition claimable :: "string list option \<Rightarrow> instant \<Rightarrow> torrent_job \<Rightarrow> bool" where
  "claimable accepted now j =
     (j_state j = J_QUEUED \<and> j_available_at j \<le> now \<and> j_attempt_count j < j_max_attempts j
      \<and> (case accepted of None \<Rightarrow> True | Some ts \<Rightarrow> j_job_type j \<in> set ts))"

definition claimed_job ::
  "string \<Rightarrow> instant \<Rightarrow> timedelta \<Rightarrow> timedelta \<Rightarrow> torrent_job \<Rightarrow> torrent_job" where
  "claimed_job worker_id now claim_ttl execution_timeout j =
     j\<lparr>j_state := J_RUNNING, j_attempt_count := j_attempt_count j + 1,
       j_claimed_by := Some worker_id, j_claim_expires_at := Some (now + claim_ttl),
       j_timeout_at := Some (now + execution_timeout), j_updated_at := now\<rparr>"

definition put_job :: "torrent_job \<Rightarrow> db \<Rightarrow> db" where
  "put_job job d = d\<lparr>db_jobs := update_row j_id (j_id job) (\<lambda>_. job) (db_jobs d)\<rparr>"

definition claim_next_torrent_job ::
  "(uuid \<Rightarrow> bool) \<Rightarrow> string \<Rightarrow> instant \<Rightarrow> timedelta \<Rightarrow> timedelta \<Rightarrow> string list option \<Rightarrow> db
     \<Rightarrow> app_error + db \<times> torrent_job option" where
  "claim_next_torrent_job locked worker_id now claim_ttl execution_timeout job_types d =
     rbind (validate_worker_id worker_id) (\<lambda>_.
     rbind (require (\<not> (claim_ttl \<le> 0 \<or> execution_timeout \<le> 0))
              (Py (ValueError ''claim and execution timeouts must be positive''))) (\<lambda>_.
     rbind (case job_types of
              None \<Rightarrow> Inr ()
            | Some ts \<Rightarrow> require (list_all (\<lambda>t. validate_job_type t = Inr ()) ts)
                (Py (ValueError ''job_type must be a safe opaque identifier''))) (\<lambda>_.
     if job_types = Some [] then Inr (d, None)
     else
       case sort_key claim_order
              (filter (\<lambda>j. claimable job_types now j \<and> \<not> locked (j_id j)) (db_jobs d)) of
         [] \<Rightarrow> Inr (d, None)
       | j # _ \<Rightarrow>
           (let job = claimed_job worker_id now claim_ttl execution_timeout j
            in Inr (put_job job d, Some job)))))"

definition request_torrent_job_cancellation ::
  "uuid \<Rightarrow> instant \<Rightarrow> db \<Rightarrow> db \<times> torrent_job option" where
  "request_torrent_job_cancellation job_id now d =
     (case find_row j_id job_id (db_jobs d) of
        None \<Rightarrow> (d, None)
      | Some job \<Rightarrow> (let job' = cancel_requested_job now job in (put_job job' d, Some job')))"

text \<open>
  A running row always carries its claim (\<open>job_check\<close>), so the order by \<open>claim_expires_at\<close> never
  compares NULL.
\<close>

definition expired_claim :: "instant \<Rightarrow> torrent_job \<Rightarrow> bool" where
  "expired_claim now j =
     (j_state j = J_RUNNING
      \<and> ((case j_claim_expires_at j of None \<Rightarrow> False | Some t \<Rightarrow> t \<le> now)
         \<or> (case j_timeout_at j of None \<Rightarrow> False | Some t \<Rightarrow> t \<le> now)))"

definition recovery_order :: "torrent_job \<Rightarrow> instant \<times> uuid" where
  "recovery_order j = (case j_claim_expires_at j of None \<Rightarrow> 0 | Some t \<Rightarrow> t, j_id j)"

definition recover_expired_torrent_jobs ::
  "(uuid \<Rightarrow> bool) \<Rightarrow> instant \<Rightarrow> timedelta \<Rightarrow> int \<Rightarrow> db \<Rightarrow> app_error + db \<times> torrent_job list" where
  "recover_expired_torrent_jobs locked now retry_delay limit d =
     rbind (require (\<not> retry_delay < 0) (Py (ValueError ''retry_delay cannot be negative''))) (\<lambda>_.
     rbind (require (1 \<le> limit \<and> limit \<le> 1000)
              (Py (ValueError ''limit must be between 1 and 1000''))) (\<lambda>_.
     let jobs = take (nat limit) (sort_key recovery_order
                  (filter (\<lambda>j. expired_claim now j \<and> \<not> locked (j_id j)) (db_jobs d)));
         recovered = map (recovered_job now retry_delay) jobs
     in Inr (foldl (\<lambda>d j. put_job j d) d recovered, recovered)))"

text \<open>
  The cancellation other components write on the active jobs of a torrent they take over (the
  deduplication, the purge and the reconciliation use the same lines).
\<close>

definition cancel_active_job :: "instant \<Rightarrow> torrent_job \<Rightarrow> torrent_job" where
  "cancel_active_job now job =
     (let job1 = job\<lparr>j_cancel_requested_at := Some now, j_updated_at := now\<rparr>
      in if j_state job1 = J_QUEUED
         then job1\<lparr>j_state := J_CANCELLED, j_finished_at := Some now\<rparr> else job1)"

text \<open>A waiting retry of the worker gives the attempt back before it requeues the row.\<close>

definition give_back_attempt :: "torrent_job \<Rightarrow> torrent_job" where
  "give_back_attempt job = job\<lparr>j_attempt_count := max 0 (j_attempt_count job - 1)\<rparr>"

lemma release_claim_simps [simp]:
  "j_id (release_claim j) = j_id j" "j_state (release_claim j) = j_state j"
  "j_attempt_count (release_claim j) = j_attempt_count j"
  "j_job_type (release_claim j) = j_job_type j" "j_available_at (release_claim j) = j_available_at j"
  "j_managed_torrent_id (release_claim j) = j_managed_torrent_id j"
  "j_cancel_requested_at (release_claim j) = j_cancel_requested_at j"
  by (simp_all add: release_claim_def)

lemma finish_job_simps [simp]:
  "j_id (finish_job j s now) = j_id j" "j_state (finish_job j s now) = s"
  "j_attempt_count (finish_job j s now) = j_attempt_count j"
  "j_job_type (finish_job j s now) = j_job_type j"
  "j_managed_torrent_id (finish_job j s now) = j_managed_torrent_id j"
  "j_cancel_requested_at (finish_job j s now) = j_cancel_requested_at j"
  by (simp_all add: finish_job_def)

section \<open>The life of a row\<close>

inductive job_step :: "torrent_job \<Rightarrow> torrent_job \<Rightarrow> bool" where
  step_claim: "claimable accepted now j \<Longrightarrow> job_step j (claimed_job w now ttl timeout j)"
| step_complete: "complete_torrent_job j w now = Inr j' \<Longrightarrow> job_step j j'"
| step_renew: "renew_torrent_job_claim j w now ttl = Inr j' \<Longrightarrow> job_step j j'"
| step_retry: "retry_torrent_job j w now available code = Inr j' \<Longrightarrow> job_step j j'"
| step_wait: "retry_torrent_job (give_back_attempt j) w now available code = Inr j' \<Longrightarrow> job_step j j'"
| step_fail: "fail_torrent_job j w now code = Inr j' \<Longrightarrow> job_step j j'"
| step_cancel_claimed: "cancel_claimed_torrent_job j w now = Inr j' \<Longrightarrow> job_step j j'"
| step_cancel_request: "job_step j (cancel_requested_job now j)"
| step_cancel_active: "active_job_state (j_state j) \<Longrightarrow> job_step j (cancel_active_job now j)"
| step_recover: "expired_claim now j \<Longrightarrow> job_step j (recovered_job now delay j)"

definition job_init :: "torrent_job \<Rightarrow> bool" where
  "job_init j \<longleftrightarrow>
     j_state j = J_QUEUED \<and> j_attempt_count j = 0 \<and> 1 \<le> j_max_attempts j \<and> job_check j"

definition job_ok :: "torrent_job \<Rightarrow> bool" where
  "job_ok j \<longleftrightarrow>
     job_check j \<and> j_attempt_count j \<le> j_max_attempts j
     \<and> (j_state j = J_RUNNING \<longrightarrow> 1 \<le> j_attempt_count j)"

lemmas job_row_defs = complete_torrent_job_def renew_torrent_job_claim_def retry_torrent_job_def
  fail_torrent_job_def cancel_claimed_torrent_job_def cancel_requested_job_def cancel_active_job_def
  recovered_job_def give_back_attempt_def claimed_job_def release_claim_def finish_job_def

lemma require_claim_owner_Inr:
  "require_claim_owner j w now = Inr () \<longleftrightarrow>
     validate_worker_id w = Inr () \<and> j_state j = J_RUNNING \<and> j_claimed_by j = Some w
     \<and> \<not> passed (j_claim_expires_at j) now \<and> \<not> passed (j_timeout_at j) now"
  by (auto simp: require_claim_owner_def result_simps)

lemmas job_row_simps = job_row_defs rbind_Inr_iff require_Inr_iff require_claim_owner_Inr Let_def

lemma job_ok_ignores [simp]:
  "job_ok (j\<lparr>j_last_error_code := x\<rparr>) = job_ok j" "job_ok (j\<lparr>j_updated_at := t\<rparr>) = job_ok j"
  "job_ok (j\<lparr>j_cancel_requested_at := c\<rparr>) = job_ok j" "job_ok (j\<lparr>j_available_at := t\<rparr>) = job_ok j"
  by (simp_all add: job_ok_def job_check_def)

lemma job_ok_finish:
  "job_ok j \<Longrightarrow> s \<in> {J_COMPLETED, J_FAILED, J_CANCELLED} \<Longrightarrow> job_ok (finish_job j s now)"
  by (auto simp: job_ok_def job_check_def finish_job_def release_claim_def)

lemma job_ok_requeue:
  assumes "job_ok j" "j_state j = J_RUNNING" "j_attempt_count j < j_max_attempts j"
  shows "job_ok (release_claim (j\<lparr>j_state := J_QUEUED, j_available_at := t\<rparr>))"
  using assms by (simp add: job_ok_def job_check_def release_claim_def)

lemma job_ok_claimed:
  "job_ok j \<Longrightarrow> claimable accepted now j \<Longrightarrow> job_ok (claimed_job w now ttl timeout j)"
  by (auto simp: job_ok_def job_check_def claimable_def claimed_job_def)

lemma job_ok_complete: "job_ok j \<Longrightarrow> complete_torrent_job j w now = Inr j' \<Longrightarrow> job_ok j'"
  by (auto simp: complete_torrent_job_def rbind_Inr_iff intro!: job_ok_finish)

lemma job_ok_renew: "job_ok j \<Longrightarrow> renew_torrent_job_claim j w now ttl = Inr j' \<Longrightarrow> job_ok j'"
  by (auto simp: job_ok_def job_check_def renew_torrent_job_claim_def rbind_Inr_iff
      require_claim_owner_Inr split: option.splits)

lemma job_ok_retry:
  assumes "job_ok j" "retry_torrent_job j w now av code = Inr j'"
  shows "job_ok j'"
proof -
  let ?j = "j\<lparr>j_last_error_code := Some code, j_updated_at := now\<rparr>"
  have "j_state j = J_RUNNING" and j': "j' = (if j_attempt_count j \<ge> j_max_attempts j
      then finish_job ?j J_FAILED now
      else release_claim (?j\<lparr>j_state := J_QUEUED, j_available_at := av\<rparr>))"
    using assms(2) by (auto simp: retry_torrent_job_def rbind_Inr_iff require_claim_owner_Inr Let_def)
  then show ?thesis
    using assms(1) job_ok_finish [of ?j J_FAILED now] job_ok_requeue [of ?j av] by (auto simp: not_le)
qed

lemma job_ok_give_back: "job_ok j \<Longrightarrow> 2 \<le> j_attempt_count j \<Longrightarrow> job_ok (give_back_attempt j)"
  by (auto simp: job_ok_def job_check_def give_back_attempt_def)

lemma wait_result:
  assumes "job_ok j" "retry_torrent_job (give_back_attempt j) w now av code = Inr j'"
  shows "j' = release_claim (j\<lparr>j_attempt_count := j_attempt_count j - 1,
      j_last_error_code := Some code, j_updated_at := now, j_state := J_QUEUED,
      j_available_at := av\<rparr>)" and "j_state j = J_RUNNING"
proof -
  have run: "j_state (give_back_attempt j) = J_RUNNING"
    using assms(2) by (auto simp: retry_torrent_job_def rbind_Inr_iff require_claim_owner_Inr)
  then show "j_state j = J_RUNNING" by (simp add: give_back_attempt_def)
  then have "1 \<le> j_attempt_count j" "j_attempt_count j \<le> j_max_attempts j"
    using assms(1) by (auto simp: job_ok_def)
  then show "j' = release_claim (j\<lparr>j_attempt_count := j_attempt_count j - 1,
      j_last_error_code := Some code, j_updated_at := now, j_state := J_QUEUED,
      j_available_at := av\<rparr>)"
    using assms(2) by (auto simp: retry_torrent_job_def rbind_Inr_iff Let_def give_back_attempt_def)
qed

lemma job_ok_wait:
  assumes "job_ok j" "retry_torrent_job (give_back_attempt j) w now av code = Inr j'"
  shows "job_ok j'"
  using wait_result [OF assms] assms(1)
  by (simp add: job_ok_def job_check_def release_claim_def)

lemma job_ok_fail: "job_ok j \<Longrightarrow> fail_torrent_job j w now code = Inr j' \<Longrightarrow> job_ok j'"
  by (auto simp: fail_torrent_job_def rbind_Inr_iff intro!: job_ok_finish)

lemma job_ok_cancel_claimed:
  "job_ok j \<Longrightarrow> cancel_claimed_torrent_job j w now = Inr j' \<Longrightarrow> job_ok j'"
  by (auto simp: cancel_claimed_torrent_job_def rbind_Inr_iff intro!: job_ok_finish)

lemma job_ok_cancel_request: "job_ok j \<Longrightarrow> job_ok (cancel_requested_job now j)"
  by (auto simp: cancel_requested_job_def intro!: job_ok_finish)

lemma job_ok_cancel_active:
  "job_ok j \<Longrightarrow> active_job_state (j_state j) \<Longrightarrow> job_ok (cancel_active_job now j)"
  by (auto simp: job_ok_def job_check_def cancel_active_job_def active_job_state_def Let_def)

lemma job_ok_recover:
  assumes "job_ok j" "expired_claim now j"
  shows "job_ok (recovered_job now delay j)"
proof -
  have "j_state j = J_RUNNING" using assms(2) by (simp add: expired_claim_def)
  then show ?thesis
    using assms(1) by (auto simp: recovered_job_def Let_def not_le intro!: job_ok_finish job_ok_requeue)
qed

lemmas job_ok_intros = job_ok_claimed job_ok_complete job_ok_renew job_ok_retry job_ok_wait
  job_ok_fail job_ok_cancel_claimed job_ok_cancel_request job_ok_cancel_active job_ok_recover

lemma job_ok_step: "job_step j j' \<Longrightarrow> job_ok j \<Longrightarrow> job_ok j'"
  by (induction rule: job_step.induct) (auto intro: job_ok_intros)

interpretation job_system: invariant_system job_init job_step job_ok
proof unfold_locales
  show "job_init j \<Longrightarrow> job_ok j" for j by (auto simp: job_init_def job_ok_def)
  show "job_ok j \<Longrightarrow> job_step j j' \<Longrightarrow> job_ok j'" for j j' by (rule job_ok_step)
qed

lemma job_step_identity:
  "job_step j j' \<Longrightarrow> j_id j' = j_id j \<and> j_job_type j' = j_job_type j
     \<and> j_managed_torrent_id j' = j_managed_torrent_id j \<and> j_max_attempts j' = j_max_attempts j
     \<and> j_idempotency_key j' = j_idempotency_key j"
  by (induction rule: job_step.induct) (auto simp: job_row_simps split: option.splits)

text \<open>
  C28: Every row the job state machine can reach from a fresh queued row satisfies all CHECK
  constraints of \<open>torrent_jobs\<close> (so no flush of these transitions can fail on them): a running row
  carries its claim and both deadlines and no other row does, a finished row and only a finished row
  has a finish time, a queued row has an attempt left; moreover the attempt counter never exceeds
  the budget and a running row has used at least one attempt, although waiting retries give attempts
  back.
\<close>
theorem job_rows_reachable_ok:
  assumes "reach job_init job_step j"
  shows "job_check j \<and> j_attempt_count j \<le> j_max_attempts j
     \<and> (j_state j = J_RUNNING \<longrightarrow> 1 \<le> j_attempt_count j)"
  using job_system.reach_inv [OF assms] by (simp add: job_ok_def)

definition ex_job :: torrent_job where
  "ex_job =
     \<lparr>j_id = 60, j_managed_torrent_id = 40, j_torrent_request_id = None, j_job_type = ''ADD_TORRENT'',
      j_idempotency_key = ''add:1'', j_recovery_snapshot = None, j_state = J_QUEUED,
      j_attempt_count = 0, j_max_attempts = 3, j_available_at = 0, j_timeout_at = None,
      j_claimed_by = None, j_claim_expires_at = None, j_cancel_requested_at = None,
      j_last_error_code = None, j_finished_at = None, j_created_at = 0, j_updated_at = 0\<rparr>"

theorem job_rows_reachable_ok_witness:
  "job_check (claimed_job ''w1'' 5 10 20 ex_job)
   \<and> j_state (claimed_job ''w1'' 5 10 20 ex_job) = J_RUNNING
   \<and> 1 \<le> j_attempt_count (claimed_job ''w1'' 5 10 20 ex_job)"
proof -
  have "job_init ex_job" "claimable None 5 ex_job" by code_simp+
  then have "reach job_init job_step (claimed_job ''w1'' 5 10 20 ex_job)"
    by (meson job_step.step_claim reach.reach_init reach.reach_step)
  from job_rows_reachable_ok [OF this] show ?thesis
    by (simp add: claimed_job_def)
qed

section \<open>Claiming\<close>

lemma sort_key_Nil_iff: "sort_key f xs = [] \<longleftrightarrow> xs = []"
  by (metis length_0_conv length_sort)

lemma sort_key_Cons_min:
  assumes "sort_key f xs = y # ys"
  shows "y \<in> set xs" "\<forall>x\<in>set xs. f y \<le> f x"
proof -
  have s: "set xs = set (y # ys)" using assms by (metis set_sort)
  then show "y \<in> set xs" by auto
  have "sorted (map f (y # ys))" by (metis assms sorted_sort_key)
  then show "\<forall>x\<in>set xs. f y \<le> f x" using s by auto
qed

lemma claim_next_cases:
  assumes "claim_next_torrent_job locked w now ttl timeout types d = Inr (d', r)"
  obtains (none) "r = None" "d' = d"
      "types = Some [] \<or> filter (\<lambda>j. claimable types now j \<and> \<not> locked (j_id j)) (db_jobs d) = []"
  | (claimed) j where "j \<in> set (db_jobs d)" "claimable types now j" "\<not> locked (j_id j)"
      "\<forall>k\<in>set (db_jobs d). claimable types now k \<and> \<not> locked (j_id k) \<longrightarrow> claim_order j \<le> claim_order k"
      "r = Some (claimed_job w now ttl timeout j)" "d' = put_job (claimed_job w now ttl timeout j) d"
      "validate_worker_id w = Inr ()" "0 < ttl" "0 < timeout"
proof (cases "types = Some [] \<or>
    sort_key claim_order (filter (\<lambda>j. claimable types now j \<and> \<not> locked (j_id j)) (db_jobs d)) = []")
  case True
  then have "r = None \<and> d' = d"
    using assms by (auto simp: claim_next_torrent_job_def rbind_Inr_iff split: if_splits)
  moreover have "types = Some []
      \<or> filter (\<lambda>j. claimable types now j \<and> \<not> locked (j_id j)) (db_jobs d) = []"
    using True by (auto simp: sort_key_Nil_iff)
  ultimately show thesis using none by blast
next
  case False
  then obtain j js where sort: "sort_key claim_order
      (filter (\<lambda>j. claimable types now j \<and> \<not> locked (j_id j)) (db_jobs d)) = j # js"
    by (meson neq_Nil_conv)
  note m = sort_key_Cons_min [OF sort]
  have "r = Some (claimed_job w now ttl timeout j)" "d' = put_job (claimed_job w now ttl timeout j) d"
    "validate_worker_id w = Inr ()" "0 < ttl" "0 < timeout"
    using assms False sort
    by (auto simp: claim_next_torrent_job_def rbind_Inr_iff require_Inr_iff Let_def split: if_splits)
  then show thesis using m by (intro claimed [of j]) auto
qed

lemma put_job_lookup:
  assumes "distinct (map j_id (db_jobs d))" "j \<in> set (db_jobs d)" "j_id job = j_id j"
  shows "k \<in> set (db_jobs (put_job job d)) \<longleftrightarrow> k = job \<or> k \<in> set (db_jobs d) \<and> j_id k \<noteq> j_id job"
  using assms(2,3) by (auto simp: put_job_def in_update_row)

lemma put_job_ids [simp]: "map j_id (db_jobs (put_job job d)) = map j_id (db_jobs d)"
  by (auto simp: put_job_def update_row_def)

text \<open>
  C29: \<open>claim_next_torrent_job\<close> hands out exactly the best available job: if it returns a job, that
  job was queued, due, within its attempt budget, of an accepted type and not locked by another
  worker, no other such job comes before it in the (type priority, available time, creation time,
  id) order, it is now running under the caller with one more attempt (never above the budget), and
  no other row changed; if it returns none, nothing is claimable and the table is unchanged.
\<close>
theorem claim_next_torrent_job_spec:
  assumes "distinct (map j_id (db_jobs d))" "types \<noteq> Some []"
    and "claim_next_torrent_job locked w now ttl timeout types d = Inr (d', r)"
  shows "case r of
      None \<Rightarrow> d' = d \<and> (\<forall>k\<in>set (db_jobs d). claimable types now k \<longrightarrow> locked (j_id k))
    | Some job \<Rightarrow>
        \<exists>j\<in>set (db_jobs d). claimable types now j \<and> \<not> locked (j_id j)
          \<and> (\<forall>k\<in>set (db_jobs d). claimable types now k \<and> \<not> locked (j_id k)
               \<longrightarrow> claim_order j \<le> claim_order k)
          \<and> job = claimed_job w now ttl timeout j
          \<and> j_attempt_count job \<le> j_max_attempts job
          \<and> set (db_jobs d') = insert job (set (db_jobs d) - {j})"
  using assms(3)
proof (cases rule: claim_next_cases)
  case none
  then show ?thesis using assms(2) by (auto simp: filter_empty_conv)
next
  case (claimed j)
  have "set (db_jobs d') = insert (claimed_job w now ttl timeout j) (set (db_jobs d) - {j})"
    using put_job_lookup [OF assms(1) claimed(1), of "claimed_job w now ttl timeout j"] claimed(1)
      assms(1) by (auto simp: claimed(6) claimed_job_def distinct_map inj_on_def)
  moreover have "j_attempt_count (claimed_job w now ttl timeout j)
      \<le> j_max_attempts (claimed_job w now ttl timeout j)"
    using claimed(2) by (simp add: claimable_def claimed_job_def)
  ultimately show ?thesis using claimed by auto
qed

definition ex_jobs_db :: db where
  "ex_jobs_db = empty_db\<lparr>db_jobs :=
     [ex_job\<lparr>j_id := 61, j_job_type := ''SYNC_TORRENT''\<rparr>, ex_job\<lparr>j_id := 62, j_available_at := 2\<rparr>,
      ex_job\<lparr>j_id := 63, j_available_at := 1\<rparr>]\<rparr>"

theorem claim_next_torrent_job_spec_witness:
  "\<exists>d' job. claim_next_torrent_job (\<lambda>i. i = 63) ''w1'' 5 10 20 (Some [''ADD_TORRENT'', ''SYNC_TORRENT''])
       ex_jobs_db = Inr (d', Some job)
     \<and> j_id job = 62 \<and> j_attempt_count job = 1 \<and> j_attempt_count job \<le> j_max_attempts job"
proof -
  let ?run = "claim_next_torrent_job (\<lambda>i. i = 63) ''w1'' 5 10 20
    (Some [''ADD_TORRENT'', ''SYNC_TORRENT'']) ex_jobs_db"
  have "case ?run of Inr (d', Some job) \<Rightarrow> j_id job = 62 \<and> j_attempt_count job = 1 | _ \<Rightarrow> False"
    by code_simp
  then obtain d' job where run: "?run = Inr (d', Some job)" "j_id job = 62" "j_attempt_count job = 1"
    by (auto split: sum.splits option.splits)
  have "distinct (map j_id (db_jobs ex_jobs_db))" by code_simp
  from claim_next_torrent_job_spec [OF this _ run(1)] run show ?thesis by auto
qed

section \<open>Recovery\<close>

lemma foldl_put_job_ids [simp]: "map j_id (db_jobs (foldl (\<lambda>d j. put_job j d) d js)) = map j_id (db_jobs d)"
  by (induction js arbitrary: d) simp_all

lemma foldl_put_job_member:
  assumes "distinct (map j_id js)"
  shows "k \<in> set (db_jobs (foldl (\<lambda>d j. put_job j d) d js)) \<longleftrightarrow>
     (k \<in> set js \<and> j_id k \<in> j_id ` set (db_jobs d))
     \<or> (k \<in> set (db_jobs d) \<and> j_id k \<notin> j_id ` set js)"
  using assms
proof (induction js arbitrary: d)
  case (Cons j js)
  have ids: "j_id ` set (db_jobs (put_job j d)) = j_id ` set (db_jobs d)"
    by (metis list.set_map put_job_ids)
  have put: "k \<in> set (db_jobs (put_job j d)) \<longleftrightarrow>
      (k = j \<and> j_id j \<in> j_id ` set (db_jobs d)) \<or> (k \<in> set (db_jobs d) \<and> j_id k \<noteq> j_id j)"
    by (simp add: put_job_def in_update_row image_iff) metis
  show ?case
    using Cons ids put by (auto simp: image_iff)
qed simp

lemma recovered_job_identity [simp]:
  "j_id (recovered_job now delay j) = j_id j" "j_job_type (recovered_job now delay j) = j_job_type j"
  "j_managed_torrent_id (recovered_job now delay j) = j_managed_torrent_id j"
  "j_attempt_count (recovered_job now delay j) = j_attempt_count j"
  "j_max_attempts (recovered_job now delay j) = j_max_attempts j"
  by (simp_all add: recovered_job_def Let_def finish_job_def release_claim_def)

lemma recovered_job_not_running: "j_state (recovered_job now delay j) \<noteq> J_RUNNING"
  by (simp add: recovered_job_def Let_def finish_job_def release_claim_def)

text \<open>
  C30: Recovery of abandoned claims is complete and exact: when at most \<open>limit\<close> unlocked claims have
  expired, no unlocked expired claim is left, every recovered row is cancelled if cancellation was
  requested, failed if its attempts are used up and queued again otherwise, with the attempt counter
  unchanged, and every row whose claim is alive keeps its value.
\<close>
theorem recover_expired_torrent_jobs_complete:
  assumes "distinct (map j_id (db_jobs d))"
    and "recover_expired_torrent_jobs locked now delay limit d = Inr (d', recovered)"
    and "int (length (filter (\<lambda>j. expired_claim now j \<and> \<not> locked (j_id j)) (db_jobs d))) \<le> limit"
  shows "(\<forall>k\<in>set (db_jobs d'). expired_claim now k \<longrightarrow> locked (j_id k))
     \<and> (\<forall>j\<in>set (db_jobs d). if expired_claim now j \<and> \<not> locked (j_id j)
          then recovered_job now delay j \<in> set (db_jobs d')
             \<and> j_attempt_count (recovered_job now delay j) = j_attempt_count j
             \<and> j_state (recovered_job now delay j) =
                 (if j_cancel_requested_at j \<noteq> None then J_CANCELLED
                  else if j_attempt_count j \<ge> j_max_attempts j then J_FAILED else J_QUEUED)
          else j \<in> set (db_jobs d'))"
proof -
  let ?e = "filter (\<lambda>j. expired_claim now j \<and> \<not> locked (j_id j)) (db_jobs d)"
  let ?js = "map (recovered_job now delay) (sort_key recovery_order ?e)"
  have d': "d' = foldl (\<lambda>d j. put_job j d) d ?js"
    using assms(2,3) by (auto simp: recover_expired_torrent_jobs_def rbind_Inr_iff Let_def nat_le_iff)
  have js: "set ?js = recovered_job now delay ` set ?e" by simp
  have "distinct (map j_id (sort_key recovery_order ?e))"
    using assms(1) by (simp add: distinct_map inj_on_def)
  then have "distinct (map j_id ?js)" by (simp add: comp_def)
  note mem = foldl_put_job_member [OF this, of _ d, folded d', unfolded js]
  have inj: "j = k" if "j \<in> set (db_jobs d)" "k \<in> set (db_jobs d)" "j_id j = j_id k" for j k
    using assms(1) that by (auto simp: distinct_map inj_on_def)
  have rest: "locked (j_id k)" if k: "k \<in> set (db_jobs d')" and e: "expired_claim now k" for k
  proof -
    have "k \<notin> recovered_job now delay ` set ?e"
      using e recovered_job_not_running by (auto simp: expired_claim_def)
    then show ?thesis using mem [of k] k e by (force simp: image_iff)
  qed
  have again: "recovered_job now delay j \<in> set (db_jobs d')"
    if "j \<in> set (db_jobs d)" "expired_claim now j" "\<not> locked (j_id j)" for j
    using mem [of "recovered_job now delay j"] that by auto
  have same: "j \<in> set (db_jobs d')"
    if "j \<in> set (db_jobs d)" "\<not> (expired_claim now j \<and> \<not> locked (j_id j))" for j
  proof -
    have "j_id j \<noteq> j_id x" if "x \<in> set ?e" for x
      using inj [of j x] \<open>j \<in> set (db_jobs d)\<close> \<open>\<not> (expired_claim now j \<and> \<not> locked (j_id j))\<close> that
      by auto
    then have "j_id j \<notin> j_id ` recovered_job now delay ` set ?e"
      by (simp only: image_image recovered_job_identity) blast
    then show ?thesis using mem [of j] that(1) by blast
  qed
  have result: "j_state (recovered_job now delay j) =
      (if j_cancel_requested_at j \<noteq> None then J_CANCELLED
       else if j_attempt_count j \<ge> j_max_attempts j then J_FAILED else J_QUEUED)" for j
    by (simp add: recovered_job_def Let_def finish_job_def release_claim_def)
  show ?thesis
  proof (intro conjI ballI impI)
    fix j assume j: "j \<in> set (db_jobs d)"
    show "if expired_claim now j \<and> \<not> locked (j_id j)
        then recovered_job now delay j \<in> set (db_jobs d')
             \<and> j_attempt_count (recovered_job now delay j) = j_attempt_count j
             \<and> j_state (recovered_job now delay j) =
                 (if j_cancel_requested_at j \<noteq> None then J_CANCELLED
                  else if j_attempt_count j \<ge> j_max_attempts j then J_FAILED else J_QUEUED)
        else j \<in> set (db_jobs d')"
      using again [OF j] same [OF j] result [of j] recovered_job_identity(4) [of now delay j]
      by presburger
  qed (rule rest)
qed

definition ex_expired_db :: db where
  "ex_expired_db = empty_db\<lparr>db_jobs :=
     [(claimed_job ''w1'' 5 10 20 ex_job)\<lparr>j_id := 61\<rparr>,
      (claimed_job ''w2'' 12 10 20 ex_job)\<lparr>j_id := 62\<rparr>,
      (claimed_job ''w1'' 5 10 20 ex_job)\<lparr>j_id := 63, j_max_attempts := 1\<rparr>]\<rparr>"

theorem recover_expired_torrent_jobs_complete_witness:
  "\<exists>d' rec. recover_expired_torrent_jobs (\<lambda>_. False) 16 30 100 ex_expired_db = Inr (d', rec)
     \<and> map j_state rec = [J_QUEUED, J_FAILED] \<and> (\<forall>k\<in>set (db_jobs d'). \<not> expired_claim 16 k)"
proof -
  let ?run = "recover_expired_torrent_jobs (\<lambda>_. False) 16 30 100 ex_expired_db"
  have "case ?run of Inr (d', rec) \<Rightarrow> map j_state rec = [J_QUEUED, J_FAILED] | _ \<Rightarrow> False"
    by code_simp
  then obtain d' rec where run: "?run = Inr (d', rec)" "map j_state rec = [J_QUEUED, J_FAILED]"
    by (auto split: sum.splits)
  have "distinct (map j_id (db_jobs ex_expired_db))"
    "int (length (filter (\<lambda>j. expired_claim 16 j \<and> \<not> False) (db_jobs ex_expired_db))) \<le> 100"
    by code_simp+
  from recover_expired_torrent_jobs_complete [OF this(1) run(1) this(2)] run show ?thesis by auto
qed

end
