(* ===== verification/Worker.thy ===== *)
theory Worker
  imports Torrent_Jobs
begin

text \<open>
  The durable worker of \<open>backend/app/jobs/worker.py\<close>: snapshots of claimed jobs, the fencing check
  every later transaction of a task repeats, the heartbeat, the two ways a task ends, and claim
  recovery with the torrents it leaves behind. Each function is one transaction (an exception leaves
  the database as it was); what a handler did is its outcome, an argument. The asyncio loop around
  them (polling, wake-up signals, shutdown) decides only when they run.
\<close>

section \<open>Events\<close>

datatype torrent_event_type =
    EV_REQUESTED | EV_STARTED | EV_PAUSED | EV_STALLED | EV_RESUMED | EV_READY
  | EV_RETENTION_EXTENDED | EV_QUEUE_CHANGED | EV_FAILED | EV_CANCELLED | EV_EXPIRED

record torrent_event =
  ev_user :: uuid
  ev_type :: torrent_event_type
  ev_request :: uuid
  ev_at :: instant

definition event_for :: "torrent_event_type \<Rightarrow> instant \<Rightarrow> torrent_request \<Rightarrow> torrent_event" where
  "event_for ty now r = \<lparr>ev_user = r_user_id r, ev_type = ty, ev_request = r_id r, ev_at = now\<rparr>"

section \<open>Snapshots and configuration\<close>

record torrent_job_snapshot =
  sn_id :: uuid
  sn_managed_torrent_id :: uuid
  sn_torrent_request_id :: "uuid option"
  sn_job_type :: string
  sn_idempotency_key :: string
  sn_attempt_count :: int

definition snapshot_from_model :: "torrent_job \<Rightarrow> torrent_job_snapshot" where
  "snapshot_from_model job =
     \<lparr>sn_id = j_id job, sn_managed_torrent_id = j_managed_torrent_id job,
      sn_torrent_request_id = j_torrent_request_id job, sn_job_type = j_job_type job,
      sn_idempotency_key = j_idempotency_key job, sn_attempt_count = j_attempt_count job\<rparr>"

record torrent_worker_config =
  wc_concurrency :: int
  wc_poll_interval :: timedelta
  wc_claim_ttl :: timedelta
  wc_execution_timeout :: timedelta
  wc_recovery_interval :: timedelta
  wc_retry_base :: timedelta
  wc_retry_max :: timedelta
  wc_shutdown_grace :: timedelta

definition default_worker_config :: torrent_worker_config where
  "default_worker_config =
     \<lparr>wc_concurrency = 1, wc_poll_interval = seconds 5, wc_claim_ttl = seconds 60,
      wc_execution_timeout = seconds 600, wc_recovery_interval = seconds 30,
      wc_retry_base = seconds 30, wc_retry_max = hours 1, wc_shutdown_grace = seconds 30\<rparr>"

definition worker_config_post_init :: "torrent_worker_config \<Rightarrow> app_error + torrent_worker_config" where
  "worker_config_post_init c =
     rbind (require (1 \<le> wc_concurrency c \<and> wc_concurrency c \<le> 16)
              (Py (ValueError ''worker concurrency must be between 1 and 16''))) (\<lambda>_.
     rbind (require (\<not> list_ex (\<lambda>t. t \<le> 0)
                [wc_poll_interval c, wc_claim_ttl c, wc_execution_timeout c,
                 wc_recovery_interval c, wc_retry_base c, wc_retry_max c, wc_shutdown_grace c])
              (Py (ValueError ''worker durations must be positive''))) (\<lambda>_.
     rbind (require (wc_claim_ttl c \<le> wc_execution_timeout c)
              (Py (ValueError ''claim_ttl cannot exceed execution_timeout''))) (\<lambda>_.
     rbind (require (wc_retry_base c \<le> wc_retry_max c)
              (Py (ValueError ''retry_base cannot exceed retry_max''))) (\<lambda>_.
     Inr c))))"

definition ADD_JOB_TYPE :: string where
  "ADD_JOB_TYPE = ''ADD_TORRENT''"

definition WAITING_RETRY_BUDGET :: timedelta where
  "WAITING_RETRY_BUDGET = hours (7 * 24)"

definition WAITING_RETRY_CAP :: timedelta where
  "WAITING_RETRY_CAP = seconds (10 * 60)"

section \<open>Ownership\<close>

definition owned_job :: "string \<Rightarrow> torrent_job_snapshot \<Rightarrow> db \<Rightarrow> app_error + torrent_job" where
  "owned_job worker_id snapshot d =
     (case find_row j_id (sn_id snapshot) (db_jobs d) of
        None \<Rightarrow> Inl (TorrentJobClaimLostError ''worker no longer owns the job'')
      | Some job \<Rightarrow>
          if j_state job \<noteq> J_RUNNING \<or> j_claimed_by job \<noteq> Some worker_id
             \<or> j_attempt_count job \<noteq> sn_attempt_count snapshot
          then Inl (TorrentJobClaimLostError ''worker no longer owns the job'')
          else Inr job)"

definition heartbeat_once ::
  "torrent_worker_config \<Rightarrow> string \<Rightarrow> torrent_job_snapshot \<Rightarrow> instant \<Rightarrow> db \<Rightarrow> app_error + db" where
  "heartbeat_once cfg worker_id snapshot now d =
     (case rbind (owned_job worker_id snapshot d) (\<lambda>job.
             renew_torrent_job_claim job worker_id now (wc_claim_ttl cfg)) of
        Inr job \<Rightarrow> Inr (put_job job d)
      | Inl (TorrentJobTransitionError _) \<Rightarrow>
          Inl (TorrentJobClaimLostError ''claim could not be renewed'')
      | Inl e \<Rightarrow> Inl e)"

section \<open>Ending a task\<close>

definition finish_success ::
  "string \<Rightarrow> torrent_job_snapshot \<Rightarrow> instant \<Rightarrow> db \<Rightarrow> app_error + db" where
  "finish_success worker_id snapshot now d =
     rbind (owned_job worker_id snapshot d) (\<lambda>job.
     rbind (if j_cancel_requested_at job \<noteq> None
            then cancel_claimed_torrent_job job worker_id now
            else complete_torrent_job job worker_id now) (\<lambda>job'.
     Inr (put_job job' d)))"

definition RETRY_BASE_OPTION :: string where
  "RETRY_BASE_OPTION = ''WOS_TORRENT_RETRY_BASE_SECONDS''"

definition integer_option_value :: "string \<Rightarrow> db \<Rightarrow> int option" where
  "integer_option_value key d =
     Option.bind (find_row o_key key (db_options d)) o_integer_value"

definition retry_base_seconds :: "torrent_worker_config \<Rightarrow> db \<Rightarrow> rat" where
  "retry_base_seconds cfg d =
     (case integer_option_value RETRY_BASE_OPTION d of
        Some v \<Rightarrow> if 1 \<le> v \<and> v \<le> 3600 then of_int v else total_seconds (wc_retry_base cfg)
      | None \<Rightarrow> total_seconds (wc_retry_base cfg))"

definition retried_job ::
  "(rat \<Rightarrow> rat \<Rightarrow> rat) \<Rightarrow> torrent_worker_config \<Rightarrow> string \<Rightarrow> torrent_job_snapshot \<Rightarrow> instant \<Rightarrow> string
     \<Rightarrow> bool \<Rightarrow> db \<Rightarrow> torrent_job \<Rightarrow> app_error + torrent_job" where
  "retried_job jitter cfg worker_id snapshot now error_code waiting d job =
     (let base = retry_base_seconds cfg d;
          maximum = max base (total_seconds (wc_retry_max cfg));
          age = total_seconds (now - j_created_at job)
      in if waiting \<and> age < total_seconds WAITING_RETRY_BUDGET
         then
           (let upper = max base (min (total_seconds WAITING_RETRY_CAP) (age / 4));
                delay = jitter base upper
            in retry_torrent_job (give_back_attempt job) worker_id now
                 (now + timedelta_of_seconds delay) error_code)
         else
           (let upper = min maximum (base * 2 ^ nat (max 0 (sn_attempt_count snapshot - 1)));
                delay = jitter base upper
            in retry_torrent_job job worker_id now (now + timedelta_of_seconds delay) error_code))"

definition settled_job ::
  "(rat \<Rightarrow> rat \<Rightarrow> rat) \<Rightarrow> torrent_worker_config \<Rightarrow> string \<Rightarrow> torrent_job_snapshot \<Rightarrow> instant \<Rightarrow> string
     \<Rightarrow> bool \<Rightarrow> bool \<Rightarrow> db \<Rightarrow> torrent_job \<Rightarrow> app_error + torrent_job" where
  "settled_job jitter cfg worker_id snapshot now error_code permanent waiting d job =
     (if j_cancel_requested_at job \<noteq> None then cancel_claimed_torrent_job job worker_id now
      else if permanent then fail_torrent_job job worker_id now error_code
      else retried_job jitter cfg worker_id snapshot now error_code waiting d job)"

definition put_torrent :: "managed_torrent \<Rightarrow> db \<Rightarrow> db" where
  "put_torrent t d = d\<lparr>db_torrents := update_row t_id (t_id t) (\<lambda>_. t) (db_torrents d)\<rparr>"

definition failed_add_state :: "managed_torrent_state \<Rightarrow> bool" where
  "failed_add_state s = (s \<in> {PENDING, ADDING, RETRY_WAIT})"

definition torrent_requests_in ::
  "(torrent_request_state \<Rightarrow> bool) \<Rightarrow> uuid \<Rightarrow> db \<Rightarrow> torrent_request list" where
  "torrent_requests_in P torrent_id d =
     filter (\<lambda>r. r_managed_torrent_id r = torrent_id \<and> P (r_state r)) (db_requests d)"

definition settle_torrent ::
  "managed_torrent_state option \<Rightarrow> instant \<Rightarrow> torrent_job \<Rightarrow> managed_torrent \<Rightarrow> db
     \<Rightarrow> app_error + db \<times> torrent_event list \<times> bool" where
  "settle_torrent torrent_state now job managed d =
     (let was_ranked = is_ranked_queue_member d managed now in
      rbind (if j_state job = J_FAILED
             then Inr (managed\<lparr>t_state := ERROR, t_retry_at := None\<rparr>)
             else (case torrent_state of
                     None \<Rightarrow> Inl (Py AssertionError)
                   | Some s \<Rightarrow> Inr (managed\<lparr>t_state := s, t_retry_at := Some (j_available_at job)\<rparr>)))
        (\<lambda>managed1.
      let managed' = managed1\<lparr>t_updated_at := now\<rparr>;
          d' = put_torrent managed' d;
          events = (if j_state job = J_FAILED
                    then map (event_for EV_FAILED now)
                           (torrent_requests_in active_request_state (t_id managed') d')
                    else [])
      in Inr (d', events, was_ranked \<noteq> is_ranked_queue_member d' managed' now)))"

definition finish_failure ::
  "(rat \<Rightarrow> rat \<Rightarrow> rat) \<Rightarrow> torrent_worker_config \<Rightarrow> string \<Rightarrow> torrent_job_snapshot \<Rightarrow> string \<Rightarrow> bool
     \<Rightarrow> managed_torrent_state option \<Rightarrow> bool \<Rightarrow> instant \<Rightarrow> db
     \<Rightarrow> app_error + db \<times> torrent_event list \<times> bool" where
  "finish_failure jitter cfg worker_id snapshot error_code permanent torrent_state waiting now d =
     (let managed = (if torrent_state \<noteq> None \<or> sn_job_type snapshot = ADD_JOB_TYPE
                     then find_row t_id (sn_managed_torrent_id snapshot) (db_torrents d) else None)
      in rbind (owned_job worker_id snapshot d) (\<lambda>job.
         rbind (settled_job jitter cfg worker_id snapshot now error_code permanent waiting d job)
           (\<lambda>job'.
         let d1 = put_job job' d in
         case managed of
           None \<Rightarrow> Inr (d1, [], False)
         | Some t \<Rightarrow>
             if j_state job' \<noteq> J_CANCELLED
                \<and> (torrent_state \<noteq> None \<or> j_state job' = J_FAILED)
                \<and> (torrent_state \<noteq> None \<or> failed_add_state (t_state t))
             then settle_torrent torrent_state now job' t d1
             else Inr (d1, [], False))))"

text \<open>
  The end of a task whose heartbeat did not fail, by the outcome of its handler. A lost claim or
  a refused transition is logged and the row is left to recovery.
\<close>

datatype handler_outcome =
    HandlerReturned
  | HandlerTransient string "managed_torrent_state option" bool
  | HandlerPermanent string "managed_torrent_state option"
  | HandlerUnexpected

definition settle_claimed_job ::
  "(rat \<Rightarrow> rat \<Rightarrow> rat) \<Rightarrow> torrent_worker_config \<Rightarrow> string \<Rightarrow> torrent_job_snapshot \<Rightarrow> handler_outcome
     \<Rightarrow> instant \<Rightarrow> db \<Rightarrow> app_error + db \<times> torrent_event list \<times> bool" where
  "settle_claimed_job jitter cfg worker_id snapshot outcome now d =
     (let result =
        (case outcome of
           HandlerReturned \<Rightarrow>
             rbind (finish_success worker_id snapshot now d) (\<lambda>d'. Inr (d', [], False))
         | HandlerTransient code state waiting \<Rightarrow>
             finish_failure jitter cfg worker_id snapshot code False state waiting now d
         | HandlerPermanent code state \<Rightarrow>
             finish_failure jitter cfg worker_id snapshot code True state False now d
         | HandlerUnexpected \<Rightarrow>
             finish_failure jitter cfg worker_id snapshot ''worker_unexpected_error'' False None
               False now d)
      in case result of
           Inl (TorrentJobClaimLostError _) \<Rightarrow> Inr (d, [], False)
         | Inl (TorrentJobTransitionError _) \<Rightarrow> Inr (d, [], False)
         | _ \<Rightarrow> result)"

section \<open>Recovery\<close>

definition dict_fromkeys :: "'a list \<Rightarrow> 'a list" where
  "dict_fromkeys xs = rev (remdups (rev xs))"

definition active_add_job :: "uuid \<Rightarrow> torrent_job \<Rightarrow> bool" where
  "active_add_job torrent_id j =
     (j_managed_torrent_id j = torrent_id \<and> j_job_type j = ADD_JOB_TYPE
      \<and> active_job_state (j_state j))"

definition fail_abandoned_torrent ::
  "instant \<Rightarrow> db \<times> torrent_event list \<times> bool \<Rightarrow> uuid \<Rightarrow> db \<times> torrent_event list \<times> bool" where
  "fail_abandoned_torrent now acc torrent_id =
     (let (d, events, changed) = acc in
      case find_row t_id torrent_id (db_torrents d) of
        None \<Rightarrow> acc
      | Some managed \<Rightarrow>
          if \<not> failed_add_state (t_state managed) then acc
          else if list_ex (active_add_job torrent_id) (db_jobs d) then acc
          else
            (let was_ranked = is_ranked_queue_member d managed now;
                 managed' = managed\<lparr>t_state := ERROR, t_retry_at := None, t_updated_at := now\<rparr>;
                 d' = put_torrent managed' d
             in (d', events @ map (event_for EV_FAILED now)
                       (torrent_requests_in active_request_state torrent_id d'),
                 changed \<or> was_ranked \<noteq> is_ranked_queue_member d' managed' now)))"

definition fail_abandoned_add_torrents ::
  "uuid list \<Rightarrow> instant \<Rightarrow> db \<Rightarrow> db \<times> torrent_event list \<times> bool" where
  "fail_abandoned_add_torrents torrent_ids now d =
     foldl (fail_abandoned_torrent now) (d, [], False) (dict_fromkeys torrent_ids)"

definition recovery_due :: "torrent_worker_config \<Rightarrow> bool \<Rightarrow> instant option \<Rightarrow> instant \<Rightarrow> bool" where
  "recovery_due cfg force last_recovery now =
     (force \<or> (case last_recovery of
                 None \<Rightarrow> True | Some t \<Rightarrow> \<not> now - t < wc_recovery_interval cfg))"

definition recover_if_due ::
  "(uuid \<Rightarrow> bool) \<Rightarrow> torrent_worker_config \<Rightarrow> bool \<Rightarrow> instant option \<Rightarrow> instant \<Rightarrow> db
     \<Rightarrow> app_error + db \<times> torrent_event list \<times> bool" where
  "recover_if_due locked cfg force last_recovery now d =
     (if \<not> recovery_due cfg force last_recovery now then Inr (d, [], False)
      else
        rbind (recover_expired_torrent_jobs locked now (wc_retry_base cfg) 100 d) (\<lambda>(d1, recovered).
        let abandoned = map j_managed_torrent_id
              (filter (\<lambda>j. j_state j = J_FAILED \<and> j_job_type j = ADD_JOB_TYPE) recovered)
        in Inr (if abandoned \<noteq> [] then fail_abandoned_add_torrents abandoned now d1
                else (d1, [], False))))"

definition claim_one ::
  "(uuid \<Rightarrow> bool) \<Rightarrow> torrent_worker_config \<Rightarrow> string \<Rightarrow> string list \<Rightarrow> instant \<Rightarrow> db
     \<Rightarrow> app_error + db \<times> torrent_job option" where
  "claim_one locked cfg worker_id handlers now d =
     (if handlers = [] then Inr (d, None)
      else claim_next_torrent_job locked worker_id now (wc_claim_ttl cfg)
             (wc_execution_timeout cfg) (Some handlers) d)"

section \<open>Fencing\<close>

text \<open>
  The state of the worker fleet: the database and the tasks that are alive, each with the worker it
  runs in and the snapshot of its claim. A step is one transaction of a worker, or a write of
  another component to the job table; a task disappears when it settles, and may disappear at any
  time (a crash, a lost heartbeat).
\<close>

type_synonym task = "string \<times> torrent_job_snapshot"

record fleet =
  fl_db :: db
  fl_tasks :: "task list"

inductive fleet_step :: "fleet \<Rightarrow> fleet \<Rightarrow> bool" where
  fleet_claim: "claim_one locked cfg w handlers now (fl_db f) = Inr (d', Some job) \<Longrightarrow>
     fleet_step f \<lparr>fl_db = d', fl_tasks = (w, snapshot_from_model job) # fl_tasks f\<rparr>"
| fleet_heartbeat: "(w, s) \<in> set (fl_tasks f) \<Longrightarrow> heartbeat_once cfg w s now (fl_db f) = Inr d' \<Longrightarrow>
     fleet_step f (f\<lparr>fl_db := d'\<rparr>)"
| fleet_settle: "fl_tasks f = xs @ (w, s) # ys \<Longrightarrow>
     settle_claimed_job jitter cfg w s outcome now (fl_db f) = Inr (d', events, changed) \<Longrightarrow>
     fleet_step f \<lparr>fl_db = d', fl_tasks = xs @ ys\<rparr>"
| fleet_lost: "fl_tasks f = xs @ (w, s) # ys \<Longrightarrow> fleet_step f (f\<lparr>fl_tasks := xs @ ys\<rparr>)"
| fleet_recover: "recover_if_due locked cfg force since now (fl_db f) = Inr (d', events, changed) \<Longrightarrow>
     fleet_step f (f\<lparr>fl_db := d'\<rparr>)"
| fleet_cancel: "fleet_step f (f\<lparr>fl_db := fst (request_torrent_job_cancellation i now (fl_db f))\<rparr>)"
| fleet_take_over: "j \<in> set (db_jobs (fl_db f)) \<Longrightarrow> active_job_state (j_state j) \<Longrightarrow>
     fleet_step f (f\<lparr>fl_db := put_job (cancel_active_job now j) (fl_db f)\<rparr>)"
| fleet_new_job: "job_init j \<Longrightarrow> j_id j \<notin> j_id ` set (db_jobs (fl_db f)) \<Longrightarrow>
     (\<forall>(w, s)\<in>set (fl_tasks f). sn_id s \<noteq> j_id j) \<Longrightarrow>
     fleet_step f (f\<lparr>fl_db := (fl_db f)\<lparr>db_jobs := db_jobs (fl_db f) @ [j]\<rparr>\<rparr>)"
| fleet_delete: "fleet_step f (f\<lparr>fl_db := (fl_db f)\<lparr>db_jobs := filter P (db_jobs (fl_db f))\<rparr>\<rparr>)"
| fleet_other: "db_jobs d' = db_jobs (fl_db f) \<Longrightarrow> fleet_step f (f\<lparr>fl_db := d'\<rparr>)"

inductive_cases fleet_stepE: "fleet_step f f'"

definition fleet_init :: "fleet \<Rightarrow> bool" where
  "fleet_init f \<longleftrightarrow> fl_tasks f = [] \<and> db_jobs (fl_db f) = []"

text \<open>
  The number of attempts a row has finished or given back: claims below or at it are stale. A
  waiting retry lowers the counter of a row, never this floor.
\<close>

definition job_floor :: "torrent_job \<Rightarrow> int" where
  "job_floor j = (if j_state j = J_RUNNING then j_attempt_count j - 1 else j_attempt_count j)"

definition above_floor :: "torrent_job \<Rightarrow> task \<Rightarrow> bool" where
  "above_floor j t = (sn_id (snd t) = j_id j \<and> job_floor j < sn_attempt_count (snd t))"

definition fenced :: "task list \<Rightarrow> torrent_job \<Rightarrow> bool" where
  "fenced tasks j \<longleftrightarrow>
     list_all (\<lambda>(w, s). sn_id s = j_id j \<longrightarrow> sn_attempt_count s \<le> j_attempt_count j) tasks
     \<and> length (filter (above_floor j) tasks) \<le> 1"

definition fleet_ok :: "fleet \<Rightarrow> bool" where
  "fleet_ok f \<longleftrightarrow>
     distinct (map j_id (db_jobs (fl_db f))) \<and> list_all job_ok (db_jobs (fl_db f))
     \<and> list_all (fenced (fl_tasks f)) (db_jobs (fl_db f))"

lemma fenced_remove: "fenced (xs @ t # ys) j \<Longrightarrow> fenced (xs @ ys) j"
  by (auto simp: fenced_def split: if_splits)

lemma fenced_raised_floor:
  assumes "fenced tasks j" "j_id j' = j_id j" "j_attempt_count j \<le> job_floor j'"
  shows "fenced tasks j'"
proof -
  have "filter (above_floor j') tasks = []"
    using assms by (fastforce simp: filter_empty_conv fenced_def above_floor_def list_all_iff)
  moreover have "j_attempt_count j \<le> j_attempt_count j'"
    using assms(3) by (simp add: job_floor_def split: if_splits)
  ultimately show ?thesis
    using assms by (fastforce simp: fenced_def list_all_iff)
qed

lemma fenced_same:
  assumes "fenced tasks j" "j_id j' = j_id j" "j_attempt_count j' = j_attempt_count j"
    "job_floor j \<le> job_floor j'"
  shows "fenced tasks j'"
proof -
  have "length (filter (above_floor j') tasks) \<le> length (filter (above_floor j) tasks)"
    using assms(2,4) by (induction tasks) (auto simp: above_floor_def)
  with assms show ?thesis by (auto simp: fenced_def)
qed

text \<open>The owner of a running row is the only task above its floor: without it all are stale.\<close>

lemma fenced_owner_leaves:
  assumes "fenced (xs @ (w, s) # ys) j" "sn_id s = j_id j" "job_floor j < sn_attempt_count s"
    and "j_id j' = j_id j" "job_floor j \<le> job_floor j'" "job_floor j' \<le> j_attempt_count j'"
  shows "fenced (xs @ ys) j'"
proof -
  have "filter (above_floor j) (xs @ ys) = []"
    using assms(1-3) by (auto simp: fenced_def above_floor_def)
  then have none: "\<forall>t\<in>set (xs @ ys). \<not> above_floor j t"
    by (simp only: filter_empty_conv)
  have le: "sn_attempt_count (snd t) \<le> job_floor j'"
    if "t \<in> set (xs @ ys)" "sn_id (snd t) = j_id j'" for t
    using bspec [OF none that(1)] that(2) assms(4,5) by (simp add: above_floor_def)
  have "filter (above_floor j') (xs @ ys) = []"
    unfolding filter_empty_conv above_floor_def using le by (meson not_le)
  moreover have "list_all (\<lambda>(w, s). sn_id s = j_id j' \<longrightarrow> sn_attempt_count s \<le> j_attempt_count j') (xs @ ys)"
    unfolding list_all_iff case_prod_beta using le assms(6) order_trans by blast
  ultimately show ?thesis by (simp add: fenced_def)
qed

lemma fenced_claimed:
  assumes "fenced tasks j" "j_state j = J_QUEUED"
  shows "fenced ((w, snapshot_from_model (claimed_job w' now ttl timeout j)) # tasks)
     (claimed_job w' now ttl timeout j)"
proof -
  let ?j = "claimed_job w' now ttl timeout j"
  have fl: "job_floor ?j = j_attempt_count j" "j_id ?j = j_id j"
    "j_attempt_count ?j = j_attempt_count j + 1"
    by (simp_all add: job_floor_def claimed_job_def)
  have stale: "list_all (\<lambda>(w, s). sn_id s = j_id j \<longrightarrow> sn_attempt_count s \<le> j_attempt_count j) tasks"
    using assms by (simp add: fenced_def)
  then have "filter (above_floor ?j) tasks = []"
    by (fastforce simp: filter_empty_conv above_floor_def fl list_all_iff)
  with stale show ?thesis
    by (auto simp: fenced_def fl snapshot_from_model_def list_all_iff)
qed

lemma fenced_other_task: "fenced tasks j \<Longrightarrow> sn_id s \<noteq> j_id j \<Longrightarrow> fenced ((w, s) # tasks) j"
  by (simp add: fenced_def above_floor_def)

text \<open>Replacing one row keeps the invariant when the new row satisfies it.\<close>

lemma fleet_ok_put:
  assumes "distinct (map j_id (db_jobs d))" "j \<in> set (db_jobs d)" "j_id job = j_id j"
    and "job_ok job" "fenced tasks job"
    and "\<And>k. k \<in> set (db_jobs d) \<Longrightarrow> k \<noteq> j \<Longrightarrow> job_ok k \<and> fenced tasks k"
  shows "fleet_ok \<lparr>fl_db = put_job job d, fl_tasks = tasks\<rparr>"
proof -
  have "job_ok k \<and> fenced tasks k" if "k \<in> set (db_jobs (put_job job d))" for k
    using that assms put_job_lookup [OF assms(1-3), of k] by auto
  then show ?thesis using assms(1) by (simp add: fleet_ok_def list_all_iff)
qed

lemma owned_job_Inr:
  "owned_job w s d = Inr j \<longleftrightarrow>
     find_row j_id (sn_id s) (db_jobs d) = Some j \<and> j_state j = J_RUNNING
     \<and> j_claimed_by j = Some w \<and> j_attempt_count j = sn_attempt_count s"
  by (auto simp: owned_job_def split: option.splits)

definition settles :: "torrent_job \<Rightarrow> torrent_job \<Rightarrow> bool" where
  "settles j j' \<longleftrightarrow>
     job_ok j' \<and> j_id j' = j_id j \<and> j_state j' \<noteq> J_RUNNING
     \<and> j_attempt_count j - 1 \<le> j_attempt_count j'"

lemma settles_complete: "job_ok j \<Longrightarrow> complete_torrent_job j w now = Inr j' \<Longrightarrow> settles j j'"
  unfolding settles_def using job_ok_complete [of j w now j']
  by (auto simp: complete_torrent_job_def rbind_Inr_iff split: if_splits)

lemma settles_cancel_claimed:
  "job_ok j \<Longrightarrow> cancel_claimed_torrent_job j w now = Inr j' \<Longrightarrow> settles j j'"
  unfolding settles_def using job_ok_cancel_claimed [of j w now j']
  by (auto simp: cancel_claimed_torrent_job_def rbind_Inr_iff)

lemma settles_fail: "job_ok j \<Longrightarrow> fail_torrent_job j w now code = Inr j' \<Longrightarrow> settles j j'"
  unfolding settles_def using job_ok_fail [of j w now code j']
  by (auto simp: fail_torrent_job_def rbind_Inr_iff)

lemma settles_retry:
  "job_ok j \<Longrightarrow> retry_torrent_job j w now av code = Inr j' \<Longrightarrow> settles j j'"
  unfolding settles_def using job_ok_retry [of j w now av code j']
  by (auto simp: retry_torrent_job_def rbind_Inr_iff Let_def split: if_splits)

lemmas settles_finish = settles_complete settles_cancel_claimed settles_fail

lemma settles_wait:
  "job_ok j \<Longrightarrow> retry_torrent_job (give_back_attempt j) w now av code = Inr j' \<Longrightarrow> settles j j'"
  using job_ok_wait [of j w now av code j'] wait_result [of j w now av code j']
  by (simp add: settles_def)

lemma settled_job_settles:
  "job_ok j \<Longrightarrow> settled_job jitter cfg w s now code permanent waiting d j = Inr j' \<Longrightarrow> settles j j'"
  by (auto simp: settled_job_def retried_job_def Let_def split: if_splits
      intro: settles_finish settles_retry settles_wait)

lemma settle_torrent_jobs:
  "settle_torrent ts now j t d = Inr (d', ev, ch) \<Longrightarrow> db_jobs d' = db_jobs d"
  by (auto simp: settle_torrent_def Let_def rbind_Inr_iff put_torrent_def split: if_splits)

lemma finish_success_cases:
  assumes "finish_success w s now d = Inr d'"
  obtains j j' where "owned_job w s d = Inr j" "d' = put_job j' d"
    "complete_torrent_job j w now = Inr j' \<or> cancel_claimed_torrent_job j w now = Inr j'"
  using assms by (auto simp: finish_success_def rbind_Inr_iff split: if_splits)

lemma finish_failure_cases:
  assumes "finish_failure jitter cfg w s code permanent ts waiting now d = Inr (d', ev, ch)"
  obtains j j' where "owned_job w s d = Inr j" "db_jobs d' = db_jobs (put_job j' d)"
    "settled_job jitter cfg w s now code permanent waiting d j = Inr j'"
  using assms
  by (auto simp: finish_failure_def Let_def rbind_Inr_iff dest: settle_torrent_jobs
      split: option.splits if_splits)

lemma settle_claimed_job_cases:
  assumes "settle_claimed_job jitter cfg w s outcome now d = Inr (d', ev, ch)"
    and "list_all job_ok (db_jobs d)"
  shows "db_jobs d' = db_jobs d \<or>
     (\<exists>j j'. owned_job w s d = Inr j \<and> settles j j' \<and> db_jobs d' = db_jobs (put_job j' d))"
proof (cases "db_jobs d' = db_jobs d")
  case False
  have ok: "job_ok j" if "owned_job w s d = Inr j" for j
    using that assms(2) by (auto simp: owned_job_Inr list_all_iff dest: find_row_SomeD)
  consider "finish_success w s now d = Inr d'"
    | code permanent ts waiting where
        "finish_failure jitter cfg w s code permanent ts waiting now d = Inr (d', ev, ch)"
    using assms(1) False
    by (auto simp: settle_claimed_job_def Let_def rbind_Inr_iff
        split: handler_outcome.splits sum.splits app_error.splits)
  then have "\<exists>j j'. owned_job w s d = Inr j \<and> settles j j' \<and> db_jobs d' = db_jobs (put_job j' d)"
  proof cases
    case 1
    then show ?thesis by (rule finish_success_cases) (use ok settles_finish in blast)
  next
    case 2
    then show ?thesis by (rule finish_failure_cases) (use ok settled_job_settles in blast)
  qed
  then show ?thesis by blast
qed simp

lemma fleet_ok_jobs:
  "db_jobs d' = db_jobs d \<Longrightarrow> fleet_ok \<lparr>fl_db = d', fl_tasks = ts\<rparr> = fleet_ok \<lparr>fl_db = d, fl_tasks = ts\<rparr>"
  by (simp add: fleet_ok_def)

lemma fleet_ok_lost:
  "fleet_ok \<lparr>fl_db = d, fl_tasks = xs @ t # ys\<rparr> \<Longrightarrow> fleet_ok \<lparr>fl_db = d, fl_tasks = xs @ ys\<rparr>"
  by (auto simp: fleet_ok_def list_all_iff intro: fenced_remove)

lemma fleet_ok_settle:
  assumes ok: "fleet_ok \<lparr>fl_db = d, fl_tasks = xs @ (w, s) # ys\<rparr>"
    and run: "settle_claimed_job jitter cfg w s outcome now d = Inr (d', ev, ch)"
  shows "fleet_ok \<lparr>fl_db = d', fl_tasks = xs @ ys\<rparr>"
proof -
  have jobs: "list_all job_ok (db_jobs d)" and dist: "distinct (map j_id (db_jobs d))"
    and fenced: "\<And>k. k \<in> set (db_jobs d) \<Longrightarrow> fenced (xs @ (w, s) # ys) k"
    using ok by (auto simp: fleet_ok_def list_all_iff)
  from settle_claimed_job_cases [OF run jobs] consider "db_jobs d' = db_jobs d"
    | j j' where "owned_job w s d = Inr j" "settles j j'" "db_jobs d' = db_jobs (put_job j' d)"
    by blast
  then show ?thesis
  proof cases
    case 1
    then show ?thesis using fleet_ok_jobs fleet_ok_lost [OF ok] by blast
  next
    case (2 j j')
    have j: "j \<in> set (db_jobs d)" "j_id j = sn_id s" "j_state j = J_RUNNING"
      "sn_attempt_count s = j_attempt_count j"
      using 2(1) by (auto simp: owned_job_Inr dest: find_row_SomeD)
    have "fenced (xs @ ys) j'"
      by (rule fenced_owner_leaves [OF fenced [OF j(1)]])
        (use 2(2) j in \<open>auto simp: settles_def job_floor_def\<close>)
    then have "fleet_ok \<lparr>fl_db = put_job j' d, fl_tasks = xs @ ys\<rparr>"
      using 2(2) jobs fenced
      by (intro fleet_ok_put [OF dist j(1)])
        (auto simp: settles_def list_all_iff intro: fenced_remove)
    then show ?thesis using fleet_ok_jobs [OF 2(3)] by simp
  qed
qed

lemma fleet_ok_row_step:
  assumes ok: "fleet_ok \<lparr>fl_db = d, fl_tasks = ts\<rparr>" and j: "j \<in> set (db_jobs d)"
    and "j_id j' = j_id j" "job_ok j'" "j_attempt_count j' = j_attempt_count j"
    "job_floor j \<le> job_floor j'"
  shows "fleet_ok \<lparr>fl_db = put_job j' d, fl_tasks = ts\<rparr>"
proof -
  have all: "distinct (map j_id (db_jobs d))" "\<And>k. k \<in> set (db_jobs d) \<Longrightarrow> job_ok k \<and> fenced ts k"
    using ok by (auto simp: fleet_ok_def list_all_iff)
  have "fenced ts j'"
    by (rule fenced_same [OF conjunct2 [OF all(2) [OF j]] assms(3,5,6)])
  then show ?thesis by (rule fleet_ok_put [OF all(1) j assms(3,4)]) (rule all(2))
qed

lemma fleet_ok_heartbeat:
  assumes ok: "fleet_ok \<lparr>fl_db = d, fl_tasks = ts\<rparr>" and run: "heartbeat_once cfg w s now d = Inr d'"
  shows "fleet_ok \<lparr>fl_db = d', fl_tasks = ts\<rparr>"
proof -
  from run obtain j j' where own: "owned_job w s d = Inr j"
    and renew: "renew_torrent_job_claim j w now (wc_claim_ttl cfg) = Inr j'" and d': "d' = put_job j' d"
    by (auto simp: heartbeat_once_def rbind_Inr_iff split: sum.splits app_error.splits)
  have j: "j \<in> set (db_jobs d)" using own by (auto simp: owned_job_Inr dest: find_row_SomeD)
  have "job_ok j'" using ok j job_ok_renew [OF _ renew] by (auto simp: fleet_ok_def list_all_iff)
  moreover have "j_id j' = j_id j" "j_attempt_count j' = j_attempt_count j" "j_state j' = j_state j"
    using renew by (auto simp: renew_torrent_job_claim_def rbind_Inr_iff split: option.splits)
  ultimately show ?thesis
    unfolding d' by (intro fleet_ok_row_step [OF ok j]) (simp_all add: job_floor_def)
qed

lemma fleet_ok_claim:
  assumes ok: "fleet_ok \<lparr>fl_db = d, fl_tasks = ts\<rparr>"
    and run: "claim_one locked cfg w handlers now d = Inr (d', Some job)"
  shows "fleet_ok \<lparr>fl_db = d', fl_tasks = (w, snapshot_from_model job) # ts\<rparr>"
proof -
  have "claim_next_torrent_job locked w now (wc_claim_ttl cfg) (wc_execution_timeout cfg)
      (Some handlers) d = Inr (d', Some job)"
    using run by (auto simp: claim_one_def split: if_splits)
  then obtain j where j: "j \<in> set (db_jobs d)" "claimable (Some handlers) now j"
    and job: "job = claimed_job w now (wc_claim_ttl cfg) (wc_execution_timeout cfg) j"
    and d': "d' = put_job job d"
    by (cases rule: claim_next_cases) auto
  have f: "fenced ts j" "job_ok j" using ok j by (auto simp: fleet_ok_def list_all_iff)
  have q: "j_state j = J_QUEUED" using j(2) by (simp add: claimable_def)
  have ids: "j_id job = j_id j" "sn_id (snapshot_from_model job) = j_id j"
    by (simp_all add: job claimed_job_def snapshot_from_model_def)
  have dist: "distinct (map j_id (db_jobs d))" using ok by (simp add: fleet_ok_def)
  show ?thesis unfolding d'
  proof (rule fleet_ok_put [OF dist j(1) ids(1)])
    show "job_ok job" unfolding job by (rule job_ok_claimed [OF f(2) j(2)])
    show "fenced ((w, snapshot_from_model job) # ts) job"
      unfolding job by (rule fenced_claimed [OF f(1) q])
    show "job_ok k \<and> fenced ((w, snapshot_from_model job) # ts) k"
      if k: "k \<in> set (db_jobs d)" "k \<noteq> j" for k
    proof -
      have "j_id k \<noteq> j_id j" using dist j(1) k by (auto simp: distinct_map inj_on_def)
      then show ?thesis
        using ok k ids by (auto simp: fleet_ok_def list_all_iff intro: fenced_other_task)
    qed
  qed
qed

lemma fail_abandoned_jobs:
  "db_jobs (fst (foldl (fail_abandoned_torrent now) acc ids)) = db_jobs (fst acc)"
proof (induction ids arbitrary: acc)
  case (Cons i ids)
  have "db_jobs (fst (fail_abandoned_torrent now acc i)) = db_jobs (fst acc)"
    by (auto simp: fail_abandoned_torrent_def Let_def put_torrent_def split: prod.splits option.splits)
  with Cons show ?case by simp
qed simp

lemma fleet_ok_recovered:
  assumes "fleet_ok \<lparr>fl_db = d, fl_tasks = ts\<rparr>"
    and "\<And>j. j \<in> set js \<Longrightarrow> j \<in> set (db_jobs d) \<and> expired_claim now j" "distinct (map j_id js)"
  shows "fleet_ok \<lparr>fl_db = foldl (\<lambda>d j. put_job j d) d (map (recovered_job now delay) js), fl_tasks = ts\<rparr>"
  using assms
proof (induction js arbitrary: d)
  case (Cons j js)
  have j: "j \<in> set (db_jobs d)" "expired_claim now j" using Cons.prems(2) by auto
  have ok: "job_ok j" "distinct (map j_id (db_jobs d))"
    using Cons.prems(1) j(1) by (auto simp: fleet_ok_def list_all_iff)
  have floor: "job_floor j \<le> job_floor (recovered_job now delay j)"
    using recovered_job_not_running [of now delay j] by (simp add: job_floor_def)
  have "fleet_ok \<lparr>fl_db = put_job (recovered_job now delay j) d, fl_tasks = ts\<rparr>"
    by (rule fleet_ok_row_step [OF Cons.prems(1) j(1) _ job_ok_recover [OF ok(1) j(2)] _ floor])
      simp_all
  moreover have "k \<in> set (db_jobs (put_job (recovered_job now delay j) d)) \<and> expired_claim now k"
    if "k \<in> set js" for k
  proof -
    have "j_id k \<in> j_id ` set js" using that by (rule imageI)
    then have "j_id k \<noteq> j_id j" using Cons.prems(3) by auto
    then show ?thesis
      using Cons.prems(2) that put_job_lookup [OF ok(2) j(1), of "recovered_job now delay j" k] by auto
  qed
  ultimately show ?case using Cons.IH Cons.prems(3) by simp
qed simp

lemma recover_expired_rows:
  assumes "recover_expired_torrent_jobs locked now delay limit d = Inr (d1, rec)" "distinct (map j_id (db_jobs d))"
  obtains js where "\<forall>j\<in>set js. j \<in> set (db_jobs d) \<and> expired_claim now j" "distinct (map j_id js)"
    "d1 = foldl (\<lambda>d j. put_job j d) d (map (recovered_job now delay) js)"
proof -
  define js where "js = take (nat limit) (sort_key recovery_order
    (filter (\<lambda>j. expired_claim now j \<and> \<not> locked (j_id j)) (db_jobs d)))"
  have d1: "d1 = foldl (\<lambda>d j. put_job j d) d (map (recovered_job now delay) js)"
    using assms(1) by (auto simp: recover_expired_torrent_jobs_def rbind_Inr_iff Let_def js_def)
  have mem: "\<forall>j\<in>set js. j \<in> set (db_jobs d) \<and> expired_claim now j"
    unfolding js_def by (auto dest: in_set_takeD)
  have "distinct (map j_id (sort_key recovery_order
      (filter (\<lambda>j. expired_claim now j \<and> \<not> locked (j_id j)) (db_jobs d))))"
    using assms(2) by (auto simp: distinct_map inj_on_def)
  then have "distinct (map j_id js)" unfolding js_def take_map [symmetric] by (rule distinct_take)
  then show thesis by (rule that [OF mem _ d1])
qed

lemma recover_if_due_cases:
  assumes run: "recover_if_due locked cfg force since now d = Inr (d', ev, ch)"
    and dist: "distinct (map j_id (db_jobs d))"
  obtains (early) "d' = d"
  | (recovered) js ab d1 where "\<forall>j\<in>set js. j \<in> set (db_jobs d) \<and> expired_claim now j" "distinct (map j_id js)"
      "d1 = foldl (\<lambda>d j. put_job j d) d (map (recovered_job now (wc_retry_base cfg)) js)"
      "d' = d1 \<or> d' = fst (foldl (fail_abandoned_torrent now) (d1, [], False) (dict_fromkeys ab))"
proof (cases "recovery_due cfg force since now")
  case True
  obtain d1 rec where
    rec: "recover_expired_torrent_jobs locked now (wc_retry_base cfg) 100 d = Inr (d1, rec)"
    using run True unfolding recover_if_due_def by (fastforce simp: rbind_Inr_iff)
  define ab where "ab = map j_managed_torrent_id
    (filter (\<lambda>j. j_state j = J_FAILED \<and> j_job_type j = ADD_JOB_TYPE) rec)"
  have "recover_if_due locked cfg force since now d =
      Inr (if ab \<noteq> [] then fail_abandoned_add_torrents ab now d1 else (d1, [], False))"
    by (simp only: recover_if_due_def True rec rbind.simps split_conv Let_def ab_def simp_thms if_False)
  then have "(d', ev, ch) = (if ab \<noteq> [] then fail_abandoned_add_torrents ab now d1 else (d1, [], False))"
    using run by simp
  then have res: "d' = d1 \<or> d' = fst (foldl (fail_abandoned_torrent now) (d1, [], False) (dict_fromkeys ab))"
    unfolding fail_abandoned_add_torrents_def by (metis fst_conv)
  show thesis by (rule recover_expired_rows [OF rec dist]) (rule recovered [OF _ _ _ res])
next
  case False
  then show thesis using run early by (simp add: recover_if_due_def)
qed

lemma fleet_ok_recover:
  assumes ok: "fleet_ok \<lparr>fl_db = d, fl_tasks = ts\<rparr>"
    and run: "recover_if_due locked cfg force since now d = Inr (d', ev, ch)"
  shows "fleet_ok \<lparr>fl_db = d', fl_tasks = ts\<rparr>"
proof -
  have "distinct (map j_id (db_jobs d))" using ok by (simp add: fleet_ok_def)
  with run show ?thesis
  proof (cases rule: recover_if_due_cases)
    case early
    then show ?thesis using ok by simp
  next
    case (recovered js ab d1)
    have "db_jobs d' = db_jobs d1"
      using recovered(4) fail_abandoned_jobs [of now "(d1, [], False)"] by auto
    moreover have "fleet_ok \<lparr>fl_db = d1, fl_tasks = ts\<rparr>"
      unfolding recovered(3) by (rule fleet_ok_recovered [OF ok]) (use recovered(1,2) in blast)+
    ultimately show ?thesis using fleet_ok_jobs by blast
  qed
qed

lemma fleet_ok_cancel:
  assumes ok: "fleet_ok \<lparr>fl_db = d, fl_tasks = ts\<rparr>"
  shows "fleet_ok \<lparr>fl_db = fst (request_torrent_job_cancellation i now d), fl_tasks = ts\<rparr>"
proof (cases "find_row j_id i (db_jobs d)")
  case (Some j)
  then have j: "j \<in> set (db_jobs d)" by (auto dest: find_row_SomeD)
  then have "job_ok (cancel_requested_job now j)"
    using ok by (auto simp: fleet_ok_def list_all_iff intro: job_ok_cancel_request)
  then have "fleet_ok \<lparr>fl_db = put_job (cancel_requested_job now j) d, fl_tasks = ts\<rparr>"
    by (rule fleet_ok_row_step [OF ok j, rotated])
      (simp_all add: cancel_requested_job_def job_floor_def)
  with Some show ?thesis by (simp add: request_torrent_job_cancellation_def Let_def)
qed (use ok in \<open>simp add: request_torrent_job_cancellation_def\<close>)

lemma fleet_ok_take_over:
  assumes ok: "fleet_ok \<lparr>fl_db = d, fl_tasks = ts\<rparr>"
    and j: "j \<in> set (db_jobs d)" "active_job_state (j_state j)"
  shows "fleet_ok \<lparr>fl_db = put_job (cancel_active_job now j) d, fl_tasks = ts\<rparr>"
proof (rule fleet_ok_row_step [OF ok j(1)])
  show "job_ok (cancel_active_job now j)"
    using ok j by (auto simp: fleet_ok_def list_all_iff intro: job_ok_cancel_active)
qed (simp_all add: cancel_active_job_def job_floor_def Let_def)

lemma fleet_ok_new_job:
  assumes ok: "fleet_ok \<lparr>fl_db = d, fl_tasks = ts\<rparr>" and j: "job_init j"
    "j_id j \<notin> j_id ` set (db_jobs d)" "\<forall>(w, s)\<in>set ts. sn_id s \<noteq> j_id j"
  shows "fleet_ok \<lparr>fl_db = d\<lparr>db_jobs := db_jobs d @ [j]\<rparr>, fl_tasks = ts\<rparr>"
proof -
  have "filter (above_floor j) ts = []"
    using j(3) by (auto simp: filter_empty_conv above_floor_def)
  then have "fenced ts j" using j(3) by (auto simp: fenced_def list_all_iff)
  moreover have "job_ok j" using j(1) by (auto simp: job_init_def job_ok_def)
  ultimately show ?thesis using ok j(2) by (auto simp: fleet_ok_def)
qed

lemma fleet_ok_delete:
  "fleet_ok \<lparr>fl_db = d, fl_tasks = ts\<rparr> \<Longrightarrow>
     fleet_ok \<lparr>fl_db = d\<lparr>db_jobs := filter P (db_jobs d)\<rparr>, fl_tasks = ts\<rparr>"
  by (auto simp: fleet_ok_def list_all_iff distinct_map inj_on_def)

lemma fleet_ok_step: "fleet_step f f' \<Longrightarrow> fleet_ok f \<Longrightarrow> fleet_ok f'"
proof (induction rule: fleet_step.induct)
  case (fleet_claim locked cfg w handlers now f d' job)
  then show ?case by (intro fleet_ok_claim [of "fl_db f"]) (cases f, simp_all)
next
  case (fleet_heartbeat w s f cfg now d')
  then show ?case using fleet_ok_heartbeat [of "fl_db f" "fl_tasks f"] by (cases f) simp
next
  case (fleet_settle f xs w s ys jitter cfg outcome now d' events changed)
  then show ?case by (intro fleet_ok_settle [of "fl_db f" xs w s ys]) (cases f, simp_all)
next
  case (fleet_lost f xs w s ys)
  then show ?case using fleet_ok_lost [of "fl_db f"] by (cases f) simp
next
  case (fleet_recover locked cfg force since now f d' events changed)
  then show ?case using fleet_ok_recover [of "fl_db f" "fl_tasks f"] by (cases f) simp
next
  case (fleet_cancel f i now)
  then show ?case using fleet_ok_cancel [of "fl_db f" "fl_tasks f"] by (cases f) simp
next
  case (fleet_take_over j f now)
  then show ?case using fleet_ok_take_over [of "fl_db f" "fl_tasks f"] by (cases f) simp
next
  case (fleet_new_job j f)
  then show ?case using fleet_ok_new_job [of "fl_db f" "fl_tasks f"] by (cases f) simp
next
  case (fleet_delete f P)
  then show ?case using fleet_ok_delete [of "fl_db f" "fl_tasks f"] by (cases f) simp
next
  case (fleet_other d' f)
  then show ?case using fleet_ok_jobs [of d' "fl_db f" "fl_tasks f"] by (cases f) simp
qed

interpretation fleet_system: invariant_system fleet_init fleet_step fleet_ok
proof unfold_locales
  show "fleet_init f \<Longrightarrow> fleet_ok f" for f by (simp add: fleet_init_def fleet_ok_def)
  show "fleet_ok f \<Longrightarrow> fleet_step f f' \<Longrightarrow> fleet_ok f'" for f f' by (rule fleet_ok_step)
qed

definition owns_job :: "db \<Rightarrow> uuid \<Rightarrow> task \<Rightarrow> bool" where
  "owns_job d i t = (sn_id (snd t) = i \<and> \<not> isl (owned_job (fst t) (snd t) d))"

lemma owner_above_floor:
  "find_row j_id i (db_jobs d) = Some j \<Longrightarrow> owns_job d i t \<Longrightarrow> above_floor j t"
  by (auto simp: owns_job_def owned_job_def above_floor_def job_floor_def dest: find_row_SomeD
      split: option.splits if_splits)

lemma owners_at_most_one:
  assumes "fleet_ok f"
  shows "length (filter (owns_job (fl_db f) i) (fl_tasks f)) \<le> 1"
proof (cases "find_row j_id i (db_jobs (fl_db f))")
  case None
  then have "filter (owns_job (fl_db f) i) (fl_tasks f) = []"
    by (auto simp: filter_empty_conv owns_job_def owned_job_def)
  then show ?thesis by simp
next
  case (Some j)
  have "length (filter (owns_job (fl_db f) i) ts) \<le> length (filter (above_floor j) ts)" for ts
    by (induction ts) (auto dest: owner_above_floor [OF Some])
  moreover have "length (filter (above_floor j) (fl_tasks f)) \<le> 1"
    using assms find_row_SomeD [OF Some] by (auto simp: fleet_ok_def list_all_iff fenced_def)
  ultimately show ?thesis using order_trans by blast
qed

text \<open>
  C27: At most one live task owns a job: in every reachable state of the worker fleet (any number of
  workers claiming, renewing, settling, crashing and recovering, with rows inserted, cancelled and
  deleted by other components in between), for every job at most one live task passes the
  \<open>_owned_job\<close> check that guards its later transactions, even after waiting retries have given
  attempt numbers back.
\<close>
theorem owned_job_exclusive:
  assumes "reach fleet_init fleet_step f"
  shows "length (filter (owns_job (fl_db f) i) (fl_tasks f)) \<le> 1"
  by (rule owners_at_most_one) (rule fleet_system.reach_inv [OF assms])

definition ex_fleet0 :: fleet where
  "ex_fleet0 = \<lparr>fl_db = empty_db, fl_tasks = []\<rparr>"

definition ex_fleet1 :: fleet where
  "ex_fleet1 = \<lparr>fl_db = empty_db\<lparr>db_jobs := [ex_job]\<rparr>, fl_tasks = []\<rparr>"

definition ex_task1 :: task where
  "ex_task1 = (''w1'', (snapshot_from_model ex_job)\<lparr>sn_attempt_count := 1\<rparr>)"

definition ex_task2 :: task where
  "ex_task2 = (''w1'', (snapshot_from_model ex_job)\<lparr>sn_attempt_count := 2\<rparr>)"

definition ex_run :: "instant \<Rightarrow> db \<Rightarrow> db" where
  "ex_run now d =
     (case claim_one (\<lambda>_. False) default_worker_config ''w1'' [''ADD_TORRENT''] now d of
        Inr (d', _) \<Rightarrow> d' | _ \<Rightarrow> d)"

definition ex_recovered :: "instant \<Rightarrow> db \<Rightarrow> db" where
  "ex_recovered now d =
     (case recover_if_due (\<lambda>_. False) default_worker_config True None now d of
        Inr (d', _) \<Rightarrow> d' | _ \<Rightarrow> d)"

definition ex_fleet4 :: fleet where
  "ex_fleet4 =
     \<lparr>fl_db = ex_run (seconds 200) (ex_recovered (seconds 100) (ex_run 5 (fl_db ex_fleet1))),
      fl_tasks = [ex_task2, ex_task1]\<rparr>"

lemma ex_fleet4_reachable: "reach fleet_init fleet_step ex_fleet4"
proof -
  have r0: "reach fleet_init fleet_step ex_fleet0"
    by (rule reach.reach_init) (simp add: fleet_init_def ex_fleet0_def empty_db_def)
  have "fleet_step ex_fleet0 ex_fleet1"
    using fleet_new_job [of ex_job ex_fleet0]
    by (simp add: ex_fleet0_def ex_fleet1_def empty_db_def job_init_def job_check_def ex_job_def)
  with r0 have r1: "reach fleet_init fleet_step ex_fleet1" by (rule reach.reach_step)
  let ?d2 = "ex_run 5 (fl_db ex_fleet1)" and ?d3 = "ex_recovered (seconds 100) (ex_run 5 (fl_db ex_fleet1))"
  have "case claim_one (\<lambda>_. False) default_worker_config ''w1'' [''ADD_TORRENT''] 5 (fl_db ex_fleet1) of
      Inr (d', Some job) \<Rightarrow> (''w1'', snapshot_from_model job) = ex_task1 | _ \<Rightarrow> False"
    by code_simp
  then have "fleet_step ex_fleet1 \<lparr>fl_db = ?d2, fl_tasks = [ex_task1]\<rparr>"
    using fleet_claim [of "\<lambda>_. False" default_worker_config "''w1''" "[''ADD_TORRENT'']" 5 ex_fleet1]
    by (auto simp: ex_run_def ex_fleet1_def split: sum.splits option.splits)
  with r1 have r2: "reach fleet_init fleet_step \<lparr>fl_db = ?d2, fl_tasks = [ex_task1]\<rparr>"
    by (rule reach.reach_step)
  have "\<not> isl (recover_if_due (\<lambda>_. False) default_worker_config True None (seconds 100) ?d2)"
    by code_simp
  then have "fleet_step \<lparr>fl_db = ?d2, fl_tasks = [ex_task1]\<rparr> \<lparr>fl_db = ?d3, fl_tasks = [ex_task1]\<rparr>"
    using fleet_recover [of "\<lambda>_. False" default_worker_config True None "seconds 100"
        "\<lparr>fl_db = ?d2, fl_tasks = [ex_task1]\<rparr>"]
    by (auto simp: ex_recovered_def split: sum.splits)
  with r2 have r3: "reach fleet_init fleet_step \<lparr>fl_db = ?d3, fl_tasks = [ex_task1]\<rparr>"
    by (rule reach.reach_step)
  have "case claim_one (\<lambda>_. False) default_worker_config ''w1'' [''ADD_TORRENT''] (seconds 200) ?d3 of
      Inr (d', Some job) \<Rightarrow> (''w1'', snapshot_from_model job) = ex_task2 | _ \<Rightarrow> False"
    by code_simp
  then have "fleet_step \<lparr>fl_db = ?d3, fl_tasks = [ex_task1]\<rparr> ex_fleet4"
    using fleet_claim [of "\<lambda>_. False" default_worker_config "''w1''" "[''ADD_TORRENT'']" "seconds 200"
        "\<lparr>fl_db = ?d3, fl_tasks = [ex_task1]\<rparr>"]
    by (auto simp: ex_fleet4_def ex_run_def [of "seconds 200"] split: sum.splits option.splits)
  with r3 show ?thesis by (rule reach.reach_step)
qed

theorem owned_job_exclusive_witness:
  "length (filter (owns_job (fl_db ex_fleet4) 60) (fl_tasks ex_fleet4)) \<le> 1
   \<and> owns_job (fl_db ex_fleet4) 60 ex_task2 \<and> \<not> owns_job (fl_db ex_fleet4) 60 ex_task1"
proof -
  have "owns_job (fl_db ex_fleet4) 60 ex_task2" "\<not> owns_job (fl_db ex_fleet4) 60 ex_task1"
    by code_simp+
  then show ?thesis
    using owned_job_exclusive [OF ex_fleet4_reachable, of 60] by blast
qed

section \<open>A failed ADD leaves ADDING\<close>

lemma find_row_put_torrent:
  "find_row t_id k (db_torrents (put_torrent t d)) =
     (if k = t_id t then map_option (\<lambda>_. t) (find_row t_id (t_id t) (db_torrents d))
      else find_row t_id k (db_torrents d))"
  by (simp add: put_torrent_def find_row_put_row)

lemma put_torrent_frame [simp]:
  "db_jobs (put_torrent t d) = db_jobs d" "db_requests (put_torrent t d) = db_requests d"
  "db_users (put_torrent t d) = db_users d"
  by (simp_all add: put_torrent_def)

lemma put_job_frame [simp]:
  "db_torrents (put_job j d) = db_torrents d" "db_requests (put_job j d) = db_requests d"
  "db_users (put_job j d) = db_users d"
  by (simp_all add: put_job_def)

lemma find_row_put_job:
  "find_row j_id k (db_jobs (put_job j d)) =
     (if k = j_id j then map_option (\<lambda>_. j) (find_row j_id (j_id j) (db_jobs d))
      else find_row j_id k (db_jobs d))"
  by (simp add: put_job_def find_row_put_row)

lemma finish_failure_row:
  assumes "finish_failure jitter cfg w s code permanent ts waiting now d = Inr (d', ev, ch)"
    and "list_all job_ok (db_jobs d)"
  obtains j j' where "owned_job w s d = Inr j" "settles j j'"
    "settled_job jitter cfg w s now code permanent waiting d j = Inr j'"
    "find_row j_id (sn_id s) (db_jobs d') = Some j'"
proof -
  from assms(1) obtain j j' where own: "owned_job w s d = Inr j"
    and jobs: "db_jobs d' = db_jobs (put_job j' d)"
    and st: "settled_job jitter cfg w s now code permanent waiting d j = Inr j'"
    by (rule finish_failure_cases)
  have j: "j \<in> set (db_jobs d)" "j_id j = sn_id s" "find_row j_id (sn_id s) (db_jobs d) = Some j"
    using own by (auto simp: owned_job_Inr dest: find_row_SomeD)
  have "settles j j'"
    using settled_job_settles [OF _ st] assms(2) j(1) by (simp add: list_all_iff)
  moreover from this have "j_id j' = sn_id s" using j(2) by (simp add: settles_def)
  ultimately show thesis
    using that [OF own _ st] jobs j(3) by (simp add: find_row_put_job)
qed

lemma settle_torrent_failed:
  "settle_torrent ts now j t d = Inr (d', ev, ch) \<Longrightarrow> j_state j = J_FAILED \<Longrightarrow>
     d' = put_torrent (t\<lparr>t_state := ERROR, t_retry_at := None, t_updated_at := now\<rparr>) d"
  by (simp add: settle_torrent_def Let_def)

text \<open>
  C31: The definitive failure of an ADD job always takes its torrent out of PENDING, ADDING and
  RETRY_WAIT: if \<open>_finish_failure\<close> commits and the job row is FAILED afterwards, the torrent is in
  none of these states (whether or not the handler named a state); if the row is CANCELLED, no
  torrent row changed and no event is sent, so a purge or revival that requested the cancellation is
  preserved.
\<close>
theorem finish_failure_leaves_adding:
  assumes "list_all job_ok (db_jobs d)" "sn_job_type s = ADD_JOB_TYPE"
    and "finish_failure jitter cfg w s code permanent ts waiting now d = Inr (d', ev, ch)"
    and "find_row j_id (sn_id s) (db_jobs d') = Some j'"
  shows "(j_state j' = J_FAILED \<longrightarrow>
       (case find_row t_id (sn_managed_torrent_id s) (db_torrents d') of
          None \<Rightarrow> True | Some t \<Rightarrow> \<not> failed_add_state (t_state t)))
     \<and> (j_state j' = J_CANCELLED \<longrightarrow> db_torrents d' = db_torrents d \<and> ev = [] \<and> \<not> ch)"
proof -
  from assms(3,1) obtain j where own: "owned_job w s d = Inr j"
    and st: "settled_job jitter cfg w s now code permanent waiting d j = Inr j'"
    by (rule finish_failure_row) (use assms(4) in auto)
  let ?t = "find_row t_id (sn_managed_torrent_id s) (db_torrents d)"
  have run: "(case ?t of None \<Rightarrow> Inr (put_job j' d, [], False)
      | Some t \<Rightarrow>
          if j_state j' \<noteq> J_CANCELLED \<and> (ts \<noteq> None \<or> j_state j' = J_FAILED)
             \<and> (ts \<noteq> None \<or> failed_add_state (t_state t))
          then settle_torrent ts now j' t (put_job j' d)
          else Inr (put_job j' d, [], False)) = Inr (d', ev, ch)"
    using assms(3) by (simp add: finish_failure_def assms(2) own st Let_def)
  have failed: "\<not> failed_add_state (t_state t')"
    if "j_state j' = J_FAILED"
      "find_row t_id (sn_managed_torrent_id s) (db_torrents d') = Some t'" for t'
  proof (cases ?t)
    case None
    then show ?thesis using run that(2) by auto
  next
    case (Some t)
    then have id: "t_id t = sn_managed_torrent_id s" by (auto dest: find_row_SomeD)
    show ?thesis
    proof (cases "ts \<noteq> None \<or> failed_add_state (t_state t)")
      case True
      then have "settle_torrent ts now j' t (put_job j' d) = Inr (d', ev, ch)"
        using run that(1) Some by (simp split: if_splits)
      from settle_torrent_failed [OF this that(1)] show ?thesis
        using that(2) Some id by (auto simp: find_row_put_torrent failed_add_state_def)
    next
      case False
      then show ?thesis using run that Some by auto
    qed
  qed
  have "db_torrents d' = db_torrents d \<and> ev = [] \<and> \<not> ch" if "j_state j' = J_CANCELLED"
    using run that by (auto split: option.splits)
  with failed show ?thesis by (auto split: option.splits)
qed

definition ex_add_db :: db where
  "ex_add_db = ex_drifted_db\<lparr>
     db_torrents := [ex_torrent\<lparr>t_state := ADDING\<rparr>],
     db_jobs := [claimed_job ''w1'' 5 (seconds 60) (seconds 600) (ex_job\<lparr>j_attempt_count := 2\<rparr>)]\<rparr>"

definition ex_add_snapshot :: torrent_job_snapshot where
  "ex_add_snapshot = (snapshot_from_model ex_job)\<lparr>sn_attempt_count := 3\<rparr>"

theorem finish_failure_leaves_adding_witness:
  "\<exists>d' ev ch j'. finish_failure (\<lambda>a b. b) default_worker_config ''w1'' ex_add_snapshot
        ''worker_unexpected_error'' False None False 9 ex_add_db = Inr (d', ev, ch)
     \<and> find_row j_id 60 (db_jobs d') = Some j' \<and> j_state j' = J_FAILED
     \<and> (case find_row t_id 40 (db_torrents d') of
          None \<Rightarrow> False | Some t \<Rightarrow> \<not> failed_add_state (t_state t))"
proof -
  let ?run = "finish_failure (\<lambda>a b. b) default_worker_config ''w1'' ex_add_snapshot
        ''worker_unexpected_error'' False None False 9 ex_add_db"
  have "case ?run of Inl _ \<Rightarrow> False
      | Inr (d', ev, ch) \<Rightarrow> find_row t_id 40 (db_torrents d') \<noteq> None
          \<and> (case find_row j_id 60 (db_jobs d') of None \<Rightarrow> False | Some j \<Rightarrow> j_state j = J_FAILED)"
    by code_simp
  then obtain d' ev ch j' where run: "?run = Inr (d', ev, ch)"
    and row: "find_row j_id 60 (db_jobs d') = Some j'" "j_state j' = J_FAILED"
    and t: "find_row t_id 40 (db_torrents d') \<noteq> None"
    by (auto split: sum.splits option.splits)
  have ok: "list_all job_ok (db_jobs ex_add_db)" "sn_job_type ex_add_snapshot = ADD_JOB_TYPE"
    by code_simp+
  have ids: "sn_id ex_add_snapshot = 60" "sn_managed_torrent_id ex_add_snapshot = 40" by code_simp+
  show ?thesis
    using finish_failure_leaves_adding [OF ok run, unfolded ids, OF row(1)] run row t
    by (auto split: option.splits)
qed

section \<open>Backoff\<close>

text \<open>
  Retries back off and waiting is free: with any jitter that stays within its bounds (as
  \<open>random.uniform\<close> does) and an administered base of \<open>v\<close> seconds, retrying an owned job always
  succeeds, never schedules it before \<open>v\<close> seconds from now, and an expected wait within the
  waiting budget puts the row back in the queue with its attempt returned.
\<close>
theorem retried_job_backoff:
  assumes jitter: "\<And>a b. a \<le> b \<Longrightarrow> a \<le> jitter a b \<and> jitter a b \<le> b"
    and base: "integer_option_value RETRY_BASE_OPTION d = Some v" "1 \<le> v" "v \<le> 3600"
    and job: "job_ok j" "require_claim_owner j w now = Inr ()" "validate_error_code code = Inr ()"
  shows "\<exists>j'. retried_job jitter cfg w s now code waiting d j = Inr j'
     \<and> (j_state j' = J_QUEUED \<longrightarrow> now + seconds v \<le> j_available_at j')
     \<and> (waiting \<and> total_seconds (now - j_created_at j) < total_seconds WAITING_RETRY_BUDGET
          \<longrightarrow> j_state j' = J_QUEUED \<and> j_attempt_count j' = j_attempt_count j - 1)"
proof -
  have b: "retry_base_seconds cfg d = of_int v" using base by (simp add: retry_base_seconds_def)
  have delay: "now + seconds v \<le> now + timedelta_of_seconds (jitter (of_int v) u)"
    if "of_int v \<le> u" for u
    using timedelta_of_seconds_ge [of v "jitter (of_int v) u"] jitter [OF that] base(2) by simp
  have later: "now \<le> now + timedelta_of_seconds (jitter (of_int v) u)" if "of_int v \<le> u" for u
    using delay [OF that] base(2) by (simp add: seconds_def)
  have up: "of_int v \<le> min (max (of_int v) m) (of_int v * 2 ^ n)" for m :: rat and n
    using base(2) by (simp add: mult_le_cancel_left1)
  have give: "require_claim_owner (give_back_attempt j) w now = Inr ()"
    using job(2) by (simp add: require_claim_owner_Inr give_back_attempt_def)
  show ?thesis
  proof (cases "waiting \<and> total_seconds (now - j_created_at j) < total_seconds WAITING_RETRY_BUDGET")
    case True
    define u where "u = max (of_int v)
      (min (total_seconds WAITING_RETRY_CAP) (total_seconds (now - j_created_at j) / 4))"
    have u: "of_int v \<le> u" by (simp add: u_def)
    let ?av = "now + timedelta_of_seconds (jitter (of_int v) u)"
    obtain j' where run: "retry_torrent_job (give_back_attempt j) w now ?av code = Inr j'"
      using later [OF u] give job(3) by (simp add: retry_torrent_job_def Let_def)
    have "j_state j' = J_QUEUED" "j_attempt_count j' = j_attempt_count j - 1" "j_available_at j' = ?av"
      using wait_result(1) [OF job(1) run] by simp_all
    then show ?thesis
      using run True delay [OF u] by (simp add: retried_job_def Let_def b u_def)
  next
    case False
    define u where "u = min (max (of_int v) (total_seconds (wc_retry_max cfg)))
      (of_int v * 2 ^ nat (max 0 (sn_attempt_count s - 1)))"
    have u: "of_int v \<le> u" unfolding u_def by (rule up)
    let ?av = "now + timedelta_of_seconds (jitter (of_int v) u)"
    obtain j' where run: "retry_torrent_job j w now ?av code = Inr j'"
      using later [OF u] job(2,3) by (simp add: retry_torrent_job_def Let_def)
    have "retried_job jitter cfg w s now code waiting d j = Inr j'"
      using run by (simp only: retried_job_def Let_def b if_not_P [OF False] u_def)
    moreover have "j_state j' = J_QUEUED \<longrightarrow> j_available_at j' = ?av"
      using run later [OF u] job(2,3) by (auto simp: retry_torrent_job_def Let_def)
    ultimately show ?thesis using False delay [OF u] by auto
  qed
qed

definition ex_retry_db :: db where
  "ex_retry_db = ex_add_db\<lparr>db_options :=
     [\<lparr>o_key = RETRY_BASE_OPTION, o_value_type = ''integer'', o_boolean_value = None,
       o_integer_value = Some 30, o_string_value = None, o_minimum_value = Some 1,
       o_maximum_value = Some 3600, o_choices = [], o_editable = True, o_restart_required = False,
       o_version = 1, o_updated_by_user_id = None, o_created_at = 0, o_updated_at = 0\<rparr>]\<rparr>"

definition ex_running_job :: torrent_job where
  "ex_running_job = claimed_job ''w1'' 5 (seconds 60) (seconds 600) ex_job"

theorem retried_job_backoff_witness:
  "\<exists>j'. retried_job (\<lambda>a b. (a + b) / 2) default_worker_config ''w1'' ex_add_snapshot 9
        ''torrent_integration_unavailable'' True ex_retry_db ex_running_job = Inr j'
     \<and> 9 + seconds 30 \<le> j_available_at j' \<and> j_attempt_count j' = 0"
proof -
  have pre: "integer_option_value RETRY_BASE_OPTION ex_retry_db = Some 30" "(1::int) \<le> 30"
    "(30::int) \<le> 3600" "job_ok ex_running_job" "require_claim_owner ex_running_job ''w1'' 9 = Inr ()"
    "validate_error_code ''torrent_integration_unavailable'' = Inr ()"
    by code_simp+
  have age: "total_seconds (9 - j_created_at ex_running_job) < total_seconds WAITING_RETRY_BUDGET"
    by code_simp
  have mid: "a \<le> (a + b) / 2 \<and> (a + b) / 2 \<le> b" if "a \<le> b" for a b :: rat
    using that by (simp add: field_simps)
  have one: "j_attempt_count ex_running_job = 1" by code_simp
  show ?thesis
    using retried_job_backoff [of "\<lambda>a b. (a + b) / 2", OF mid pre, of default_worker_config
        ex_add_snapshot True] age one by auto
qed

end
