(* ===== verification/Lifecycle.thy ===== *)
theory Lifecycle
  imports Worker
begin

text \<open>
  The subscription lifecycle of \<open>backend/app/torrents/lifecycle.py\<close>: requests become READY with a
  deadline, due requests expire in batches, owners cancel, and the last right that ends schedules
  the deferred purge of the shared content. Identifiers \<open>uuid4\<close> draws are arguments, as are the
  rows other transactions hold locked; the creation times the ORM fills by default are the time of
  the transaction. The last sections define the invariants of rights and
  counters and show that every operation preserves them.
\<close>

section \<open>Durations and deadlines\<close>

definition validate_lifecycle_hours :: "int \<Rightarrow> string \<Rightarrow> app_error + unit" where
  "validate_lifecycle_hours n name =
     require (1 \<le> n \<and> n \<le> 2160) (Py (ValueError (name @ '' is invalid'')))"

definition put_request :: "torrent_request \<Rightarrow> db \<Rightarrow> db" where
  "put_request r d = d\<lparr>db_requests := update_row r_id (r_id r) (\<lambda>_. r) (db_requests d)\<rparr>"

definition put_requests :: "torrent_request list \<Rightarrow> db \<Rightarrow> db" where
  "put_requests rs d = foldl (\<lambda>d r. put_request r d) d rs"

definition ready_request :: "instant \<Rightarrow> int \<Rightarrow> torrent_request \<Rightarrow> torrent_request" where
  "ready_request now n r =
     r\<lparr>r_state := R_READY, r_ready_at := Some now, r_unsubscribe_at := Some (now + hours n),
       r_updated_at := now\<rparr>"

definition pending_requests :: "uuid \<Rightarrow> db \<Rightarrow> torrent_request list" where
  "pending_requests torrent_id d =
     sort_key (\<lambda>r. (r_user_id r, r_id r)) (torrent_requests_in waiting_request_state torrent_id d)"

definition mark_ready_requests ::
  "managed_torrent \<Rightarrow> datetime \<Rightarrow> int \<Rightarrow> db
     \<Rightarrow> app_error + db \<times> managed_torrent \<times> torrent_request list" where
  "mark_ready_requests torrent now auto_unsubscribe_hours d =
     rbind (require (t_state torrent = READY) (Py (ValueError ''torrent must be READY''))) (\<lambda>_.
     rbind (require (tz_aware now)
              (Py (ValueError ''ready timestamp must be timezone-aware''))) (\<lambda>_.
     rbind (validate_lifecycle_hours auto_unsubscribe_hours ''torrent auto unsubscribe duration'')
       (\<lambda>_.
     let torrent' = (if t_ready_at torrent = None
                     then torrent\<lparr>t_ready_at := Some (as_utc now)\<rparr> else torrent);
         requests = map (ready_request (as_utc now) auto_unsubscribe_hours)
                      (pending_requests (t_id torrent) d)
     in Inr (put_requests requests (put_torrent torrent' d), torrent', requests))))"

definition backfill_ready_unsubscribe_deadlines_batch ::
  "(uuid \<Rightarrow> bool) \<Rightarrow> datetime \<Rightarrow> int \<Rightarrow> int \<Rightarrow> db \<Rightarrow> app_error + db \<times> int" where
  "backfill_ready_unsubscribe_deadlines_batch locked now auto_unsubscribe_hours limit d =
     rbind (require (tz_aware now)
              (Py (ValueError ''backfill timestamp must be timezone-aware''))) (\<lambda>_.
     rbind (validate_lifecycle_hours auto_unsubscribe_hours ''torrent auto unsubscribe duration'')
       (\<lambda>_.
     rbind (require (1 \<le> limit \<and> limit \<le> 500)
              (Py (ValueError ''backfill batch limit must be between 1 and 500''))) (\<lambda>_.
     let requests = take (nat limit) (sort_key r_id
           (filter (\<lambda>r. r_state r = R_READY \<and> r_unsubscribe_at r = None \<and> \<not> locked (r_id r))
              (db_requests d)))
     in Inr (put_requests
               (map (\<lambda>r. r\<lparr>r_unsubscribe_at := Some (as_utc now + hours auto_unsubscribe_hours),
                           r_updated_at := as_utc now\<rparr>) requests) d,
             int (length requests)))))"

section \<open>Deferred purge\<close>

definition PURGE_TORRENT_JOB :: string where
  "PURGE_TORRENT_JOB = ''PURGE_TORRENT''"

definition purge_key :: "uuid \<Rightarrow> int \<Rightarrow> string" where
  "purge_key torrent_id generation = ''purge:'' @ uuid_str torrent_id @ '':'' @ int_str generation"

definition insert_job :: "torrent_job \<Rightarrow> db \<Rightarrow> app_error + db" where
  "insert_job job d =
     (if j_id job \<in> set (map j_id (db_jobs d))
         \<or> j_idempotency_key job \<in> set (map j_idempotency_key (db_jobs d))
      then Inl IntegrityError
      else Inr (d\<lparr>db_jobs := db_jobs d @ [job]\<rparr>))"

definition deferred_purge_job ::
  "uuid \<Rightarrow> managed_torrent \<Rightarrow> uuid option \<Rightarrow> instant \<Rightarrow> instant \<Rightarrow> torrent_job" where
  "deferred_purge_job job_id torrent origin_request_id purge_after now =
     \<lparr>j_id = job_id, j_managed_torrent_id = t_id torrent,
      j_torrent_request_id = origin_request_id, j_job_type = PURGE_TORRENT_JOB,
      j_idempotency_key = purge_key (t_id torrent) (t_lifecycle_generation torrent),
      j_recovery_snapshot = None, j_state = J_QUEUED, j_attempt_count = 0, j_max_attempts = 20,
      j_available_at = purge_after, j_timeout_at = None, j_claimed_by = None,
      j_claim_expires_at = None, j_cancel_requested_at = None, j_last_error_code = None,
      j_finished_at = None, j_created_at = now, j_updated_at = now\<rparr>"

definition purge_scheduled_torrent :: "instant \<Rightarrow> instant \<Rightarrow> managed_torrent \<Rightarrow> managed_torrent" where
  "purge_scheduled_torrent purge_after now t =
     t\<lparr>t_lifecycle_generation := t_lifecycle_generation t + 1,
       t_purge_stop_pending := (t_admin_forced_active t \<or> t_purge_stop_pending t),
       t_purge_after := Some purge_after, t_updated_at := now\<rparr>"

definition schedule_deferred_purge ::
  "uuid \<Rightarrow> managed_torrent \<Rightarrow> uuid option \<Rightarrow> instant \<Rightarrow> instant \<Rightarrow> db
     \<Rightarrow> app_error + db \<times> managed_torrent \<times> torrent_job" where
  "schedule_deferred_purge job_id torrent origin_request_id purge_after now d =
     (let torrent' = purge_scheduled_torrent purge_after now torrent;
          job = deferred_purge_job job_id torrent' origin_request_id purge_after now
      in rbind (insert_job job (put_torrent torrent' d)) (\<lambda>d'. Inr (d', torrent', job)))"

section \<open>Expiration\<close>

record expired_torrent_request =
  er_user_id :: uuid
  er_request_id :: uuid

record torrent_expiration_result =
  te_managed_torrent_id :: uuid
  te_requests :: "expired_torrent_request list"
  te_purge_job_id :: "uuid option"

definition due_request :: "instant \<Rightarrow> torrent_request \<Rightarrow> bool" where
  "due_request now r =
     (r_state r = R_READY
      \<and> (case r_unsubscribe_at r of None \<Rightarrow> False | Some t \<Rightarrow> t \<le> now))"

definition unsubscribe_time :: "torrent_request \<Rightarrow> instant" where
  "unsubscribe_time r = (case r_unsubscribe_at r of None \<Rightarrow> 0 | Some t \<Rightarrow> t)"

definition due_deadlines :: "instant \<Rightarrow> db \<Rightarrow> uuid \<Rightarrow> instant list" where
  "due_deadlines now d torrent_id =
     map unsubscribe_time
       (filter (\<lambda>r. due_request now r \<and> r_managed_torrent_id r = torrent_id) (db_requests d))"

definition due_torrents :: "(uuid \<Rightarrow> bool) \<Rightarrow> instant \<Rightarrow> nat \<Rightarrow> db \<Rightarrow> managed_torrent list" where
  "due_torrents locked now limit d =
     take limit (sort_key (\<lambda>t. (foldl min (hd (due_deadlines now d (t_id t)))
                                  (due_deadlines now d (t_id t)), t_id t))
       (filter (\<lambda>t. due_deadlines now d (t_id t) \<noteq> [] \<and> \<not> locked (t_id t)) (db_torrents d)))"

definition due_requests ::
  "(uuid \<Rightarrow> bool) \<Rightarrow> instant \<Rightarrow> nat \<Rightarrow> managed_torrent list \<Rightarrow> db \<Rightarrow> torrent_request list" where
  "due_requests locked now limit torrents d =
     take limit (sort_key (\<lambda>r. (unsubscribe_time r, r_id r))
       (filter (\<lambda>r. due_request now r \<and> r_managed_torrent_id r \<in> set (map t_id torrents)
                    \<and> \<not> locked (r_id r)) (db_requests d)))"

definition expired_request :: "instant \<Rightarrow> torrent_request \<Rightarrow> torrent_request" where
  "expired_request now r = r\<lparr>r_state := R_EXPIRED, r_expires_at := Some now, r_updated_at := now\<rparr>"

definition expire_request :: "instant \<Rightarrow> int \<Rightarrow> db \<Rightarrow> torrent_request \<Rightarrow> db" where
  "expire_request now total_size d r =
     release_usage (r_user_id r) total_size now (put_request (expired_request now r) d)"

definition has_active_request :: "db \<Rightarrow> uuid \<Rightarrow> bool" where
  "has_active_request d torrent_id = (torrent_requests_in active_request_state torrent_id d \<noteq> [])"

definition expire_torrent ::
  "(uuid \<Rightarrow> uuid) \<Rightarrow> instant \<Rightarrow> int \<Rightarrow> managed_torrent list \<Rightarrow> torrent_request list \<Rightarrow> uuid
     \<Rightarrow> db \<Rightarrow> app_error + db \<times> torrent_expiration_result" where
  "expire_torrent fresh now retention_hours torrents due torrent_id d =
     (case find_row t_id torrent_id torrents of
        None \<Rightarrow> Inl (Py KeyError)
      | Some torrent \<Rightarrow>
          (let requests = filter (\<lambda>r. r_managed_torrent_id r = torrent_id) due;
               d1 = foldl (expire_request now (t_total_size torrent)) d requests
           in rbind (if has_active_request d1 torrent_id then Inr (d1, None)
                     else rbind (schedule_deferred_purge (fresh torrent_id) torrent
                                   (Some (r_id (hd requests))) (now + hours retention_hours) now d1)
                            (\<lambda>(d2, _, job). Inr (d2, Some (j_id job)))) (\<lambda>(d3, job_id).
              Inr (d3, \<lparr>te_managed_torrent_id = torrent_id,
                        te_requests = map (\<lambda>r. \<lparr>er_user_id = r_user_id r, er_request_id = r_id r\<rparr>)
                                        requests,
                        te_purge_job_id = job_id\<rparr>))))"

fun expire_torrents ::
  "(uuid \<Rightarrow> uuid) \<Rightarrow> instant \<Rightarrow> int \<Rightarrow> managed_torrent list \<Rightarrow> torrent_request list \<Rightarrow> uuid list
     \<Rightarrow> db \<Rightarrow> app_error + db \<times> torrent_expiration_result list" where
  "expire_torrents fresh now retention_hours torrents due [] d = Inr (d, [])"
| "expire_torrents fresh now retention_hours torrents due (i # ids) d =
     rbind (expire_torrent fresh now retention_hours torrents due i d) (\<lambda>(d', r).
     rbind (expire_torrents fresh now retention_hours torrents due ids d') (\<lambda>(d'', rs).
     Inr (d'', r # rs)))"

definition expire_ready_torrents_batch ::
  "(uuid \<Rightarrow> bool) \<Rightarrow> (uuid \<Rightarrow> bool) \<Rightarrow> (uuid \<Rightarrow> uuid) \<Rightarrow> datetime \<Rightarrow> int \<Rightarrow> int \<Rightarrow> db
     \<Rightarrow> app_error + db \<times> torrent_expiration_result list" where
  "expire_ready_torrents_batch locked_torrents locked_requests fresh now retention_hours limit d =
     rbind (require (tz_aware now)
              (Py (ValueError ''expiration timestamp must be timezone-aware''))) (\<lambda>_.
     rbind (validate_lifecycle_hours retention_hours ''torrent retention'') (\<lambda>_.
     rbind (require (1 \<le> limit \<and> limit \<le> 500)
              (Py (ValueError ''expiration batch limit must be between 1 and 500''))) (\<lambda>_.
     let torrents = due_torrents locked_torrents (as_utc now) (nat limit) d;
         due = due_requests locked_requests (as_utc now) (nat limit) torrents d
     in expire_torrents fresh (as_utc now) retention_hours torrents due
          (sort (remdups (map r_managed_torrent_id due))) d)))"

section \<open>Cancellation\<close>

record torrent_cancellation_result =
  tc_request_id :: uuid
  tc_managed_torrent_id :: uuid
  tc_cancelled :: bool
  tc_purge_scheduled :: bool
  tc_purge_after :: "instant option"
  tc_queue_membership_changed :: bool

definition cancelled_request :: "instant \<Rightarrow> torrent_request \<Rightarrow> torrent_request" where
  "cancelled_request now r =
     r\<lparr>r_state := R_CANCELLED, r_cancelled_at := Some now, r_updated_at := now\<rparr>"

definition ranked_if :: "bool \<Rightarrow> db \<Rightarrow> managed_torrent \<Rightarrow> instant \<Rightarrow> bool" where
  "ranked_if detect d t now = (if detect then is_ranked_queue_member d t now else False)"

definition release_right ::
  "uuid \<Rightarrow> bool \<Rightarrow> uuid \<Rightarrow> int \<Rightarrow> instant \<Rightarrow> managed_torrent \<Rightarrow> torrent_request \<Rightarrow> db
     \<Rightarrow> app_error + db \<times> torrent_cancellation_result" where
  "release_right job_id detect user_id retention_hours now torrent request d =
     (let was_ranked = ranked_if detect d torrent now;
          d1 = release_usage user_id (t_total_size torrent) now
                 (put_request (cancelled_request now request) d);
          purge_after = (if t_state torrent = ERROR then now else now + hours retention_hours)
      in if has_active_request d1 (t_id torrent)
         then Inr (d1, \<lparr>tc_request_id = r_id request, tc_managed_torrent_id = t_id torrent,
                        tc_cancelled = True, tc_purge_scheduled = False, tc_purge_after = None,
                        tc_queue_membership_changed =
                          (was_ranked \<noteq> ranked_if detect d1 torrent now)\<rparr>)
         else rbind (schedule_deferred_purge job_id torrent (Some (r_id request)) purge_after now d1)
                (\<lambda>(d2, torrent', _).
                Inr (d2, \<lparr>tc_request_id = r_id request, tc_managed_torrent_id = t_id torrent,
                          tc_cancelled = True, tc_purge_scheduled = True,
                          tc_purge_after = Some purge_after,
                          tc_queue_membership_changed =
                            (was_ranked \<noteq> ranked_if detect d2 torrent' now)\<rparr>)))"

definition cancel_loaded_request ::
  "uuid \<Rightarrow> bool \<Rightarrow> uuid \<Rightarrow> int \<Rightarrow> instant \<Rightarrow> managed_torrent \<Rightarrow> torrent_request \<Rightarrow> db
     \<Rightarrow> app_error + db \<times> torrent_cancellation_result option" where
  "cancel_loaded_request job_id detect user_id retention_hours now torrent request d =
     (if r_state request = R_CANCELLED
      then Inr (d, Some \<lparr>tc_request_id = r_id request, tc_managed_torrent_id = t_id torrent,
                  tc_cancelled = False, tc_purge_scheduled = False,
                  tc_purge_after = t_purge_after torrent, tc_queue_membership_changed = False\<rparr>)
      else if \<not> active_request_state (r_state request) then Inr (d, None)
      else rbind (release_right job_id detect user_id retention_hours now torrent request d)
             (\<lambda>(d', r). Inr (d', Some r)))"

definition owned_request_row :: "uuid \<Rightarrow> uuid \<Rightarrow> db \<Rightarrow> (torrent_request \<times> managed_torrent) option" where
  "owned_request_row user_id torrent_request_id d =
     (case find_row u_id user_id (db_users d) of
        None \<Rightarrow> None
      | Some _ \<Rightarrow>
          (case find (\<lambda>r. r_id r = torrent_request_id \<and> r_user_id r = user_id) (db_requests d) of
             None \<Rightarrow> None
           | Some request \<Rightarrow>
               map_option (\<lambda>t. (request, t))
                 (find_row t_id (r_managed_torrent_id request) (db_torrents d))))"

definition cancel_owned_torrent_request ::
  "uuid \<Rightarrow> uuid \<Rightarrow> uuid \<Rightarrow> int \<Rightarrow> instant \<Rightarrow> bool \<Rightarrow> db
     \<Rightarrow> app_error + db \<times> torrent_cancellation_result option" where
  "cancel_owned_torrent_request job_id user_id torrent_request_id retention_hours now detect d =
     rbind (validate_lifecycle_hours retention_hours ''torrent retention'') (\<lambda>_.
     case owned_request_row user_id torrent_request_id d of
       None \<Rightarrow> Inr (d, None)
     | Some (request, torrent) \<Rightarrow>
         cancel_loaded_request job_id detect user_id retention_hours now torrent request d)"

section \<open>Invariants\<close>

text \<open>
  \<open>tables_ok\<close> collects the constraints of the schema the proofs use (CHECKs, unique indexes and the
  foreign key of a request); \<open>rights_ok\<close> says that content scheduled for deletion, or being or
  already deleted, is held by nobody; \<open>system_ok\<close> adds the agreement of the counters.
\<close>

definition tables_ok :: "db \<Rightarrow> bool" where
  "tables_ok d \<longleftrightarrow>
     torrents_unique (db_torrents d) \<and> list_all torrent_check (db_torrents d)
     \<and> distinct (map us_user_id (db_usages d)) \<and> list_all usage_check (db_usages d)
     \<and> requests_unique (db_requests d)
     \<and> list_all (\<lambda>r. r_managed_torrent_id r \<in> set (map t_id (db_torrents d))) (db_requests d)"

definition rights_ok :: "db \<Rightarrow> bool" where
  "rights_ok d \<longleftrightarrow>
     list_all (\<lambda>t. t_purge_after t \<noteq> None \<or> purge_state (t_state t)
                 \<longrightarrow> \<not> has_active_request d (t_id t)) (db_torrents d)"

definition system_ok :: "db \<Rightarrow> bool" where
  "system_ok d \<longleftrightarrow> tables_ok d \<and> accounting_ok d \<and> rights_ok d"


lemma put_request_frame [simp]:
  "db_torrents (put_request r d) = db_torrents d" "db_usages (put_request r d) = db_usages d"
  "db_ledger (put_request r d) = db_ledger d" "db_jobs (put_request r d) = db_jobs d"
  "db_users (put_request r d) = db_users d" "db_options (put_request r d) = db_options d"
  "db_scheduler (put_request r d) = db_scheduler d" "db_leases (put_request r d) = db_leases d"
  "db_files (put_request r d) = db_files d"
  by (simp_all add: put_request_def)

lemma release_usage_frame [simp]:
  "db_torrents (release_usage u n now d) = db_torrents d"
  "db_requests (release_usage u n now d) = db_requests d"
  "db_ledger (release_usage u n now d) = db_ledger d" "db_jobs (release_usage u n now d) = db_jobs d"
  "db_users (release_usage u n now d) = db_users d" "db_leases (release_usage u n now d) = db_leases d"
  "db_files (release_usage u n now d) = db_files d"
  by (simp_all add: release_usage_def)

lemma put_torrent_frame2 [simp]:
  "db_usages (put_torrent t d) = db_usages d" "db_ledger (put_torrent t d) = db_ledger d"
  "db_options (put_torrent t d) = db_options d" "db_scheduler (put_torrent t d) = db_scheduler d"
  "db_leases (put_torrent t d) = db_leases d" "db_files (put_torrent t d) = db_files d"
  by (simp_all add: put_torrent_def)

lemma put_job_frame2 [simp]:
  "db_usages (put_job j d) = db_usages d" "db_ledger (put_job j d) = db_ledger d"
  "db_leases (put_job j d) = db_leases d" "db_files (put_job j d) = db_files d"
  by (simp_all add: put_job_def)

text \<open>The invariants read five tables only.\<close>

lemma has_active_request_cong:
  "db_requests d' = db_requests d \<Longrightarrow> has_active_request d' t = has_active_request d t"
  by (simp add: has_active_request_def torrent_requests_in_def)

lemma system_ok_cong:
  assumes "db_torrents d' = db_torrents d" "db_requests d' = db_requests d"
    "db_usages d' = db_usages d" "db_ledger d' = db_ledger d"
  shows "system_ok d' = system_ok d"
proof -
  have "rights_ok d' = rights_ok d"
    by (simp add: rights_ok_def assms(1) has_active_request_cong [OF assms(2)])
  then show ?thesis
    by (simp add: system_ok_def tables_ok_def accounting_ok_def usage_bytes_def ledger_bytes_def assms)
qed

lemma has_active_request_iff:
  "has_active_request d k \<longleftrightarrow>
     (\<exists>r\<in>set (db_requests d). r_managed_torrent_id r = k \<and> active_request_state (r_state r))"
  by (auto simp: has_active_request_def torrent_requests_in_def filter_empty_conv)

subsection \<open>Changing one request\<close>

definition same_right :: "torrent_request \<Rightarrow> torrent_request \<Rightarrow> bool" where
  "same_right r r' \<longleftrightarrow>
     r_id r' = r_id r \<and> r_user_id r' = r_user_id r
     \<and> r_managed_torrent_id r' = r_managed_torrent_id r"

lemma request_bytes_same: "same_right r r' \<Longrightarrow> request_bytes ts r' = request_bytes ts r"
  by (simp add: request_bytes_def same_right_def)

lemma put_request_ids: "same_right r r' \<Longrightarrow> map r_id (db_requests (put_request r' d)) = map r_id (db_requests d)"
  by (auto simp: put_request_def update_row_def)

lemma in_put_request:
  assumes "distinct (map r_id (db_requests d))" "r \<in> set (db_requests d)" "same_right r r'"
  shows "x \<in> set (db_requests (put_request r' d)) \<longleftrightarrow>
     x = r' \<or> x \<in> set (db_requests d) \<and> r_id x \<noteq> r_id r"
  using assms(2,3) by (auto simp: put_request_def in_update_row same_right_def)

lemma logical_sum_put_request:
  assumes "distinct (map r_id (db_requests d))" "r \<in> set (db_requests d)" "same_right r r'"
  shows "logical_sum ts (db_requests (put_request r' d)) u =
     logical_sum ts (db_requests d) u + (logical_weight ts u r' - logical_weight ts u r)"
  using sum_list_update_row [OF assms(1,2), of "r_id r'" "logical_weight ts u" "\<lambda>_. r'"] assms(3)
  by (simp add: logical_sum_def put_request_def same_right_def)

lemma filter_update_row_out:
  "\<not> P x \<Longrightarrow> filter P (update_row key k (\<lambda>_. x) rows) = filter P (filter (\<lambda>r. key r \<noteq> k) rows)"
  by (induction rows) (auto simp: update_row_def)

lemma map_filter_update_row_same:
  "(\<And>y. y \<in> set rows \<Longrightarrow> key y = k \<Longrightarrow> P y = P x \<and> g y = g x) \<Longrightarrow>
     map g (filter P (update_row key k (\<lambda>_. x) rows)) = map g (filter P rows)"
  by (induction rows) (auto simp: update_row_def)

lemma owners_put_request:
  assumes "requests_unique (db_requests d)" "r \<in> set (db_requests d)" "same_right r r'"
    and "active_request_state (r_state r') \<longrightarrow> active_request_state (r_state r)"
  shows "requests_unique (db_requests (put_request r' d))"
proof (cases "active_request_state (r_state r')")
  case True
  have "active_request_state (r_state x) = active_request_state (r_state r')
      \<and> request_owner x = request_owner r'"
    if "x \<in> set (db_requests d)" "r_id x = r_id r'" for x
  proof -
    have "x = r"
      using assms(1-3) that by (auto simp: requests_unique_def same_right_def distinct_map inj_on_def)
    then show ?thesis using True assms(3,4) by (simp add: same_right_def request_owner_def)
  qed
  then have "map request_owner (active_requests (db_requests (put_request r' d)))
      = map request_owner (active_requests (db_requests d))"
    unfolding put_request_def active_requests_def by (simp add: map_filter_update_row_same)
  then show ?thesis
    using assms(1) put_request_ids [OF assms(3), of d] by (simp add: requests_unique_def)
next
  case False
  then have "active_requests (db_requests (put_request r' d))
      = filter (\<lambda>x. r_id x \<noteq> r_id r') (active_requests (db_requests d))"
    by (simp add: put_request_def active_requests_def filter_update_row_out conj_commute)
  then show ?thesis
    using assms(1) put_request_ids [OF assms(3), of d]
    by (simp add: requests_unique_def distinct_map_filter)
qed

lemma has_active_put_request:
  assumes "distinct (map r_id (db_requests d))" "r \<in> set (db_requests d)" "same_right r r'"
    and "active_request_state (r_state r') \<longrightarrow> active_request_state (r_state r)"
    and "has_active_request (put_request r' d) k"
  shows "has_active_request d k"
proof -
  from assms(5) obtain x where x: "x \<in> set (db_requests (put_request r' d))"
    "r_managed_torrent_id x = k" "active_request_state (r_state x)"
    by (auto simp: has_active_request_iff)
  then have "x = r' \<or> x \<in> set (db_requests d)" using in_put_request [OF assms(1-3), of x] by blast
  then show ?thesis
    using x(2,3) assms(2-4) unfolding has_active_request_iff same_right_def by metis
qed

lemma tables_ok_put_request:
  assumes "tables_ok d" "r \<in> set (db_requests d)" "same_right r r'"
    and "active_request_state (r_state r') \<longrightarrow> active_request_state (r_state r)"
  shows "tables_ok (put_request r' d)"
proof -
  have "distinct (map r_id (db_requests d))" using assms(1) by (simp add: tables_ok_def requests_unique_def)
  from in_put_request [OF this assms(2,3)] show ?thesis
    using assms owners_put_request [OF _ assms(2-4)]
    by (auto simp: tables_ok_def list_all_iff same_right_def)
qed

lemma rights_ok_put_request:
  assumes "tables_ok d" "rights_ok d" "r \<in> set (db_requests d)" "same_right r r'"
    and "active_request_state (r_state r') \<longrightarrow> active_request_state (r_state r)"
  shows "rights_ok (put_request r' d)"
proof -
  have dist: "distinct (map r_id (db_requests d))"
    using assms(1) by (simp add: tables_ok_def requests_unique_def)
  show ?thesis
    using assms(2) has_active_put_request [OF dist assms(3-5)]
    by (auto simp: rights_ok_def list_all_iff)
qed

text \<open>A change that keeps the right active keeps every counter.\<close>

lemma system_ok_keep_right:
  assumes "system_ok d" "r \<in> set (db_requests d)" "same_right r r'"
    and "active_request_state (r_state r') = active_request_state (r_state r)"
  shows "system_ok (put_request r' d)"
proof -
  have tab: "tables_ok d" and acc: "accounting_ok d" and rig: "rights_ok d"
    using assms(1) by (simp_all add: system_ok_def)
  have dist: "distinct (map r_id (db_requests d))" using tab by (simp add: tables_ok_def requests_unique_def)
  have "logical_weight (db_torrents d) u r' = logical_weight (db_torrents d) u r" for u
    using assms(3,4) by (simp add: logical_weight_def same_right_def request_bytes_same [OF assms(3)])
  then have "accounting_ok (put_request r' d)"
    using acc logical_sum_put_request [OF dist assms(2,3), of "db_torrents d"]
    by (simp add: accounting_ok_iff usage_bytes_def ledger_bytes_def)
  then show ?thesis
    using tables_ok_put_request [OF tab assms(2,3)] rights_ok_put_request [OF tab rig assms(2,3)] assms(4)
    by (simp add: system_ok_def)
qed

lemma usage_checks_release:
  "list_all usage_check (db_usages d) \<Longrightarrow> list_all usage_check (db_usages (release_usage u n now d))"
  by (auto simp: list_all_iff usage_check_def release_usage_def in_update_row)

lemma usage_ids_release [simp]:
  "map us_user_id (db_usages (release_usage u n now d)) = map us_user_id (db_usages d)"
  by (simp add: release_usage_def update_row_def)

text \<open>A right that ends gives its bytes back exactly: the floor at zero is never reached.\<close>

lemma system_ok_end_right:
  assumes "system_ok d" "r \<in> set (db_requests d)" "same_right r r'"
    and "active_request_state (r_state r)" "\<not> active_request_state (r_state r')"
    and "t \<in> set (db_torrents d)" "t_id t = r_managed_torrent_id r"
  shows "system_ok (release_usage (r_user_id r) (t_total_size t) now (put_request r' d))"
proof -
  have tab: "tables_ok d" and acc: "accounting_ok d" and rig: "rights_ok d"
    using assms(1) by (simp_all add: system_ok_def)
  have dist: "distinct (map r_id (db_requests d))" using tab by (simp add: tables_ok_def requests_unique_def)
  have bytes: "request_bytes (db_torrents d) r = t_total_size t"
    using tab assms(6,7) by (intro request_bytes_of) (auto simp: tables_ok_def torrents_unique_def)
  have size: "0 \<le> t_total_size t"
    using tab assms(6) by (auto simp: tables_ok_def list_all_iff torrent_check_def)
  let ?d = "put_request r' d"
  have sums: "logical_sum (db_torrents d) (db_requests ?d) u =
      logical_sum (db_torrents d) (db_requests d) u
      - (if u = r_user_id r then t_total_size t else 0)" for u
    using logical_sum_put_request [OF dist assms(2,3), of "db_torrents d" u] assms(4,5)
    by (auto simp: logical_weight_def bytes)
  have covered: "t_total_size t \<le> usage_bytes ?d (r_user_id r)"
    using logical_sum_member [OF _ assms(2), of "db_torrents d" "r_user_id r"] tab acc assms(4)
    by (simp add: tables_ok_def accounting_ok_iff logical_weight_def bytes usage_bytes_def)
  have "accounting_ok (release_usage (r_user_id r) (t_total_size t) now ?d)"
    using acc sums release_usage_exact [OF covered size]
    by (simp add: accounting_ok_iff ledger_bytes_def) (simp add: usage_bytes_def)
  moreover have "tables_ok (release_usage (r_user_id r) (t_total_size t) now ?d)"
    using tables_ok_put_request [OF tab assms(2,3)] assms(5) usage_checks_release
    by (simp add: tables_ok_def)
  moreover have "has_active_request (release_usage (r_user_id r) (t_total_size t) now ?d) k
      = has_active_request ?d k" for k
    by (rule has_active_request_cong) simp
  then have "rights_ok (release_usage (r_user_id r) (t_total_size t) now ?d)"
    using rights_ok_put_request [OF tab rig assms(2,3)] assms(5) by (simp add: rights_ok_def)
  ultimately show ?thesis by (simp add: system_ok_def)
qed

subsection \<open>Changing one torrent\<close>

text \<open>
  A write of a torrent row keeps the invariants when it keeps the identity and size of the torrent
  and its constraints, does not cross the PURGED state, and marks the content for deletion only
  when no right is left.
\<close>

definition same_torrent :: "managed_torrent \<Rightarrow> managed_torrent \<Rightarrow> bool" where
  "same_torrent t t' \<longleftrightarrow>
     t_id t' = t_id t \<and> t_info_hash t' = t_info_hash t \<and> t_storage_key t' = t_storage_key t
     \<and> t_total_size t' = t_total_size t"

lemma map_update_row_same:
  assumes "distinct (map key rows)" "r \<in> set rows" "key x = key r" "g x = g r"
  shows "map g (update_row key (key x) (\<lambda>_. x) rows) = map g rows"
proof -
  have "g y = g x" if "y \<in> set rows" "key y = key x" for y
    using assms that by (metis (no_types, lifting) distinct_map inj_onD)
  then show ?thesis by (auto simp: update_row_def)
qed

lemma in_put_torrent:
  assumes "t \<in> set (db_torrents d)" "t_id t' = t_id t"
  shows "x \<in> set (db_torrents (put_torrent t' d)) \<longleftrightarrow>
     x = t' \<or> x \<in> set (db_torrents d) \<and> t_id x \<noteq> t_id t"
  using assms by (auto simp: put_torrent_def in_update_row)

lemma put_torrent_maps:
  assumes "torrents_unique (db_torrents d)" "t \<in> set (db_torrents d)" "same_torrent t t'"
  shows "map t_id (db_torrents (put_torrent t' d)) = map t_id (db_torrents d)"
    "map t_info_hash (db_torrents (put_torrent t' d)) = map t_info_hash (db_torrents d)"
    "map t_storage_key (db_torrents (put_torrent t' d)) = map t_storage_key (db_torrents d)"
    "request_bytes (db_torrents (put_torrent t' d)) = request_bytes (db_torrents d)"
proof -
  have dist: "distinct (map t_id (db_torrents d))" using assms(1) by (simp add: torrents_unique_def)
  note m = map_update_row_same [OF dist assms(2), of t']
  show "map t_id (db_torrents (put_torrent t' d)) = map t_id (db_torrents d)"
    "map t_info_hash (db_torrents (put_torrent t' d)) = map t_info_hash (db_torrents d)"
    "map t_storage_key (db_torrents (put_torrent t' d)) = map t_storage_key (db_torrents d)"
    using assms(3) m [of t_id] m [of t_info_hash] m [of t_storage_key]
    by (simp_all add: put_torrent_def same_torrent_def)
  show "request_bytes (db_torrents (put_torrent t' d)) = request_bytes (db_torrents d)"
    by (rule request_bytes_cong)
      (use assms(3) m [of "\<lambda>t. (t_id t, t_total_size t)"] in \<open>simp add: put_torrent_def same_torrent_def\<close>)
qed

lemma tables_ok_put_torrent:
  assumes "tables_ok d" "t \<in> set (db_torrents d)" "same_torrent t t'" "torrent_check t'"
  shows "tables_ok (put_torrent t' d)"
proof -
  have u: "torrents_unique (db_torrents d)" using assms(1) by (simp add: tables_ok_def)
  note m = put_torrent_maps [OF u assms(2,3)]
  have "list_all torrent_check (db_torrents (put_torrent t' d))"
    using assms in_put_torrent [OF assms(2), of t'] by (auto simp: tables_ok_def list_all_iff same_torrent_def)
  then show ?thesis using assms(1) m by (simp add: tables_ok_def torrents_unique_def)
qed

lemma managed_sum_put_torrent:
  assumes "torrents_unique (db_torrents d)" "t \<in> set (db_torrents d)" "t_id t' = t_id t"
  shows "managed_sum (db_torrents (put_torrent t' d)) =
     managed_sum (db_torrents d) + (managed_weight t' - managed_weight t)"
  using sum_list_update_row [of t_id "db_torrents d" t "t_id t" managed_weight "\<lambda>_. t'"] assms
  by (simp add: managed_sum_def put_torrent_def torrents_unique_def)

lemma logical_sum_put_torrent:
  assumes "torrents_unique (db_torrents d)" "t \<in> set (db_torrents d)" "same_torrent t t'"
  shows "logical_sum (db_torrents (put_torrent t' d)) = logical_sum (db_torrents d)"
  by (intro ext) (simp only: logical_sum_def logical_weight_def put_torrent_maps(4) [OF assms])

lemma rights_ok_put_torrent:
  assumes "rights_ok d" "t \<in> set (db_torrents d)" "t_id t' = t_id t"
    and "t_purge_after t' \<noteq> None \<or> purge_state (t_state t') \<Longrightarrow> \<not> has_active_request d (t_id t)"
  shows "rights_ok (put_torrent t' d)"
proof -
  have "has_active_request (put_torrent t' d) k = has_active_request d k" for k
    by (rule has_active_request_cong) simp
  then show ?thesis
    using assms in_put_torrent [OF assms(2,3)] by (auto simp: rights_ok_def list_all_iff)
qed

lemma system_ok_put_torrent:
  assumes "system_ok d" "t \<in> set (db_torrents d)" "same_torrent t t'" "torrent_check t'"
    and "t_state t' = PURGED \<longleftrightarrow> t_state t = PURGED"
    and "t_purge_after t' \<noteq> None \<or> purge_state (t_state t') \<Longrightarrow> \<not> has_active_request d (t_id t)"
  shows "system_ok (put_torrent t' d)"
proof -
  have tab: "tables_ok d" and acc: "accounting_ok d" and rig: "rights_ok d"
    using assms(1) by (simp_all add: system_ok_def)
  have u: "torrents_unique (db_torrents d)" using tab by (simp add: tables_ok_def)
  have id: "t_id t' = t_id t" using assms(3) by (simp add: same_torrent_def)
  have "managed_weight t' = managed_weight t"
    using assms(3,5) by (simp add: managed_weight_def same_torrent_def)
  then have "accounting_ok (put_torrent t' d)"
    using acc managed_sum_put_torrent [OF u assms(2) id] logical_sum_put_torrent [OF u assms(2,3)]
    by (simp add: accounting_ok_iff usage_bytes_def ledger_bytes_def)
  then show ?thesis
    using tables_ok_put_torrent [OF tab assms(2-4)] rights_ok_put_torrent [OF rig assms(2) id assms(6)]
    by (simp add: system_ok_def)
qed

section \<open>Scheduling a purge\<close>

lemma torrent_check_scheduled:
  "torrent_check t \<Longrightarrow> t_state t \<noteq> PURGED \<Longrightarrow> torrent_check (purge_scheduled_torrent pa now t)"
  by (auto simp: torrent_check_def purge_scheduled_torrent_def)

lemma insert_job_frame:
  "insert_job j d = Inr d' \<Longrightarrow> d' = d\<lparr>db_jobs := db_jobs d @ [j]\<rparr>"
  by (simp add: insert_job_def split: if_splits)

lemma schedule_deferred_purge_cases:
  assumes "schedule_deferred_purge i t origin pa now d = Inr (d', t', job)"
  shows "t' = purge_scheduled_torrent pa now t" "job = deferred_purge_job i t' origin pa now"
    "d' = (put_torrent t' d)\<lparr>db_jobs := db_jobs d @ [job]\<rparr>"
  using assms by (auto simp: schedule_deferred_purge_def Let_def rbind_Inr_iff dest: insert_job_frame)

lemma system_ok_schedule:
  assumes "system_ok d" "t \<in> set (db_torrents d)" "t_state t \<noteq> PURGED"
    and "\<not> has_active_request d (t_id t)"
    and "schedule_deferred_purge i t origin pa now d = Inr (d', t', job)"
  shows "system_ok d'"
proof -
  note c = schedule_deferred_purge_cases [OF assms(5)]
  have "torrent_check t"
    using assms(1,2) by (auto simp: system_ok_def tables_ok_def list_all_iff)
  then have "system_ok (put_torrent t' d)"
    unfolding c(1) using assms(1-4)
    by (intro system_ok_put_torrent [of d t] torrent_check_scheduled)
      (auto simp: same_torrent_def purge_scheduled_torrent_def)
  then show ?thesis using system_ok_cong [of d' "put_torrent t' d"] c(3) by simp
qed

section \<open>Cancellation\<close>

lemma cancelled_request_simps [simp]:
  "same_right r (cancelled_request now r)" "\<not> active_request_state (r_state (cancelled_request now r))"
  by (simp_all add: same_right_def cancelled_request_def)

lemma active_request_not_purged:
  assumes "system_ok d" "t \<in> set (db_torrents d)" "has_active_request d (t_id t)"
  shows "t_purge_after t = None" "\<not> purge_state (t_state t)"
  using assms by (auto simp: system_ok_def rights_ok_def list_all_iff)

lemma find_SomeD: "find P xs = Some x \<Longrightarrow> x \<in> set xs \<and> P x"
  by (auto simp: find_Some_iff)

lemma cancel_owned_cases:
  assumes "cancel_owned_torrent_request i user rid n now detect d = Inr (d', res)"
  obtains (unchanged) "d' = d" "case res of None \<Rightarrow> True | Some x \<Rightarrow> \<not> tc_cancelled x \<and> \<not> tc_purge_scheduled x"
  | (released) r t x where "r \<in> set (db_requests d)" "r_id r = rid" "r_user_id r = user"
      "active_request_state (r_state r)" "t \<in> set (db_torrents d)" "t_id t = r_managed_torrent_id r"
      "release_right i detect user n now t r d = Inr (d', x)" "res = Some x"
proof (cases "owned_request_row user rid d")
  case None
  then show thesis
    using assms unchanged by (auto simp: cancel_owned_torrent_request_def rbind_Inr_iff)
next
  case (Some p)
  obtain r t where p: "p = (r, t)" by (cases p)
  have run: "cancel_loaded_request i detect user n now t r d = Inr (d', res)"
    using assms Some p by (auto simp: cancel_owned_torrent_request_def rbind_Inr_iff)
  have row: "r \<in> set (db_requests d)" "r_id r = rid" "r_user_id r = user" "t \<in> set (db_torrents d)"
    "t_id t = r_managed_torrent_id r"
    using Some p by (auto simp: owned_request_row_def split: option.splits
        dest!: find_SomeD find_row_SomeD)
  show thesis
  proof (cases "active_request_state (r_state r)")
    case True
    then have "r_state r \<noteq> R_CANCELLED" by auto
    with True run obtain x where "release_right i detect user n now t r d = Inr (d', x)" "res = Some x"
      by (auto simp: cancel_loaded_request_def rbind_Inr_iff)
    then show thesis by (rule released [OF row(1-3) True row(4,5)])
  next
    case False
    then have "d' = d" "case res of None \<Rightarrow> True | Some x \<Rightarrow> \<not> tc_cancelled x \<and> \<not> tc_purge_scheduled x"
      using run by (auto simp: cancel_loaded_request_def split: if_splits)
    then show thesis by (rule unchanged)
  qed
qed

lemma release_right_ok:
  assumes "system_ok d" "r \<in> set (db_requests d)" "active_request_state (r_state r)"
    "t \<in> set (db_torrents d)" "t_id t = r_managed_torrent_id r"
    and "release_right i detect (r_user_id r) n now t r d = Inr (d', x)"
  shows "system_ok d'"
proof -
  let ?d1 = "release_usage (r_user_id r) (t_total_size t) now (put_request (cancelled_request now r) d)"
  have ok: "system_ok ?d1" by (rule system_ok_end_right) (use assms in simp_all)
  have "has_active_request d (t_id t)"
    using assms(2,3,5) by (auto simp: has_active_request_iff)
  then have alive: "t_state t \<noteq> PURGED"
    using active_request_not_purged [OF assms(1,4)] by auto
  show ?thesis
  proof (cases "has_active_request ?d1 (t_id t)")
    case True
    then show ?thesis using assms(6) ok by (simp add: release_right_def Let_def)
  next
    case False
    then obtain t' job where "schedule_deferred_purge i t (Some (r_id r))
        (if t_state t = ERROR then now else now + hours n) now ?d1 = Inr (d', t', job)"
      using assms(6) by (auto simp: release_right_def Let_def rbind_Inr_iff)
    then show ?thesis
      using system_ok_schedule [OF ok _ alive False] assms(4) by simp
  qed
qed

lemma cancel_owned_ok:
  assumes "system_ok d" "cancel_owned_torrent_request i user rid n now detect d = Inr (d', res)"
  shows "system_ok d'"
  using assms(2)
proof (cases rule: cancel_owned_cases)
  case (released r t x)
  then show ?thesis using release_right_ok [OF assms(1), of r t] by blast
qed (use assms(1) in simp)

section \<open>Becoming ready\<close>

lemma put_requests_simps [simp]:
  "put_requests [] d = d" "put_requests (r # rs) d = put_requests rs (put_request r d)"
  by (simp_all add: put_requests_def)

lemma put_requests_frame [simp]:
  "db_torrents (put_requests rs d) = db_torrents d" "db_jobs (put_requests rs d) = db_jobs d"
  "db_users (put_requests rs d) = db_users d" "db_usages (put_requests rs d) = db_usages d"
  "db_ledger (put_requests rs d) = db_ledger d" "db_leases (put_requests rs d) = db_leases d"
  by (induction rs arbitrary: d) simp_all

lemma has_active_keep_right:
  assumes "distinct (map r_id (db_requests d))" "r \<in> set (db_requests d)" "same_right r r'"
    and "active_request_state (r_state r') = active_request_state (r_state r)"
  shows "has_active_request (put_request r' d) k = has_active_request d k"
proof
  assume "has_active_request (put_request r' d) k"
  then show "has_active_request d k" by (rule has_active_put_request [OF assms(1-3), rotated]) (use assms(4) in simp)
next
  assume "has_active_request d k"
  then obtain x where x: "x \<in> set (db_requests d)" "r_managed_torrent_id x = k" "active_request_state (r_state x)"
    by (auto simp: has_active_request_iff)
  note mem = in_put_request [OF assms(1-3)]
  show "has_active_request (put_request r' d) k"
  proof (cases "r_id x = r_id r")
    case True
    then have "x = r" using assms(1,2) x(1) by (auto simp: distinct_map inj_on_def)
    then show ?thesis
      unfolding has_active_request_iff using mem [of r'] x(2,3) assms(3,4) by (auto simp: same_right_def)
  next
    case False
    then show ?thesis unfolding has_active_request_iff using mem [of x] x by blast
  qed
qed

text \<open>Writing back a list of requests whose rights are the same.\<close>

definition keeps_rights :: "db \<Rightarrow> torrent_request list \<Rightarrow> bool" where
  "keeps_rights d rs \<longleftrightarrow> distinct (map r_id rs)
     \<and> (\<forall>r'\<in>set rs. \<exists>r\<in>set (db_requests d). same_right r r'
          \<and> active_request_state (r_state r') = active_request_state (r_state r))"

lemma keeps_rights_tl:
  assumes "system_ok d" "keeps_rights d (r' # rs)" "r \<in> set (db_requests d)" "same_right r r'"
    and "active_request_state (r_state r') = active_request_state (r_state r)"
  shows "keeps_rights (put_request r' d) rs"
proof -
  have dist: "distinct (map r_id (db_requests d))"
    using assms(1) by (simp add: system_ok_def tables_ok_def requests_unique_def)
  have "\<exists>x\<in>set (db_requests (put_request r' d)). same_right x y
      \<and> active_request_state (r_state y) = active_request_state (r_state x)" if y: "y \<in> set rs" for y
  proof -
    obtain x where x: "x \<in> set (db_requests d)" "same_right x y"
      "active_request_state (r_state y) = active_request_state (r_state x)"
      using assms(2) y by (auto simp: keeps_rights_def)
    have "r_id y \<noteq> r_id r'" using assms(2) y by (auto simp: keeps_rights_def image_iff)
    then have "r_id x \<noteq> r_id r" using x(2) assms(4) by (simp add: same_right_def)
    then show ?thesis using x in_put_request [OF dist assms(3,4), of x] by blast
  qed
  then show ?thesis using assms(2) by (simp add: keeps_rights_def)
qed

lemma put_requests_keep:
  assumes "system_ok d" "keeps_rights d rs"
  shows "system_ok (put_requests rs d) \<and> (\<forall>k. has_active_request (put_requests rs d) k = has_active_request d k)"
  using assms
proof (induction rs arbitrary: d)
  case (Cons r' rs)
  obtain r where r: "r \<in> set (db_requests d)" "same_right r r'"
    "active_request_state (r_state r') = active_request_state (r_state r)"
    using Cons.prems(2) by (auto simp: keeps_rights_def)
  from Cons.IH [OF system_ok_keep_right [OF Cons.prems(1) r] keeps_rights_tl [OF Cons.prems r]]
  show ?case using has_active_keep_right [OF _ r] Cons.prems(1)
    by (simp add: system_ok_def tables_ok_def requests_unique_def)
qed simp

lemma distinct_map_sort_filter:
  "distinct (map f rows) \<Longrightarrow> distinct (map f (sort_key g (filter P rows)))"
  by (auto simp: distinct_map inj_on_def)

lemma requests_distinct: "system_ok d \<Longrightarrow> distinct (map r_id (db_requests d))"
  by (simp add: system_ok_def tables_ok_def requests_unique_def)

lemma torrents_distinct: "system_ok d \<Longrightarrow> distinct (map t_id (db_torrents d))"
  by (simp add: system_ok_def tables_ok_def torrents_unique_def)

lemma torrent_row_ok: "system_ok d \<Longrightarrow> t \<in> set (db_torrents d) \<Longrightarrow> torrent_check t"
  by (auto simp: system_ok_def tables_ok_def list_all_iff)

lemma pending_requests_props:
  "set (pending_requests k d) =
     {r \<in> set (db_requests d). r_managed_torrent_id r = k \<and> waiting_request_state (r_state r)}"
  by (auto simp: pending_requests_def torrent_requests_in_def)

lemma ready_request_same: "same_right r (ready_request now n r)" "r_state (ready_request now n r) = R_READY"
  by (simp_all add: ready_request_def same_right_def)

lemma pending_ready_keep:
  assumes "system_ok d" "db_requests d' = db_requests d"
  shows "keeps_rights d' (map (ready_request now n) (pending_requests k d))"
proof -
  have "distinct (map r_id (pending_requests k d))"
    unfolding pending_requests_def torrent_requests_in_def
    by (rule distinct_map_sort_filter) (rule requests_distinct [OF assms(1)])
  then have "distinct (map r_id (map (ready_request now n) (pending_requests k d)))"
    by (simp add: comp_def ready_request_def)
  moreover have "\<exists>r\<in>set (db_requests d'). same_right r (ready_request now n x)
      \<and> active_request_state (r_state (ready_request now n x)) = active_request_state (r_state r)"
    if "x \<in> set (pending_requests k d)" for x
    using that assms(2) by (intro bexI [of _ x]) (auto simp: ready_request_same pending_requests_props waiting_active)
  ultimately show ?thesis by (auto simp: keeps_rights_def)
qed

lemma mark_ready_requests_ok:
  assumes "system_ok d" "t \<in> set (db_torrents d)" "mark_ready_requests t now n d = Inr (d', t', rs)"
  shows "system_ok d'" "\<And>k. has_active_request d' k = has_active_request d k"
    "db_torrents d' = db_torrents (put_torrent t' d)" "same_torrent t t'" "t_purge_after t' = t_purge_after t"
    "t_state t' = t_state t" "db_jobs d' = db_jobs d" "db_leases d' = db_leases d"
    "t_lifecycle_generation t' = t_lifecycle_generation t"
proof -
  let ?rs = "map (ready_request (as_utc now) n) (pending_requests (t_id t) d)"
  have t': "t' = (if t_ready_at t = None then t\<lparr>t_ready_at := Some (as_utc now)\<rparr> else t)"
    and d': "d' = put_requests ?rs (put_torrent t' d)" and ready: "t_state t = READY"
    using assms(3) by (auto simp: mark_ready_requests_def rbind_Inr_iff require_Inr_iff Let_def)
  have check: "torrent_check t'"
    using torrent_row_ok [OF assms(1,2)] by (simp add: t' torrent_check_def)
  have same: "same_torrent t t'" "t_purge_after t' = t_purge_after t" "t_state t' = t_state t"
    "t_lifecycle_generation t' = t_lifecycle_generation t"
    by (simp_all add: t' same_torrent_def)
  have hold: "t_purge_after t \<noteq> None \<Longrightarrow> \<not> has_active_request d (t_id t)"
    using assms(1,2) by (auto simp: system_ok_def rights_ok_def list_all_iff)
  have ok: "system_ok (put_torrent t' d)"
    by (rule system_ok_put_torrent [OF assms(1,2) same(1) check]) (use ready hold same in auto)
  have keep: "keeps_rights (put_torrent t' d) ?rs" by (rule pending_ready_keep [OF assms(1)]) simp
  note p = put_requests_keep [OF ok keep, folded d']
  show "system_ok d'" using p by blast
  show "has_active_request d' k = has_active_request d k" for k
    using p has_active_request_cong [of "put_torrent t' d" d k] by simp
  show "same_torrent t t'" "t_purge_after t' = t_purge_after t" "t_state t' = t_state t"
    "t_lifecycle_generation t' = t_lifecycle_generation t" by (rule same)+
  show "db_torrents d' = db_torrents (put_torrent t' d)" "db_jobs d' = db_jobs d" "db_leases d' = db_leases d"
    by (simp_all add: d')
qed

lemma backfill_cases:
  assumes "system_ok d"
    and "backfill_ready_unsubscribe_deadlines_batch locked now n limit d = Inr (d', k)"
  obtains rs where "keeps_rights d rs" "d' = put_requests rs d"
proof -
  define rs where "rs = take (nat limit) (sort_key r_id
    (filter (\<lambda>r. r_state r = R_READY \<and> r_unsubscribe_at r = None \<and> \<not> locked (r_id r)) (db_requests d)))"
  define f :: "torrent_request \<Rightarrow> torrent_request" where "f = (\<lambda>r. r\<lparr>r_unsubscribe_at := Some (as_utc now + hours n), r_updated_at := as_utc now\<rparr>)"
  have d': "d' = put_requests (map f rs) d"
    using assms(2) by (auto simp: backfill_ready_unsubscribe_deadlines_batch_def rbind_Inr_iff Let_def
        rs_def f_def)
  have "distinct (map r_id rs)"
    unfolding rs_def take_map [symmetric]
    by (intro distinct_take distinct_map_sort_filter requests_distinct [OF assms(1)])
  then have "distinct (map r_id (map f rs))" by (simp add: f_def comp_def)
  moreover have "\<exists>r\<in>set (db_requests d). same_right r (f x)
        \<and> active_request_state (r_state (f x)) = active_request_state (r_state r)" if "x \<in> set rs" for x
    using that by (intro bexI [of _ x]) (auto simp: f_def same_right_def rs_def dest: in_set_takeD)
  ultimately have "keeps_rights d (map f rs)" by (auto simp: keeps_rights_def)
  then show thesis using that d' by blast
qed

lemma backfill_ok:
  assumes "system_ok d"
    and "backfill_ready_unsubscribe_deadlines_batch locked now n limit d = Inr (d', k)"
  shows "system_ok d'" "\<And>i. has_active_request d' i = has_active_request d i"
    "db_torrents d' = db_torrents d" "db_jobs d' = db_jobs d" "db_leases d' = db_leases d"
proof -
  obtain rs where keep: "keeps_rights d rs" and d': "d' = put_requests rs d"
    by (rule backfill_cases [OF assms])
  note p = put_requests_keep [OF assms(1) keep, folded d']
  show "system_ok d'" "\<And>i. has_active_request d' i = has_active_request d i" using p by blast+
  show "db_torrents d' = db_torrents d" "db_jobs d' = db_jobs d" "db_leases d' = db_leases d"
    by (simp_all add: d')
qed

section \<open>Expiration\<close>

lemma expired_request_same:
  "same_right r (expired_request now r)" "\<not> active_request_state (r_state (expired_request now r))"
  by (simp_all add: expired_request_def same_right_def)

lemma expire_request_frame [simp]:
  "db_torrents (expire_request now n d r) = db_torrents d" "db_jobs (expire_request now n d r) = db_jobs d"
  by (simp_all add: expire_request_def)

text \<open>Rows of other requests survive the expiration of one.\<close>

lemma expire_request_others:
  assumes "distinct (map r_id (db_requests d))" "r \<in> set (db_requests d)"
  shows "x \<in> set (db_requests (expire_request now n d r)) \<longleftrightarrow>
     x = expired_request now r \<or> x \<in> set (db_requests d) \<and> r_id x \<noteq> r_id r"
  using in_put_request [OF assms expired_request_same(1)] by (simp add: expire_request_def)

lemma expire_requests_ok:
  assumes "system_ok d" "t \<in> set (db_torrents d)" "distinct (map r_id rs)"
    and "\<And>r. r \<in> set rs \<Longrightarrow> r \<in> set (db_requests d) \<and> r_state r = R_READY
           \<and> r_managed_torrent_id r = t_id t"
  shows "system_ok (foldl (expire_request now (t_total_size t)) d rs)
     \<and> db_torrents (foldl (expire_request now (t_total_size t)) d rs) = db_torrents d
     \<and> db_jobs (foldl (expire_request now (t_total_size t)) d rs) = db_jobs d
     \<and> set (db_requests (foldl (expire_request now (t_total_size t)) d rs))
         = expired_request now ` set rs \<union> (set (db_requests d) - set rs)"
  using assms
proof (induction rs arbitrary: d)
  case (Cons r rs)
  let ?d = "expire_request now (t_total_size t) d r"
  have r: "r \<in> set (db_requests d)" "r_state r = R_READY" "r_managed_torrent_id r = t_id t"
    using Cons.prems(4) [of r] by auto
  note dist = requests_distinct [OF Cons.prems(1)]
  note oth = expire_request_others [OF dist r(1), of _ now "t_total_size t"]
  have inj: "x = y" if "x \<in> set (db_requests d)" "y \<in> set (db_requests d)" "r_id x = r_id y" for x y
    using dist that by (auto simp: distinct_map inj_on_def)
  have diff: "r_id x \<noteq> r_id r" if "x \<in> set rs" for x
    using Cons.prems(3) that by (auto simp: image_iff)
  have ok: "system_ok ?d"
    unfolding expire_request_def
    by (rule system_ok_end_right) (use Cons.prems(1,2) r expired_request_same in auto)
  have step: "x \<in> set (db_requests ?d) \<and> r_state x = R_READY \<and> r_managed_torrent_id x = t_id t"
    if "x \<in> set rs" for x
    using Cons.prems(4) [of x] that oth diff by auto
  have "set (db_requests ?d) = insert (expired_request now r) (set (db_requests d) - {r})"
    using oth inj r(1) by auto
  moreover have "expired_request now r \<notin> set rs" and "r \<notin> set rs"
    using diff [of "expired_request now r"] diff [of r] by (auto simp: expired_request_def)
  ultimately show ?case
    using Cons.IH [OF ok _ _ step] Cons.prems(2,3) by auto
qed simp

lemma expire_torrent_cases:
  assumes "expire_torrent fresh now n torrents due i d = Inr (d', r)"
  obtains t d1 where "find_row t_id i torrents = Some t"
    "d1 = foldl (expire_request now (t_total_size t)) d (filter (\<lambda>r. r_managed_torrent_id r = i) due)"
    "if has_active_request d1 i then d' = d1
     else \<exists>t' job. schedule_deferred_purge (fresh i) t
        (Some (r_id (hd (filter (\<lambda>r. r_managed_torrent_id r = i) due)))) (now + hours n) now d1
        = Inr (d', t', job)"
  using assms
  by (auto simp: expire_torrent_def Let_def rbind_Inr_iff split: option.splits if_splits)

text \<open>
  No leak: content nobody holds any more is purged or scheduled for its purge.
\<close>

definition retained_at :: "db \<Rightarrow> managed_torrent \<Rightarrow> bool" where
  "retained_at d t \<longleftrightarrow>
     t_state t = PURGED \<or> t_purge_after t \<noteq> None \<or> has_active_request d (t_id t)"

definition retained_ok :: "db \<Rightarrow> bool" where
  "retained_ok d \<longleftrightarrow> list_all (retained_at d) (db_torrents d)"

definition lifecycle_ok :: "db \<Rightarrow> bool" where
  "lifecycle_ok d \<longleftrightarrow> system_ok d \<and> retained_ok d"

lemma retained_at_cong: "db_requests d' = db_requests d \<Longrightarrow> retained_at d' t = retained_at d t"
  unfolding retained_at_def by (simp only: has_active_request_cong [of d' d])

lemma retained_at_requests:
  assumes "\<And>r. r \<in> set (db_requests d) \<Longrightarrow> r_managed_torrent_id r = t_id t \<Longrightarrow>
      active_request_state (r_state r) \<Longrightarrow>
      \<exists>r'\<in>set (db_requests d'). r_managed_torrent_id r' = t_id t \<and> active_request_state (r_state r')"
    and "retained_at d t"
  shows "retained_at d' t"
  using assms unfolding retained_at_def has_active_request_iff by blast

text \<open>
  Ending rights of one torrent and, if none is left, scheduling its purge keeps the content
  accounted for: the torrents that were touched are held or scheduled, the others see the same
  rights.
\<close>

lemma retained_ok_schedule:
  assumes "retained_ok d" "t \<in> set (db_torrents d)"
    and "db_torrents d1 = db_torrents d"
    and "\<And>r. r \<in> set (db_requests d) \<Longrightarrow> r_managed_torrent_id r \<noteq> t_id t \<Longrightarrow> r \<in> set (db_requests d1)"
    and "schedule_deferred_purge i t origin pa now d1 = Inr (d', t', job)"
  shows "retained_ok d'"
proof -
  note c = schedule_deferred_purge_cases [OF assms(5)]
  have t': "t_id t' = t_id t" "t_purge_after t' \<noteq> None" by (simp_all add: c(1) purge_scheduled_torrent_def)
  have "retained_at d' x" if x: "x \<in> set (db_torrents d')" for x
  proof -
    have "x \<in> set (db_torrents (put_torrent t' d1))" using x c(3) by simp
    then have "x = t' \<or> x \<in> set (db_torrents d) \<and> t_id x \<noteq> t_id t"
      using in_put_torrent [of t d1 t' x] assms(2,3) t'(1) by simp
    then show ?thesis
    proof
      assume "x = t'"
      then show ?thesis using t'(2) by (simp add: retained_at_def)
    next
      assume x: "x \<in> set (db_torrents d) \<and> t_id x \<noteq> t_id t"
      then have "retained_at d x" using assms(1) by (auto simp: retained_ok_def list_all_iff)
      then have "retained_at d1 x"
        by (rule retained_at_requests [rotated]) (use assms(4) x in metis)
      then show ?thesis using retained_at_cong [of d' d1] c(3) by simp
    qed
  qed
  then show ?thesis by (simp add: retained_ok_def list_all_iff)
qed

lemma retained_ok_released:
  assumes "retained_ok d" "has_active_request d1 k" "db_torrents d1 = db_torrents d"
    and "\<And>r. r \<in> set (db_requests d) \<Longrightarrow> r_managed_torrent_id r \<noteq> k \<Longrightarrow> r \<in> set (db_requests d1)"
  shows "retained_ok d1"
proof -
  have "retained_at d1 x" if "x \<in> set (db_torrents d)" for x
  proof (cases "t_id x = k")
    case True
    then show ?thesis using assms(2) by (simp add: retained_at_def)
  next
    case False
    have "retained_at d x" using assms(1) that by (auto simp: retained_ok_def list_all_iff)
    then show ?thesis by (rule retained_at_requests [rotated]) (use assms(4) False in metis)
  qed
  then show ?thesis using assms(3) by (simp add: retained_ok_def list_all_iff)
qed

lemma release_right_retained:
  assumes "lifecycle_ok d" "r \<in> set (db_requests d)" "active_request_state (r_state r)"
    "t \<in> set (db_torrents d)" "t_id t = r_managed_torrent_id r"
    and "release_right i detect (r_user_id r) n now t r d = Inr (d', x)"
  shows "lifecycle_ok d'"
proof -
  have ok: "system_ok d" "retained_ok d" using assms(1) by (simp_all add: lifecycle_ok_def)
  let ?d1 = "release_usage (r_user_id r) (t_total_size t) now (put_request (cancelled_request now r) d)"
  have kept: "y \<in> set (db_requests ?d1)"
    if "y \<in> set (db_requests d)" "r_managed_torrent_id y \<noteq> t_id t" for y
  proof -
    have "r_id y \<noteq> r_id r"
      using requests_distinct [OF ok(1)] assms(2,5) that by (auto simp: distinct_map inj_on_def)
    then show ?thesis
      using in_put_request [OF requests_distinct [OF ok(1)] assms(2), of "cancelled_request now r" y] that(1)
      by simp
  qed
  have "retained_ok d'"
  proof (cases "has_active_request ?d1 (t_id t)")
    case True
    then have "d' = ?d1" using assms(6) by (simp add: release_right_def Let_def)
    then show ?thesis using retained_ok_released [OF ok(2) True _ kept] by simp
  next
    case False
    then obtain t' job where "schedule_deferred_purge i t (Some (r_id r))
        (if t_state t = ERROR then now else now + hours n) now ?d1 = Inr (d', t', job)"
      using assms(6) by (auto simp: release_right_def Let_def rbind_Inr_iff)
    then show ?thesis using retained_ok_schedule [OF ok(2) assms(4) _ kept] by simp
  qed
  then show ?thesis using release_right_ok [OF ok(1) assms(2-6)] by (simp add: lifecycle_ok_def)
qed

lemma expire_torrent_ok:
  assumes "lifecycle_ok d" "distinct (map t_id torrents)" "distinct (map r_id due)"
    and "\<And>t. t \<in> set torrents \<Longrightarrow> t_id t = i \<Longrightarrow> t \<in> set (db_torrents d)"
    and "\<And>r. r \<in> set due \<Longrightarrow> r_managed_torrent_id r = i \<Longrightarrow> r \<in> set (db_requests d) \<and> r_state r = R_READY"
    and "i \<in> r_managed_torrent_id ` set due"
    and run: "expire_torrent fresh now n torrents due i d = Inr (d', res)"
  shows "lifecycle_ok d'"
    and "t \<in> set (db_torrents d) \<Longrightarrow> t_id t \<noteq> i \<Longrightarrow> t \<in> set (db_torrents d')"
    and "r \<in> set (db_requests d) \<Longrightarrow> r_managed_torrent_id r \<noteq> i \<Longrightarrow> r \<in> set (db_requests d')"
    and "set (db_requests d') = expired_request now ` {r \<in> set due. r_managed_torrent_id r = i}
           \<union> (set (db_requests d) - {r \<in> set due. r_managed_torrent_id r = i})"
proof -
  have ok: "system_ok d" "retained_ok d" using assms(1) by (simp_all add: lifecycle_ok_def)
  from run obtain x d1 where x: "find_row t_id i torrents = Some x"
    and d1: "d1 = foldl (expire_request now (t_total_size x)) d (filter (\<lambda>r. r_managed_torrent_id r = i) due)"
    and d': "if has_active_request d1 i then d' = d1
     else \<exists>t' job. schedule_deferred_purge (fresh i) x
        (Some (r_id (hd (filter (\<lambda>r. r_managed_torrent_id r = i) due)))) (now + hours n) now d1
        = Inr (d', t', job)"
    by (rule expire_torrent_cases)
  have xt: "x \<in> set (db_torrents d)" "t_id x = i"
    using find_row_SomeD [OF x] assms(4) by auto
  have dist: "distinct (map r_id (filter (\<lambda>r. r_managed_torrent_id r = i) due))"
    using assms(3) by (simp add: distinct_map_filter)
  have pre: "r \<in> set (filter (\<lambda>r. r_managed_torrent_id r = i) due) \<Longrightarrow>
      r \<in> set (db_requests d) \<and> r_state r = R_READY \<and> r_managed_torrent_id r = t_id x" for r
    using assms(5) xt(2) by auto
  note e = expire_requests_ok [OF ok(1) xt(1) dist pre, of now, folded d1]
  have req1: "set (db_requests d1) = expired_request now ` {r \<in> set due. r_managed_torrent_id r = i}
      \<union> (set (db_requests d) - {r \<in> set due. r_managed_torrent_id r = i})"
    using e by simp
  then have kept: "r \<in> set (db_requests d1)"
    if "r \<in> set (db_requests d)" "r_managed_torrent_id r \<noteq> t_id x" for r
    using that xt(2) by auto
  have alive: "t_state x \<noteq> PURGED"
  proof -
    obtain r where "r \<in> set due" "r_managed_torrent_id r = i" using assms(6) by auto
    then have "has_active_request d (t_id x)"
      using assms(5) [of r] xt(2) by (auto simp: has_active_request_iff)
    then show ?thesis using active_request_not_purged [OF ok(1) xt(1)] by auto
  qed
  consider (held) "has_active_request d1 i" "d' = d1"
    | (free) t' job org where "\<not> has_active_request d1 i"
        "schedule_deferred_purge (fresh i) x org (now + hours n) now d1 = Inr (d', t', job)"
    using d' by (auto split: if_splits)
  then have "lifecycle_ok d' \<and> db_requests d' = db_requests d1
      \<and> (t \<in> set (db_torrents d) \<longrightarrow> t_id t \<noteq> i \<longrightarrow> t \<in> set (db_torrents d'))"
  proof cases
    case held
    then show ?thesis
      using retained_ok_released [OF ok(2) _ _ kept] e xt(2) by (auto simp: lifecycle_ok_def)
  next
    case free
    note c = schedule_deferred_purge_cases [OF free(2)]
    have "system_ok d'"
      using system_ok_schedule [OF _ _ alive _ free(2)] e xt free(1) by simp
    moreover have "retained_ok d'"
      using retained_ok_schedule [OF ok(2) xt(1) _ kept free(2)] e by simp
    moreover have "t \<in> set (db_torrents d')" if "t \<in> set (db_torrents d)" "t_id t \<noteq> i"
      using in_put_torrent [of x d1 t' t] that e xt c by (simp add: purge_scheduled_torrent_def)
    ultimately show ?thesis using c(3) by (simp add: lifecycle_ok_def)
  qed
  then show "lifecycle_ok d'" "t \<in> set (db_torrents d) \<Longrightarrow> t_id t \<noteq> i \<Longrightarrow> t \<in> set (db_torrents d')"
    "r \<in> set (db_requests d) \<Longrightarrow> r_managed_torrent_id r \<noteq> i \<Longrightarrow> r \<in> set (db_requests d')"
    "set (db_requests d') = expired_request now ` {r \<in> set due. r_managed_torrent_id r = i}
           \<union> (set (db_requests d) - {r \<in> set due. r_managed_torrent_id r = i})"
    using req1 by auto
qed

section \<open>Purge keys are never drawn twice\<close>

text \<open>
  The unique index on \<open>idempotency_key\<close> refuses a second purge job of one generation. A purge key
  carries the torrent and the generation that was just incremented; \<open>keys_ok\<close> says that no stored
  key is ahead of its torrent, so that the insertion cannot fail.
\<close>

definition purge_key_prefix :: "uuid \<Rightarrow> string" where
  "purge_key_prefix i = ''purge:'' @ uuid_str i @ '':''"

definition key_generation :: "uuid \<Rightarrow> string \<Rightarrow> nat option" where
  "key_generation i key =
     (if take 43 key = purge_key_prefix i then Some (decimal_value (drop 43 key)) else None)"

definition key_behind :: "managed_torrent \<Rightarrow> string \<Rightarrow> bool" where
  "key_behind t key =
     (case key_generation (t_id t) key of None \<Rightarrow> True | Some g \<Rightarrow> int g \<le> t_lifecycle_generation t)"

definition keys_ok :: "db \<Rightarrow> bool" where
  "keys_ok d \<longleftrightarrow>
     list_all (\<lambda>t. list_all (\<lambda>j. key_behind t (j_idempotency_key j)) (db_jobs d)) (db_torrents d)"

lemma uuid_str_inject: "uuid_str a = uuid_str b \<longleftrightarrow> a = b"
  using uuid_str_less [of a b] uuid_str_less [of b a] by (metis linorder_neq_iff)

lemma length_uuid_str [simp]: "length (uuid_str u) = 36"
  by (simp add: uuid_str_def Let_def uuid_hex_def)

lemma length_purge_key_prefix [simp]: "length (purge_key_prefix i) = 43"
  by (simp add: purge_key_prefix_def)

lemma purge_key_prefix_inject: "purge_key_prefix a = purge_key_prefix b \<longleftrightarrow> a = b"
  by (simp add: purge_key_prefix_def uuid_str_inject)

lemma purge_key_split: "purge_key i g = purge_key_prefix i @ int_str g"
  by (simp add: purge_key_def purge_key_prefix_def)

lemma key_generation_purge_key:
  "0 \<le> g \<Longrightarrow> key_generation k (purge_key i g) = (if i = k then Some (nat g) else None)"
  by (simp add: key_generation_def purge_key_split purge_key_prefix_inject int_str_def)

lemma keys_ok_mono:
  assumes "keys_ok d" "set (map j_idempotency_key (db_jobs d')) \<subseteq> set (map j_idempotency_key (db_jobs d))"
    and "\<And>t'. t' \<in> set (db_torrents d') \<Longrightarrow>
      \<exists>t\<in>set (db_torrents d). t_id t' = t_id t \<and> t_lifecycle_generation t \<le> t_lifecycle_generation t'"
  shows "keys_ok d'"
proof -
  have "key_behind t' (j_idempotency_key j)" if "t' \<in> set (db_torrents d')" "j \<in> set (db_jobs d')" for t' j
  proof -
    obtain t where t: "t \<in> set (db_torrents d)" "t_id t' = t_id t"
      "t_lifecycle_generation t \<le> t_lifecycle_generation t'"
      using assms(3) [OF \<open>t' \<in> set (db_torrents d')\<close>] by blast
    have "j_idempotency_key j \<in> set (map j_idempotency_key (db_jobs d))"
      using assms(2) that(2) by auto
    then obtain j' where "j' \<in> set (db_jobs d)" "j_idempotency_key j = j_idempotency_key j'"
      by auto
    then have "key_behind t (j_idempotency_key j)"
      using assms(1) t(1) by (auto simp: keys_ok_def list_all_iff)
    then show ?thesis using t(2,3) by (auto simp: key_behind_def split: option.splits)
  qed
  then show ?thesis by (simp add: keys_ok_def list_all_iff)
qed

lemma keys_ok_insert:
  assumes "keys_ok d"
    and "\<And>t. t \<in> set (db_torrents d) \<Longrightarrow> key_behind t (j_idempotency_key j)"
  shows "keys_ok (d\<lparr>db_jobs := db_jobs d @ [j]\<rparr>)"
  using assms by (auto simp: keys_ok_def list_all_iff)

lemma keys_ok_put_torrent:
  assumes "keys_ok d" "t \<in> set (db_torrents d)" "t_id t' = t_id t"
    and "t_lifecycle_generation t \<le> t_lifecycle_generation t'"
  shows "keys_ok (put_torrent t' d)"
proof (rule keys_ok_mono [OF assms(1)])
  fix x assume "x \<in> set (db_torrents (put_torrent t' d))"
  then have "x = t' \<or> x \<in> set (db_torrents d)" using in_put_torrent [OF assms(2,3)] by blast
  then show "\<exists>t\<in>set (db_torrents d). t_id x = t_id t \<and> t_lifecycle_generation t \<le> t_lifecycle_generation x"
    using assms(2-4) by blast
qed simp

lemma schedule_deferred_purge_total:
  assumes "keys_ok d" "system_ok d" "t \<in> set (db_torrents d)" "i \<notin> set (map j_id (db_jobs d))"
  shows "\<exists>d'. schedule_deferred_purge i t origin pa now d
      = Inr (d', purge_scheduled_torrent pa now t,
             deferred_purge_job i (purge_scheduled_torrent pa now t) origin pa now)
    \<and> keys_ok d'"
proof -
  define t' where "t' = purge_scheduled_torrent pa now t"
  define job where "job = deferred_purge_job i t' origin pa now"
  have gen: "t_lifecycle_generation t' = t_lifecycle_generation t + 1" "t_id t' = t_id t"
    by (simp_all add: t'_def purge_scheduled_torrent_def)
  have nonneg: "0 \<le> t_lifecycle_generation t"
    using torrent_row_ok [OF assms(2,3)] by (simp add: torrent_check_def)
  have key: "j_idempotency_key job = purge_key (t_id t) (t_lifecycle_generation t + 1)"
    by (simp add: job_def deferred_purge_job_def gen)
  have kg: "key_generation k (j_idempotency_key job)
      = (if t_id t = k then Some (nat (t_lifecycle_generation t + 1)) else None)" for k
    unfolding key using nonneg by (simp add: key_generation_purge_key)
  have "j_idempotency_key job \<notin> set (map j_idempotency_key (db_jobs d))"
  proof
    assume "j_idempotency_key job \<in> set (map j_idempotency_key (db_jobs d))"
    then have "key_behind t (j_idempotency_key job)"
      using assms(1,3) by (auto simp: keys_ok_def list_all_iff)
    then show False using kg [of "t_id t"] nonneg by (simp add: key_behind_def)
  qed
  then have ins: "insert_job job (put_torrent t' d)
      = Inr ((put_torrent t' d)\<lparr>db_jobs := db_jobs (put_torrent t' d) @ [job]\<rparr>)"
    using assms(4) by (simp add: insert_job_def job_def deferred_purge_job_def)
  have "keys_ok ((put_torrent t' d)\<lparr>db_jobs := db_jobs (put_torrent t' d) @ [job]\<rparr>)"
  proof (rule keys_ok_insert)
    show "keys_ok (put_torrent t' d)"
      using keys_ok_put_torrent [OF assms(1,3) gen(2)] gen(1) by simp
    show "key_behind x (j_idempotency_key job)" if "x \<in> set (db_torrents (put_torrent t' d))" for x
    proof -
      have "x = t' \<or> t_id x \<noteq> t_id t" using that in_put_torrent [OF assms(3) gen(2), of x] by blast
      then show ?thesis
      proof
        assume "x = t'"
        then show ?thesis using kg [of "t_id t"] nonneg gen by (simp add: key_behind_def)
      next
        assume "t_id x \<noteq> t_id t"
        then show ?thesis using kg [of "t_id x"] by (simp add: key_behind_def)
      qed
    qed
  qed
  then show ?thesis
    using ins by (simp add: schedule_deferred_purge_def Let_def t'_def [symmetric] job_def [symmetric])
qed

section \<open>What a cancellation does\<close>

lemma release_right_total:
  assumes "lifecycle_ok d" "keys_ok d" "i \<notin> set (map j_id (db_jobs d))"
    and "r \<in> set (db_requests d)" "active_request_state (r_state r)"
    and "t \<in> set (db_torrents d)" "t_id t = r_managed_torrent_id r"
  shows "\<exists>d' x. release_right i detect (r_user_id r) n now t r d = Inr (d', x) \<and> keys_ok d'"
proof -
  let ?d1 = "release_usage (r_user_id r) (t_total_size t) now (put_request (cancelled_request now r) d)"
  have sys: "system_ok d" using assms(1) by (simp add: lifecycle_ok_def)
  have ok: "system_ok ?d1" by (rule system_ok_end_right) (use assms sys in simp_all)
  have keys: "keys_ok ?d1" using assms(2) by (simp add: keys_ok_def)
  show ?thesis
  proof (cases "has_active_request ?d1 (t_id t)")
    case True
    then show ?thesis using keys by (simp add: release_right_def Let_def)
  next
    case False
    define pa where "pa = (if t_state t = ERROR then now else now + hours n)"
    obtain d' where "schedule_deferred_purge i t (Some (r_id r)) pa now ?d1
      = Inr (d', purge_scheduled_torrent pa now t,
             deferred_purge_job i (purge_scheduled_torrent pa now t) (Some (r_id r)) pa now)"
      "keys_ok d'"
      using schedule_deferred_purge_total [OF keys ok, of t i "Some (r_id r)" pa now] assms(3,6) by auto
    then show ?thesis using False by (simp add: release_right_def Let_def pa_def)
  qed
qed

definition purge_scheduled :: "db \<Rightarrow> uuid \<Rightarrow> instant \<Rightarrow> bool" where
  "purge_scheduled d torrent_id purge_after =
     list_ex (\<lambda>t. t_id t = torrent_id \<and> t_purge_after t = Some purge_after
        \<and> list_ex (\<lambda>j. j_managed_torrent_id j = torrent_id \<and> j_job_type j = PURGE_TORRENT_JOB
              \<and> j_state j = J_QUEUED \<and> j_available_at j = purge_after
              \<and> j_idempotency_key j = purge_key torrent_id (t_lifecycle_generation t))
            (db_jobs d)) (db_torrents d)"

lemma schedule_deferred_purge_scheduled:
  assumes "schedule_deferred_purge i t origin pa now d = Inr (d', t', job)" "t \<in> set (db_torrents d)"
  shows "purge_scheduled d' (t_id t) pa"
proof -
  note c = schedule_deferred_purge_cases [OF assms(1)]
  have "t_id t' = t_id t" by (simp add: c(1) purge_scheduled_torrent_def)
  then have "t' \<in> set (db_torrents d')"
    using in_put_torrent [OF assms(2)] c(3) by simp
  moreover have "job \<in> set (db_jobs d')" using c(3) by simp
  ultimately show ?thesis
    unfolding purge_scheduled_def list_ex_iff
    by (intro bexI [of _ t'] conjI bexI [of _ job])
      (simp_all add: c(1,2) purge_scheduled_torrent_def deferred_purge_job_def)
qed

definition purge_deadline :: "managed_torrent \<Rightarrow> int \<Rightarrow> instant \<Rightarrow> instant" where
  "purge_deadline t n now = (if t_state t = ERROR then now else now + hours n)"

lemma release_right_effect:
  assumes "system_ok d" "r \<in> set (db_requests d)" "active_request_state (r_state r)"
    and "t \<in> set (db_torrents d)" "t_id t = r_managed_torrent_id r"
    and "release_right i detect (r_user_id r) n now t r d = Inr (d', x)"
  shows "set (db_requests d') = insert (cancelled_request now r) (set (db_requests d) - {r})"
    "usage_bytes d' u = usage_bytes d u - (if u = r_user_id r then t_total_size t else 0)"
    "tc_cancelled x" "tc_purge_scheduled x \<longleftrightarrow> \<not> has_active_request d' (t_id t)"
    "tc_purge_scheduled x \<Longrightarrow> tc_purge_after x = Some (purge_deadline t n now)
       \<and> purge_scheduled d' (t_id t) (purge_deadline t n now)"
proof -
  let ?d1 = "release_usage (r_user_id r) (t_total_size t) now (put_request (cancelled_request now r) d)"
  have ok1: "system_ok ?d1" by (rule system_ok_end_right) (use assms in simp_all)
  have dist: "distinct (map r_id (db_requests d))" by (rule requests_distinct [OF assms(1)])
  have req: "set (db_requests ?d1) = insert (cancelled_request now r) (set (db_requests d) - {r})"
  proof -
    have "x = r" if "x \<in> set (db_requests d)" "r_id x = r_id r" for x
      using dist that assms(2) by (auto simp: distinct_map inj_on_def)
    then show ?thesis
      using in_put_request [OF dist assms(2), of "cancelled_request now r"] by auto
  qed
  have bytes: "request_bytes (db_torrents d) r = t_total_size t"
    using assms(1,4,5) by (intro request_bytes_of) (auto simp: system_ok_def tables_ok_def torrents_unique_def)
  have "logical_sum (db_torrents d) (db_requests ?d1) u = logical_sum (db_torrents d) (db_requests d) u
      - (if u = r_user_id r then t_total_size t else 0)" for u
    using logical_sum_put_request [OF dist assms(2), of "cancelled_request now r" "db_torrents d" u] assms(3)
    by (auto simp: logical_weight_def bytes)
  moreover have "usage_bytes d u = logical_sum (db_torrents d) (db_requests d) u" for u
    using assms(1) by (simp add: system_ok_def accounting_ok_iff)
  moreover have "usage_bytes ?d1 u = logical_sum (db_torrents d) (db_requests ?d1) u" for u
    using ok1 by (simp add: system_ok_def accounting_ok_iff)
  ultimately have use: "usage_bytes ?d1 u = usage_bytes d u - (if u = r_user_id r then t_total_size t else 0)"
    by simp
  consider (held) "has_active_request ?d1 (t_id t)" "d' = ?d1" "\<not> tc_purge_scheduled x" "tc_cancelled x"
    | (free) t' job where "\<not> has_active_request ?d1 (t_id t)"
        "schedule_deferred_purge i t (Some (r_id r)) (purge_deadline t n now) now ?d1 = Inr (d', t', job)"
        "tc_purge_scheduled x" "tc_purge_after x = Some (purge_deadline t n now)" "tc_cancelled x"
    using assms(6) by (auto simp: release_right_def Let_def rbind_Inr_iff purge_deadline_def
        split: if_splits)
  then have "db_requests d' = db_requests ?d1 \<and> db_usages d' = db_usages ?d1 \<and> tc_cancelled x
     \<and> (tc_purge_scheduled x \<longleftrightarrow> \<not> has_active_request d' (t_id t))
     \<and> (tc_purge_scheduled x \<longrightarrow> tc_purge_after x = Some (purge_deadline t n now)
       \<and> purge_scheduled d' (t_id t) (purge_deadline t n now))"
  proof cases
    case free
    note c = schedule_deferred_purge_cases [OF free(2)]
    have same: "db_requests d' = db_requests ?d1" "db_usages d' = db_usages ?d1" using c(3) by simp_all
    have "purge_scheduled d' (t_id t) (purge_deadline t n now)"
      using schedule_deferred_purge_scheduled [OF free(2)] assms(4) by simp
    then show ?thesis using free same has_active_request_cong [OF same(1)] by simp
  qed simp
  then show "set (db_requests d') = insert (cancelled_request now r) (set (db_requests d) - {r})"
    "usage_bytes d' u = usage_bytes d u - (if u = r_user_id r then t_total_size t else 0)"
    "tc_cancelled x" "tc_purge_scheduled x \<longleftrightarrow> \<not> has_active_request d' (t_id t)"
    "tc_purge_scheduled x \<Longrightarrow> tc_purge_after x = Some (purge_deadline t n now)
       \<and> purge_scheduled d' (t_id t) (purge_deadline t n now)"
    using req use by (simp_all add: usage_bytes_def)
qed

lemma owned_request_rowI:
  assumes "system_ok d" "r \<in> set (db_requests d)" "t \<in> set (db_torrents d)"
    "t_id t = r_managed_torrent_id r" "list_ex (\<lambda>u. u_id u = r_user_id r) (db_users d)"
  shows "owned_request_row (r_user_id r) (r_id r) d = Some (r, t)"
proof -
  obtain u where u: "find_row u_id (r_user_id r) (db_users d) = Some u"
    using assms(5) find_row_None_iff [of u_id "r_user_id r" "db_users d"]
    by (cases "find_row u_id (r_user_id r) (db_users d)") (auto simp: list_ex_iff image_iff)
  have "find (\<lambda>x. r_id x = r_id r \<and> r_user_id x = r_user_id r) (db_requests d) = Some r"
  proof -
    have "find (\<lambda>x. r_id x = r_id r \<and> r_user_id x = r_user_id r) (db_requests d) \<noteq> None"
      using assms(2) by (auto simp: find_None_iff)
    then obtain y where y: "find (\<lambda>x. r_id x = r_id r \<and> r_user_id x = r_user_id r) (db_requests d) = Some y"
      by auto
    have "y = r"
      using find_SomeD [OF y] requests_distinct [OF assms(1)] assms(2) by (auto simp: distinct_map inj_on_def)
    then show ?thesis using y by simp
  qed
  moreover have "find_row t_id (r_managed_torrent_id r) (db_torrents d) = Some t"
    using find_row_Some_iff [OF torrents_distinct [OF assms(1)]] assms(3,4) by metis
  ultimately show ?thesis using u by (simp add: owned_request_row_def)
qed

lemma cancel_owned_run:
  assumes "system_ok d" "r \<in> set (db_requests d)" "t \<in> set (db_torrents d)"
    "t_id t = r_managed_torrent_id r" "list_ex (\<lambda>u. u_id u = r_user_id r) (db_users d)"
    "active_request_state (r_state r)" "1 \<le> n" "n \<le> 2160"
  shows "cancel_owned_torrent_request i (r_user_id r) (r_id r) n now detect d =
    rbind (release_right i detect (r_user_id r) n now t r d) (\<lambda>(d', x). Inr (d', Some x))"
proof -
  have "r_state r \<noteq> R_CANCELLED" using assms(6) by auto
  then show ?thesis
    using assms(6-8) owned_request_rowI [OF assms(1-5)]
    by (simp add: cancel_owned_torrent_request_def validate_lifecycle_hours_def require_def
        cancel_loaded_request_def)
qed

text \<open>A READY torrent that two users hold; the first right is due at 100, the second at 900.\<close>

definition ex_shared_db :: db where
  "ex_shared_db = ex_drifted_db\<lparr>
     db_usages := [\<lparr>us_user_id = ex_user, us_logical_bytes = 60, us_updated_at = 5\<rparr>,
                   \<lparr>us_user_id = 3, us_logical_bytes = 60, us_updated_at = 5\<rparr>],
     db_ledger := Some ((new_storage_ledger 5)\<lparr>l_managed_bytes := 60\<rparr>),
     db_torrents := [ex_torrent\<lparr>t_state := READY, t_progress := 1, t_lifecycle_generation := 1\<rparr>],
     db_requests := [ex_request\<lparr>r_state := R_READY, r_unsubscribe_at := Some 100\<rparr>,
                     ex_request\<lparr>r_id := 51, r_user_id := 3, r_state := R_READY,
                                r_unsubscribe_at := Some 900\<rparr>],
     db_jobs := [ex_job\<lparr>j_idempotency_key := purge_key 40 1\<rparr>]\<rparr>"

lemma ex_shared_db_ok: "lifecycle_ok ex_shared_db" "keys_ok ex_shared_db"
proof -
  show "lifecycle_ok ex_shared_db" by code_simp
  show "keys_ok ex_shared_db"
    by (simp add: keys_ok_def key_behind_def ex_shared_db_def key_generation_purge_key ex_torrent_def)
qed

text \<open>
  C32: Cancelling never fails on a consistent database: the only error is an invalid retention, no
  insertion of a purge job collides with the unique index, and the invariants of rights, counters,
  retained content and purge keys all hold afterwards, whether or not a request was found.\<close>

theorem cancel_owned_torrent_request_keeps_invariants:
  assumes "lifecycle_ok d" "keys_ok d" "job_id \<notin> set (map j_id (db_jobs d))"
  shows "case cancel_owned_torrent_request job_id user_id request_id n now detect d of
      Inl e \<Rightarrow> \<not> (1 \<le> n \<and> n \<le> 2160) \<and> e = Py (ValueError ''torrent retention is invalid'')
    | Inr (d', res) \<Rightarrow> 1 \<le> n \<and> n \<le> 2160 \<and> lifecycle_ok d' \<and> keys_ok d'"
proof (cases "1 \<le> n \<and> n \<le> 2160")
  case False
  then have "validate_lifecycle_hours n ''torrent retention''
      = Inl (Py (ValueError ''torrent retention is invalid''))"
    by (auto simp: validate_lifecycle_hours_def require_def)
  then show ?thesis using False by (simp add: cancel_owned_torrent_request_def)
next
  case n: True
  show ?thesis
  proof (cases "cancel_owned_torrent_request job_id user_id request_id n now detect d")
    case (Inl e)
    have False
    proof (cases "owned_request_row user_id request_id d")
      case None
      then show False
        using Inl n by (simp add: cancel_owned_torrent_request_def validate_lifecycle_hours_def require_def)
    next
      case (Some p)
      obtain r t where p: "p = (r, t)" by (cases p)
      have row: "r \<in> set (db_requests d)" "r_user_id r = user_id" "t \<in> set (db_torrents d)"
        "t_id t = r_managed_torrent_id r"
        using Some p by (auto simp: owned_request_row_def split: option.splits
            dest!: find_SomeD find_row_SomeD)
      show False
        using Inl n Some p row release_right_total [OF assms row(1) _ row(3,4), of detect n now]
        by (auto simp: cancel_owned_torrent_request_def validate_lifecycle_hours_def require_def
            cancel_loaded_request_def split: if_splits)
    qed
    then show ?thesis ..
  next
    case (Inr y)
    obtain d' res where y: "y = (d', res)" by (cases y)
    from Inr y have run: "cancel_owned_torrent_request job_id user_id request_id n now detect d = Inr (d', res)"
      by simp
    then have "lifecycle_ok d' \<and> keys_ok d'"
    proof (cases rule: cancel_owned_cases)
      case unchanged
      then show ?thesis using assms by simp
    next
      case (released r t x)
      have rel: "release_right job_id detect (r_user_id r) n now t r d = Inr (d', x)"
        using released(3,7) by simp
      have "keys_ok d'"
        using release_right_total [OF assms released(1,4-6), of detect n now] rel by auto
      then show ?thesis
        using release_right_retained [OF assms(1) released(1,4-6) rel] by simp
    qed
    then show ?thesis using Inr y n by simp
  qed
qed

theorem cancel_owned_torrent_request_keeps_invariants_witness:
  "case cancel_owned_torrent_request 70 ex_user 50 24 9 True ex_shared_db of
     Inl e \<Rightarrow> False | Inr (d', res) \<Rightarrow> lifecycle_ok d' \<and> keys_ok d'"
proof -
  have "(70 :: uuid) \<notin> set (map j_id (db_jobs ex_shared_db))" by code_simp
  from cancel_owned_torrent_request_keeps_invariants [OF ex_shared_db_ok this, of 24 ex_user 50 9 True]
  show ?thesis by (simp split: sum.splits prod.splits)
qed

text \<open>
  C33: Cancelling an active request of its owner marks exactly that request CANCELLED, gives
  exactly its bytes back to the owner's logical counter and nobody else's, and schedules the purge
  of the shared content, by a queued job that becomes available at the deadline, exactly when no
  other user still holds a right; content in error is due at once, other content after the
  retention.\<close>

theorem cancel_owned_torrent_request_effect:
  assumes "lifecycle_ok d" "keys_ok d" "job_id \<notin> set (map j_id (db_jobs d))" "1 \<le> n" "n \<le> 2160"
    and "r \<in> set (db_requests d)" "active_request_state (r_state r)"
    and "t \<in> set (db_torrents d)" "t_id t = r_managed_torrent_id r"
    and "list_ex (\<lambda>u. u_id u = r_user_id r) (db_users d)"
  shows "case cancel_owned_torrent_request job_id (r_user_id r) (r_id r) n now detect d of
      Inl e \<Rightarrow> False
    | Inr (d', res) \<Rightarrow>
        set (db_requests d') = insert (cancelled_request now r) (set (db_requests d) - {r})
        \<and> (\<forall>u. usage_bytes d' u = usage_bytes d u - (if u = r_user_id r then t_total_size t else 0))
        \<and> (case res of
             None \<Rightarrow> False
           | Some x \<Rightarrow> tc_cancelled x \<and> (tc_purge_scheduled x \<longleftrightarrow> \<not> has_active_request d' (t_id t))
               \<and> (tc_purge_scheduled x \<longrightarrow> tc_purge_after x = Some (purge_deadline t n now)
                    \<and> purge_scheduled d' (t_id t) (purge_deadline t n now)))"
proof -
  have sys: "system_ok d" using assms(1) by (simp add: lifecycle_ok_def)
  obtain d' x where rel: "release_right job_id detect (r_user_id r) n now t r d = Inr (d', x)"
    using release_right_total [OF assms(1-3,6-9)] by blast
  show ?thesis
    using cancel_owned_run [OF sys assms(6,8,9,10,7,4,5)] rel
      release_right_effect [OF sys assms(6-9) rel] by simp
qed

theorem cancel_owned_torrent_request_effect_witness:
  "case cancel_owned_torrent_request 70 ex_user 50 24 9 True ex_shared_db of
     Inl e \<Rightarrow> False | Inr (d', res) \<Rightarrow> usage_bytes d' ex_user = 0 \<and> usage_bytes d' 3 = 60"
proof -
  define r where "r = hd (db_requests ex_shared_db)"
  define t where "t = hd (db_torrents ex_shared_db)"
  have job: "(70 :: uuid) \<notin> set (map j_id (db_jobs ex_shared_db))" by code_simp
  have row: "r \<in> set (db_requests ex_shared_db)" "active_request_state (r_state r)"
    "t \<in> set (db_torrents ex_shared_db)" "t_id t = r_managed_torrent_id r"
    "list_ex (\<lambda>u. u_id u = r_user_id r) (db_users ex_shared_db)"
    "r_user_id r = ex_user" "r_id r = 50" "t_total_size t = 60"
    unfolding r_def t_def by code_simp+
  have use: "usage_bytes ex_shared_db ex_user = 60" "usage_bytes ex_shared_db 3 = 60" "3 \<noteq> ex_user"
    by code_simp+
  from cancel_owned_torrent_request_effect [OF ex_shared_db_ok job _ _ row(1-5), of 24 9 True]
  show ?thesis by (simp add: row(6-8) use split: sum.splits prod.splits)
qed

section \<open>What an expiration pass does\<close>

lemma expire_torrent_total:
  assumes "lifecycle_ok d" "keys_ok d" "fresh i \<notin> set (map j_id (db_jobs d))" "distinct (map r_id due)"
    and "t \<in> set torrents" "distinct (map t_id torrents)" "t_id t = i" "t \<in> set (db_torrents d)"
    and "\<And>r. r \<in> set due \<Longrightarrow> r_managed_torrent_id r = i \<Longrightarrow> r \<in> set (db_requests d) \<and> r_state r = R_READY"
  shows "\<exists>d' res. expire_torrent fresh now n torrents due i d = Inr (d', res) \<and> keys_ok d'
     \<and> set (map j_id (db_jobs d')) \<subseteq> insert (fresh i) (set (map j_id (db_jobs d)))"
proof -
  define rs where "rs = filter (\<lambda>r. r_managed_torrent_id r = i) due"
  define d1 where "d1 = foldl (expire_request now (t_total_size t)) d rs"
  have row: "find_row t_id i torrents = Some t"
    using find_row_Some_iff [OF assms(6)] assms(5,7) by metis
  have sys: "system_ok d" using assms(1) by (simp add: lifecycle_ok_def)
  have dist: "distinct (map r_id rs)" using assms(4) by (simp add: rs_def distinct_map_filter)
  have e: "system_ok d1" "db_torrents d1 = db_torrents d" "db_jobs d1 = db_jobs d"
    using expire_requests_ok [OF sys assms(8) dist, of now] assms(7,9) by (auto simp: rs_def d1_def)
  have keys: "keys_ok d1" using assms(2) e(2,3) by (simp add: keys_ok_def)
  show ?thesis
  proof (cases "has_active_request d1 i")
    case True
    then show ?thesis
      using row keys e(3) by (simp add: expire_torrent_def Let_def rs_def [symmetric] d1_def [symmetric])
        auto
  next
    case False
    define t' where "t' = purge_scheduled_torrent (now + hours n) now t"
    define job where "job = deferred_purge_job (fresh i) t' (Some (r_id (hd rs))) (now + hours n) now"
    obtain d' where d': "schedule_deferred_purge (fresh i) t (Some (r_id (hd rs))) (now + hours n) now d1
        = Inr (d', t', job)" "keys_ok d'"
      using schedule_deferred_purge_total [OF keys e(1), of t "fresh i"] assms(3,8) e(2,3)
      unfolding t'_def job_def by metis
    have "set (map j_id (db_jobs d')) \<subseteq> insert (fresh i) (set (map j_id (db_jobs d)))"
      using schedule_deferred_purge_cases [OF d'(1)] e(3)
      by (auto simp: job_def deferred_purge_job_def)
    then show ?thesis
      using row d' False by (simp add: expire_torrent_def Let_def rs_def [symmetric] d1_def [symmetric])
  qed
qed

text \<open>
  The pass over the torrents: each is processed once, on the rows loaded at its start, which the
  earlier torrents of the pass leave alone.
\<close>

lemma expire_torrents_run:
  assumes "lifecycle_ok d" "keys_ok d" "inj_on fresh (set ids)" "\<And>i. i \<in> set ids \<Longrightarrow> fresh i \<notin> set (map j_id (db_jobs d))"
    and "distinct (map r_id due)" "distinct (map t_id torrents)" "distinct ids"
    and "\<And>i. i \<in> set ids \<Longrightarrow> i \<in> r_managed_torrent_id ` set due"
    and "\<And>i. i \<in> set ids \<Longrightarrow> i \<in> t_id ` set torrents"
    and "\<And>t. t \<in> set torrents \<Longrightarrow> t_id t \<in> set ids \<Longrightarrow> t \<in> set (db_torrents d)"
    and "\<And>r. r \<in> set due \<Longrightarrow> r_managed_torrent_id r \<in> set ids \<Longrightarrow>
          r \<in> set (db_requests d) \<and> r_state r = R_READY"
  shows "\<exists>d' res. expire_torrents fresh now n torrents due ids d = Inr (d', res)
     \<and> lifecycle_ok d' \<and> keys_ok d' \<and> map te_managed_torrent_id res = ids
     \<and> set (db_requests d') = expired_request now ` {r \<in> set due. r_managed_torrent_id r \<in> set ids}
           \<union> (set (db_requests d) - {r \<in> set due. r_managed_torrent_id r \<in> set ids})"
  using assms
proof (induction ids arbitrary: d)
  case Nil
  then show ?case by simp
next
  case (Cons i ids)
  obtain t where t: "t \<in> set torrents" "t_id t = i" using Cons.prems(9) [of i] by auto
  have t_row: "t \<in> set (db_torrents d)" using Cons.prems(10) [OF t(1)] t(2) by simp
  have due_i: "r \<in> set (db_requests d) \<and> r_state r = R_READY"
    if "r \<in> set due" "r_managed_torrent_id r = i" for r
    using Cons.prems(11) [OF that(1)] that(2) by simp
  obtain d1 res where one: "expire_torrent fresh now n torrents due i d = Inr (d1, res)" "keys_ok d1"
    and jobs: "set (map j_id (db_jobs d1)) \<subseteq> insert (fresh i) (set (map j_id (db_jobs d)))"
    using expire_torrent_total [OF Cons.prems(1,2) _ Cons.prems(5) t(1) Cons.prems(6) t(2) t_row due_i,
        of fresh now n] Cons.prems(4) [of i] by auto
  have row_i: "x \<in> set (db_torrents d)" if "x \<in> set torrents" "t_id x = i" for x
    using Cons.prems(10) [OF that(1)] that(2) by simp
  have has_i: "i \<in> r_managed_torrent_id ` set due" using Cons.prems(8) [of i] by simp
  have e: "lifecycle_ok d1"
    "\<And>t. t \<in> set (db_torrents d) \<Longrightarrow> t_id t \<noteq> i \<Longrightarrow> t \<in> set (db_torrents d1)"
    "\<And>r. r \<in> set (db_requests d) \<Longrightarrow> r_managed_torrent_id r \<noteq> i \<Longrightarrow> r \<in> set (db_requests d1)"
    "set (db_requests d1) = expired_request now ` {r \<in> set due. r_managed_torrent_id r = i}
           \<union> (set (db_requests d) - {r \<in> set due. r_managed_torrent_id r = i})"
    using expire_torrent_ok [OF Cons.prems(1,6,5) _ _ has_i one(1)] row_i due_i by blast+
  have i: "i \<notin> set ids" "distinct ids" using Cons.prems(7) by simp_all
  have fresh: "fresh k \<notin> set (map j_id (db_jobs d1))" if "k \<in> set ids" for k
    using jobs Cons.prems(4) [of k] that i(1) inj_onD [OF Cons.prems(3), of k i] by auto
  have inj: "inj_on fresh (set ids)" using Cons.prems(3) by simp
  have rows: "x \<in> set (db_torrents d1)" if "x \<in> set torrents" "t_id x \<in> set ids" for x
  proof -
    have "t_id x \<noteq> i" using i(1) that(2) by auto
    moreover have "x \<in> set (db_torrents d)" by (rule Cons.prems(10) [OF that(1)]) (simp add: that(2))
    ultimately show ?thesis by (rule e(2) [rotated])
  qed
  have dues: "r \<in> set (db_requests d1) \<and> r_state r = R_READY"
    if "r \<in> set due" "r_managed_torrent_id r \<in> set ids" for r
  proof -
    have other: "r_managed_torrent_id r \<noteq> i" using i(1) that(2) by auto
    have "r \<in> set (db_requests d) \<and> r_state r = R_READY"
      by (rule Cons.prems(11) [OF that(1)]) (simp add: that(2))
    then show ?thesis using e(3) [OF _ other] by blast
  qed
  have h8: "k \<in> r_managed_torrent_id ` set due" if "k \<in> set ids" for k
    using Cons.prems(8) [of k] that by simp
  have h9: "k \<in> t_id ` set torrents" if "k \<in> set ids" for k
    using Cons.prems(9) [of k] that by simp
  obtain d' rest where ih: "expire_torrents fresh now n torrents due ids d1 = Inr (d', rest)"
    "lifecycle_ok d'" "keys_ok d'" "map te_managed_torrent_id rest = ids"
    "set (db_requests d') = expired_request now ` {r \<in> set due. r_managed_torrent_id r \<in> set ids}
       \<union> (set (db_requests d1) - {r \<in> set due. r_managed_torrent_id r \<in> set ids})"
    using Cons.IH [OF e(1) one(2) inj fresh Cons.prems(5,6) i(2) h8 h9 rows dues] by blast
  have id: "te_managed_torrent_id res = i"
    using one(1) by (auto simp: expire_torrent_def Let_def rbind_Inr_iff split: option.splits)
  let ?A = "{r \<in> set due. r_managed_torrent_id r = i}"
  let ?B = "{r \<in> set due. r_managed_torrent_id r \<in> set ids}"
  have disj: "expired_request now ` ?A \<inter> ?B = {}"
    using i(1) by (auto simp: expired_request_def)
  have split: "{r \<in> set due. r_managed_torrent_id r \<in> set (i # ids)} = ?A \<union> ?B" by auto
  have "set (db_requests d') = expired_request now ` (?A \<union> ?B) \<union> (set (db_requests d) - (?A \<union> ?B))"
    unfolding ih(5) e(4) using disj by auto
  then have "set (db_requests d') = expired_request now ` {r \<in> set due. r_managed_torrent_id r \<in> set (i # ids)}
     \<union> (set (db_requests d) - {r \<in> set due. r_managed_torrent_id r \<in> set (i # ids)})"
    unfolding split .
  then show ?case using one(1) ih(1-4) id by simp
qed

lemma due_torrents_props:
  assumes "system_ok d"
  shows "distinct (map t_id (due_torrents locked now k d))"
    "set (due_torrents locked now k d) \<subseteq> set (db_torrents d)"
proof -
  show "distinct (map t_id (due_torrents locked now k d))"
    unfolding due_torrents_def take_map [symmetric]
    by (intro distinct_take distinct_map_sort_filter torrents_distinct [OF assms])
  show "set (due_torrents locked now k d) \<subseteq> set (db_torrents d)"
    by (auto simp: due_torrents_def dest: in_set_takeD)
qed

lemma due_requests_props:
  assumes "system_ok d"
  shows "distinct (map r_id (due_requests locked now k ts d))"
    "r \<in> set (due_requests locked now k ts d) \<Longrightarrow>
       r \<in> set (db_requests d) \<and> due_request now r \<and> r_managed_torrent_id r \<in> t_id ` set ts"
proof -
  show "distinct (map r_id (due_requests locked now k ts d))"
    unfolding due_requests_def take_map [symmetric]
    by (intro distinct_take distinct_map_sort_filter requests_distinct [OF assms])
  show "r \<in> set (due_requests locked now k ts d) \<Longrightarrow>
       r \<in> set (db_requests d) \<and> due_request now r \<and> r_managed_torrent_id r \<in> t_id ` set ts"
    by (auto simp: due_requests_def dest: in_set_takeD)
qed

lemma expire_batch_run:
  assumes "lifecycle_ok d" "keys_ok d" "inj_on fresh (t_id ` set (db_torrents d))"
    and "fresh ` t_id ` set (db_torrents d) \<inter> j_id ` set (db_jobs d) = {}"
    and "1 \<le> n" "n \<le> 2160" "1 \<le> limit" "limit \<le> 500"
    and due: "due = due_requests locked_requests now (nat limit)
                (due_torrents locked_torrents now (nat limit) d) d"
  obtains d' res where
    "expire_ready_torrents_batch locked_torrents locked_requests fresh (Aware now) n limit d = Inr (d', res)"
    "lifecycle_ok d'" "keys_ok d'"
    "set (db_requests d') = expired_request now ` set due \<union> (set (db_requests d) - set due)"
    "set (map te_managed_torrent_id res) = r_managed_torrent_id ` set due"
    "\<forall>r\<in>set due. due_request now r"
proof -
  have sys: "system_ok d" using assms(1) by (simp add: lifecycle_ok_def)
  define ts where "ts = due_torrents locked_torrents now (nat limit) d"
  define ids where "ids = sort (remdups (map r_managed_torrent_id due))"
  have ids: "set ids = r_managed_torrent_id ` set due" "distinct ids" by (auto simp: ids_def)
  note t = due_torrents_props [OF sys, of locked_torrents now "nat limit", folded ts_def]
  note r = due_requests_props [OF sys, where locked = locked_requests and now = now
      and k = "nat limit" and ts = ts, folded due [folded ts_def]]
  have ready: "r_state x = R_READY" if "x \<in> set due" for x
    using r(2) [OF that] by (simp add: due_request_def)
  have hit: "i \<in> t_id ` set ts" if "i \<in> set ids" for i
    using that r(2) by (auto simp: ids(1))
  have all: "{x \<in> set due. r_managed_torrent_id x \<in> set ids} = set due" by (auto simp: ids(1))
  have has: "i \<in> r_managed_torrent_id ` set due" if "i \<in> set ids" for i using that ids(1) by simp
  have rows: "x \<in> set (db_torrents d)" if "x \<in> set ts" for x using that t(2) by blast
  have sub: "set ids \<subseteq> t_id ` set (db_torrents d)" using hit rows by blast
  have inj: "inj_on fresh (set ids)" using assms(3) sub by (rule inj_on_subset)
  have new: "fresh i \<notin> set (map j_id (db_jobs d))" if "i \<in> set ids" for i
  proof -
    have "fresh i \<in> fresh ` t_id ` set (db_torrents d)" using sub that by blast
    then show ?thesis using assms(4) by auto
  qed
  have reqs: "x \<in> set (db_requests d) \<and> r_state x = R_READY" if "x \<in> set due" for x
    using r(2) [OF that] ready [OF that] by blast
  obtain d' res where "expire_torrents fresh now n ts due ids d = Inr (d', res)" "lifecycle_ok d'" "keys_ok d'"
    "map te_managed_torrent_id res = ids"
    "set (db_requests d') = expired_request now ` set due \<union> (set (db_requests d) - set due)"
  proof -
    have "\<exists>d' res. expire_torrents fresh now n ts due ids d = Inr (d', res)
       \<and> lifecycle_ok d' \<and> keys_ok d' \<and> map te_managed_torrent_id res = ids
       \<and> set (db_requests d') = expired_request now ` {r \<in> set due. r_managed_torrent_id r \<in> set ids}
           \<union> (set (db_requests d) - {r \<in> set due. r_managed_torrent_id r \<in> set ids})"
      by (rule expire_torrents_run [OF assms(1,2) inj new r(1) t(1) ids(2)])
        (assumption, erule has, erule hit, erule rows, erule reqs)
    then show thesis unfolding all using that by blast
  qed
  note run = this
  have "expire_ready_torrents_batch locked_torrents locked_requests fresh (Aware now) n limit d = Inr (d', res)"
    using run(1) assms(5-8)
    by (simp add: expire_ready_torrents_batch_def validate_lifecycle_hours_def require_def Let_def
        ts_def due ids_def)
  moreover have "set (map te_managed_torrent_id res) = r_managed_torrent_id ` set due"
    unfolding run(4) ids(1) ..
  moreover have "\<forall>x\<in>set due. due_request now x" using r(2) by blast
  ultimately show thesis using that run(2,3,5) by blast
qed

text \<open>
  What an expiration leaves alone, whatever the database holds: \<open>K\<close> are the torrents processed and
  \<open>U\<close> the owners of the rights that end.
\<close>

definition expiry_frame :: "uuid set \<Rightarrow> uuid set \<Rightarrow> db \<Rightarrow> db \<Rightarrow> bool" where
  "expiry_frame K U d d' \<longleftrightarrow>
     filter (\<lambda>t. t_id t \<notin> K) (db_torrents d') = filter (\<lambda>t. t_id t \<notin> K) (db_torrents d)
     \<and> (\<forall>v. v \<notin> U \<longrightarrow> usage_bytes d' v = usage_bytes d v) \<and> ledger_bytes d' = ledger_bytes d
     \<and> (\<exists>new. db_jobs d' = db_jobs d @ new
          \<and> list_all (\<lambda>j. j_job_type j = PURGE_TORRENT_JOB \<and> j_managed_torrent_id j \<in> K) new)"

lemma expiry_frame_refl: "expiry_frame K U d d"
  by (simp add: expiry_frame_def)

lemma expiry_frame_trans:
  assumes "expiry_frame K U d d1" "expiry_frame K U d1 d'"
  shows "expiry_frame K U d d'"
proof -
  obtain a b where "db_jobs d1 = db_jobs d @ a" "db_jobs d' = db_jobs d1 @ b"
    "list_all (\<lambda>j. j_job_type j = PURGE_TORRENT_JOB \<and> j_managed_torrent_id j \<in> K) (a @ b)"
    using assms by (auto simp: expiry_frame_def)
  note jobs = this
  have rest: "filter (\<lambda>t. t_id t \<notin> K) (db_torrents d') = filter (\<lambda>t. t_id t \<notin> K) (db_torrents d)"
    "\<forall>v. v \<notin> U \<longrightarrow> usage_bytes d' v = usage_bytes d v" "ledger_bytes d' = ledger_bytes d"
    using assms by (simp_all add: expiry_frame_def)
  have "db_jobs d' = db_jobs d @ (a @ b)" using jobs(1,2) by simp
  then show ?thesis unfolding expiry_frame_def using rest jobs(3) by blast
qed

lemma expire_requests_frame:
  "r_user_id ` set rs \<subseteq> U \<Longrightarrow> expiry_frame K U d (foldl (expire_request now n) d rs)"
proof (induction rs arbitrary: d)
  case (Cons r rs)
  have "usage_bytes (expire_request now n d r) v = usage_bytes d v" if "v \<notin> U" for v
  proof -
    have "v \<noteq> r_user_id r" using that Cons.prems by auto
    then show ?thesis
      by (simp add: expire_request_def release_usage_def usage_bytes_def find_row_update_row)
  qed
  moreover have "ledger_bytes (expire_request now n d r) = ledger_bytes d"
    by (simp add: expire_request_def ledger_bytes_def)
  ultimately have "expiry_frame K U d (expire_request now n d r)"
    by (simp add: expiry_frame_def)
  then show ?case using Cons.IH Cons.prems expiry_frame_trans by fastforce
qed (simp add: expiry_frame_refl)

lemma schedule_frame:
  assumes "schedule_deferred_purge i t origin pa now d = Inr (d', t', job)" "t_id t \<in> K"
  shows "expiry_frame K U d d'"
proof -
  note c = schedule_deferred_purge_cases [OF assms(1)]
  have id: "t_id t' = t_id t" by (simp add: c(1) purge_scheduled_torrent_def)
  have "filter (\<lambda>x. t_id x \<notin> K) (update_row t_id (t_id t') (\<lambda>_. t') xs) = filter (\<lambda>x. t_id x \<notin> K) xs" for xs
    using assms(2) id by (induction xs) (auto simp: update_row_def)
  then show ?thesis
    using c(3) assms(2) id
    by (simp add: expiry_frame_def put_torrent_def usage_bytes_def ledger_bytes_def c(2) deferred_purge_job_def)
qed

lemma expire_torrent_frame:
  assumes "expire_torrent fresh now n torrents due i d = Inr (d', r)" "i \<in> K" "r_user_id ` set due \<subseteq> U"
  shows "expiry_frame K U d d'"
proof -
  from assms(1) obtain t d1 where t: "find_row t_id i torrents = Some t"
    and d1: "d1 = foldl (expire_request now (t_total_size t)) d (filter (\<lambda>r. r_managed_torrent_id r = i) due)"
    and d': "if has_active_request d1 i then d' = d1
     else \<exists>t' job. schedule_deferred_purge (fresh i) t
        (Some (r_id (hd (filter (\<lambda>r. r_managed_torrent_id r = i) due)))) (now + hours n) now d1
        = Inr (d', t', job)"
    by (rule expire_torrent_cases)
  have "expiry_frame K U d d1" unfolding d1 by (rule expire_requests_frame) (use assms(3) in auto)
  moreover have "expiry_frame K U d1 d'"
    using d' schedule_frame find_row_SomeD [OF t] assms(2) by (auto simp: expiry_frame_refl split: if_splits)
  ultimately show ?thesis by (rule expiry_frame_trans)
qed

lemma expire_torrents_frame:
  assumes "expire_torrents fresh now n torrents due ids d = Inr (d', res)" "set ids \<subseteq> K"
    and "r_user_id ` set due \<subseteq> U"
  shows "expiry_frame K U d d' \<and> map te_managed_torrent_id res = ids"
  using assms(1,2)
proof (induction ids arbitrary: d res)
  case (Cons i ids)
  then obtain d1 r rest where s: "expire_torrent fresh now n torrents due i d = Inr (d1, r)"
    "expire_torrents fresh now n torrents due ids d1 = Inr (d', rest)" "res = r # rest"
    by (auto simp: rbind_Inr_iff)
  have "te_managed_torrent_id r = i"
    using s(1) by (auto simp: expire_torrent_def Let_def rbind_Inr_iff split: option.splits)
  moreover have "expiry_frame K U d d1" by (rule expire_torrent_frame [OF s(1) _ assms(3)]) (use Cons.prems in simp)
  ultimately show ?case using Cons.IH [OF s(2)] Cons.prems(2) s(3) expiry_frame_trans by auto
qed (simp add: expiry_frame_refl)

lemma expire_batch_frame:
  assumes "expire_ready_torrents_batch locked_torrents locked_requests fresh (Aware now) n limit d = Inr (d', res)"
    and due: "due = due_requests locked_requests now (nat limit)
                (due_torrents locked_torrents now (nat limit) d) d"
  shows "expiry_frame (r_managed_torrent_id ` set due) (r_user_id ` set due) d d'
    \<and> map te_managed_torrent_id res = sort (remdups (map r_managed_torrent_id due))"
  using assms(1)
  by (intro expire_torrents_frame [where due = due])
    (auto simp: expire_ready_torrents_batch_def rbind_Inr_iff Let_def due)

text \<open>
  C34: An expiration pass with parameters in range and fresh job identifiers over a consistent
  database succeeds, keeps the invariants, and expires exactly the selected due requests: each was
  READY with a deadline that has passed, at most the batch limit of them. One result is returned per torrent concerned, in the order of their identifiers.
  The other request rows, the rows of the other torrents, the byte counters of the other users, the
  managed bytes of the ledger and the jobs that exist are unchanged; only purge jobs of the torrents concerned are added.\<close>

theorem expire_ready_torrents_batch_effect:
  assumes "lifecycle_ok d" "keys_ok d" "inj_on fresh (t_id ` set (db_torrents d))"
    and "fresh ` t_id ` set (db_torrents d) \<inter> j_id ` set (db_jobs d) = {}"
    and "1 \<le> n" "n \<le> 2160" "1 \<le> limit" "limit \<le> 500"
    and due: "due = due_requests locked_requests now (nat limit)
                (due_torrents locked_torrents now (nat limit) d) d"
  shows "case expire_ready_torrents_batch locked_torrents locked_requests fresh (Aware now) n limit d of
      Inl e \<Rightarrow> False
    | Inr (d', res) \<Rightarrow> lifecycle_ok d' \<and> keys_ok d'
        \<and> set (db_requests d') = expired_request now ` set due \<union> (set (db_requests d) - set due)
        \<and> list_all (due_request now) due \<and> length due \<le> nat limit
        \<and> set (map te_managed_torrent_id res) = r_managed_torrent_id ` set due
        \<and> map te_managed_torrent_id res = sort (remdups (map r_managed_torrent_id due))
        \<and> filter (\<lambda>t. t_id t \<notin> r_managed_torrent_id ` set due) (db_torrents d')
            = filter (\<lambda>t. t_id t \<notin> r_managed_torrent_id ` set due) (db_torrents d)
        \<and> (\<forall>v. v \<notin> r_user_id ` set due \<longrightarrow> usage_bytes d' v = usage_bytes d v)
        \<and> ledger_bytes d' = ledger_bytes d
        \<and> (\<exists>new. db_jobs d' = db_jobs d @ new
             \<and> list_all (\<lambda>j. j_job_type j = PURGE_TORRENT_JOB
                              \<and> j_managed_torrent_id j \<in> r_managed_torrent_id ` set due) new)"
proof -
  obtain d' res where run:
    "expire_ready_torrents_batch locked_torrents locked_requests fresh (Aware now) n limit d = Inr (d', res)"
    "lifecycle_ok d'" "keys_ok d'"
    "set (db_requests d') = expired_request now ` set due \<union> (set (db_requests d) - set due)"
    "\<forall>r\<in>set due. due_request now r"
    by (rule expire_batch_run [OF assms])
  have "length due \<le> nat limit" unfolding due due_requests_def by simp
  moreover have "list_all (due_request now) due" unfolding list_all_iff using run(5) by blast
  moreover note frame = expire_batch_frame [OF run(1) due, unfolded expiry_frame_def]
  moreover have "te_managed_torrent_id ` set res = r_managed_torrent_id ` set due"
    using arg_cong [OF conjunct2 [OF frame], of set] by simp
  ultimately show ?thesis using run(1-4) by simp
qed

theorem expire_ready_torrents_batch_effect_witness:
  "case expire_ready_torrents_batch (\<lambda>_. False) (\<lambda>_. False) (\<lambda>i. i + 100) (Aware 200) 24 10 ex_shared_db of
     Inl e \<Rightarrow> False
   | Inr (d', res) \<Rightarrow> lifecycle_ok d' \<and> set (map te_managed_torrent_id res) = {40}
        \<and> expired_request 200 (hd (db_requests ex_shared_db)) \<in> set (db_requests d')"
proof -
  define due where "due = due_requests (\<lambda>_. False) 200 (nat 10)
      (due_torrents (\<lambda>_. False) 200 (nat 10) ex_shared_db) ex_shared_db"
  have due: "due = [hd (db_requests ex_shared_db)]" unfolding due_def by code_simp
  have ids: "t_id ` set (db_torrents ex_shared_db) = {40}" "j_id ` set (db_jobs ex_shared_db) = {60}"
    "r_managed_torrent_id (hd (db_requests ex_shared_db)) = 40"
    by code_simp+
  have fresh: "inj_on (\<lambda>i :: uuid. i + 100) (t_id ` set (db_torrents ex_shared_db))"
    "(\<lambda>i. i + 100) ` t_id ` set (db_torrents ex_shared_db) \<inter> j_id ` set (db_jobs ex_shared_db) = {}"
    unfolding ids by simp_all
  from expire_ready_torrents_batch_effect [OF ex_shared_db_ok fresh _ _ _ _ due_def, of 24]
  show ?thesis by (simp add: due ids split: sum.splits prod.splits)
qed

end
