(* ===== verification/Deduplication.thy ===== *)
theory Deduplication
  imports Lifecycle
begin

text \<open>
  Deduplicated admission of \<open>backend/app/torrents/deduplication.py\<close>: one managed torrent per
  infohash and one active right per user and torrent. The transaction inserts with
  \<open>ON CONFLICT DO NOTHING\<close>, adopts the row that won, revokes a scheduled purge, ends a right whose
  deadline has passed, checks the storage limits and charges the counters. The three identifiers
  \<open>uuid4\<close> draws are arguments. The main results are that the transaction keeps every invariant of
  the lifecycle and that the requester ends with exactly one active right.
\<close>

section \<open>Metadata\<close>

definition hex_char :: "char \<Rightarrow> bool" where
  "hex_char c = (is_digit c \<or> char_in (CHR ''a'') (CHR ''f'') c)"

definition validate_metadata :: "string \<Rightarrow> string \<Rightarrow> int \<Rightarrow> app_error + unit" where
  "validate_metadata info_hash name total_size =
     rbind (require (length info_hash = 40 \<and> list_all hex_char info_hash)
              (TorrentDeduplicationError ''info_hash must be a canonical lowercase SHA-1 hash'')) (\<lambda>_.
     rbind (require (1 \<le> length name \<and> length name \<le> 4096 \<and> CHR 0x00 \<notin> set name)
              (TorrentDeduplicationError ''torrent name must contain between 1 and 4096 characters''))
       (\<lambda>_.
     require (0 \<le> total_size \<and> total_size \<le> MAX_BIGINT)
       (TorrentDeduplicationError ''total_size must be a non-negative signed 64-bit integer'')))"

section \<open>Upserts\<close>

definition new_managed_torrent ::
  "uuid \<Rightarrow> uuid \<Rightarrow> string \<Rightarrow> string \<Rightarrow> int \<Rightarrow> instant \<Rightarrow> managed_torrent" where
  "new_managed_torrent managed_id storage_key info_hash name total_size now =
     \<lparr>t_id = managed_id, t_info_hash = info_hash, t_storage_key = storage_key, t_name = name,
      t_total_size = total_size, t_state = PENDING, t_qb_state = None, t_progress = 0,
      t_tracker_account_ref = None, t_qbittorrent_account_ref = None, t_retry_at = None,
      t_last_progress_at = None, t_last_downloaded_bytes = None, t_stall_count = 0,
      t_scheduler_retry_at = None, t_purge_after = None, t_ready_at = None,
      t_retention_expires_at = None, t_purge_stop_pending = False, t_lifecycle_generation = 0,
      t_manifest_version = 0, t_manifest_checksum = None, t_manifest_file_count = 0,
      t_manifest_total_size = 0, t_desired_active = False, t_admin_forced_active = False,
      t_desired_priority = None, t_desired_download_limit = 0, t_schedule_generation = 0,
      t_created_at = now, t_updated_at = now\<rparr>"

definition insert_managed_torrent :: "managed_torrent \<Rightarrow> db \<Rightarrow> db \<times> bool" where
  "insert_managed_torrent t d =
     (if t_id t \<in> set (map t_id (db_torrents d))
         \<or> t_info_hash t \<in> set (map t_info_hash (db_torrents d))
         \<or> t_storage_key t \<in> set (map t_storage_key (db_torrents d))
      then (d, False)
      else (d\<lparr>db_torrents := db_torrents d @ [t]\<rparr>, True))"

definition new_torrent_request :: "uuid \<Rightarrow> uuid \<Rightarrow> uuid \<Rightarrow> instant \<Rightarrow> torrent_request" where
  "new_torrent_request request_id user_id managed_torrent_id now =
     \<lparr>r_id = request_id, r_user_id = user_id, r_managed_torrent_id = managed_torrent_id,
      r_state = R_REQUESTED, r_ready_at = None, r_unsubscribe_at = None, r_cancelled_at = None,
      r_expires_at = None, r_created_at = now, r_updated_at = now\<rparr>"

definition insert_torrent_request :: "torrent_request \<Rightarrow> db \<Rightarrow> db \<times> bool" where
  "insert_torrent_request r d =
     (if r_id r \<in> set (map r_id (db_requests d))
         \<or> request_owner r \<in> set (map request_owner (active_requests (db_requests d)))
      then (d, False)
      else (d\<lparr>db_requests := db_requests d @ [r]\<rparr>, True))"

section \<open>Adopting the managed torrent\<close>

definition deferred_purge_active :: "uuid \<Rightarrow> torrent_job \<Rightarrow> bool" where
  "deferred_purge_active torrent_id j =
     (j_managed_torrent_id j = torrent_id \<and> j_job_type j = PURGE_TORRENT_JOB
      \<and> active_job_state (j_state j))"

definition cancel_deferred_purge_jobs :: "uuid \<Rightarrow> instant \<Rightarrow> db \<Rightarrow> db" where
  "cancel_deferred_purge_jobs torrent_id now d =
     d\<lparr>db_jobs := update_where (deferred_purge_active torrent_id) (cancel_active_job now) (db_jobs d)\<rparr>"

definition reactivated_torrent :: "instant \<Rightarrow> managed_torrent \<Rightarrow> managed_torrent" where
  "reactivated_torrent now t =
     t\<lparr>t_state := PENDING, t_progress := 0, t_qb_state := None, t_retry_at := None,
       t_purge_after := None, t_ready_at := None, t_retention_expires_at := None,
       t_purge_stop_pending := False, t_updated_at := now\<rparr>"

definition restored_torrent :: "instant \<Rightarrow> managed_torrent \<Rightarrow> managed_torrent" where
  "restored_torrent now t =
     t\<lparr>t_state := (if t_progress t \<ge> 1 then READY else DOWNLOADING), t_purge_after := None,
       t_purge_stop_pending := False, t_updated_at := now\<rparr>"

definition revoked_torrent :: "instant \<Rightarrow> managed_torrent \<Rightarrow> managed_torrent" where
  "revoked_torrent now t =
     t\<lparr>t_admin_forced_active := False, t_purge_stop_pending := False,
       t_lifecycle_generation := t_lifecycle_generation t + 1, t_purge_after := None,
       t_updated_at := now\<rparr>"

definition adopt_torrent ::
  "instant \<Rightarrow> managed_torrent \<Rightarrow> db \<Rightarrow> app_error + db \<times> managed_torrent" where
  "adopt_torrent now t d =
     (if t_state t = PURGED
      then (let t' = reactivated_torrent now t in Inr (put_torrent t' d, t'))
      else if t_state t = PURGE_PENDING
      then (if (case t_purge_after t of None \<Rightarrow> True | Some p \<Rightarrow> p \<le> now)
            then Inl (TorrentPurgeInProgressError ''managed torrent purge deadline has passed'')
            else (let t' = restored_torrent now t
                  in Inr (cancel_deferred_purge_jobs (t_id t) now (put_torrent t' d), t')))
      else if t_purge_after t \<noteq> None
      then (let t' = revoked_torrent now t
            in Inr (cancel_deferred_purge_jobs (t_id t) now (put_torrent t' d), t'))
      else Inr (d, t))"

section \<open>The request\<close>

definition end_due_right :: "uuid \<Rightarrow> instant \<Rightarrow> managed_torrent \<Rightarrow> db \<Rightarrow> db" where
  "end_due_right user_id now t d =
     (case active_request_of d user_id (t_id t) of
        None \<Rightarrow> d
      | Some r \<Rightarrow> if due_request now r then expire_request now (t_total_size t) d r else d)"

definition settled_request :: "int \<Rightarrow> instant \<Rightarrow> managed_torrent \<Rightarrow> torrent_request \<Rightarrow> torrent_request"
where
  "settled_request auto_unsubscribe_hours now t r =
     (if t_state t = READY
      then r\<lparr>r_state := R_READY, r_ready_at := Some now,
             r_unsubscribe_at := Some (now + hours auto_unsubscribe_hours)\<rparr>
      else if t_state t \<notin> {PENDING, ADDING} then r\<lparr>r_state := R_ACTIVE\<rparr>
      else r)"

record managed_torrent_request_result =
  mr_managed_torrent :: managed_torrent
  mr_request :: torrent_request
  mr_managed_torrent_created :: bool
  mr_request_created :: bool
  mr_managed_torrent_reactivated :: bool
  mr_retention_extended :: bool
  mr_storage_pressure :: storage_pressure_state
  mr_queue_membership_changed :: bool

text \<open>The insertion of the right and the charge of the counters.\<close>

definition acquire_right ::
  "uuid \<Rightarrow> uuid \<Rightarrow> int \<Rightarrow> instant \<Rightarrow> bool \<Rightarrow> managed_torrent \<Rightarrow> db
     \<Rightarrow> app_error + db \<times> torrent_request \<times> bool" where
  "acquire_right request_id user_id auto_unsubscribe_hours now missing t d =
     (let (d1, inserted) = insert_torrent_request (new_torrent_request request_id user_id (t_id t) now) d
      in case active_request_of d1 user_id (t_id t) of
           None \<Rightarrow> Inl (TorrentDeduplicationRaceError ''torrent request upsert did not produce a row'')
         | Some r \<Rightarrow>
             (let r' = (if inserted then settled_request auto_unsubscribe_hours now t r else r)
              in Inr (apply_storage_accounting user_id inserted missing (t_total_size t) now
                        (if inserted then put_request r' d1 else d1), r', inserted)))"

definition admit_to_torrent ::
  "uuid \<Rightarrow> uuid \<Rightarrow> instant \<Rightarrow> storage_admission_policy option \<Rightarrow> storage_disk_snapshot option \<Rightarrow> int
     \<Rightarrow> bool \<Rightarrow> managed_torrent \<Rightarrow> db \<Rightarrow> app_error + db \<times> managed_torrent_request_result" where
  "admit_to_torrent request_id user_id now policy disk auto_unsubscribe_hours created torrent d =
     (let was_ranked = is_ranked_queue_member d torrent now;
          reactivated = (t_state torrent = PURGED)
      in rbind (adopt_torrent now torrent d) (\<lambda>(d1, t).
         let d2 = end_due_right user_id now t d1
         in rbind (prepare_storage_accounting user_id (t_info_hash t) (t_total_size t) policy disk now
                     (Some (created \<or> reactivated)) d2) (\<lambda>(d3, pressure).
            rbind (acquire_right request_id user_id auto_unsubscribe_hours now
                     (created \<or> reactivated) t d3) (\<lambda>(d4, request, inserted).
            Inr (d4, \<lparr>mr_managed_torrent = t, mr_request = request,
                      mr_managed_torrent_created = created, mr_request_created = inserted,
                      mr_managed_torrent_reactivated = reactivated, mr_retention_extended = False,
                      mr_storage_pressure = pressure,
                      mr_queue_membership_changed =
                        (was_ranked \<noteq> is_ranked_queue_member d4 t now)\<rparr>)))))"

definition user_enabled_row :: "uuid \<Rightarrow> db \<Rightarrow> bool" where
  "user_enabled_row user_id d =
     (case find_row u_id user_id (db_users d) of
        None \<Rightarrow> False
      | Some owner \<Rightarrow> u_is_active owner \<and> u_deleted_at owner = None)"

definition create_or_get_torrent_request ::
  "uuid \<Rightarrow> uuid \<Rightarrow> uuid \<Rightarrow> uuid \<Rightarrow> string \<Rightarrow> string \<Rightarrow> int \<Rightarrow> datetime
     \<Rightarrow> storage_admission_policy option \<Rightarrow> storage_disk_snapshot option \<Rightarrow> int \<Rightarrow> db
     \<Rightarrow> app_error + db \<times> managed_torrent_request_result" where
  "create_or_get_torrent_request managed_id storage_key request_id user_id info_hash name total_size
       now policy disk auto_unsubscribe_hours d =
     rbind (validate_metadata info_hash name total_size) (\<lambda>_.
     rbind (require (tz_aware now) (TorrentDeduplicationError ''now must be timezone-aware'')) (\<lambda>_.
     rbind (require (1 \<le> auto_unsubscribe_hours \<and> auto_unsubscribe_hours \<le> 2160)
              (TorrentDeduplicationError ''torrent auto unsubscribe duration is invalid'')) (\<lambda>_.
     rbind (require (user_enabled_row user_id d)
              (TorrentRequestOwnerError ''the torrent request owner is missing or inactive'')) (\<lambda>_.
     let (d1, created) = insert_managed_torrent
           (new_managed_torrent managed_id storage_key info_hash name total_size (as_utc now)) d
     in case find_row t_info_hash info_hash (db_torrents d1) of
          None \<Rightarrow> Inl (TorrentDeduplicationRaceError ''managed torrent upsert did not produce a row'')
        | Some torrent \<Rightarrow>
            rbind (require (t_name torrent = name \<and> t_total_size torrent = total_size)
                     (TorrentMetadataConflictError
                        ''the canonical torrent metadata conflicts with the existing infohash'')) (\<lambda>_.
            rbind (require (t_state torrent \<noteq> PURGING)
                     (TorrentPurgeInProgressError ''managed torrent purge is in progress'')) (\<lambda>_.
            admit_to_torrent request_id user_id (as_utc now) policy disk auto_unsubscribe_hours
              created torrent d1))))))"

section \<open>New rows\<close>

lemma lower_hex: "hex_char c \<Longrightarrow> lower_char c = c"
  by (auto simp: hex_char_def lower_char_def is_digit_def is_upper_def char_in_def less_eq_char_def)

lemma lower_hexes: "list_all hex_char s \<Longrightarrow> lower s = s"
  by (induction s) (simp_all add: lower_def lower_hex)

lemma new_managed_torrent_check:
  assumes "validate_metadata h nm n = Inr ()"
  shows "torrent_check (new_managed_torrent i k h nm n now)"
  using assms
  by (auto simp: validate_metadata_def rbind_Inr_iff require_Inr_iff torrent_check_def
      new_managed_torrent_def lower_hexes)

lemma no_request_of_new_torrent:
  assumes "tables_ok d" "k \<notin> set (map t_id (db_torrents d))"
  shows "\<not> has_active_request d k"
proof
  assume "has_active_request d k"
  then obtain r where "r \<in> set (db_requests d)" "r_managed_torrent_id r = k"
    by (auto simp: has_active_request_iff)
  then show False using assms by (auto simp: tables_ok_def list_all_iff)
qed

lemma tables_ok_insert_torrent:
  assumes "tables_ok d" "torrent_check t" "insert_managed_torrent t d = (d', True)"
  shows "tables_ok d'"
  using assms by (auto simp: insert_managed_torrent_def tables_ok_def torrents_unique_def list_all_iff
      split: if_splits)

lemma request_bytes_append:
  assumes "r_managed_torrent_id r \<noteq> t_id t"
  shows "request_bytes (ts @ [t]) r = request_bytes ts r"
  using assms by (auto simp: request_bytes_def)

lemma logical_sum_insert_torrent:
  assumes "tables_ok d" "t_id t \<notin> set (map t_id (db_torrents d))"
  shows "logical_sum (db_torrents d @ [t]) (db_requests d) u = logical_sum (db_torrents d) (db_requests d) u"
proof -
  have "request_bytes (db_torrents d @ [t]) r = request_bytes (db_torrents d) r"
    if "r \<in> set (db_requests d)" for r
  proof (rule request_bytes_append)
    have "r_managed_torrent_id r \<in> set (map t_id (db_torrents d))"
      using assms(1) that unfolding tables_ok_def list_all_iff by blast
    then show "r_managed_torrent_id r \<noteq> t_id t" using assms(2) by metis
  qed
  then show ?thesis
    unfolding logical_sum_def logical_weight_def by (intro arg_cong [of _ _ sum_list] map_cong) auto
qed

text \<open>
  \<open>admission_state missing t d\<close>: the invariant inside the transaction once the row \<open>t\<close> is adopted.
  The content of \<open>t\<close> is not charged to the ledger yet when it is missing, and \<open>t\<close> itself may still
  be held by nobody.
\<close>

definition admission_state :: "bool \<Rightarrow> managed_torrent \<Rightarrow> db \<Rightarrow> bool" where
  "admission_state missing t d \<longleftrightarrow>
     tables_ok d \<and> rights_ok d \<and> (\<forall>u. usage_bytes d u = logical_sum (db_torrents d) (db_requests d) u)
     \<and> ledger_bytes d + (if missing then t_total_size t else 0) = managed_sum (db_torrents d)
     \<and> t \<in> set (db_torrents d) \<and> t_purge_after t = None \<and> \<not> purge_state (t_state t)
     \<and> (\<forall>x\<in>set (db_torrents d). t_id x \<noteq> t_id t \<longrightarrow> retained_at d x)"

lemma admission_state_cong:
  assumes "db_torrents d' = db_torrents d" "db_requests d' = db_requests d"
    "db_usages d' = db_usages d" "db_ledger d' = db_ledger d"
  shows "admission_state m t d' = admission_state m t d"
proof -
  have "rights_ok d' = rights_ok d"
    by (simp add: rights_ok_def assms(1) has_active_request_cong [OF assms(2)])
  then show ?thesis
    using retained_at_cong [OF assms(2)]
    by (simp add: admission_state_def tables_ok_def usage_bytes_def ledger_bytes_def assms)
qed

lemma admission_state_full:
  "admission_state False t d \<Longrightarrow> system_ok d"
  by (simp add: admission_state_def system_ok_def accounting_ok_iff)

lemma admission_state_new:
  assumes "lifecycle_ok d" "validate_metadata h nm n = Inr ()"
    and "insert_managed_torrent (new_managed_torrent i k h nm n now) d = (d', True)"
  shows "admission_state True (new_managed_torrent i k h nm n now) d'"
proof -
  let ?t = "new_managed_torrent i k h nm n now"
  have sys: "tables_ok d" "accounting_ok d" "rights_ok d" "retained_ok d"
    using assms(1) by (simp_all add: lifecycle_ok_def system_ok_def)
  have d': "d' = d\<lparr>db_torrents := db_torrents d @ [?t]\<rparr>" and new: "t_id ?t \<notin> set (map t_id (db_torrents d))"
    using assms(3) by (auto simp: insert_managed_torrent_def split: if_splits)
  have state: "t_state ?t = PENDING" "t_purge_after ?t = None" by (simp_all add: new_managed_torrent_def)
  have act: "has_active_request d' x = has_active_request d x" for x
    by (rule has_active_request_cong) (simp add: d')
  have "rights_ok d'"
    using sys(3) state act by (simp add: rights_ok_def d')
  moreover have "retained_at d' x" if "x \<in> set (db_torrents d)" for x
    using sys(4) that act by (auto simp: retained_ok_def list_all_iff retained_at_def)
  moreover have "managed_sum (db_torrents d') = managed_sum (db_torrents d) + t_total_size ?t"
    by (simp add: d' managed_sum_def managed_weight_def state)
  moreover have "tables_ok d'"
    by (rule tables_ok_insert_torrent [OF sys(1) new_managed_torrent_check [OF assms(2)] assms(3)])
  moreover have "usage_bytes d' u = logical_sum (db_torrents d') (db_requests d') u" for u
    using sys(2) logical_sum_insert_torrent [OF sys(1) new]
    by (simp add: accounting_ok_iff d' usage_bytes_def)
  ultimately show ?thesis
    using sys(2) state by (auto simp: admission_state_def d' accounting_ok_iff ledger_bytes_def)
qed

section \<open>Adoption\<close>

lemma admission_state_put:
  assumes "lifecycle_ok d" "t \<in> set (db_torrents d)" "same_torrent t t'" "torrent_check t'"
    and "t_purge_after t' = None" "\<not> purge_state (t_state t')"
  shows "admission_state (t_state t = PURGED) t' (put_torrent t' d)"
proof -
  have sys: "tables_ok d" "accounting_ok d" "rights_ok d" "retained_ok d"
    using assms(1) by (simp_all add: lifecycle_ok_def system_ok_def)
  have u: "torrents_unique (db_torrents d)" using sys(1) by (simp add: tables_ok_def)
  have id: "t_id t' = t_id t" using assms(3) by (simp add: same_torrent_def)
  note mem = in_put_torrent [OF assms(2) id]
  have alive: "t_state t' \<noteq> PURGED" using assms(6) by auto
  have "managed_sum (db_torrents (put_torrent t' d)) = managed_sum (db_torrents d)
      + (if t_state t = PURGED then t_total_size t' else 0)"
    using managed_sum_put_torrent [OF u assms(2) id] assms(3) alive
    by (auto simp: managed_weight_def same_torrent_def)
  moreover have "usage_bytes (put_torrent t' d) v = logical_sum (db_torrents (put_torrent t' d))
      (db_requests (put_torrent t' d)) v" for v
    using sys(2) logical_sum_put_torrent [OF u assms(2,3)] by (simp add: accounting_ok_iff usage_bytes_def)
  moreover have "rights_ok (put_torrent t' d)"
    by (rule rights_ok_put_torrent [OF sys(3) assms(2) id]) (use assms(5,6) in blast)
  moreover have "retained_at (put_torrent t' d) x"
    if "x \<in> set (db_torrents (put_torrent t' d))" "t_id x \<noteq> t_id t'" for x
  proof -
    have "x \<in> set (db_torrents d)" using mem that id by auto
    then have "retained_at d x" using sys(4) by (simp add: retained_ok_def list_all_iff)
    then show ?thesis using retained_at_cong [of "put_torrent t' d" d x] by simp
  qed
  moreover have "t' \<in> set (db_torrents (put_torrent t' d))" using mem by blast
  ultimately show ?thesis
    using tables_ok_put_torrent [OF sys(1) assms(2-4)] sys(2) assms(5,6)
    by (simp add: admission_state_def accounting_ok_iff ledger_bytes_def)
qed

lemma adopted_rows:
  assumes "torrent_check t"
  shows "torrent_check (reactivated_torrent now t)" "torrent_check (restored_torrent now t)"
    "\<not> purge_state (t_state t) \<Longrightarrow> torrent_check (revoked_torrent now t)"
    "same_torrent t (reactivated_torrent now t)" "same_torrent t (restored_torrent now t)"
    "same_torrent t (revoked_torrent now t)"
  using assms
  by (auto simp: torrent_check_def same_torrent_def reactivated_torrent_def restored_torrent_def
      revoked_torrent_def)

lemma cancel_active_job_ids [simp]:
  "j_id (cancel_active_job now j) = j_id j"
  "j_idempotency_key (cancel_active_job now j) = j_idempotency_key j"
  "j_managed_torrent_id (cancel_active_job now j) = j_managed_torrent_id j"
  "j_job_type (cancel_active_job now j) = j_job_type j"
  by (simp_all add: cancel_active_job_def Let_def)

lemma cancel_deferred_frame [simp]:
  "db_torrents (cancel_deferred_purge_jobs i now d) = db_torrents d"
  "db_requests (cancel_deferred_purge_jobs i now d) = db_requests d"
  "db_usages (cancel_deferred_purge_jobs i now d) = db_usages d"
  "db_ledger (cancel_deferred_purge_jobs i now d) = db_ledger d"
  "db_users (cancel_deferred_purge_jobs i now d) = db_users d"
  "map j_idempotency_key (db_jobs (cancel_deferred_purge_jobs i now d)) = map j_idempotency_key (db_jobs d)"
  "map j_id (db_jobs (cancel_deferred_purge_jobs i now d)) = map j_id (db_jobs d)"
  by (auto simp: cancel_deferred_purge_jobs_def update_where_def)

lemma keys_ok_cong:
  assumes "db_torrents d' = db_torrents d"
    "map j_idempotency_key (db_jobs d') = map j_idempotency_key (db_jobs d)"
  shows "keys_ok d' = keys_ok d"
proof -
  have keys: "list_all (\<lambda>j. key_behind t (j_idempotency_key j)) jobs
      = list_all (key_behind t) (map j_idempotency_key jobs)" for t jobs
    by (simp add: list.pred_map comp_def)
  show ?thesis unfolding keys_ok_def assms(1) keys assms(2) ..
qed

lemma adopt_torrent_cases:
  assumes "adopt_torrent now t d = Inr (d', t')" "t_state t \<noteq> PURGING"
  obtains (reactivated) "t_state t = PURGED" "t' = reactivated_torrent now t" "d' = put_torrent t' d"
  | (restored) "t_state t = PURGE_PENDING" "t' = restored_torrent now t"
      "d' = cancel_deferred_purge_jobs (t_id t) now (put_torrent t' d)"
  | (revoked) "\<not> purge_state (t_state t)" "t_purge_after t \<noteq> None" "t' = revoked_torrent now t"
      "d' = cancel_deferred_purge_jobs (t_id t) now (put_torrent t' d)"
  | (unchanged) "\<not> purge_state (t_state t)" "t_purge_after t = None" "t' = t" "d' = d"
proof (cases "t_state t = PURGED \<or> t_state t = PURGE_PENDING")
  case True
  then show thesis
  proof
    assume st: "t_state t = PURGED"
    then have "d' = put_torrent (reactivated_torrent now t) d" "t' = reactivated_torrent now t"
      using assms(1) by (auto simp: adopt_torrent_def Let_def)
    then show thesis using reactivated [OF st] by simp
  next
    assume st: "t_state t = PURGE_PENDING"
    then have "d' = cancel_deferred_purge_jobs (t_id t) now (put_torrent (restored_torrent now t) d)"
      "t' = restored_torrent now t"
      using assms(1) by (auto simp: adopt_torrent_def Let_def split: option.splits if_splits)
    then show thesis using restored [OF st] by simp
  qed
next
  case False
  then have st: "\<not> purge_state (t_state t)" using assms(2) by (simp add: purge_state_def)
  show thesis
  proof (cases "t_purge_after t")
    case None
    then have "d' = d" "t' = t" using assms(1) False by (simp_all add: adopt_torrent_def)
    then show thesis using unchanged [OF st None] by simp
  next
    case (Some p)
    then have pa: "t_purge_after t \<noteq> None"
      "d' = cancel_deferred_purge_jobs (t_id t) now (put_torrent (revoked_torrent now t) d)"
      "t' = revoked_torrent now t"
      using assms(1) False by (auto simp: adopt_torrent_def Let_def)
    then show thesis using revoked [OF st pa(1)] by simp
  qed
qed

lemma adopt_torrent_ok:
  assumes "lifecycle_ok d" "keys_ok d" "t \<in> set (db_torrents d)" "t_state t \<noteq> PURGING"
    and "adopt_torrent now t d = Inr (d', t')"
  shows "admission_state (t_state t = PURGED) t' d' \<and> keys_ok d' \<and> same_torrent t t'
    \<and> db_requests d' = db_requests d \<and> db_users d' = db_users d
    \<and> map j_id (db_jobs d') = map j_id (db_jobs d)"
proof -
  have check: "torrent_check t"
    using assms(1,3) by (intro torrent_row_ok) (simp_all add: lifecycle_ok_def)
  note rows = adopted_rows [OF check, of now]
  have keys: "keys_ok (put_torrent x d)"
    if "t_id x = t_id t" "t_lifecycle_generation t \<le> t_lifecycle_generation x" for x
    using keys_ok_put_torrent [OF assms(2,3) that] .
  from assms(5,4) show ?thesis
  proof (cases rule: adopt_torrent_cases)
    case reactivated
    have "admission_state (t_state t = PURGED) t' d'"
      unfolding reactivated(2,3)
      by (rule admission_state_put [OF assms(1,3) rows(4,1)]) (simp_all add: reactivated_torrent_def)
    then show ?thesis
      using keys [of t'] rows(4) by (simp add: reactivated(2,3) reactivated_torrent_def)
  next
    case restored
    have "admission_state (t_state t = PURGED) t' (put_torrent t' d)"
      unfolding restored(2)
      by (rule admission_state_put [OF assms(1,3) rows(5,2)]) (simp_all add: restored_torrent_def)
    then have "admission_state (t_state t = PURGED) t' d'"
      using admission_state_cong [of d' "put_torrent t' d"] by (simp add: restored(3))
    moreover have "keys_ok d'"
      using keys [of t'] keys_ok_cong [of d' "put_torrent t' d"]
      by (simp add: restored(2,3) restored_torrent_def)
    ultimately show ?thesis using rows(5) by (simp add: restored(2,3))
  next
    case revoked
    have "admission_state (t_state t = PURGED) t' (put_torrent t' d)"
      unfolding revoked(3)
      by (rule admission_state_put [OF assms(1,3) rows(6) rows(3) [OF revoked(1)]])
        (use revoked(1) in \<open>simp_all add: revoked_torrent_def\<close>)
    then have "admission_state (t_state t = PURGED) t' d'"
      using admission_state_cong [of d' "put_torrent t' d"] by (simp add: revoked(4))
    moreover have "keys_ok d'"
      using keys [of t'] keys_ok_cong [of d' "put_torrent t' d"]
      by (simp add: revoked(3,4) revoked_torrent_def)
    ultimately show ?thesis using rows(6) by (simp add: revoked(3,4))
  next
    case unchanged
    have "t_state t \<noteq> PURGED" using unchanged(1) by auto
    then show ?thesis
      using assms(1-3) unchanged
      by (auto simp: admission_state_def lifecycle_ok_def system_ok_def accounting_ok_iff retained_ok_def
          list_all_iff same_torrent_def)
  qed
qed

section \<open>Ending a due right\<close>

lemma active_request_of_SomeD:
  assumes "active_request_of d u k = Some r"
  shows "r \<in> set (db_requests d)" "r_user_id r = u" "r_managed_torrent_id r = k"
    "active_request_state (r_state r)"
  using find_SomeD [OF assms [unfolded active_request_of_def]] by simp_all

lemma active_request_of_None:
  assumes "active_request_of d u k = None" "r \<in> set (db_requests d)" "active_request_state (r_state r)"
  shows "request_owner r \<noteq> (u, k)"
  using assms by (auto simp: active_request_of_def find_None_iff request_owner_def)

lemma no_right_while_missing:
  assumes "\<not> has_active_request d k"
  shows "active_request_of d u k = None"
  using assms by (auto simp: active_request_of_def find_None_iff has_active_request_iff)

lemma end_due_right_frame [simp]:
  "db_torrents (end_due_right u now t d) = db_torrents d" "db_jobs (end_due_right u now t d) = db_jobs d"
  by (simp_all add: end_due_right_def split: option.splits)

lemma expire_request_admission:
  assumes "admission_state False t d" "r \<in> set (db_requests d)" "active_request_state (r_state r)"
    "r_managed_torrent_id r = t_id t"
  shows "admission_state False t (expire_request now (t_total_size t) d r)"
proof -
  have t: "t \<in> set (db_torrents d)" "t_purge_after t = None" "\<not> purge_state (t_state t)"
    using assms(1) by (simp_all add: admission_state_def)
  have sys: "system_ok d" by (rule admission_state_full [OF assms(1)])
  let ?d = "expire_request now (t_total_size t) d r"
  have ok: "system_ok ?d"
    unfolding expire_request_def
    by (rule system_ok_end_right) (use sys assms t expired_request_same in simp_all)
  have "retained_at ?d x" if x: "x \<in> set (db_torrents d)" "t_id x \<noteq> t_id t" for x
  proof (rule retained_at_requests)
    show "retained_at d x" using assms(1) x by (simp add: admission_state_def)
    fix y assume y: "y \<in> set (db_requests d)" "r_managed_torrent_id y = t_id x" "active_request_state (r_state y)"
    have "r_id y \<noteq> r_id r"
    proof
      assume "r_id y = r_id r"
      then have "y = r"
        using requests_distinct [OF sys] y(1) assms(2) by (auto simp: distinct_map inj_on_def)
      then show False using y(2) x(2) assms(4) by simp
    qed
    then have "y \<in> set (db_requests ?d)"
      using expire_request_others [OF requests_distinct [OF sys] assms(2)] y(1) by blast
    then show "\<exists>r'\<in>set (db_requests ?d). r_managed_torrent_id r' = t_id x \<and> active_request_state (r_state r')"
      using y(2,3) by blast
  qed
  then show ?thesis
    using ok t by (simp add: admission_state_def system_ok_def accounting_ok_iff)
qed

lemma end_due_right_ok:
  assumes "admission_state missing t d" "missing \<Longrightarrow> \<not> has_active_request d (t_id t)"
  shows "admission_state missing t (end_due_right u now t d)"
proof (cases "active_request_of d u (t_id t)")
  case None
  then show ?thesis using assms(1) by (simp add: end_due_right_def)
next
  case (Some r)
  note r = active_request_of_SomeD [OF Some]
  have "\<not> missing" using assms(2) r by (auto simp: has_active_request_iff)
  then show ?thesis
    using Some assms(1) expire_request_admission [of t d r now] r by (simp add: end_due_right_def)
qed

section \<open>Charging the counters\<close>

lemma prepare_admission:
  assumes "admission_state missing t d"
    and "prepare_storage_accounting u h n policy disk now given d = Inr (d', pr)"
  shows "admission_state missing t d'"
proof -
  note f = prepare_frame [OF assms(2)]
  have act: "has_active_request d' k = has_active_request d k" for k
    by (rule has_active_request_cong [OF f(2)])
  have "list_all usage_check (db_usages d')" "distinct (map us_user_id (db_usages d'))"
    using assms(1) usage_row_distinct [of d u now]
    by (auto simp: f(11) admission_state_def tables_ok_def usage_row_def usage_check_def split: option.splits)
  then have "tables_ok d'" using assms(1) by (simp add: admission_state_def tables_ok_def f(1,2))
  moreover have "rights_ok d'" using assms(1) act by (simp add: admission_state_def rights_ok_def f(1))
  moreover have "retained_at d' x = retained_at d x" for x by (rule retained_at_cong [OF f(2)])
  ultimately show ?thesis using assms(1) by (simp add: admission_state_def f(1,2,7,8))
qed

lemma apply_frame [simp]:
  "db_torrents (apply_storage_accounting u c m n now d) = db_torrents d"
  "db_requests (apply_storage_accounting u c m n now d) = db_requests d"
  "db_jobs (apply_storage_accounting u c m n now d) = db_jobs d"
  "map us_user_id (db_usages (apply_storage_accounting u c m n now d)) = map us_user_id (db_usages d)"
  by (auto simp: apply_storage_accounting_def Let_def add_usage_def update_row_def)

lemma apply_bytes:
  assumes "u \<in> us_user_id ` set (db_usages d)" "db_ledger d \<noteq> None"
  shows "usage_bytes (apply_storage_accounting u c m n now d) v
      = usage_bytes d v + (if c \<and> v = u then n else 0)"
    "ledger_bytes (apply_storage_accounting u c m n now d) = ledger_bytes d + (if m then n else 0)"
  using assms add_usage_bytes [of u n now d v]
  by (auto simp: apply_storage_accounting_def Let_def ledger_bytes_def add_usage_def usage_bytes_def
      split: option.splits)

lemma apply_checks:
  "list_all usage_check (db_usages d) \<Longrightarrow> 0 \<le> n \<Longrightarrow>
     list_all usage_check (db_usages (apply_storage_accounting u c m n now d))"
  by (auto simp: apply_storage_accounting_def Let_def add_usage_def list_all_iff in_update_row usage_check_def)

section \<open>Acquiring the right\<close>

lemma settled_request_same:
  "same_right r (settled_request n now t r)"
  "active_request_state (r_state r) \<Longrightarrow> active_request_state (r_state (settled_request n now t r))"
  by (simp_all add: settled_request_def same_right_def)

definition granted_request :: "uuid \<Rightarrow> uuid \<Rightarrow> int \<Rightarrow> instant \<Rightarrow> managed_torrent \<Rightarrow> torrent_request" where
  "granted_request request_id user_id n now t =
     settled_request n now t (new_torrent_request request_id user_id (t_id t) now)"

lemma granted_request_simps [simp]:
  "r_id (granted_request i u n now t) = i" "r_user_id (granted_request i u n now t) = u"
  "r_managed_torrent_id (granted_request i u n now t) = t_id t"
  "request_owner (granted_request i u n now t) = (u, t_id t)"
  "active_request_state (r_state (granted_request i u n now t))"
  using settled_request_same [of "new_torrent_request i u (t_id t) now" n now t]
  by (simp_all add: granted_request_def same_right_def new_torrent_request_def request_owner_def)

lemma owner_active_iff:
  "(u, k) \<in> set (map request_owner (active_requests rs)) \<longleftrightarrow>
     find (\<lambda>r. r_user_id r = u \<and> r_managed_torrent_id r = k \<and> active_request_state (r_state r)) rs \<noteq> None"
  by (induction rs) (auto simp: active_requests_def request_owner_def)

lemma update_row_append_new:
  "key x \<notin> set (map key rows) \<Longrightarrow> key y = key x \<Longrightarrow>
     update_row key (key x) (\<lambda>_. x) (rows @ [y]) = rows @ [x]"
  by (induction rows) (auto simp: update_row_def)

lemma find_append_None: "find P xs = None \<Longrightarrow> P y \<Longrightarrow> find P (xs @ [y]) = Some y"
  by (induction xs) auto

lemma acquire_right_existing:
  assumes "active_request_of d u (t_id t) = Some r"
  shows "acquire_right i u n now missing t d
     = Inr (apply_storage_accounting u False missing (t_total_size t) now d, r, False)"
proof -
  have "request_owner (new_torrent_request i u (t_id t) now)
      \<in> set (map request_owner (active_requests (db_requests d)))"
    using assms owner_active_iff [of u "t_id t" "db_requests d"]
    by (simp add: active_request_of_def new_torrent_request_def request_owner_def)
  then show ?thesis
    using assms by (simp add: acquire_right_def insert_torrent_request_def)
qed

lemma acquire_right_new:
  assumes "active_request_of d u (t_id t) = None" "i \<notin> set (map r_id (db_requests d))"
  shows "acquire_right i u n now missing t d
     = Inr (apply_storage_accounting u True missing (t_total_size t) now
              (d\<lparr>db_requests := db_requests d @ [granted_request i u n now t]\<rparr>),
            granted_request i u n now t, True)"
proof -
  let ?r = "new_torrent_request i u (t_id t) now"
  have "request_owner ?r \<notin> set (map request_owner (active_requests (db_requests d)))"
    using assms(1) owner_active_iff [of u "t_id t" "db_requests d"]
    by (simp add: active_request_of_def new_torrent_request_def request_owner_def)
  then have ins: "insert_torrent_request ?r d = (d\<lparr>db_requests := db_requests d @ [?r]\<rparr>, True)"
    using assms(2) by (simp add: insert_torrent_request_def) (simp add: new_torrent_request_def)
  have row: "active_request_of (d\<lparr>db_requests := db_requests d @ [?r]\<rparr>) u (t_id t) = Some ?r"
    using assms(1) unfolding active_request_of_def
    by (simp add: find_append_None) (rule find_append_None, simp_all add: new_torrent_request_def)
  have id: "r_id ?r = i" by (simp add: new_torrent_request_def)
  have "put_request (granted_request i u n now t) (d\<lparr>db_requests := db_requests d @ [?r]\<rparr>)
      = d\<lparr>db_requests := db_requests d @ [granted_request i u n now t]\<rparr>"
    using update_row_append_new [of r_id "granted_request i u n now t" "db_requests d" ?r] assms(2) id
    by (simp add: put_request_def)
  then show ?thesis
    using row by (simp add: acquire_right_def ins granted_request_def Let_def)
qed

lemma acquire_right_clash:
  assumes "active_request_of d u (t_id t) = None" "i \<in> set (map r_id (db_requests d))"
  shows "acquire_right i u n now missing t d
     = Inl (TorrentDeduplicationRaceError ''torrent request upsert did not produce a row'')"
proof -
  have "insert_torrent_request (new_torrent_request i u (t_id t) now) d = (d, False)"
    using assms(2) by (simp add: insert_torrent_request_def new_torrent_request_def)
  then show ?thesis using assms(1) by (simp add: acquire_right_def)
qed

text \<open>The final database of a new right.\<close>

lemma tables_ok_new_right:
  assumes "tables_ok d" "t \<in> set (db_torrents d)" "active_request_of d u (t_id t) = None"
    "i \<notin> set (map r_id (db_requests d))"
  shows "tables_ok (d\<lparr>db_requests := db_requests d @ [granted_request i u n now t]\<rparr>)"
proof -
  have "(u, t_id t) \<notin> set (map request_owner (active_requests (db_requests d)))"
    using assms(3) owner_active_iff [of u "t_id t" "db_requests d"] by (simp add: active_request_of_def)
  then have "requests_unique (db_requests d @ [granted_request i u n now t])"
    using assms(1,4) by (simp add: tables_ok_def requests_unique_def active_requests_def)
  then show ?thesis using assms(1,2) by (auto simp: tables_ok_def list_all_iff)
qed

lemma has_active_append:
  "has_active_request (d\<lparr>db_requests := db_requests d @ [r]\<rparr>) k \<longleftrightarrow>
     has_active_request d k \<or> r_managed_torrent_id r = k \<and> active_request_state (r_state r)"
  by (auto simp: has_active_request_iff)

lemma logical_sum_new_right:
  assumes "tables_ok d" "t \<in> set (db_torrents d)"
  shows "logical_sum (db_torrents d) (db_requests d @ [granted_request i u n now t]) v
     = logical_sum (db_torrents d) (db_requests d) v + (if v = u then t_total_size t else 0)"
proof -
  have "request_bytes (db_torrents d) (granted_request i u n now t) = t_total_size t"
    by (rule request_bytes_of) (use assms in \<open>simp_all add: tables_ok_def torrents_unique_def\<close>)
  then show ?thesis by (simp add: logical_sum_def logical_weight_def)
qed

lemma acquire_right_ok:
  assumes "admission_state missing t d" "u \<in> us_user_id ` set (db_usages d)" "db_ledger d \<noteq> None"
    and "acquire_right i u n now missing t d = Inr (d', r, inserted)"
    and "missing \<Longrightarrow> \<not> has_active_request d (t_id t)"
  shows "lifecycle_ok d'" "db_torrents d' = db_torrents d" "db_jobs d' = db_jobs d"
    "set (db_requests d') = (if inserted then insert r (set (db_requests d)) else set (db_requests d))"
    "active_request_of d' u (t_id t) = Some r"
    "inserted \<longleftrightarrow> active_request_of d u (t_id t) = None"
    "inserted \<Longrightarrow> r = granted_request i u n now t"
    "ledger_bytes d' = ledger_bytes d + (if missing then t_total_size t else 0)"
    "v \<noteq> u \<Longrightarrow> usage_bytes d' v = usage_bytes d v"
proof -
  have st: "tables_ok d" "rights_ok d" "\<And>v. usage_bytes d v = logical_sum (db_torrents d) (db_requests d) v"
    "ledger_bytes d + (if missing then t_total_size t else 0) = managed_sum (db_torrents d)"
    "t \<in> set (db_torrents d)" "t_purge_after t = None" "\<not> purge_state (t_state t)"
    "\<And>x. x \<in> set (db_torrents d) \<Longrightarrow> t_id x \<noteq> t_id t \<Longrightarrow> retained_at d x"
    using assms(1) by (simp_all add: admission_state_def)
  have size: "0 \<le> t_total_size t"
    using st(1,5) by (auto simp: tables_ok_def list_all_iff torrent_check_def)
  define e where "e = (if inserted then d\<lparr>db_requests := db_requests d @ [r]\<rparr> else d)"
  have run: "d' = apply_storage_accounting u inserted missing (t_total_size t) now e
      \<and> (if inserted then active_request_of d u (t_id t) = None \<and> r = granted_request i u n now t
            \<and> i \<notin> set (map r_id (db_requests d))
         else active_request_of d u (t_id t) = Some r)"
  proof (cases "active_request_of d u (t_id t)")
    case (Some x)
    then show ?thesis using assms(4) acquire_right_existing [OF Some, of i n now missing] by (auto simp: e_def)
  next
    case None
    have fresh: "i \<notin> set (map r_id (db_requests d))"
      using assms(4) acquire_right_clash [OF None, of i n now missing] by auto
    show ?thesis using assms(4) acquire_right_new [OF None fresh, of n now missing] None fresh
      by (auto simp: e_def)
  qed
  have tab: "tables_ok e"
    using run st(1) tables_ok_new_right [OF st(1,5)] by (auto simp: e_def)
  have mem: "t \<in> set (db_torrents e)" "u \<in> us_user_id ` set (db_usages e)" "db_ledger e \<noteq> None"
    using st(5) assms(2,3) by (simp_all add: e_def)
  have sums: "logical_sum (db_torrents e) (db_requests e) v = logical_sum (db_torrents d) (db_requests d) v
      + (if inserted \<and> v = u then t_total_size t else 0)" for v
    using run logical_sum_new_right [OF st(1,5)] by (simp add: e_def)
  have act: "has_active_request e k \<longleftrightarrow> has_active_request d k \<or> inserted \<and> t_id t = k" for k
    using run has_active_append [of d r k] by (cases inserted) (simp_all add: e_def)
  have held: "has_active_request e (t_id t)"
  proof (cases inserted)
    case False
    then have "active_request_of d u (t_id t) = Some r" using run by simp
    note a = active_request_of_SomeD [OF this]
    then show ?thesis using act [of "t_id t"] by (auto simp: has_active_request_iff)
  qed (use act in simp)
  have act': "has_active_request d' k = has_active_request e k" for k
    by (rule has_active_request_cong) (use run in simp)
  have tab': "tables_ok d'"
    using tab run apply_checks [OF _ size] by (simp add: tables_ok_def)
  have uniq: "x = t" if "x \<in> set (db_torrents d)" "t_id x = t_id t" for x
    using st(1,5) that by (auto simp: tables_ok_def torrents_unique_def distinct_map inj_on_def)
  have "rights_ok d'"
    unfolding rights_ok_def list_all_iff
  proof (intro ballI impI)
    fix x assume x: "x \<in> set (db_torrents d')" "t_purge_after x \<noteq> None \<or> purge_state (t_state x)"
    have "db_torrents d' = db_torrents d" using run by (simp add: e_def)
    then have xd: "x \<in> set (db_torrents d)" using x(1) by simp
    have "t_id x \<noteq> t_id t"
    proof
      assume "t_id x = t_id t"
      from uniq [OF xd this] show False using x(2) st(6,7) by simp
    qed
    then show "\<not> has_active_request d' (t_id x)"
      using st(2) xd x(2) act act' by (auto simp: rights_ok_def list_all_iff)
  qed
  moreover have "retained_at d' x" if "x \<in> set (db_torrents d)" for x
  proof (cases "t_id x = t_id t")
    case True
    then show ?thesis using held act' by (simp add: retained_at_def)
  next
    case False
    then have "retained_at d x" using st(8) that by simp
    then show ?thesis using act act' by (auto simp: retained_at_def)
  qed
  moreover have "accounting_ok d'"
  proof -
    have e: "usage_bytes e v = usage_bytes d v" "ledger_bytes e = ledger_bytes d"
      "db_torrents e = db_torrents d" for v
      by (simp_all add: e_def usage_bytes_def ledger_bytes_def)
    have "usage_bytes d' v = logical_sum (db_torrents d') (db_requests d') v" for v
      using apply_bytes(1) [OF mem(2,3), of inserted missing "t_total_size t" now v] run sums [of v]
        st(3) [of v] e(1) [of v] by simp
    moreover have "ledger_bytes d' = managed_sum (db_torrents d')"
      using apply_bytes(2) [OF mem(2,3), of inserted missing "t_total_size t" now] run st(4) e(2,3) by simp
    ultimately show ?thesis by (simp add: accounting_ok_iff)
  qed
  moreover have "db_torrents d' = db_torrents d" using run by (simp add: e_def)
  ultimately show "lifecycle_ok d'"
    using tab' by (simp add: lifecycle_ok_def system_ok_def retained_ok_def list_all_iff)
  show "db_torrents d' = db_torrents d" "db_jobs d' = db_jobs d"
    "set (db_requests d') = (if inserted then insert r (set (db_requests d)) else set (db_requests d))"
    "inserted \<longleftrightarrow> active_request_of d u (t_id t) = None"
    "inserted \<Longrightarrow> r = granted_request i u n now t"
    using run by (auto simp: e_def split: if_splits)
  show "active_request_of d' u (t_id t) = Some r"
  proof -
    have "active_request_of d' u (t_id t) = active_request_of e u (t_id t)"
      using run active_request_of_frame [of d' e] by simp
    also have "\<dots> = Some r"
      using run by (auto simp: e_def active_request_of_def intro: find_append_None split: if_splits)
    finally show ?thesis .
  qed
  show "ledger_bytes d' = ledger_bytes d + (if missing then t_total_size t else 0)"
    using run apply_bytes(2) [OF mem(2,3)] by (simp add: e_def ledger_bytes_def)
  show "v \<noteq> u \<Longrightarrow> usage_bytes d' v = usage_bytes d v"
    using run apply_bytes(1) [OF mem(2,3), of inserted missing "t_total_size t" now v]
    by (simp add: e_def usage_bytes_def)
qed

section \<open>The transaction\<close>

lemma admit_cases:
  assumes "admit_to_torrent i u now policy disk n created t d = Inr (d', res)"
  obtains d1 t' d3 pr where
    "adopt_torrent now t d = Inr (d1, t')"
    "prepare_storage_accounting u (t_info_hash t') (t_total_size t') policy disk now
       (Some (created \<or> t_state t = PURGED)) (end_due_right u now t' d1) = Inr (d3, pr)"
    "acquire_right i u n now (created \<or> t_state t = PURGED) t' d3
       = Inr (d', mr_request res, mr_request_created res)"
    "mr_managed_torrent res = t'" "mr_managed_torrent_created res = created"
    "mr_managed_torrent_reactivated res \<longleftrightarrow> t_state t = PURGED" "mr_storage_pressure res = pr"
  using assms by (auto simp: admit_to_torrent_def Let_def rbind_Inr_iff)

text \<open>The requests that adoption and the end of a due right leave, for every other user.\<close>

definition foreign_requests :: "uuid \<Rightarrow> db \<Rightarrow> torrent_request set" where
  "foreign_requests u d = {r \<in> set (db_requests d). r_user_id r \<noteq> u}"

lemma end_due_right_foreign:
  assumes "admission_state missing t d"
  shows "foreign_requests u (end_due_right u now t d) = foreign_requests u d"
    "ledger_bytes (end_due_right u now t d) = ledger_bytes d"
    "v \<noteq> u \<Longrightarrow> usage_bytes (end_due_right u now t d) v = usage_bytes d v"
proof -
  have dist: "distinct (map r_id (db_requests d))"
    using assms by (simp add: admission_state_def tables_ok_def requests_unique_def)
  have "foreign_requests u (end_due_right u now t d) = foreign_requests u d
      \<and> ledger_bytes (end_due_right u now t d) = ledger_bytes d
      \<and> (v \<noteq> u \<longrightarrow> usage_bytes (end_due_right u now t d) v = usage_bytes d v)"
  proof (cases "active_request_of d u (t_id t)")
    case (Some r)
    note r = active_request_of_SomeD [OF Some]
    have "foreign_requests u (expire_request now (t_total_size t) d r) = foreign_requests u d"
    proof -
      have "x = r" if "x \<in> set (db_requests d)" "r_id x = r_id r" for x
        using dist that r(1) by (auto simp: distinct_map inj_on_def)
      then show ?thesis
        using expire_request_others [OF dist r(1), of _ now "t_total_size t"] r(2)
        by (auto simp: foreign_requests_def expired_request_def)
    qed
    moreover have "usage_bytes (expire_request now (t_total_size t) d r) v = usage_bytes d v" if "v \<noteq> u"
      using that r(2) by (simp add: expire_request_def release_usage_def usage_bytes_def find_row_update_row)
    moreover have "ledger_bytes (expire_request now (t_total_size t) d r) = ledger_bytes d"
      by (simp add: expire_request_def ledger_bytes_def)
    ultimately show ?thesis using Some by (simp add: end_due_right_def)
  qed (simp add: end_due_right_def)
  then show "foreign_requests u (end_due_right u now t d) = foreign_requests u d"
    "ledger_bytes (end_due_right u now t d) = ledger_bytes d"
    "v \<noteq> u \<Longrightarrow> usage_bytes (end_due_right u now t d) v = usage_bytes d v"
    by blast+
qed

text \<open>
  One statement for the rest of the transaction, from the row the upsert gave: either it was just
  created (and the admission state holds of it), or it was there before.
\<close>

lemma admitted_ok:
  assumes "admission_state missing t d" "missing \<Longrightarrow> \<not> has_active_request d (t_id t)"
    and "prepare_storage_accounting u (t_info_hash t) (t_total_size t) policy disk now (Some missing)
           (end_due_right u now t d) = Inr (d3, pr)"
    and "acquire_right i u n now missing t d3 = Inr (d', r, inserted)"
  shows "lifecycle_ok d'" "db_torrents d' = db_torrents d" "db_jobs d' = db_jobs d"
    "active_request_of d' u (t_id t) = Some r" "t \<in> set (db_torrents d')"
    "t_purge_after t = None" "\<not> purge_state (t_state t)"
    "foreign_requests u d' = foreign_requests u d"
    "ledger_bytes d' = ledger_bytes d + (if missing then t_total_size t else 0)"
    "v \<noteq> u \<Longrightarrow> usage_bytes d' v = usage_bytes d v"
proof -
  let ?d2 = "end_due_right u now t d"
  have st2: "admission_state missing t ?d2" by (rule end_due_right_ok [OF assms(1,2)])
  note st3 = prepare_admission [OF st2 assms(3)]
  note f = prepare_frame [OF assms(3)]
  have free: "\<not> has_active_request d3 (t_id t)" if missing
  proof -
    have "?d2 = d"
      using no_right_while_missing [OF assms(2) [OF that]] by (simp add: end_due_right_def)
    then show ?thesis using assms(2) [OF that] has_active_request_cong [OF f(2)] by simp
  qed
  note a = acquire_right_ok [OF st3 f(10,9) assms(4) free]
  note e = end_due_right_foreign [OF assms(1)]
  show "lifecycle_ok d'" by (rule a(1))
  show "db_torrents d' = db_torrents d" "db_jobs d' = db_jobs d" using a(2,3) f(1,4) by simp_all
  show "active_request_of d' u (t_id t) = Some r" by (rule a(5))
  show "t \<in> set (db_torrents d')" "t_purge_after t = None" "\<not> purge_state (t_state t)"
    using assms(1) a(2) f(1) by (simp_all add: admission_state_def)
  have "r_user_id r = u" by (rule active_request_of_SomeD(2) [OF a(5)])
  then have "foreign_requests u d' = foreign_requests u ?d2"
    using a(4) f(2) by (auto simp: foreign_requests_def)
  then show "foreign_requests u d' = foreign_requests u d" using e(1) by simp
  show "ledger_bytes d' = ledger_bytes d + (if missing then t_total_size t else 0)"
    using a(8) f(8) e(2) by simp
  show "v \<noteq> u \<Longrightarrow> usage_bytes d' v = usage_bytes d v" using a(9) f(7) e(3) by simp
qed

lemma create_cases:
  assumes "create_or_get_torrent_request mi sk i u h nm sz now policy disk n d = Inr (d', res)"
  obtains d1 created t where
    "validate_metadata h nm sz = Inr ()" "user_enabled_row u d"
    "insert_managed_torrent (new_managed_torrent mi sk h nm sz (as_utc now)) d = (d1, created)"
    "find_row t_info_hash h (db_torrents d1) = Some t" "t_name t = nm" "t_total_size t = sz"
    "t_state t \<noteq> PURGING" "admit_to_torrent i u (as_utc now) policy disk n created t d1 = Inr (d', res)"
proof -
  obtain d1 created where ins:
    "insert_managed_torrent (new_managed_torrent mi sk h nm sz (as_utc now)) d = (d1, created)"
    by fastforce
  show thesis
    using assms ins
    by (auto simp: create_or_get_torrent_request_def rbind_Inr_iff require_Inr_iff split: option.splits
        intro: that)
qed

text \<open>
  The transaction from the row of the upsert on: \<open>t\<close> is the row the database ends with, \<open>d1\<close> the
  database in which it was adopted.
\<close>

definition fresh_managed_id :: "uuid \<Rightarrow> db \<Rightarrow> bool" where
  "fresh_managed_id i d \<longleftrightarrow>
     i \<notin> set (map t_id (db_torrents d))
     \<and> list_all (\<lambda>j. key_generation i (j_idempotency_key j) = None) (db_jobs d)"

lemma create_run:
  assumes "lifecycle_ok d" "keys_ok d" "fresh_managed_id mi d"
    and "create_or_get_torrent_request mi sk i u h nm sz now policy disk n d = Inr (d', res)"
  obtains d1 t d3 pr missing where "missing \<longleftrightarrow> mr_managed_torrent_created res \<or> mr_managed_torrent_reactivated res"
    "admission_state missing t d1" "missing \<Longrightarrow> \<not> has_active_request d1 (t_id t)"
    "prepare_storage_accounting u (t_info_hash t) (t_total_size t) policy disk (as_utc now) (Some missing)
       (end_due_right u (as_utc now) t d1) = Inr (d3, pr)"
    "acquire_right i u n (as_utc now) missing t d3 = Inr (d', mr_request res, mr_request_created res)"
    "t = mr_managed_torrent res" "t_info_hash t = h" "t_name t = nm"
    "t_total_size t = sz" "keys_ok d1" "db_requests d1 = db_requests d" "db_users d1 = db_users d"
    "map j_id (db_jobs d1) = map j_id (db_jobs d)"
    "ledger_bytes d1 = ledger_bytes d" "\<And>v. usage_bytes d1 v = usage_bytes d v"
proof -
  from assms(4) obtain d0 created t0 where c:
    "validate_metadata h nm sz = Inr ()"
    "insert_managed_torrent (new_managed_torrent mi sk h nm sz (as_utc now)) d = (d0, created)"
    "find_row t_info_hash h (db_torrents d0) = Some t0" "t_name t0 = nm" "t_total_size t0 = sz"
    "t_state t0 \<noteq> PURGING" "admit_to_torrent i u (as_utc now) policy disk n created t0 d0 = Inr (d', res)"
    by (rule create_cases)
  from c(7) obtain d1 t d3 pr where a: "adopt_torrent (as_utc now) t0 d0 = Inr (d1, t)"
    "prepare_storage_accounting u (t_info_hash t) (t_total_size t) policy disk (as_utc now)
       (Some (created \<or> t_state t0 = PURGED)) (end_due_right u (as_utc now) t d1) = Inr (d3, pr)"
    "acquire_right i u n (as_utc now) (created \<or> t_state t0 = PURGED) t d3
       = Inr (d', mr_request res, mr_request_created res)"
    "mr_managed_torrent res = t" "mr_managed_torrent_created res = created"
    "mr_managed_torrent_reactivated res \<longleftrightarrow> t_state t0 = PURGED"
    by (rule admit_cases)
  have sys: "system_ok d" "tables_ok d" using assms(1) by (simp_all add: lifecycle_ok_def system_ok_def)
  have hash: "t_info_hash t0 = h" "t0 \<in> set (db_torrents d0)" using find_row_SomeD [OF c(3)] by simp_all
  show thesis
  proof (cases created)
    case True
    let ?t = "new_managed_torrent mi sk h nm sz (as_utc now)"
    have d0: "d0 = d\<lparr>db_torrents := db_torrents d @ [?t]\<rparr>"
      and new: "h \<notin> set (map t_info_hash (db_torrents d))"
      using c(2) True by (auto simp: insert_managed_torrent_def new_managed_torrent_def split: if_splits)
    have t0: "t0 = ?t"
      using c(3) new find_row_None_iff [of t_info_hash h "db_torrents d"]
      by (simp add: d0 find_row_append new_managed_torrent_def)
    have same: "d1 = d0" "t = t0"
      using a(1) by (simp_all add: adopt_torrent_def t0 new_managed_torrent_def)
    have st: "admission_state True t0 d0"
      using admission_state_new [OF assms(1) c(1), of mi sk "as_utc now" d0] c(2) True t0 by simp
    have id: "t_id t0 = mi" by (simp add: t0 new_managed_torrent_def)
    have free: "\<not> has_active_request d0 (t_id t0)"
      using no_request_of_new_torrent [OF sys(2)] assms(3) has_active_request_cong [of d0 d]
      by (simp add: id d0 fresh_managed_id_def)
    have keys: "keys_ok d0"
      using assms(2,3) by (auto simp: fresh_managed_id_def keys_ok_def d0 list_all_iff key_behind_def new_managed_torrent_def)
    show thesis
      by (rule that [of True t d1 d3 pr])
        (use a st free keys True same hash c in \<open>simp_all add: d0 ledger_bytes_def usage_bytes_def\<close>)
  next
    case False
    have d0: "d0 = d" using c(2) False by (auto simp: insert_managed_torrent_def split: if_splits)
    note ad = adopt_torrent_ok [OF assms(1,2) hash(2) [unfolded d0] c(6) a(1) [unfolded d0]]
    have free: "\<not> has_active_request d1 (t_id t)" if "t_state t0 = PURGED"
    proof -
      have "\<not> has_active_request d (t_id t0)"
        using active_request_not_purged [OF sys(1) hash(2) [unfolded d0]] that by auto
      then show ?thesis using ad has_active_request_cong [of d1 d] by (simp add: same_torrent_def)
    qed
    from a(1) [unfolded d0] c(6)
    have led: "db_ledger d1 = db_ledger d \<and> db_usages d1 = db_usages d \<and> t_name t = t_name t0"
      by (cases rule: adopt_torrent_cases)
        (simp_all add: reactivated_torrent_def restored_torrent_def revoked_torrent_def)
    show thesis
      by (rule that [of "t_state t0 = PURGED" t d1 d3 pr])
        (use a ad free False hash c led in \<open>simp_all add: d0 same_torrent_def ledger_bytes_def usage_bytes_def\<close>)
  qed
qed

text \<open>
  What the transaction leaves alone, whatever the database holds: the rows of other torrents, and
  the jobs apart from the cancellation of deferred purges.
\<close>

lemma acquire_frame:
  assumes "acquire_right i u n now missing t d = Inr (d', r, inserted)"
  shows "db_torrents d' = db_torrents d" "db_jobs d' = db_jobs d"
  using assms
  by (auto simp: acquire_right_def insert_torrent_request_def put_request_def Let_def split: option.splits if_splits)

definition same_jobs_but_purges :: "db \<Rightarrow> db \<Rightarrow> bool" where
  "same_jobs_but_purges d d' \<longleftrightarrow> map j_id (db_jobs d') = map j_id (db_jobs d)
     \<and> filter (\<lambda>j. j_job_type j \<noteq> PURGE_TORRENT_JOB) (db_jobs d')
         = filter (\<lambda>j. j_job_type j \<noteq> PURGE_TORRENT_JOB) (db_jobs d)"

definition same_other_torrents :: "uuid \<Rightarrow> db \<Rightarrow> db \<Rightarrow> bool" where
  "same_other_torrents k d d' \<longleftrightarrow>
     filter (\<lambda>x. t_id x \<noteq> k) (db_torrents d') = filter (\<lambda>x. t_id x \<noteq> k) (db_torrents d)"

lemma adopt_frames:
  assumes "adopt_torrent now t d = Inr (d', t')" "t_state t \<noteq> PURGING"
  shows "same_jobs_but_purges d d' \<and> same_other_torrents (t_id t) d d' \<and> t_id t' = t_id t"
proof -
  have jobs: "same_jobs_but_purges e (cancel_deferred_purge_jobs k now e)" for e k
    unfolding same_jobs_but_purges_def cancel_deferred_frame cancel_deferred_purge_jobs_def
    by (auto simp: deferred_purge_active_def intro!: filter_update_where table_simps)
  have row: "same_other_torrents (t_id x) d (put_torrent x d) \<and> db_jobs (put_torrent x d) = db_jobs d" for x
    by (simp add: same_other_torrents_def put_torrent_def filter_update_row)
  have id: "t_id (reactivated_torrent now t) = t_id t" "t_id (restored_torrent now t) = t_id t"
    "t_id (revoked_torrent now t) = t_id t"
    by (simp_all add: reactivated_torrent_def restored_torrent_def revoked_torrent_def)
  from assms show ?thesis
  proof (cases rule: adopt_torrent_cases)
    case reactivated
    then show ?thesis using row [of t'] id by (simp add: same_jobs_but_purges_def)
  next
    case restored
    then show ?thesis using row [of t'] id jobs [of "put_torrent t' d"]
      by (simp add: same_jobs_but_purges_def same_other_torrents_def)
  next
    case revoked
    then show ?thesis using row [of t'] id jobs [of "put_torrent t' d"]
      by (simp add: same_jobs_but_purges_def same_other_torrents_def)
  qed (simp add: same_jobs_but_purges_def same_other_torrents_def)
qed

lemma create_frames:
  assumes "create_or_get_torrent_request mi sk i u h nm sz now policy disk n d = Inr (d', res)"
  shows "same_jobs_but_purges d d' \<and> same_other_torrents (t_id (mr_managed_torrent res)) d d'"
proof -
  from assms obtain d0 created t0 where c:
    "insert_managed_torrent (new_managed_torrent mi sk h nm sz (as_utc now)) d = (d0, created)"
    "find_row t_info_hash h (db_torrents d0) = Some t0" "t_state t0 \<noteq> PURGING"
    "admit_to_torrent i u (as_utc now) policy disk n created t0 d0 = Inr (d', res)"
    by (rule create_cases)
  from c(4) obtain d1 t d3 pr where a: "adopt_torrent (as_utc now) t0 d0 = Inr (d1, t)"
    "prepare_storage_accounting u (t_info_hash t) (t_total_size t) policy disk (as_utc now)
       (Some (created \<or> t_state t0 = PURGED)) (end_due_right u (as_utc now) t d1) = Inr (d3, pr)"
    "acquire_right i u n (as_utc now) (created \<or> t_state t0 = PURGED) t d3
       = Inr (d', mr_request res, mr_request_created res)" "mr_managed_torrent res = t"
    by (rule admit_cases)
  have "same_other_torrents (t_id t0) d d0 \<and> db_jobs d0 = db_jobs d"
  proof (cases "d0 = d")
    case False
    let ?t = "new_managed_torrent mi sk h nm sz (as_utc now)"
    have d0: "d0 = d\<lparr>db_torrents := db_torrents d @ [?t]\<rparr>"
      and new: "h \<notin> set (map t_info_hash (db_torrents d))"
      using c(1) False by (auto simp: insert_managed_torrent_def new_managed_torrent_def split: if_splits)
    have "t0 = ?t"
      using c(2) new find_row_None_iff [of t_info_hash h "db_torrents d"]
      by (simp add: d0 find_row_append new_managed_torrent_def)
    then show ?thesis by (simp add: d0 same_other_torrents_def)
  qed (simp add: same_other_torrents_def)
  then show ?thesis
    using adopt_frames [OF a(1) c(3)] prepare_frame(1,4) [OF a(2)] acquire_frame [OF a(3)] a(4)
    by (simp add: same_jobs_but_purges_def same_other_torrents_def)
qed

text \<open>
  The torrent of \<open>ex_shared_db\<close> with its purge scheduled, after both users left: a third party asks
  for it during the grace period.
\<close>

definition ex_orphan_db :: db where
  "ex_orphan_db = ex_shared_db\<lparr>
     db_usages := [],
     db_torrents := map (\<lambda>t. t\<lparr>t_purge_after := Some 500\<rparr>) (db_torrents ex_shared_db),
     db_requests := map (\<lambda>r. r\<lparr>r_state := R_CANCELLED\<rparr>) (db_requests ex_shared_db),
     db_jobs := map (\<lambda>j. j\<lparr>j_job_type := PURGE_TORRENT_JOB\<rparr>) (db_jobs ex_shared_db)\<rparr>"

definition ex_hash :: string where
  "ex_hash = replicate 40 (CHR ''a'')"

lemma ex_orphan_db_ok: "lifecycle_ok ex_orphan_db" "keys_ok ex_orphan_db" "fresh_managed_id 80 ex_orphan_db"
proof -
  show "lifecycle_ok ex_orphan_db" by code_simp
  show "keys_ok ex_orphan_db"
    by (simp add: keys_ok_def key_behind_def ex_orphan_db_def ex_shared_db_def key_generation_purge_key
        ex_torrent_def)
  show "fresh_managed_id 80 ex_orphan_db"
    by (simp add: fresh_managed_id_def ex_orphan_db_def ex_shared_db_def key_generation_purge_key ex_torrent_def)
qed

abbreviation ex_admission :: "app_error + db \<times> managed_torrent_request_result" where
  "ex_admission \<equiv> create_or_get_torrent_request 80 81 82 ex_user ex_hash ''n'' 60 (Aware 200)
     None None 48 ex_orphan_db"

lemma ex_admission_run:
  "case ex_admission of
     Inl e \<Rightarrow> False
   | Inr (d', res) \<Rightarrow> mr_request_created res \<and> \<not> mr_managed_torrent_created res
       \<and> \<not> mr_managed_torrent_reactivated res \<and> t_id (mr_managed_torrent res) = 40
       \<and> \<not> due_request 300 (mr_request res)"
  by code_simp

lemma ex_admission_result:
  obtains d' res where "ex_admission = Inr (d', res)" "t_id (mr_managed_torrent res) = 40"
    "\<not> due_request 300 (mr_request res)" "\<not> mr_managed_torrent_created res"
    "\<not> mr_managed_torrent_reactivated res"
  using ex_admission_run by (auto split: sum.splits)

text \<open>
  A request that is admitted keeps every invariant: the constraints and unique indexes of the
  tables, the agreement of the user and ledger counters with the rows, that content scheduled for
  deletion is held by nobody, that content nobody holds is scheduled, and that purge keys are fresh.\<close>

theorem create_or_get_torrent_request_keeps_invariants:
  assumes "lifecycle_ok d" "keys_ok d" "fresh_managed_id managed_id d"
    and "create_or_get_torrent_request managed_id storage_key request_id user_id info_hash name
           total_size now policy disk n d = Inr (d', res)"
  shows "lifecycle_ok d' \<and> keys_ok d'"
proof -
  from assms obtain d1 t d3 pr missing where c:
    "admission_state missing t d1" "missing \<Longrightarrow> \<not> has_active_request d1 (t_id t)"
    "prepare_storage_accounting user_id (t_info_hash t) (t_total_size t) policy disk (as_utc now) (Some missing)
       (end_due_right user_id (as_utc now) t d1) = Inr (d3, pr)"
    "acquire_right request_id user_id n (as_utc now) missing t d3
       = Inr (d', mr_request res, mr_request_created res)" "keys_ok d1"
    by (rule create_run) blast
  note a = admitted_ok [OF c(1-4)]
  have "keys_ok d'" using c(5) keys_ok_cong [of d' d1] a(2,3) by simp
  then show ?thesis using a(1) by blast
qed

theorem create_or_get_torrent_request_keeps_invariants_witness:
  "case ex_admission of Inl e \<Rightarrow> False | Inr (d', res) \<Rightarrow> lifecycle_ok d' \<and> keys_ok d'"
proof -
  obtain d' res where run: "ex_admission = Inr (d', res)" by (rule ex_admission_result)
  show ?thesis using create_or_get_torrent_request_keeps_invariants [OF ex_orphan_db_ok run] run by simp
qed

definition active_rights :: "uuid \<Rightarrow> uuid \<Rightarrow> db \<Rightarrow> torrent_request list" where
  "active_rights u k d =
     filter (\<lambda>r. r_user_id r = u \<and> r_managed_torrent_id r = k \<and> active_request_state (r_state r))
       (db_requests d)"

lemma active_rights_single:
  assumes "system_ok d" "active_request_of d u k = Some r"
  shows "active_rights u k d = [r]"
proof -
  note r = active_request_of_SomeD [OF assms(2)]
  have dist: "distinct (map request_owner (active_requests (db_requests d)))"
    using assms(1) by (simp add: system_ok_def tables_ok_def requests_unique_def)
  have "r \<in> set (active_requests (db_requests d))" using r by (simp add: active_requests_def)
  from filter_key_unique [OF dist this]
  have "filter (\<lambda>x. request_owner x = (u, k)) (active_requests (db_requests d)) = [r]"
    using r by (simp add: request_owner_def)
  then show ?thesis
    by (simp add: active_rights_def active_requests_def request_owner_def conj_ac cong: filter_cong)
qed

text \<open>
  C35: After an admission to a consistent database the requester holds exactly one active right on the torrent of that
  infohash, the one returned; the torrent has the infohash, name and size presented, is stored, and
  is neither scheduled for deletion nor being deleted; the ledger grew by the size exactly when the
  content was new or reactivated; and the rights and byte counters of other users and the rows of other
  torrents are unchanged.\<close>

theorem create_or_get_torrent_request_effect:
  assumes "lifecycle_ok d" "keys_ok d" "fresh_managed_id managed_id d"
    and "create_or_get_torrent_request managed_id storage_key request_id user_id info_hash name
           total_size now policy disk n d = Inr (d', res)"
  shows "active_rights user_id (t_id (mr_managed_torrent res)) d' = [mr_request res]
    \<and> mr_managed_torrent res \<in> set (db_torrents d')
    \<and> t_info_hash (mr_managed_torrent res) = info_hash \<and> t_name (mr_managed_torrent res) = name
    \<and> t_total_size (mr_managed_torrent res) = total_size
    \<and> t_purge_after (mr_managed_torrent res) = None \<and> \<not> purge_state (t_state (mr_managed_torrent res))
    \<and> ledger_bytes d' = ledger_bytes d
        + (if mr_managed_torrent_created res \<or> mr_managed_torrent_reactivated res then total_size else 0)
    \<and> foreign_requests user_id d' = foreign_requests user_id d
    \<and> (v = user_id \<or> usage_bytes d' v = usage_bytes d v)
    \<and> filter (\<lambda>x. t_id x \<noteq> t_id (mr_managed_torrent res)) (db_torrents d')
        = filter (\<lambda>x. t_id x \<noteq> t_id (mr_managed_torrent res)) (db_torrents d)"
proof -
  from assms obtain d1 t d3 pr missing where c:
    "missing \<longleftrightarrow> mr_managed_torrent_created res \<or> mr_managed_torrent_reactivated res"
    "admission_state missing t d1" "missing \<Longrightarrow> \<not> has_active_request d1 (t_id t)"
    "prepare_storage_accounting user_id (t_info_hash t) (t_total_size t) policy disk (as_utc now) (Some missing)
       (end_due_right user_id (as_utc now) t d1) = Inr (d3, pr)"
    "acquire_right request_id user_id n (as_utc now) missing t d3
       = Inr (d', mr_request res, mr_request_created res)"
    "t = mr_managed_torrent res" "t_info_hash t = info_hash" "t_total_size t = total_size"
    "db_requests d1 = db_requests d" "ledger_bytes d1 = ledger_bytes d" "t_name t = name"
    "\<And>v. usage_bytes d1 v = usage_bytes d v"
    by (rule create_run) blast
  note a = admitted_ok [OF c(2-5)]
  have "system_ok d'" using a(1) by (simp add: lifecycle_ok_def)
  from active_rights_single [OF this a(4)]
  have "active_rights user_id (t_id (mr_managed_torrent res)) d' = [mr_request res]" using c(6) by simp
  moreover have "foreign_requests user_id d1 = foreign_requests user_id d"
    using c(9) by (simp add: foreign_requests_def)
  moreover have "same_other_torrents (t_id (mr_managed_torrent res)) d d'"
    using create_frames [OF assms(4)] by blast
  ultimately show ?thesis
    using a(5-10) c(1,6-8,10-12) by (cases "v = user_id") (simp_all add: same_other_torrents_def)
qed

theorem create_or_get_torrent_request_effect_witness:
  "case ex_admission of
     Inl e \<Rightarrow> False
   | Inr (d', res) \<Rightarrow> active_rights ex_user 40 d' = [mr_request res] \<and> ledger_bytes d' = 60"
proof -
  obtain d' res where run: "ex_admission = Inr (d', res)" "t_id (mr_managed_torrent res) = 40"
    "\<not> mr_managed_torrent_created res" "\<not> mr_managed_torrent_reactivated res"
    by (rule ex_admission_result)
  have "ledger_bytes ex_orphan_db = 60" by code_simp
  then show ?thesis
    using create_or_get_torrent_request_effect [OF ex_orphan_db_ok run(1)] run by simp
qed

section \<open>Asking twice\<close>

lemma usage_row_id: "u \<in> us_user_id ` set (db_usages d) \<Longrightarrow> usage_row u now d = d"
  by (auto simp: usage_row_def find_row_None_iff split: option.splits)

lemma prepare_existing:
  assumes "holds_right d u h" "u \<in> us_user_id ` set (db_usages d)"
    and "\<And>s. disk = Some s \<Longrightarrow> disk_post_init s = Inr s \<and> policy \<noteq> None"
  shows "\<exists>l pr. prepare_storage_accounting u h n policy disk now (Some False) d
     = Inr (d\<lparr>db_ledger := Some l\<rparr>, pr) \<and> l_managed_bytes l = ledger_bytes d"
proof -
  obtain d2 l where lock: "lock_storage_ledger now d = (d2, l)" by fastforce
  note lk = lock_storage_ledger_cases [OF lock]
  have hr: "(case find_row t_info_hash h (db_torrents d2) of None \<Rightarrow> False
      | Some t \<Rightarrow> active_request_of d2 u (t_id t) \<noteq> None) = True"
  proof -
    have "db_torrents d2 = db_torrents d" "active_request_of d2 = active_request_of d"
      using lk active_request_of_frame [of d2 d] by simp_all
    then show ?thesis using assms(1) by (simp only: holds_right_def)
  qed
  obtain l' where obs: "observe_disk policy disk n False now l = Inr l'"
  proof (cases disk)
    case (Some s)
    with assms(3) [OF Some] obtain p where "policy = Some p" "disk_post_init s = Inr s" by auto
    then show ?thesis
      using Some that by (auto simp: observe_disk_def Let_def disk_post_init_iff require_policy_def
          disk_post_init_def split: if_splits)
  qed (use that in \<open>simp add: observe_disk_def\<close>)
  have "(case policy of None \<Rightarrow> Inr ()
      | Some p \<Rightarrow> admission_checks p disk n False True (usage_bytes d2 u) l') = Inr ()"
    by (auto simp: admission_checks_def Let_def require_def split: option.splits)
  then have "prepare_storage_accounting u h n policy disk now (Some False) d
      = Inr (d2\<lparr>db_ledger := Some l'\<rparr>, l_pressure l')"
    unfolding prepare_storage_accounting_def Let_def usage_row_id [OF assms(2)] lock split_conv hr
      content_missing_def option.case obs rbind.simps by simp
  then show ?thesis using lk observe_disk_managed [OF obs] by (intro exI [of _ l']) simp
qed

lemma prepare_policy:
  assumes "prepare_storage_accounting u h n policy (Some s) now given d = Inr (d', pr)"
  shows "policy \<noteq> None"
proof -
  from assms obtain l l' where "observe_disk policy (Some s) n (admitted_missing d h given) now l = Inr l'"
    by (rule prepare_cases)
  then show ?thesis by (auto simp: observe_disk_def Let_def rbind_Inr_iff require_policy_def split: option.splits)
qed

lemma acquire_right_usages:
  assumes "acquire_right i u n now missing t d = Inr (d', r, inserted)"
  shows "map us_user_id (db_usages d') = map us_user_id (db_usages d)" "db_users d' = db_users d"
proof -
  have "map us_user_id (db_usages d') = map us_user_id (db_usages d) \<and> db_users d' = db_users d"
  proof (cases "active_request_of d u (t_id t)")
    case None
    have fresh: "i \<notin> set (map r_id (db_requests d))"
      using assms acquire_right_clash [OF None, of i n now missing] by auto
    have "d' = apply_storage_accounting u True missing (t_total_size t) now
              (d\<lparr>db_requests := db_requests d @ [granted_request i u n now t]\<rparr>)"
      using assms acquire_right_new [OF None fresh, of n now missing] by auto
    then show ?thesis by (simp add: apply_storage_accounting_def Let_def add_usage_def update_row_def)
  next
    case (Some x)
    have "d' = apply_storage_accounting u False missing (t_total_size t) now d"
      using assms acquire_right_existing [OF Some, of i n now missing] by auto
    then show ?thesis by (simp add: apply_storage_accounting_def Let_def)
  qed
  then show "map us_user_id (db_usages d') = map us_user_id (db_usages d)" "db_users d' = db_users d"
    by blast+
qed

lemma end_due_right_users [simp]: "db_users (end_due_right u now t d) = db_users d"
  by (simp add: end_due_right_def expire_request_def split: option.splits)

text \<open>A consistent database in which the requester already holds a live right.\<close>

lemma create_again:
  assumes "lifecycle_ok d" "t \<in> set (db_torrents d)" "t_purge_after t = None" "\<not> purge_state (t_state t)"
    and "active_request_of d u (t_id t) = Some r" "\<not> due_request now r"
    and "u \<in> us_user_id ` set (db_usages d)" "user_enabled_row u d"
    and "validate_metadata (t_info_hash t) (t_name t) (t_total_size t) = Inr ()" "1 \<le> n" "n \<le> 2160"
    and "\<And>s. disk = Some s \<Longrightarrow> disk_post_init s = Inr s \<and> policy \<noteq> None"
  shows "\<exists>l res. create_or_get_torrent_request mi sk i u (t_info_hash t) (t_name t) (t_total_size t)
       (Aware now) policy disk n d = Inr (d\<lparr>db_ledger := Some l\<rparr>, res)
     \<and> l_managed_bytes l = ledger_bytes d \<and> mr_request res = r \<and> mr_managed_torrent res = t
     \<and> \<not> mr_request_created res \<and> \<not> mr_managed_torrent_created res
     \<and> \<not> mr_managed_torrent_reactivated res"
proof -
  have hashes: "distinct (map t_info_hash (db_torrents d))"
    using assms(1) by (simp add: lifecycle_ok_def system_ok_def tables_ok_def torrents_unique_def)
  have row: "find_row t_info_hash (t_info_hash t) (db_torrents d) = Some t"
    using find_row_Some_iff [OF hashes] assms(2) by blast
  have ins: "insert_managed_torrent (new_managed_torrent mi sk (t_info_hash t) (t_name t) (t_total_size t) now) d
      = (d, False)"
    using assms(2) by (auto simp: insert_managed_torrent_def new_managed_torrent_def)
  have st: "t_state t \<noteq> PURGED" "t_state t \<noteq> PURGE_PENDING" "t_state t \<noteq> PURGING" using assms(4) by auto
  have adopt: "adopt_torrent now t d = Inr (d, t)" using st assms(3) by (simp add: adopt_torrent_def)
  have live: "end_due_right u now t d = d" using assms(5,6) by (simp add: end_due_right_def)
  have "holds_right d u (t_info_hash t)" using row assms(5) by (simp add: holds_right_def)
  then obtain l pr where prep: "prepare_storage_accounting u (t_info_hash t) (t_total_size t) policy disk now
      (Some False) d = Inr (d\<lparr>db_ledger := Some l\<rparr>, pr)" "l_managed_bytes l = ledger_bytes d"
    using prepare_existing [OF _ assms(7,12)] by blast
  have "active_request_of (d\<lparr>db_ledger := Some l\<rparr>) u (t_id t) = Some r"
    using assms(5) by (simp add: active_request_of_def)
  from acquire_right_existing [OF this, of i n now False]
  have "acquire_right i u n now False t (d\<lparr>db_ledger := Some l\<rparr>) = Inr (d\<lparr>db_ledger := Some l\<rparr>, r, False)"
    by (simp add: apply_storage_accounting_def)
  then show ?thesis
    using st prep by (intro exI [of _ l]) (simp add: create_or_get_torrent_request_def assms(8-11) ins row
        require_def admit_to_torrent_def adopt live)
qed

text \<open>
  C36: Asking again is idempotent. A user who was admitted and asks again for the same torrent, at any
  later time before the right ends and with any fresh identifiers, is served the very same right:
  nothing is created, no row of torrents, requests, usage or jobs changes, and the ledger is not
  charged a second time.\<close>

theorem create_or_get_torrent_request_idempotent:
  assumes "lifecycle_ok d" "keys_ok d" "fresh_managed_id managed_id d"
    and first: "create_or_get_torrent_request managed_id storage_key request_id user_id info_hash name
           total_size now policy disk n d = Inr (d1, res)"
    and "\<And>s. disk = Some s \<Longrightarrow> disk_post_init s = Inr s"
    and "\<not> due_request later (mr_request res)"
  shows "case create_or_get_torrent_request managed_id2 storage_key2 request_id2 user_id info_hash name
           total_size (Aware later) policy disk n d1 of
      Inl e \<Rightarrow> False
    | Inr (d2, again) \<Rightarrow> mr_request again = mr_request res \<and> mr_managed_torrent again = mr_managed_torrent res
        \<and> \<not> mr_request_created again \<and> \<not> mr_managed_torrent_created again
        \<and> db_torrents d2 = db_torrents d1 \<and> db_requests d2 = db_requests d1 \<and> db_jobs d2 = db_jobs d1
        \<and> db_usages d2 = db_usages d1 \<and> ledger_bytes d2 = ledger_bytes d1"
proof -
  from first obtain hrs: "1 \<le> n" "n \<le> 2160" and en: "user_enabled_row user_id d"
    and valid: "validate_metadata info_hash name total_size = Inr ()"
    by (auto simp: create_or_get_torrent_request_def rbind_Inr_iff require_Inr_iff)
  from assms(1-4) obtain d0 t d3 pr missing where c:
    "admission_state missing t d0" "missing \<Longrightarrow> \<not> has_active_request d0 (t_id t)"
    "prepare_storage_accounting user_id (t_info_hash t) (t_total_size t) policy disk (as_utc now) (Some missing)
       (end_due_right user_id (as_utc now) t d0) = Inr (d3, pr)"
    "acquire_right request_id user_id n (as_utc now) missing t d3
       = Inr (d1, mr_request res, mr_request_created res)"
    "t = mr_managed_torrent res" "t_info_hash t = info_hash" "t_name t = name" "t_total_size t = total_size"
    "db_users d0 = db_users d"
    by (rule create_run) blast
  note a = admitted_ok [OF c(1-4)]
  note f = prepare_frame [OF c(3)]
  note us = acquire_right_usages [OF c(4)]
  have "user_id \<in> us_user_id ` set (db_usages d1)"
    using f(10) us(1) by (metis list.set_map)
  moreover have "user_enabled_row user_id d1"
    using en us(2) f(3) c(9) by (simp add: user_enabled_row_def)
  moreover have "disk_post_init s = Inr s \<and> policy \<noteq> None" if "disk = Some s" for s
    using assms(5) [OF that] prepare_policy [of user_id "t_info_hash t" "t_total_size t" policy s] c(3) that
    by blast
  ultimately obtain l again where "create_or_get_torrent_request managed_id2 storage_key2 request_id2 user_id
      (t_info_hash t) (t_name t) (t_total_size t) (Aware later) policy disk n d1
      = Inr (d1\<lparr>db_ledger := Some l\<rparr>, again)"
    "l_managed_bytes l = ledger_bytes d1" "mr_request again = mr_request res" "mr_managed_torrent again = t"
    "\<not> mr_request_created again" "\<not> mr_managed_torrent_created again"
    using create_again [OF a(1,5-7,4) assms(6) _ _ valid [folded c(6-8)] hrs] by metis
  then show ?thesis using c(5-8) by (simp add: ledger_bytes_def)
qed

theorem create_or_get_torrent_request_idempotent_witness:
  "case ex_admission of
     Inl e \<Rightarrow> False
   | Inr (d1, res) \<Rightarrow>
       (case create_or_get_torrent_request 90 91 92 ex_user ex_hash ''n'' 60 (Aware 300) None None 48 d1 of
          Inl e \<Rightarrow> False
        | Inr (d2, again) \<Rightarrow> mr_request again = mr_request res \<and> ledger_bytes d2 = ledger_bytes d1)"
proof -
  obtain d1 res where run: "ex_admission = Inr (d1, res)" "\<not> due_request 300 (mr_request res)"
    by (rule ex_admission_result)
  from create_or_get_torrent_request_idempotent [OF ex_orphan_db_ok run(1) _ run(2), of 90 91 92]
  show ?thesis using run(1) by (auto split: sum.splits)
qed

end
