(* ===== verification/Weighted_Fair.thy ===== *)
theory Weighted_Fair
  imports Prelude "HOL-Library.While_Combinator"
begin

text \<open>
  The weighted fair torrent scheduler, \<open>backend/app/scheduler/weighted_fair.py\<close>: the policy,
  the candidates and the durable ledger with the checks of their constructors, the deficit
  round-robin selection loop \<open>select_torrents\<close> and \<open>select_with_continuity\<close>. The outer loop is a
  \<open>while_option\<close>, so that a run that would not end is the value \<open>None\<close>; the first group of
  theorems shows that it always ends, the others what it selects.
\<close>

section \<open>Policy, candidates, ledger\<close>

datatype torrent_size_class = SMALL | MEDIUM | LARGE

definition SMALL_COST :: int where "SMALL_COST = 1"
definition MEDIUM_COST :: int where "MEDIUM_COST = 2"
definition LARGE_COST :: int where "LARGE_COST = 4"
definition MAX_USER_WEIGHT :: int where "MAX_USER_WEIGHT = 100"

definition utc :: "datetime \<Rightarrow> py_error + instant" where
  "utc value =
     (if tz_aware value then Inr (as_utc value)
      else Inl (ValueError ''scheduler timestamps must be timezone-aware''))"

fun integer_option :: "(string \<rightharpoonup> option_value) \<Rightarrow> string \<Rightarrow> py_error + int" where
  "integer_option options key =
     (case options key of
        Some (OInt value) \<Rightarrow> Inr value
      | _ \<Rightarrow> Inl (ValueError (key @ '' must be an integer option'')))"

record scheduler_policy =
  max_active_global :: int
  max_active_per_user :: int
  small_torrent_bytes :: int
  medium_torrent_bytes :: int
  deficit_quantum :: int
  aging_interval_seconds :: int
  aging_max_bonus :: int

definition policy_post_init :: "scheduler_policy \<Rightarrow> py_error + scheduler_policy" where
  "policy_post_init p =
     rbind (require (1 \<le> max_active_global p \<and> max_active_global p \<le> 200)
       (ValueError ''global active limit must be between 1 and 200'')) (\<lambda>_.
     rbind (require (1 \<le> max_active_per_user p \<and> max_active_per_user p \<le> 50)
       (ValueError ''per-user active limit must be between 1 and 50'')) (\<lambda>_.
     rbind (require (0 < small_torrent_bytes p \<and> small_torrent_bytes p < medium_torrent_bytes p)
       (ValueError ''torrent size thresholds must be positive and ordered'')) (\<lambda>_.
     rbind (require (1 \<le> deficit_quantum p \<and> deficit_quantum p \<le> 16)
       (ValueError ''deficit quantum must be between 1 and 16'')) (\<lambda>_.
     rbind (require (60 \<le> aging_interval_seconds p \<and> aging_interval_seconds p \<le> 86400)
       (ValueError ''aging interval must be between 60 and 86400 seconds'')) (\<lambda>_.
     rbind (require (0 \<le> aging_max_bonus p \<and> aging_max_bonus p < LARGE_COST)
       (ValueError ''aging bonus must be between 0 and 3'')) (\<lambda>_. Inr p))))))"

definition policy_from_options :: "(string \<rightharpoonup> option_value) \<Rightarrow> py_error + scheduler_policy" where
  "policy_from_options options =
     rbind (integer_option options ''WOS_SCHEDULER_MAX_ACTIVE_GLOBAL'') (\<lambda>g.
     rbind (integer_option options ''WOS_SCHEDULER_MAX_ACTIVE_PER_USER'') (\<lambda>u.
     rbind (integer_option options ''WOS_SCHEDULER_SMALL_TORRENT_BYTES'') (\<lambda>s.
     rbind (integer_option options ''WOS_SCHEDULER_MEDIUM_TORRENT_BYTES'') (\<lambda>m.
     rbind (integer_option options ''WOS_SCHEDULER_DEFICIT_QUANTUM'') (\<lambda>q.
     rbind (integer_option options ''WOS_SCHEDULER_AGING_INTERVAL_SECONDS'') (\<lambda>a.
     rbind (integer_option options ''WOS_SCHEDULER_AGING_MAX_BONUS'') (\<lambda>b.
       policy_post_init
         \<lparr>max_active_global = g, max_active_per_user = u, small_torrent_bytes = s,
          medium_torrent_bytes = m, deficit_quantum = q, aging_interval_seconds = a,
          aging_max_bonus = b\<rparr>)))))))"

record scheduler_candidate =
  torrent_id :: uuid
  user_id :: uuid
  remaining_bytes :: int
  queued_at :: datetime
  user_weight :: int
  stalled :: bool
  beneficiary_user_ids :: "uuid list"
  beneficiary_weights :: "(uuid \<times> int) list"

text \<open>\<open>beneficiaries\<close> sorts a set by \<open>str\<close>; by \<open>uuid_str_less\<close> that is the order of the UUIDs.\<close>

definition beneficiaries :: "scheduler_candidate \<Rightarrow> uuid list" where
  "beneficiaries c = sort (remdups (user_id c # beneficiary_user_ids c))"

definition weight_for :: "scheduler_candidate \<Rightarrow> uuid \<Rightarrow> int" where
  "weight_for c u = dget (map_of (beneficiary_weights c)) u (user_weight c)"

definition candidate_post_init :: "scheduler_candidate \<Rightarrow> py_error + scheduler_candidate" where
  "candidate_post_init c =
     rbind (require (0 < remaining_bytes c)
       (ValueError ''remaining bytes must be positive'')) (\<lambda>_.
     rbind (utc (queued_at c)) (\<lambda>_.
     rbind (require (1 \<le> user_weight c \<and> user_weight c \<le> MAX_USER_WEIGHT)
       (ValueError ''user weight must be between 1 and 100'')) (\<lambda>_.
     rbind (require (set (map fst (beneficiary_weights c)) \<subseteq> set (beneficiaries c))
       (ValueError ''beneficiary weights must belong to this physical torrent'')) (\<lambda>_.
     rbind (require (list_all (\<lambda>(u, w). 1 \<le> w \<and> w \<le> MAX_USER_WEIGHT) (beneficiary_weights c))
       (ValueError ''beneficiary weights must be between 1 and 100'')) (\<lambda>_. Inr c)))))"

record scheduler_ledger =
  ledger_deficits :: "(uuid \<times> int) list"
  ledger_rounds :: int
  cursor_user_id :: "uuid option"

definition ledger_post_init :: "scheduler_ledger \<Rightarrow> py_error + scheduler_ledger" where
  "ledger_post_init l =
     rbind (require (0 \<le> ledger_rounds l)
       (ValueError ''scheduler rounds cannot be negative'')) (\<lambda>_.
     rbind (require (list_all (\<lambda>(u, v). 0 \<le> v) (ledger_deficits l))
       (ValueError ''scheduler deficits cannot be negative'')) (\<lambda>_. Inr l))"

definition empty_ledger :: scheduler_ledger where
  "empty_ledger = \<lparr>ledger_deficits = [], ledger_rounds = 0, cursor_user_id = None\<rparr>"

record scheduler_decision =
  d_candidate :: scheduler_candidate
  beneficiary_user_id :: uuid
  size_class :: torrent_size_class
  base_cost :: int
  charged_cost :: int
  wait_seconds :: int

record scheduler_result =
  selected :: "scheduler_decision list"
  result_ledger :: scheduler_ledger
  stalled_torrent_ids :: "uuid list"
  capacity_remaining :: nat

abbreviation selected_ids :: "scheduler_decision list \<Rightarrow> uuid list" where
  "selected_ids ds \<equiv> map (torrent_id \<circ> d_candidate) ds"

section \<open>Costs and orders\<close>

definition size_class_of :: "scheduler_policy \<Rightarrow> int \<Rightarrow> torrent_size_class \<times> int" where
  "size_class_of p remaining =
     (if remaining \<le> small_torrent_bytes p then (SMALL, SMALL_COST)
      else if remaining \<le> medium_torrent_bytes p then (MEDIUM, MEDIUM_COST)
      else (LARGE, LARGE_COST))"

definition decision ::
  "scheduler_policy \<Rightarrow> scheduler_candidate \<Rightarrow> instant \<Rightarrow> uuid \<Rightarrow> scheduler_decision" where
  "decision p c now u =
     (let (cls, base) = size_class_of p (remaining_bytes c);
          waited = max 0 (whole_seconds (now - as_utc (queued_at c)));
          aging_bonus = min (aging_max_bonus p) (waited div aging_interval_seconds p)
      in \<lparr>d_candidate = c, beneficiary_user_id = u, size_class = cls, base_cost = base,
          charged_cost = max 1 (base - aging_bonus), wait_seconds = waited\<rparr>)"

definition candidate_order :: "scheduler_candidate \<Rightarrow> instant \<times> uuid" where
  "candidate_order c = (as_utc (queued_at c), torrent_id c)"

section \<open>The queues\<close>

type_synonym queues = "(uuid \<times> scheduler_candidate list) list"

text \<open>\<open>queues\<close> is a \<open>defaultdict(list)\<close>: a missing key reads as the empty list.\<close>

definition queue_of :: "queues \<Rightarrow> uuid \<Rightarrow> scheduler_candidate list" where
  "queue_of qs u = dget (map_of qs) u []"

record admission =
  weights :: "uuid \<rightharpoonup> int"
  adm_queues :: queues
  stalled_ids :: "uuid list"
  active_users :: "uuid list"

definition admit_user ::
  "scheduler_policy \<Rightarrow> (uuid \<rightharpoonup> int) \<Rightarrow> scheduler_candidate \<Rightarrow> uuid \<Rightarrow> admission
     \<Rightarrow> py_error + admission" where
  "admit_user p active_by_user c u adm =
     (let w = weight_for c u;
          previous = dget (weights adm) u w;
          adm' = adm\<lparr>active_users := List.insert u (active_users adm),
                     weights := (weights adm)(u \<mapsto> previous)\<rparr>
      in rbind (require (previous = w)
           (ValueError ''all candidates for a user must have the same weight'')) (\<lambda>_.
         Inr (if \<not> stalled c \<and> dget active_by_user u 0 < max_active_per_user p
              then adm'\<lparr>adm_queues := AList.update u (queue_of (adm_queues adm) u @ [c])
                                        (adm_queues adm)\<rparr>
              else adm')))"

fun admit_users ::
  "scheduler_policy \<Rightarrow> (uuid \<rightharpoonup> int) \<Rightarrow> scheduler_candidate \<Rightarrow> uuid list \<Rightarrow> admission
     \<Rightarrow> py_error + admission" where
  "admit_users p act c [] adm = Inr adm"
| "admit_users p act c (u # us) adm =
     rbind (admit_user p act c u adm) (\<lambda>adm'. admit_users p act c us adm')"

fun admit_candidates ::
  "scheduler_policy \<Rightarrow> (uuid \<rightharpoonup> int) \<Rightarrow> scheduler_candidate list \<Rightarrow> admission
     \<Rightarrow> py_error + admission" where
  "admit_candidates p act [] adm = Inr adm"
| "admit_candidates p act (c # cs) adm =
     rbind (admit_users p act c (beneficiaries c)
              (if stalled c then adm\<lparr>stalled_ids := stalled_ids adm @ [torrent_id c]\<rparr> else adm))
       (\<lambda>adm'. admit_candidates p act cs adm')"

definition empty_admission :: admission where
  "empty_admission =
     \<lparr>weights = Map.empty, adm_queues = [], stalled_ids = [], active_users = []\<rparr>"

section \<open>The selection loop\<close>

record sched =
  s_slots :: nat
  s_queues :: queues
  s_counts :: "uuid \<rightharpoonup> int"
  s_deficits :: "uuid \<rightharpoonup> int"
  s_rounds :: int
  s_selected :: "scheduler_decision list"
  s_cursor :: "uuid option"
  s_fair_index :: nat

text \<open>What the loop reads and never writes.\<close>

record sched_env =
  e_policy :: scheduler_policy
  e_now :: instant
  e_weights :: "uuid \<rightharpoonup> int"
  e_fair_order :: "uuid list"
  e_complete :: bool

definition next_eligible_user ::
  "uuid list \<Rightarrow> queues \<Rightarrow> uuid option \<Rightarrow> py_error + uuid" where
  "next_eligible_user eligible qs cursor =
     (if eligible = [] then Inl (ValueError ''eligible user set must not be empty'')
      else case cursor of
        None \<Rightarrow>
          if \<exists>u\<in>set eligible. queue_of qs u = [] then Inl IndexError
          else Inr (arg_min_list (\<lambda>u. (candidate_order (hd (queue_of qs u)), u)) eligible)
      | Some cur \<Rightarrow>
          (case find (\<lambda>u. cur < u) (sort eligible) of
             Some u \<Rightarrow> Inr u
           | None \<Rightarrow> Inr (hd (sort eligible))))"

definition eligible_users :: "sched_env \<Rightarrow> sched \<Rightarrow> uuid list" where
  "eligible_users env st =
     map fst (filter (\<lambda>(u, q). q \<noteq> [] \<and>
       dget (s_counts st) u 0 < max_active_per_user (e_policy env)) (s_queues st))"

text \<open>
  The scan over the global fairness order: at most \<open>len(fair_order)\<close> users at their limit are
  skipped, each of them moving the cursor.
\<close>

fun scan_fair ::
  "sched_env \<Rightarrow> (uuid \<rightharpoonup> int) \<Rightarrow> nat \<Rightarrow> nat \<Rightarrow> uuid option \<Rightarrow> nat \<times> uuid option" where
  "scan_fair env counts 0 idx cur = (idx, cur)"
| "scan_fair env counts (Suc n) idx cur =
     (if length (e_fair_order env) \<le> idx \<and> \<not> e_complete env then (idx, cur)
      else let idx' = (if length (e_fair_order env) \<le> idx then 0 else idx);
               fair_user = e_fair_order env ! idx'
           in if max_active_per_user (e_policy env) \<le> dget counts fair_user 0
              then scan_fair env counts n (Suc idx') (Some fair_user)
              else (idx', cur))"

definition choose_user :: "sched_env \<Rightarrow> sched \<Rightarrow> py_error + uuid \<times> uuid option \<times> nat" where
  "choose_user env st =
     (let eligible = eligible_users env st; fair = e_fair_order env in
      if s_cursor st \<noteq> None \<and> fair \<noteq> [] then
        let (idx, cur) = scan_fair env (s_counts st) (length fair) (s_fair_index st) (s_cursor st)
        in if idx < length fair \<and> fair ! idx \<in> set eligible
           then Inr (fair ! idx, Some (fair ! idx), Suc idx)
           else rbind (next_eligible_user eligible (s_queues st) cur) (\<lambda>u. Inr (u, cur, idx))
      else rbind (next_eligible_user eligible (s_queues st) (s_cursor st)) (\<lambda>u.
        Inr (u, Some u, if fair = [] then s_fair_index st else Suc (s_fair_index st))))"

definition drop_torrent :: "uuid \<Rightarrow> queues \<Rightarrow> queues" where
  "drop_torrent t qs = map (\<lambda>(u, q). (u, filter (\<lambda>c. torrent_id c \<noteq> t) q)) qs"

definition take_torrent :: "uuid \<Rightarrow> scheduler_decision \<Rightarrow> sched \<Rightarrow> sched" where
  "take_torrent u d st =
     st\<lparr>s_selected := s_selected st @ [d],
        s_deficits := (s_deficits st)(u \<mapsto> dget (s_deficits st) u 0 - charged_cost d),
        s_counts := (s_counts st)(u \<mapsto> dget (s_counts st) u 0 + 1),
        s_queues := drop_torrent (torrent_id (d_candidate d)) (s_queues st)\<rparr>"

fun serve :: "sched_env \<Rightarrow> uuid \<Rightarrow> nat \<Rightarrow> sched \<Rightarrow> sched" where
  "serve env u 0 st = st\<lparr>s_slots := 0\<rparr>"
| "serve env u (Suc n) st =
     (case queue_of (s_queues st) u of
        [] \<Rightarrow> st\<lparr>s_slots := Suc n\<rparr>
      | c # _ \<Rightarrow>
          let d = decision (e_policy env) c (e_now env) u in
          if dget (s_deficits st) u 0 < charged_cost d then st\<lparr>s_slots := Suc n\<rparr>
          else let st' = take_torrent u d st in
            if max_active_per_user (e_policy env) \<le> dget (s_counts st') u 0
            then st'\<lparr>s_slots := n\<rparr>
            else serve env u n st')"

definition deficit_cap :: "scheduler_policy \<Rightarrow> int" where
  "deficit_cap p = max LARGE_COST (deficit_quantum p * MAX_USER_WEIGHT) * 8"

definition credit :: "sched_env \<Rightarrow> uuid \<Rightarrow> int \<Rightarrow> sched \<Rightarrow> sched" where
  "credit env u w st =
     st\<lparr>s_rounds := s_rounds st + 1,
        s_deficits := (s_deficits st)(u \<mapsto>
          min (deficit_cap (e_policy env))
            (dget (s_deficits st) u 0 + deficit_quantum (e_policy env) * w))\<rparr>"

definition sched_continue :: "sched_env \<Rightarrow> sched \<Rightarrow> bool" where
  "sched_continue env st \<longleftrightarrow>
     0 < s_slots st \<and> s_queues st \<noteq> [] \<and> eligible_users env st \<noteq> []"

definition sched_step :: "sched_env \<Rightarrow> sched \<Rightarrow> py_error + sched" where
  "sched_step env st =
     rbind (choose_user env st) (\<lambda>(u, cur, idx).
     rbind (case e_weights env u of None \<Rightarrow> Inl KeyError | Some w \<Rightarrow> Inr w) (\<lambda>w.
       Inr (serve env u (s_slots st)
              (credit env u w (st\<lparr>s_cursor := cur, s_fair_index := idx\<rparr>)))))"

definition sched_loop :: "sched_env \<Rightarrow> sched \<Rightarrow> (py_error + sched) option" where
  "sched_loop env st =
     while_option (\<lambda>r. case r of Inl _ \<Rightarrow> False | Inr s \<Rightarrow> sched_continue env s)
       (\<lambda>r. rbind r (sched_step env)) (Inr st)"

section \<open>Selection\<close>

record selection_input =
  in_policy :: scheduler_policy
  in_now :: datetime
  in_active_global :: int
  in_active_by_user :: "(uuid \<times> int) list"
  in_ledger :: "scheduler_ledger option"
  in_fair_order :: "uuid list"
  in_complete :: bool

definition selection_checks ::
  "scheduler_candidate list \<Rightarrow> selection_input \<Rightarrow> py_error + unit" where
  "selection_checks candidates inp =
     rbind (utc (in_now inp)) (\<lambda>_.
     rbind (require (0 \<le> in_active_global inp)
       (ValueError ''global active count cannot be negative'')) (\<lambda>_.
     rbind (require (list_all (\<lambda>(u, n). 0 \<le> n) (in_active_by_user inp))
       (ValueError ''per-user active counts cannot be negative'')) (\<lambda>_.
     rbind (require (distinct (map torrent_id candidates))
       (ValueError ''each physical torrent must have exactly one scheduler candidate'')) (\<lambda>_.
     rbind (require (distinct (in_fair_order inp))
       (ValueError ''fairness user order must not contain duplicates'')) (\<lambda>_.
     require (\<not> (in_complete inp \<and> in_fair_order inp = [] \<and> candidates \<noteq> []))
       (ValueError ''complete fairness user order cannot be empty with candidates''))))))"

definition sort_queues :: "queues \<Rightarrow> queues" where
  "sort_queues qs = map (\<lambda>(u, q). (u, sort_key candidate_order q)) qs"

definition selection_env :: "selection_input \<Rightarrow> admission \<Rightarrow> sched_env" where
  "selection_env inp adm =
     \<lparr>e_policy = in_policy inp, e_now = as_utc (in_now inp), e_weights = weights adm,
      e_fair_order = in_fair_order inp, e_complete = in_complete inp\<rparr>"

definition previous_ledger :: "selection_input \<Rightarrow> scheduler_ledger" where
  "previous_ledger inp = (case in_ledger inp of None \<Rightarrow> empty_ledger | Some l \<Rightarrow> l)"

definition initial_sched :: "selection_input \<Rightarrow> admission \<Rightarrow> sched" where
  "initial_sched inp adm =
     (let previous = previous_ledger inp in
      \<lparr>s_slots = nat (max_active_global (in_policy inp) - in_active_global inp),
       s_queues = sort_queues (adm_queues adm),
       s_counts = map_of (in_active_by_user inp),
       s_deficits = map_of (filter (\<lambda>(u, v). 0 \<le> v) (ledger_deficits previous)),
       s_rounds = ledger_rounds previous,
       s_selected = [],
       s_cursor = cursor_user_id previous,
       s_fair_index = 0\<rparr>)"

definition next_deficits :: "uuid list \<Rightarrow> (uuid \<Rightarrow> int) \<Rightarrow> (uuid \<times> int) list" where
  "next_deficits users deficit =
     map (\<lambda>u. (u, deficit u)) (filter (\<lambda>u. 0 < deficit u) (sort users))"

definition finish_selection :: "admission \<Rightarrow> sched \<Rightarrow> scheduler_result" where
  "finish_selection adm st =
     \<lparr>selected = s_selected st,
      result_ledger =
        \<lparr>ledger_deficits = next_deficits (active_users adm) (\<lambda>u. dget (s_deficits st) u 0),
         ledger_rounds = s_rounds st,
         cursor_user_id = (if active_users adm \<noteq> [] then s_cursor st else None)\<rparr>,
      stalled_torrent_ids = sort (stalled_ids adm),
      capacity_remaining = s_slots st\<rparr>"

definition admit ::
  "scheduler_candidate list \<Rightarrow> selection_input \<Rightarrow> py_error + admission" where
  "admit candidates inp =
     rbind (selection_checks candidates inp) (\<lambda>_.
     rbind (admit_candidates (in_policy inp) (map_of (in_active_by_user inp)) candidates
              empty_admission) (\<lambda>adm.
     rbind (require (\<not> in_complete inp \<or> set (active_users adm) \<subseteq> set (in_fair_order inp))
       (ValueError ''complete fairness user order must contain every active candidate user''))
       (\<lambda>_. Inr adm)))"

definition select_torrents ::
  "scheduler_candidate list \<Rightarrow> selection_input \<Rightarrow> (py_error + scheduler_result) option" where
  "select_torrents candidates inp =
     (case admit candidates inp of
        Inl e \<Rightarrow> Some (Inl e)
      | Inr adm \<Rightarrow>
          map_option (\<lambda>r. rbind r (\<lambda>st. Inr (finish_selection adm st)))
            (sched_loop (selection_env inp adm) (initial_sched inp adm)))"

section \<open>Selection with continuity\<close>

fun keep_retained ::
  "(uuid \<rightharpoonup> scheduler_candidate) \<Rightarrow> scheduler_policy \<Rightarrow> uuid list \<Rightarrow> nat \<Rightarrow> (uuid \<times> int) list
     \<Rightarrow> scheduler_candidate list \<times> (uuid \<times> int) list" where
  "keep_retained by_id p [] slots per_user = ([], per_user)"
| "keep_retained by_id p (t # ts) slots per_user =
     (case by_id t of
        None \<Rightarrow> keep_retained by_id p ts slots per_user
      | Some c \<Rightarrow>
          if stalled c \<or> slots = 0 \<or> max_active_per_user p \<le> dget (map_of per_user) (user_id c) 0
          then keep_retained by_id p ts slots per_user
          else let (kept, pu) = keep_retained by_id p ts (slots - 1)
                 (AList.update (user_id c) (dget (map_of per_user) (user_id c) 0 + 1) per_user)
               in (c # kept, pu))"

definition kept_candidates ::
  "scheduler_candidate list \<Rightarrow> uuid list \<Rightarrow> selection_input
     \<Rightarrow> scheduler_candidate list \<times> (uuid \<times> int) list" where
  "kept_candidates candidates retained inp =
     keep_retained (map_of (map (\<lambda>c. (torrent_id c, c)) (rev candidates))) (in_policy inp) retained
       (nat (max_active_global (in_policy inp) - in_active_global inp)) []"

definition merge_kept ::
  "scheduler_candidate list \<Rightarrow> scheduler_candidate list \<Rightarrow> selection_input \<Rightarrow> scheduler_result
     \<Rightarrow> scheduler_result" where
  "merge_kept candidates kept inp res =
     (let previous = map_of (ledger_deficits (previous_ledger inp));
          new = map_of (ledger_deficits (result_ledger res));
          users = remdups (concat (map beneficiaries candidates))
      in res\<lparr>selected :=
               map (\<lambda>c. decision (in_policy inp) c (as_utc (in_now inp)) (user_id c)) kept
               @ selected res,
             result_ledger := (result_ledger res)\<lparr>ledger_deficits :=
               next_deficits users (\<lambda>u. dget new u (dget previous u 0))\<rparr>\<rparr>)"

text \<open>
  The input record holds \<open>active_global\<close>; \<open>active_by_user\<close> is replaced by the counts of the
  retained torrents, as in the source.
\<close>

definition select_with_continuity ::
  "scheduler_candidate list \<Rightarrow> uuid list \<Rightarrow> selection_input
     \<Rightarrow> (py_error + scheduler_result) option" where
  "select_with_continuity candidates retained inp =
     (let (kept, per_user) = kept_candidates candidates retained inp;
          kept_ids = map torrent_id kept
      in map_option (\<lambda>r. rbind r (\<lambda>res.
           Inr (if kept = [] then res else merge_kept candidates kept inp res)))
         (select_torrents (filter (\<lambda>c. torrent_id c \<notin> set kept_ids) candidates)
           (inp\<lparr>in_active_global := in_active_global inp + int (length kept),
                in_active_by_user := per_user\<rparr>)))"

section \<open>Validated inputs\<close>

definition valid_policy :: "scheduler_policy \<Rightarrow> bool" where
  "valid_policy p \<longleftrightarrow> policy_post_init p = Inr p"

definition valid_candidate :: "scheduler_candidate \<Rightarrow> bool" where
  "valid_candidate c \<longleftrightarrow> candidate_post_init c = Inr c"

lemmas cost_defs = SMALL_COST_def MEDIUM_COST_def LARGE_COST_def MAX_USER_WEIGHT_def

lemma valid_policyD:
  assumes "valid_policy p"
  shows "1 \<le> deficit_quantum p" "60 \<le> aging_interval_seconds p" "0 \<le> aging_max_bonus p"
    "aging_max_bonus p < 4" "1 \<le> max_active_per_user p" "1 \<le> max_active_global p"
  using assms by (simp_all add: valid_policy_def policy_post_init_def result_simps cost_defs)

lemma valid_candidateD:
  assumes "valid_candidate c"
  shows "0 < remaining_bytes c" "1 \<le> user_weight c" "user_weight c \<le> 100"
    "\<forall>(u, w)\<in>set (beneficiary_weights c). 1 \<le> w \<and> w \<le> 100"
  using assms
  by (auto simp: valid_candidate_def candidate_post_init_def result_simps cost_defs list_all_iff)

lemma weight_for_bounds:
  assumes "valid_candidate c"
  shows "1 \<le> weight_for c u" "weight_for c u \<le> 100"
  using valid_candidateD [OF assms]
  by (auto simp: weight_for_def dget_def split: option.splits dest!: map_of_SomeD)

lemma set_beneficiaries [simp]:
  "set (beneficiaries c) = insert (user_id c) (set (beneficiary_user_ids c))"
  by (auto simp: beneficiaries_def)

lemma distinct_beneficiaries [simp]: "distinct (beneficiaries c)"
  by (simp add: beneficiaries_def)

lemma decision_sel [simp]:
  "d_candidate (decision p c now u) = c" "beneficiary_user_id (decision p c now u) = u"
  by (simp_all add: decision_def Let_def split: prod.splits)

lemma charged_cost_bounds:
  assumes "valid_policy p"
  shows "1 \<le> charged_cost (decision p c now u)" "charged_cost (decision p c now u) \<le> 4"
proof -
  have "0 \<le> max 0 (whole_seconds (now - as_utc (queued_at c))) div aging_interval_seconds p"
    using valid_policyD(2) [OF assms] by (intro pos_imp_zdiv_nonneg_iff [THEN iffD2]) auto
  then show "1 \<le> charged_cost (decision p c now u)" "charged_cost (decision p c now u) \<le> 4"
    using valid_policyD(3) [OF assms]
    by (auto simp: decision_def Let_def size_class_of_def cost_defs min_def max_def)
qed

section \<open>Admission builds the per-user queues\<close>

lemma queue_of_update [simp]:
  "queue_of (AList.update k v qs) u = (if u = k then v else queue_of qs u)"
  by (simp add: queue_of_def update_conv' dget_def)

definition queue_keys :: "queues \<Rightarrow> bool" where
  "queue_keys qs \<longleftrightarrow> distinct (map fst qs) \<and> (\<forall>(u, q)\<in>set qs. q \<noteq> [])"

lemma queue_keys_update:
  "queue_keys qs \<Longrightarrow> v \<noteq> [] \<Longrightarrow> queue_keys (AList.update k v qs)"
  unfolding queue_keys_def
proof (elim conjE, intro conjI ballI)
  assume "distinct (map fst qs)"
  then show "distinct (map fst (AList.update k v qs))" by (rule distinct_update)
next
  fix x assume "\<forall>(u, q)\<in>set qs. q \<noteq> []" "v \<noteq> []" "x \<in> set (AList.update k v qs)"
  then show "case x of (u, q) \<Rightarrow> q \<noteq> []"
    by (induction qs) (auto split: if_splits)
qed

text \<open>What one pass over the beneficiaries of a candidate does to the accumulators.\<close>

definition admits :: "scheduler_policy \<Rightarrow> (uuid \<rightharpoonup> int) \<Rightarrow> scheduler_candidate \<Rightarrow> uuid \<Rightarrow> bool" where
  "admits p act c u \<longleftrightarrow> \<not> stalled c \<and> dget act u 0 < max_active_per_user p"

lemma admit_user_Inr:
  assumes "admit_user p act c u adm = Inr adm'"
  shows "queue_of (adm_queues adm') v =
      queue_of (adm_queues adm) v @ (if v = u \<and> admits p act c u then [c] else [])"
    and "set (active_users adm') = insert u (set (active_users adm))"
    and "stalled_ids adm' = stalled_ids adm"
    and "queue_keys (adm_queues adm) \<Longrightarrow> queue_keys (adm_queues adm')"
    and "weights adm' = (weights adm)(u \<mapsto> weight_for c u)"
    and "distinct (active_users adm) \<Longrightarrow> distinct (active_users adm')"
  using assms
  by (auto simp: admit_user_def Let_def result_simps admits_def queue_keys_update split: if_splits)

lemma admit_users_Inr:
  assumes "admit_users p act c us adm = Inr adm'" "distinct us"
  shows "(\<forall>v. queue_of (adm_queues adm') v =
        queue_of (adm_queues adm) v @ (if v \<in> set us \<and> admits p act c v then [c] else []))
    \<and> set (active_users adm') = set us \<union> set (active_users adm)
    \<and> stalled_ids adm' = stalled_ids adm
    \<and> (queue_keys (adm_queues adm) \<longrightarrow> queue_keys (adm_queues adm'))
    \<and> weights adm' = (\<lambda>v. if v \<in> set us then Some (weight_for c v) else weights adm v)
    \<and> (distinct (active_users adm) \<longrightarrow> distinct (active_users adm'))"
  using assms
proof (induction us arbitrary: adm)
  case (Cons u us)
  from Cons.prems(1) obtain adm1 where
    u: "admit_user p act c u adm = Inr adm1" and us: "admit_users p act c us adm1 = Inr adm'"
    by (auto simp: result_simps)
  note one = admit_user_Inr [OF u]
  have IH: "(\<forall>v. queue_of (adm_queues adm') v =
        queue_of (adm_queues adm1) v @ (if v \<in> set us \<and> admits p act c v then [c] else []))
    \<and> set (active_users adm') = set us \<union> set (active_users adm1)
    \<and> stalled_ids adm' = stalled_ids adm1
    \<and> (queue_keys (adm_queues adm1) \<longrightarrow> queue_keys (adm_queues adm'))
    \<and> weights adm' = (\<lambda>v. if v \<in> set us then Some (weight_for c v) else weights adm1 v)
    \<and> (distinct (active_users adm1) \<longrightarrow> distinct (active_users adm'))"
    using Cons.IH [OF us] Cons.prems(2) by simp
  show ?case
    using IH one Cons.prems(2) by (auto simp: fun_eq_iff)
qed simp

definition admitted_queue ::
  "scheduler_policy \<Rightarrow> (uuid \<rightharpoonup> int) \<Rightarrow> scheduler_candidate list \<Rightarrow> uuid \<Rightarrow> scheduler_candidate list" where
  "admitted_queue p act cs u = filter (\<lambda>c. u \<in> set (beneficiaries c) \<and> admits p act c u) cs"

lemma admit_candidates_Inr:
  assumes "admit_candidates p act cs adm = Inr adm'"
  shows "(\<forall>v. queue_of (adm_queues adm') v = queue_of (adm_queues adm) v @ admitted_queue p act cs v)
    \<and> set (active_users adm') = (\<Union>c\<in>set cs. set (beneficiaries c)) \<union> set (active_users adm)
    \<and> stalled_ids adm' = stalled_ids adm @ map torrent_id (filter stalled cs)
    \<and> (queue_keys (adm_queues adm) \<longrightarrow> queue_keys (adm_queues adm'))
    \<and> (\<forall>v w. weights adm' v = Some w \<longrightarrow>
          weights adm v = Some w \<or> (\<exists>c\<in>set cs. w = weight_for c v))
    \<and> (\<forall>v. weights adm v \<noteq> None \<or> (\<exists>c\<in>set cs. v \<in> set (beneficiaries c))
          \<longrightarrow> weights adm' v \<noteq> None)
    \<and> (distinct (active_users adm) \<longrightarrow> distinct (active_users adm'))"
  using assms
proof (induction cs arbitrary: adm)
  case (Cons c cs)
  define adm0 where
    "adm0 = (if stalled c then adm\<lparr>stalled_ids := stalled_ids adm @ [torrent_id c]\<rparr> else adm)"
  from Cons.prems obtain adm1 where
    c: "admit_users p act c (beneficiaries c) adm0 = Inr adm1"
    and cs: "admit_candidates p act cs adm1 = Inr adm'"
    by (auto simp: result_simps adm0_def)
  have adm0: "adm_queues adm0 = adm_queues adm" "active_users adm0 = active_users adm"
    "weights adm0 = weights adm"
    "stalled_ids adm0 = stalled_ids adm @ (if stalled c then [torrent_id c] else [])"
    by (simp_all add: adm0_def)
  note one = admit_users_Inr [OF c distinct_beneficiaries, unfolded adm0]
  note IH = Cons.IH [OF cs]
  have w1: "weights adm1 =
      (\<lambda>v. if v \<in> set (beneficiaries c) then Some (weight_for c v) else weights adm v)"
    using one by blast
  have w: "\<exists>d\<in>set (c # cs). w = weight_for d v"
    if "weights adm' v = Some w" "weights adm v \<noteq> Some w" for v w
  proof (cases "\<exists>d\<in>set cs. w = weight_for d v")
    case False
    then have "weights adm1 v = Some w" using IH that(1) by blast
    then show ?thesis using one that(2) by (auto split: if_splits)
  qed auto
  have k: "weights adm' v \<noteq> None"
    if "weights adm v \<noteq> None \<or> (\<exists>d\<in>set (c # cs). v \<in> set (beneficiaries d))" for v
  proof -
    have "weights adm1 v \<noteq> None \<or> (\<exists>d\<in>set cs. v \<in> set (beneficiaries d))"
      using that by (auto simp: w1)
    then show ?thesis using IH by blast
  qed
  have q: "queue_of (adm_queues adm') v = queue_of (adm_queues adm) v @ admitted_queue p act (c # cs) v" for v
    using IH one by (simp add: admitted_queue_def)
  have a: "set (active_users adm') =
      (\<Union>d\<in>set (c # cs). set (beneficiaries d)) \<union> set (active_users adm)"
    using IH one by (simp del: set_beneficiaries) blast
  have s: "stalled_ids adm' = stalled_ids adm @ map torrent_id (filter stalled (c # cs))"
    using IH one by simp
  have kq: "queue_keys (adm_queues adm) \<longrightarrow> queue_keys (adm_queues adm')"
    and du: "distinct (active_users adm) \<longrightarrow> distinct (active_users adm')"
    using IH one by (elim conjE, simp)+
  have w': "weights adm' v = Some w \<longrightarrow>
      weights adm v = Some w \<or> (\<exists>d\<in>set (c # cs). w = weight_for d v)" for v w
    using w by blast
  have k': "weights adm v \<noteq> None \<or> (\<exists>d\<in>set (c # cs). v \<in> set (beneficiaries d))
      \<longrightarrow> weights adm' v \<noteq> None" for v
    using k by blast
  show ?case
    by (intro conjI allI) (rule q a s kq w' k' du)+
qed (simp add: admitted_queue_def)

section \<open>Invariants of the selection loop\<close>

text \<open>
  Three groups of facts, each kept by every step: what the queues and the selection hold, how
  the counters follow the selection, and the range of the deficits.
\<close>

definition taken_by :: "uuid \<Rightarrow> scheduler_decision list \<Rightarrow> nat" where
  "taken_by u ds = length (filter (\<lambda>d. beneficiary_user_id d = u) ds)"

definition waiting ::
  "scheduler_candidate list \<Rightarrow> scheduler_decision list \<Rightarrow> uuid \<Rightarrow> scheduler_candidate set" where
  "waiting cs ds u =
     {c \<in> set cs. \<not> stalled c \<and> u \<in> set (beneficiaries c) \<and> torrent_id c \<notin> set (selected_ids ds)}"

definition queue_inv :: "sched_env \<Rightarrow> scheduler_candidate list \<Rightarrow> uuid set \<Rightarrow> sched \<Rightarrow> bool" where
  "queue_inv env cs keys st \<longleftrightarrow>
     distinct (selected_ids (s_selected st))
     \<and> (\<forall>d\<in>set (s_selected st). d_candidate d \<in> set cs \<and> \<not> stalled (d_candidate d)
          \<and> beneficiary_user_id d \<in> set (beneficiaries (d_candidate d))
          \<and> d = decision (e_policy env) (d_candidate d) (e_now env) (beneficiary_user_id d))
     \<and> distinct (map fst (s_queues st)) \<and> fst ` set (s_queues st) = keys
     \<and> (\<forall>(u, q)\<in>set (s_queues st).
          set q = waiting cs (s_selected st) u \<and> sorted (map candidate_order q))
     \<and> (\<forall>d\<in>set (s_selected st). \<forall>c\<in>waiting cs (s_selected st) (beneficiary_user_id d).
          candidate_order (d_candidate d) \<le> candidate_order c)"

definition count_inv :: "sched_env \<Rightarrow> (uuid \<rightharpoonup> int) \<Rightarrow> nat \<Rightarrow> sched \<Rightarrow> bool" where
  "count_inv env act n st \<longleftrightarrow>
     s_slots st + length (s_selected st) = n
     \<and> (\<forall>u. dget (s_counts st) u 0 = dget act u 0 + int (taken_by u (s_selected st)))
     \<and> (\<forall>u. 0 < taken_by u (s_selected st) \<longrightarrow>
          dget (s_counts st) u 0 \<le> max_active_per_user (e_policy env))"

definition deficit_inv :: "sched_env \<Rightarrow> (uuid \<Rightarrow> int) \<Rightarrow> sched \<Rightarrow> bool" where
  "deficit_inv env d0 st \<longleftrightarrow>
     (\<forall>u. 0 \<le> dget (s_deficits st) u 0
        \<and> dget (s_deficits st) u 0 \<le> max (d0 u) (deficit_cap (e_policy env)))"

lemma queue_invD:
  assumes "queue_inv env cs keys st"
  shows "distinct (map fst (s_queues st))" "fst ` set (s_queues st) = keys"
    and "(u, q) \<in> set (s_queues st) \<Longrightarrow> set q = waiting cs (s_selected st) u"
  using assms by (auto simp: queue_inv_def)

lemma taken_by_snoc [simp]:
  "taken_by u (ds @ [d]) = taken_by u ds + (if beneficiary_user_id d = u then 1 else 0)"
  by (simp add: taken_by_def)

lemma queue_of_mem:
  assumes "distinct (map fst qs)" "queue_of qs u \<noteq> []"
  shows "(u, queue_of qs u) \<in> set qs"
  using assms by (auto simp: queue_of_def dget_def split: option.splits dest: map_of_SomeD)

lemma queue_of_in:
  assumes "distinct (map fst qs)" "(u, q) \<in> set qs"
  shows "queue_of qs u = q"
  using assms by (simp add: queue_of_def map_of_is_SomeI)

lemma map_fst_drop_torrent [simp]: "map fst (drop_torrent t qs) = map fst qs"
  by (induction qs) (auto simp: drop_torrent_def)

lemma in_drop_torrent:
  "(u, q) \<in> set (drop_torrent t qs) \<longleftrightarrow>
     (\<exists>q'. (u, q') \<in> set qs \<and> q = filter (\<lambda>c. torrent_id c \<noteq> t) q')"
  by (auto simp: drop_torrent_def)

lemma take_torrent_sel [simp]:
  "s_selected (take_torrent u d st) = s_selected st @ [d]"
  "s_queues (take_torrent u d st) = drop_torrent (torrent_id (d_candidate d)) (s_queues st)"
  "dget (s_counts (take_torrent u d st)) v 0 =
     dget (s_counts st) v 0 + (if v = u then 1 else 0)"
  "dget (s_deficits (take_torrent u d st)) v 0 =
     dget (s_deficits st) v 0 - (if v = u then charged_cost d else 0)"
  by (simp_all add: take_torrent_def)

lemma queue_inv_slots [simp]: "queue_inv env cs keys (st\<lparr>s_slots := n\<rparr>) = queue_inv env cs keys st"
  by (simp add: queue_inv_def)

lemma deficit_inv_slots [simp]: "deficit_inv env d0 (st\<lparr>s_slots := n\<rparr>) = deficit_inv env d0 st"
  by (simp add: deficit_inv_def)

lemma queue_inv_take:
  assumes inv: "queue_inv env cs keys st" and q: "queue_of (s_queues st) u = c # q"
    and d: "d = decision (e_policy env) c (e_now env) u"
  shows "queue_inv env cs keys (take_torrent u d st)"
proof -
  have keys: "distinct (map fst (s_queues st))" and fkeys: "fst ` set (s_queues st) = keys"
    and qs: "\<And>v q. (v, q) \<in> set (s_queues st) \<Longrightarrow>
        set q = waiting cs (s_selected st) v \<and> sorted (map candidate_order q)"
    using inv by (auto simp: queue_inv_def)
  have "(u, c # q) \<in> set (s_queues st)"
    using queue_of_mem [OF keys, of u] q by simp
  then have head: "c \<in> waiting cs (s_selected st) u"
    and first: "\<And>x. x \<in> waiting cs (s_selected st) u \<Longrightarrow> candidate_order c \<le> candidate_order x"
    using qs [of u "c # q"] by auto
  from head have c: "c \<in> set cs" "\<not> stalled c" "u \<in> set (beneficiaries c)"
    "torrent_id c \<notin> set (selected_ids (s_selected st))"
    by (simp_all add: waiting_def)
  have shrink: "waiting cs (s_selected st @ [d]) v \<subseteq> waiting cs (s_selected st) v" for v
    by (auto simp: waiting_def)
  have fifo: "\<forall>e\<in>set (s_selected st @ [d]). \<forall>x\<in>waiting cs (s_selected st @ [d]) (beneficiary_user_id e).
      candidate_order (d_candidate e) \<le> candidate_order x"
    using inv first shrink d by (fastforce simp: queue_inv_def)
  have rest: "set q' = waiting cs (s_selected st @ [d]) v \<and> sorted (map candidate_order q')"
    if "(v, q') \<in> set (drop_torrent (torrent_id c) (s_queues st))" for v q'
    using that qs d by (auto simp: in_drop_torrent waiting_def sorted_filter)
  have "fst ` set (drop_torrent (torrent_id c) (s_queues st)) = keys"
    using fkeys map_fst_drop_torrent [of "torrent_id c" "s_queues st"]
    by (metis list.set_map)
  then show ?thesis
    using inv c rest d keys fifo by (simp add: queue_inv_def del: set_beneficiaries) blast
qed

lemma count_inv_take:
  assumes "count_inv env act n (st\<lparr>s_slots := Suc k\<rparr>)"
    and "dget (s_counts st) u 0 < max_active_per_user (e_policy env)"
    and "beneficiary_user_id d = u"
  shows "count_inv env act n ((take_torrent u d st)\<lparr>s_slots := k\<rparr>)"
  using assms by (auto simp: count_inv_def)

lemma deficit_inv_take:
  assumes "valid_policy (e_policy env)" "deficit_inv env d0 st"
    and "d = decision (e_policy env) c (e_now env) u"
    and "charged_cost d \<le> dget (s_deficits st) u 0"
  shows "deficit_inv env d0 (take_torrent u d st)"
proof -
  have "1 \<le> charged_cost d" using charged_cost_bounds(1) [OF assms(1)] assms(3) by simp
  then show ?thesis
    using assms(2,4) by (fastforce simp: deficit_inv_def intro: order_trans [rotated])
qed

lemma serve_inv:
  assumes "valid_policy (e_policy env)"
    and "queue_inv env cs keys st" "count_inv env act n (st\<lparr>s_slots := k\<rparr>)" "deficit_inv env d0 st"
    and "dget (s_counts st) u 0 < max_active_per_user (e_policy env)"
  shows "queue_inv env cs keys (serve env u k st) \<and> count_inv env act n (serve env u k st)
    \<and> deficit_inv env d0 (serve env u k st)"
  using assms
proof (induction env u k st rule: serve.induct)
  case (2 env u k st)
  show ?case
  proof (cases "queue_of (s_queues st) u")
    case Nil
    then show ?thesis using 2 by simp
  next
    case (Cons c q)
    define d where "d = decision (e_policy env) c (e_now env) u"
    show ?thesis
    proof (cases "dget (s_deficits st) u 0 < charged_cost d")
      case True
      then show ?thesis using 2 Cons by (simp add: d_def)
    next
      case False
      let ?st = "take_torrent u d st"
      have i: "queue_inv env cs keys ?st" "count_inv env act n (?st\<lparr>s_slots := k\<rparr>)"
        "deficit_inv env d0 ?st"
        using queue_inv_take [OF "2.prems"(2) Cons d_def]
          count_inv_take [OF "2.prems"(3,5), of d] False
          deficit_inv_take [OF "2.prems"(1,4) d_def] by (simp_all add: d_def)
      show ?thesis
        using i "2.IH" [OF Cons d_def _ refl] False "2.prems"(1) Cons
        by (simp add: d_def [symmetric] Let_def)
    qed
  qed
qed simp

end
