(* ===== verification/Dynamic_Concurrency.thy ===== *)
theory Dynamic_Concurrency
  imports Weighted_Fair Models
begin

text \<open>
  The dynamic concurrency of \<open>backend/app/scheduler/dynamic_concurrency.py\<close>: a durable measurement
  window over the running downloads that raises the number of active torrents while the observed
  bandwidth stays below a threshold. A JSON column holds the baseline, a dictionary from infohash to
  downloaded bytes, here an association list without duplicate keys.
\<close>

section \<open>Configuration\<close>

record dynamic_concurrency_config =
  dc_enabled :: bool
  dc_initial_active :: int
  dc_minimum_bytes_per_second :: int
  dc_target_bytes_per_second :: int
  dc_evaluation_seconds :: int
  dc_step :: int
  dc_maximum_active :: int
  dc_static_active :: int

definition dynamic_config_from_options ::
  "(string \<rightharpoonup> option_value) \<Rightarrow> py_error + dynamic_concurrency_config" where
  "dynamic_config_from_options options =
     rbind (case options ''WOS_SCHEDULER_DYNAMIC_CONCURRENCY_ENABLED'' of
              Some (OBool b) \<Rightarrow> Inr b
            | _ \<Rightarrow> Inl (ValueError ''WOS_SCHEDULER_DYNAMIC_CONCURRENCY_ENABLED must be boolean'')) (\<lambda>en.
     rbind (integer_option options ''WOS_SCHEDULER_DYNAMIC_INITIAL_ACTIVE'') (\<lambda>initial.
     rbind (integer_option options ''WOS_SCHEDULER_DYNAMIC_MIN_BYTES_PER_SECOND'') (\<lambda>lo.
     rbind (integer_option options ''WOS_SCHEDULER_DYNAMIC_TARGET_BYTES_PER_SECOND'') (\<lambda>hi.
     rbind (integer_option options ''WOS_SCHEDULER_DYNAMIC_EVALUATION_SECONDS'') (\<lambda>ev.
     rbind (integer_option options ''WOS_SCHEDULER_DYNAMIC_STEP'') (\<lambda>st.
     rbind (integer_option options ''WOS_SCHEDULER_DYNAMIC_MAX_ACTIVE'') (\<lambda>mx.
     rbind (integer_option options ''WOS_SCHEDULER_MAX_ACTIVE_GLOBAL'') (\<lambda>static.
     rbind (require (initial \<le> mx) (ValueError ''dynamic initial limit exceeds hard cap'')) (\<lambda>_.
     rbind (require (lo < hi) (ValueError ''dynamic bandwidth thresholds are not ordered'')) (\<lambda>_.
     Inr \<lparr>dc_enabled = en, dc_initial_active = initial, dc_minimum_bytes_per_second = lo,
          dc_target_bytes_per_second = hi, dc_evaluation_seconds = ev, dc_step = st,
          dc_maximum_active = mx, dc_static_active = static\<rparr>))))))))))"

section \<open>Measurement window\<close>

type_synonym baseline = "(string \<times> int) list"

definition download_baseline :: "managed_torrent list \<Rightarrow> baseline" where
  "download_baseline torrents =
     foldl (\<lambda>b t. AList.update (t_info_hash t)
              (max 0 (case t_last_downloaded_bytes t of None \<Rightarrow> 0 | Some n \<Rightarrow> n)) b) [] torrents"

definition validated_baseline :: "baseline \<Rightarrow> baseline" where
  "validated_baseline b = filter (\<lambda>(k, n). 0 \<le> n) b"

definition start_measurement :: "baseline \<Rightarrow> instant \<Rightarrow> int \<Rightarrow> scheduler_state \<Rightarrow> scheduler_state" where
  "start_measurement b now evaluation_seconds s =
     s\<lparr>ss_dynamic_sample_baseline := b, ss_dynamic_sampled_at := Some now,
       ss_dynamic_next_evaluation_at := Some (now + seconds evaluation_seconds)\<rparr>"

definition clear_measurement :: "scheduler_state \<Rightarrow> scheduler_state" where
  "clear_measurement s =
     s\<lparr>ss_dynamic_sample_baseline := [], ss_dynamic_sampled_at := None,
       ss_dynamic_next_evaluation_at := None\<rparr>"

definition window_open :: "baseline \<Rightarrow> scheduler_state \<Rightarrow> bool" where
  "window_open b s \<longleftrightarrow>
     ss_dynamic_sampled_at s \<noteq> None
     \<and> set (map fst (validated_baseline (ss_dynamic_sample_baseline s))) = set (map fst b)"

section \<open>The decision of a cycle\<close>

record dynamic_concurrency_decision =
  dd_active_limit :: int
  dd_active_torrent_ids :: "uuid list"
  dd_scaled_up :: bool
  dd_preserve_active_set :: bool

definition running_torrent :: "managed_torrent \<Rightarrow> bool" where
  "running_torrent t = (t_state t = DOWNLOADING \<and> (t_desired_active t \<or> t_admin_forced_active t))"

definition plain_decision :: "int \<Rightarrow> managed_torrent list \<Rightarrow> dynamic_concurrency_decision" where
  "plain_decision limit active =
     \<lparr>dd_active_limit = limit, dd_active_torrent_ids = remdups (map t_id active),
      dd_scaled_up = False, dd_preserve_active_set = False\<rparr>"

definition observed_rate :: "baseline \<Rightarrow> baseline \<Rightarrow> timedelta \<Rightarrow> int" where
  "observed_rate previous current elapsed =
     max 0 (round_half_even
       (fl64 (fl64 (of_int (\<Sum>(h, n)\<leftarrow>current. max 0 (n - dget (map_of previous) h 0)))
              / total_seconds elapsed)))"

definition evaluate_window ::
  "dynamic_concurrency_config \<Rightarrow> int \<Rightarrow> int \<Rightarrow> scheduler_state \<Rightarrow> scheduler_state \<times> bool" where
  "evaluate_window config waiting_count observed s =
     (if waiting_count = 0
      then (s\<lparr>ss_dynamic_last_decision := ''dynamic_no_waiting_candidate''\<rparr>, False)
      else if ss_dynamic_current_active s \<ge> dc_maximum_active config
      then (s\<lparr>ss_dynamic_last_decision := ''dynamic_hard_cap_reached''\<rparr>, False)
      else if observed < dc_minimum_bytes_per_second config
      then (s\<lparr>ss_dynamic_current_active :=
                min (dc_maximum_active config) (ss_dynamic_current_active s + dc_step config),
              ss_dynamic_last_decision := ''dynamic_below_target_scaled_up''\<rparr>, True)
      else if observed \<le> dc_target_bytes_per_second config
      then (s\<lparr>ss_dynamic_last_decision := ''dynamic_target_reached''\<rparr>, False)
      else (s\<lparr>ss_dynamic_last_decision := ''dynamic_above_target''\<rparr>, False))"

definition completion_cooldown ::
  "dynamic_concurrency_config \<Rightarrow> baseline \<Rightarrow> instant \<Rightarrow> instant \<Rightarrow> scheduler_state \<Rightarrow> scheduler_state" where
  "completion_cooldown config b now until s =
     (let s' = (if window_open b s
                then s\<lparr>ss_dynamic_next_evaluation_at := Some until\<rparr>
                else start_measurement b now (dc_evaluation_seconds config)
                       (s\<lparr>ss_dynamic_cooldown_until := Some (now + seconds (dc_evaluation_seconds config))\<rparr>))
      in s'\<lparr>ss_dynamic_last_decision := ''dynamic_completion_cooldown''\<rparr>)"

definition measure_running ::
  "dynamic_concurrency_config \<Rightarrow> managed_torrent list \<Rightarrow> int \<Rightarrow> instant \<Rightarrow> scheduler_state
     \<Rightarrow> scheduler_state \<times> dynamic_concurrency_decision" where
  "measure_running config active waiting_count now s =
     (let b = download_baseline active;
          previous = validated_baseline (ss_dynamic_sample_baseline s)
      in case ss_dynamic_sampled_at s of
           None \<Rightarrow>
             (let s' = (start_measurement b now (dc_evaluation_seconds config) s)
                         \<lparr>ss_dynamic_last_decision := ''dynamic_observation_started''\<rparr>
              in (s', plain_decision (ss_dynamic_current_active s') active))
         | Some sampled_at \<Rightarrow>
             if set (map fst previous) \<noteq> set (map fst b)
             then (let s' = (start_measurement b now (dc_evaluation_seconds config) s)
                              \<lparr>ss_dynamic_last_decision := ''dynamic_observation_started''\<rparr>
                   in (s', plain_decision (ss_dynamic_current_active s') active))
             else if total_seconds (now - sampled_at) < of_int (dc_evaluation_seconds config)
             then (s\<lparr>ss_dynamic_next_evaluation_at :=
                      Some (sampled_at + seconds (dc_evaluation_seconds config))\<rparr>,
                   plain_decision (ss_dynamic_current_active s) active)
             else
               (let observed = observed_rate previous b (now - sampled_at);
                    (s', scaled) = evaluate_window config waiting_count observed
                      (s\<lparr>ss_dynamic_observed_bytes_per_second := observed,
                         ss_dynamic_last_evaluated_at := Some now\<rparr>)
                in (start_measurement b now (dc_evaluation_seconds config) s',
                    (plain_decision (ss_dynamic_current_active s') active)\<lparr>dd_scaled_up := scaled\<rparr>)))"

definition apply_dynamic_concurrency ::
  "scheduler_state \<Rightarrow> managed_torrent list \<Rightarrow> scheduler_candidate list \<Rightarrow> dynamic_concurrency_config
     \<Rightarrow> instant \<Rightarrow> scheduler_state \<times> dynamic_concurrency_decision" where
  "apply_dynamic_concurrency state torrents candidates config now =
     (let active = filter running_torrent torrents;
          waiting_count = int (length (filter (\<lambda>c. torrent_id c \<notin> set (map t_id active)) candidates));
          s = state\<lparr>ss_dynamic_active_count := int (length active),
                    ss_dynamic_waiting_count := waiting_count\<rparr>
      in if \<not> dc_enabled config
         then ((clear_measurement s)\<lparr>ss_dynamic_current_active := dc_static_active config,
                  ss_dynamic_last_decision := ''dynamic_disabled''\<rparr>,
               plain_decision (dc_static_active config) active)
         else if active = []
         then (clear_measurement (s\<lparr>ss_dynamic_current_active := dc_initial_active config,
                  ss_dynamic_observed_bytes_per_second := 0,
                  ss_dynamic_last_decision := ''dynamic_idle_reset'', ss_dynamic_cooldown_until := None\<rparr>),
               plain_decision (dc_initial_active config) active)
         else
           (let s = s\<lparr>ss_dynamic_current_active := max (ss_dynamic_current_active s) (int (length active))\<rparr>
            in case ss_dynamic_cooldown_until s of
                 Some until \<Rightarrow>
                   if until > now
                   then (let s' = completion_cooldown config (download_baseline active) now until s
                         in (s', (plain_decision (ss_dynamic_current_active s') active)
                                   \<lparr>dd_preserve_active_set := True\<rparr>))
                   else measure_running config active waiting_count now
                          (s\<lparr>ss_dynamic_cooldown_until := None\<rparr>)
               | None \<Rightarrow> measure_running config active waiting_count now s))"

definition align_measurement_after_selection ::
  "scheduler_state \<Rightarrow> managed_torrent list \<Rightarrow> uuid list \<Rightarrow> dynamic_concurrency_config \<Rightarrow> instant
     \<Rightarrow> scheduler_state" where
  "align_measurement_after_selection state torrents admitted config now =
     (if \<not> dc_enabled config \<or> ss_dynamic_cooldown_until state \<noteq> None then state
      else
        (let b = download_baseline
               (filter (\<lambda>t. t_id t \<in> set admitted \<or> t_admin_forced_active t) torrents)
         in if set (map fst b) \<noteq> set (map fst (validated_baseline (ss_dynamic_sample_baseline state)))
            then start_measurement b now (dc_evaluation_seconds config) state
            else state))"

section \<open>Completion\<close>

definition option_row_value :: "db \<Rightarrow> string \<Rightarrow> app_error + option_value option" where
  "option_row_value d key =
     (case find_row o_key key (db_options d) of
        None \<Rightarrow> Inr None
      | Some row \<Rightarrow>
          (case option_value_of row of Inl e \<Rightarrow> Inl (Py e) | Inr v \<Rightarrow> Inr (Some v)))"

definition shrink_after_completion ::
  "managed_torrent list \<Rightarrow> int \<Rightarrow> int \<Rightarrow> instant \<Rightarrow> scheduler_state \<Rightarrow> scheduler_state" where
  "shrink_after_completion remaining initial evaluation now state =
     (let s = state\<lparr>ss_dynamic_active_count := int (length remaining)\<rparr>
      in if remaining = []
         then clear_measurement (s\<lparr>ss_dynamic_current_active := initial,
                ss_dynamic_cooldown_until := None, ss_dynamic_last_decision := ''dynamic_idle_reset''\<rparr>)
         else (start_measurement (download_baseline remaining) now evaluation
                (s\<lparr>ss_dynamic_current_active := int (length remaining),
                   ss_dynamic_cooldown_until := Some (now + seconds evaluation),
                   ss_dynamic_last_decision := ''dynamic_completion_cooldown'',
                   ss_dynamic_observed_bytes_per_second := 0\<rparr>))
                \<lparr>ss_dynamic_next_evaluation_at := Some (now + seconds evaluation)\<rparr>)"

definition record_dynamic_completion ::
  "scheduler_state \<Rightarrow> instant \<Rightarrow> db \<Rightarrow> app_error + scheduler_state" where
  "record_dynamic_completion state now d =
     rbind (option_row_value d ''WOS_SCHEDULER_DYNAMIC_CONCURRENCY_ENABLED'') (\<lambda>enabled.
     rbind (option_row_value d ''WOS_SCHEDULER_DYNAMIC_INITIAL_ACTIVE'') (\<lambda>initial.
     rbind (option_row_value d ''WOS_SCHEDULER_DYNAMIC_EVALUATION_SECONDS'') (\<lambda>evaluation.
     case (enabled, initial, evaluation) of
       (Some (OBool True), Some (OInt i), Some (OInt e)) \<Rightarrow>
         Inr (shrink_after_completion (filter running_torrent (db_torrents d)) i e now state)
     | _ \<Rightarrow> Inr state)))"

section \<open>Capacity stays within its bounds\<close>

definition dynamic_ok :: "scheduler_state \<Rightarrow> bool" where
  "dynamic_ok s \<longleftrightarrow>
     0 \<le> ss_dynamic_current_active s \<and> 0 \<le> ss_dynamic_observed_bytes_per_second s
     \<and> 0 \<le> ss_dynamic_active_count s \<and> 0 \<le> ss_dynamic_waiting_count s"

lemma window_simps [simp]:
  "ss_dynamic_current_active (start_measurement b now e s) = ss_dynamic_current_active s"
  "ss_dynamic_current_active (clear_measurement s) = ss_dynamic_current_active s"
  "dynamic_ok (start_measurement b now e s) = dynamic_ok s"
  "dynamic_ok (clear_measurement s) = dynamic_ok s"
  by (simp_all add: start_measurement_def clear_measurement_def dynamic_ok_def)

lemma completion_cooldown_simps [simp]:
  "ss_dynamic_current_active (completion_cooldown c b now u s) = ss_dynamic_current_active s"
  "dynamic_ok (completion_cooldown c b now u s) = dynamic_ok s"
  by (simp_all add: completion_cooldown_def Let_def start_measurement_def dynamic_ok_def)

text \<open>
  The condition under which a cycle raises the capacity: nobody waits for the end of a cooldown, the
  window covers the running downloads and is full, and it measured less than the minimum.\<close>

definition window_low ::
  "dynamic_concurrency_config \<Rightarrow> managed_torrent list \<Rightarrow> instant \<Rightarrow> scheduler_state \<Rightarrow> bool" where
  "window_low config active now s \<longleftrightarrow>
     (\<exists>since. ss_dynamic_sampled_at s = Some since
        \<and> set (map fst (validated_baseline (ss_dynamic_sample_baseline s))) = set (map fst (download_baseline active))
        \<and> of_int (dc_evaluation_seconds config) \<le> total_seconds (now - since)
        \<and> observed_rate (validated_baseline (ss_dynamic_sample_baseline s)) (download_baseline active) (now - since)
            < dc_minimum_bytes_per_second config)"

definition decided ::
  "dynamic_concurrency_config \<Rightarrow> bool \<Rightarrow> int \<Rightarrow> scheduler_state \<times> dynamic_concurrency_decision \<Rightarrow> bool" where
  "decided config raise before = (\<lambda>(s, r).
     dynamic_ok s \<and> dd_active_limit r = ss_dynamic_current_active s \<and> dd_scaled_up r = raise
     \<and> dd_active_limit r = (if raise then min (dc_maximum_active config) (before + dc_step config) else before)
     \<and> (raise \<longrightarrow> ss_dynamic_observed_bytes_per_second s < dc_minimum_bytes_per_second config))"

lemma evaluate_window_ok:
  assumes "dynamic_ok s" "1 \<le> dc_step config" "0 \<le> queued" "0 \<le> dc_maximum_active config"
    and "ss_dynamic_observed_bytes_per_second s = rate"
    and "evaluate_window config queued rate s = (s', scaled)"
  shows "decided config (queued \<noteq> 0 \<and> ss_dynamic_current_active s < dc_maximum_active config
      \<and> rate < dc_minimum_bytes_per_second config) (ss_dynamic_current_active s)
    (start_measurement b now e s',
     (plain_decision (ss_dynamic_current_active s') active)\<lparr>dd_scaled_up := scaled\<rparr>)"
  using assms
  by (auto simp: evaluate_window_def decided_def dynamic_ok_def plain_decision_def start_measurement_def
      split: if_splits)

lemma not_decided: "dynamic_ok s \<Longrightarrow> ss_dynamic_current_active s = before \<Longrightarrow>
    decided config False before (s, plain_decision before active)"
  by (simp add: decided_def plain_decision_def)

lemma measure_running_ok:
  assumes "dynamic_ok s" "1 \<le> dc_step config" "0 \<le> queued" "0 \<le> dc_maximum_active config"
  shows "decided config (queued \<noteq> 0 \<and> ss_dynamic_current_active s < dc_maximum_active config
      \<and> window_low config active now s) (ss_dynamic_current_active s)
     (measure_running config active queued now s)"
proof -
  define b where "b = download_baseline active"
  define previous where "previous = validated_baseline (ss_dynamic_sample_baseline s)"
  note low = window_low_def [of config active now s, folded b_def previous_def]
  note run = measure_running_def [of config active queued now s, folded b_def previous_def, unfolded Let_def]
  have other: "dynamic_ok (s\<lparr>ss_dynamic_last_decision := x\<rparr>)" "dynamic_ok (s\<lparr>ss_dynamic_next_evaluation_at := y\<rparr>)"
    "dynamic_ok ((start_measurement b now e s)\<lparr>ss_dynamic_last_decision := x\<rparr>)" for x y e
    using assms(1) by (simp_all add: dynamic_ok_def start_measurement_def)
  show ?thesis
  proof (cases "ss_dynamic_sampled_at s")
    case None
    then show ?thesis unfolding run low by (simp add: not_decided other)
  next
    case (Some since)
    define rate where "rate = observed_rate previous b (now - since)"
    define s1 where "s1 = s\<lparr>ss_dynamic_observed_bytes_per_second := rate, ss_dynamic_last_evaluated_at := Some now\<rparr>"
    obtain s' scaled where ev: "evaluate_window config queued rate s1 = (s', scaled)" by fastforce
    have "0 \<le> rate" by (simp add: rate_def observed_rate_def)
    then have "dynamic_ok s1" using assms(1) by (simp add: s1_def dynamic_ok_def)
    note full = evaluate_window_ok [OF this assms(2-4) _ ev, of b now "dc_evaluation_seconds config" active]
    show ?thesis
    proof (cases "set (map fst previous) = set (map fst b)
        \<and> of_int (dc_evaluation_seconds config) \<le> total_seconds (now - since)")
      case True
      have "measure_running config active queued now s
          = (start_measurement b now (dc_evaluation_seconds config) s',
             (plain_decision (ss_dynamic_current_active s') active)\<lparr>dd_scaled_up := scaled\<rparr>)"
        unfolding run using Some True ev by (simp add: rate_def [symmetric] s1_def [symmetric])
      moreover have "window_low config active now s \<longleftrightarrow> rate < dc_minimum_bytes_per_second config"
        unfolding low using Some True by (simp add: rate_def)
      ultimately show ?thesis using full by (simp add: s1_def)
    next
      case False
      then have "\<not> window_low config active now s" unfolding low using Some by auto
      then show ?thesis unfolding run using Some False by (auto simp: not_decided other)
    qed
  qed
qed

text \<open>
  C37: With a valid configuration the capacity of a cycle is determined and bounded. With the feature off it is the static limit;
  with nothing running it is the initial one; otherwise it is never below the number of running
  downloads (turning the feature on pauses nobody). It is raised exactly when no cooldown runs, the
  measurement window covers the running downloads and is full, it measured less than the minimum
  bandwidth, a candidate that is not running waits, and the hard cap is not reached; then by one step
  and never beyond the hard cap. The CHECK constraint on the dynamic columns is kept.\<close>

theorem apply_dynamic_concurrency_bounds:
  assumes "dynamic_ok state" "1 \<le> dc_step config" "0 \<le> dc_initial_active config"
    "dc_initial_active config \<le> dc_maximum_active config" "0 \<le> dc_static_active config"
    and active: "active = filter running_torrent torrents"
    and running: "running = int (length active)"
    and run: "apply_dynamic_concurrency state torrents candidates config now = (state', res)"
  shows "dynamic_ok state' \<and> dd_active_limit res = ss_dynamic_current_active state'
    \<and> (if \<not> dc_enabled config then dd_active_limit res = dc_static_active config \<and> \<not> dd_scaled_up res
       else if running = 0 then dd_active_limit res = dc_initial_active config \<and> \<not> dd_scaled_up res
       else running \<le> dd_active_limit res
         \<and> (dd_scaled_up res \<longleftrightarrow>
              (case ss_dynamic_cooldown_until state of None \<Rightarrow> True | Some until \<Rightarrow> until \<le> now)
              \<and> (\<exists>since. ss_dynamic_sampled_at state = Some since
                   \<and> set (map fst (validated_baseline (ss_dynamic_sample_baseline state)))
                       = set (map fst (download_baseline active))
                   \<and> of_int (dc_evaluation_seconds config) \<le> total_seconds (now - since)
                   \<and> observed_rate (validated_baseline (ss_dynamic_sample_baseline state))
                       (download_baseline active) (now - since) < dc_minimum_bytes_per_second config)
              \<and> (\<exists>c\<in>set candidates. torrent_id c \<notin> set (map t_id active))
              \<and> max (ss_dynamic_current_active state) running < dc_maximum_active config)
         \<and> (if dd_scaled_up res
            then dd_active_limit res = min (dc_maximum_active config)
                   (max (ss_dynamic_current_active state) running + dc_step config)
              \<and> dd_active_limit res \<le> dc_maximum_active config
              \<and> dd_active_limit res \<le> max (ss_dynamic_current_active state) running + dc_step config
              \<and> ss_dynamic_observed_bytes_per_second state' < dc_minimum_bytes_per_second config
            else dd_active_limit res = max (ss_dynamic_current_active state) running))"
proof -
  define queued where "queued = int (length (filter (\<lambda>c. torrent_id c \<notin> set (map t_id active)) candidates))"
  define s1 where "s1 = state\<lparr>ss_dynamic_active_count := int (length active),
      ss_dynamic_waiting_count := queued,
      ss_dynamic_current_active := max (ss_dynamic_current_active state) (int (length active))\<rparr>"
  define cooling where "cooling \<longleftrightarrow> (\<exists>until. ss_dynamic_cooldown_until state = Some until \<and> now < until)"
  have nonneg: "0 \<le> queued" "0 \<le> dc_maximum_active config" using assms(3,4) by (simp_all add: queued_def)
  have ok: "dynamic_ok s1" "dynamic_ok (s1\<lparr>ss_dynamic_cooldown_until := None\<rparr>)"
    using assms(1) nonneg by (auto simp: s1_def dynamic_ok_def)
  have waits: "queued \<noteq> 0 \<longleftrightarrow> (\<exists>c\<in>set candidates. torrent_id c \<notin> set (map t_id active))"
    by (auto simp: queued_def filter_empty_conv)
  have cur: "ss_dynamic_current_active s1 = max (ss_dynamic_current_active state) running"
    by (simp add: s1_def running)
  have low: "window_low config active now s1 = window_low config active now state"
    "window_low config active now (s1\<lparr>ss_dynamic_cooldown_until := None\<rparr>) = window_low config active now state"
    by (simp_all add: window_low_def s1_def)
  note unf = apply_dynamic_concurrency_def Let_def active [symmetric] queued_def
  show ?thesis
  proof (cases "dc_enabled config \<and> active \<noteq> []")
    case False
    then show ?thesis
      using run assms(1,3,5)
      by (auto simp: unf running plain_decision_def dynamic_ok_def clear_measurement_def queued_def
          split: if_splits)
  next
    case True
    have some: "running \<noteq> 0" using True by (simp add: running)
    define before where "before = max (ss_dynamic_current_active state) running"
    define raise where "raise \<longleftrightarrow> \<not> cooling \<and> queued \<noteq> 0 \<and> before < dc_maximum_active config
        \<and> window_low config active now state"
    have run: "decided config raise before (state', res)"
    proof (cases cooling)
      case cool: True
      then obtain until where u: "ss_dynamic_cooldown_until s1 = Some until" "until > now"
        by (auto simp: cooling_def s1_def)
      have "(state', res) = (completion_cooldown config (download_baseline active) now until s1,
          (plain_decision (ss_dynamic_current_active s1) active)\<lparr>dd_preserve_active_set := True\<rparr>)"
        using run True u by (auto simp: unf s1_def)
      then show ?thesis using ok cur cool
        by (simp add: decided_def plain_decision_def raise_def before_def)
    next
      case no: False
      have "(state', res) = measure_running config active queued now
          (case ss_dynamic_cooldown_until s1 of None \<Rightarrow> s1
           | Some _ \<Rightarrow> s1\<lparr>ss_dynamic_cooldown_until := None\<rparr>)"
        using run True no by (auto simp: unf s1_def cooling_def split: option.splits)
      then show ?thesis
        using measure_running_ok [OF ok(1) assms(2) nonneg, of active now]
          measure_running_ok [OF ok(2) assms(2) nonneg, of active now] cur no
        by (simp add: low raise_def before_def split: option.splits)
    qed
    have cool: "(case ss_dynamic_cooldown_until state of None \<Rightarrow> True | Some until \<Rightarrow> until \<le> now) \<longleftrightarrow> \<not> cooling"
      by (auto simp: cooling_def split: option.split)
    have res: "dynamic_ok state'" "dd_active_limit res = ss_dynamic_current_active state'"
      "dd_scaled_up res = raise" "raise \<longrightarrow> ss_dynamic_observed_bytes_per_second state' < dc_minimum_bytes_per_second config"
      and lim: "dd_active_limit res = (if raise then min (dc_maximum_active config) (before + dc_step config) else before)"
      using run by (simp_all add: decided_def)
    have le: "running \<le> dd_active_limit res"
    proof (cases raise)
      case True
      then have "running \<le> dc_maximum_active config" "running \<le> before"
        unfolding raise_def before_def by simp_all
      then show ?thesis using True lim assms(2) by simp
    qed (simp add: lim before_def)
    have eq: "dd_scaled_up res \<longleftrightarrow> \<not> cooling \<and> window_low config active now state \<and> queued \<noteq> 0
        \<and> before < dc_maximum_active config"
      unfolding res(3) raise_def by blast
    have "if dd_scaled_up res
        then dd_active_limit res = min (dc_maximum_active config) (before + dc_step config)
          \<and> dd_active_limit res \<le> dc_maximum_active config \<and> dd_active_limit res \<le> before + dc_step config
          \<and> ss_dynamic_observed_bytes_per_second state' < dc_minimum_bytes_per_second config
        else dd_active_limit res = before"
      unfolding lim using res(3,4) by simp
    then show ?thesis
      unfolding window_low_def [symmetric] waits [symmetric] cool before_def [symmetric] eq [symmetric]
      using some True res(1,2) le by (simp only: if_False simp_thms)
  qed
qed

definition ex_dynamic_config :: dynamic_concurrency_config where
  "ex_dynamic_config =
     \<lparr>dc_enabled = True, dc_initial_active = 2, dc_minimum_bytes_per_second = 1000,
      dc_target_bytes_per_second = 2000, dc_evaluation_seconds = 60, dc_step = 3,
      dc_maximum_active = 4, dc_static_active = 10\<rparr>"

definition ex_running_torrent :: "uuid \<Rightarrow> char \<Rightarrow> int \<Rightarrow> managed_torrent" where
  "ex_running_torrent i c n =
     \<lparr>t_id = i, t_info_hash = replicate 40 c, t_storage_key = i, t_name = ''n'', t_total_size = 100000,
      t_state = DOWNLOADING, t_qb_state = None, t_progress = 0, t_tracker_account_ref = None,
      t_qbittorrent_account_ref = None, t_retry_at = None, t_last_progress_at = None,
      t_last_downloaded_bytes = Some n, t_stall_count = 0, t_scheduler_retry_at = None,
      t_purge_after = None, t_ready_at = None, t_retention_expires_at = None,
      t_purge_stop_pending = False, t_lifecycle_generation = 0, t_manifest_version = 0,
      t_manifest_checksum = None, t_manifest_file_count = 0, t_manifest_total_size = 0,
      t_desired_active = True, t_admin_forced_active = False, t_desired_priority = Some 0,
      t_desired_download_limit = 0, t_schedule_generation = 0, t_created_at = 0, t_updated_at = 0\<rparr>"

definition ex_measured_state :: scheduler_state where
  "ex_measured_state =
     \<lparr>ss_lease_owner = None, ss_lease_expires_at = None, ss_desired_generation = 0,
      ss_applied_generation = 0, ss_rounds = 0, ss_cursor_user_id = None,
      ss_scan_cursor_created_at = None, ss_scan_cursor_id = None, ss_dynamic_current_active = 2,
      ss_dynamic_last_evaluated_at = None, ss_dynamic_cooldown_until = None,
      ss_dynamic_sampled_at = Some 0,
      ss_dynamic_sample_baseline = [(replicate 40 (CHR ''a''), 10), (replicate 40 (CHR ''b''), 0)],
      ss_dynamic_observed_bytes_per_second = 0, ss_dynamic_active_count = 0,
      ss_dynamic_waiting_count = 0, ss_dynamic_next_evaluation_at = None,
      ss_dynamic_last_decision = ''dynamic_idle_reset'', ss_updated_at = 0\<rparr>"

definition ex_waiting_candidate :: scheduler_candidate where
  "ex_waiting_candidate =
     \<lparr>torrent_id = 9, user_id = 7, remaining_bytes = 50, queued_at = Aware 0, user_weight = 1,
      stalled = False, beneficiary_user_ids = [], beneficiary_weights = []\<rparr>"

definition ex_dynamic_run :: "scheduler_state \<times> dynamic_concurrency_decision" where
  "ex_dynamic_run =
     apply_dynamic_concurrency ex_measured_state
       [ex_running_torrent 1 (CHR ''a'') 610, ex_running_torrent 2 (CHR ''b'') 600]
       [ex_waiting_candidate] ex_dynamic_config (seconds 60)"

theorem apply_dynamic_concurrency_bounds_witness:
  "dd_scaled_up (snd ex_dynamic_run) \<and> dd_active_limit (snd ex_dynamic_run) \<le> 4
   \<and> dd_active_limit (snd ex_dynamic_run) = ss_dynamic_current_active (fst ex_dynamic_run)
   \<and> ss_dynamic_observed_bytes_per_second (fst ex_dynamic_run) < 1000"
proof -
  have pre: "dynamic_ok ex_measured_state" "1 \<le> dc_step ex_dynamic_config"
    "0 \<le> dc_initial_active ex_dynamic_config"
    "dc_initial_active ex_dynamic_config \<le> dc_maximum_active ex_dynamic_config"
    "0 \<le> dc_static_active ex_dynamic_config" "dc_enabled ex_dynamic_config"
    "dc_maximum_active ex_dynamic_config = 4" "dc_minimum_bytes_per_second ex_dynamic_config = 1000"
    by (simp_all add: dynamic_ok_def ex_measured_state_def ex_dynamic_config_def)
  have two: "2 = int (length (filter running_torrent
      [ex_running_torrent 1 (CHR ''a'') 610, ex_running_torrent 2 (CHR ''b'') 600]))"
    by code_simp
  have scaled: "dd_scaled_up (snd ex_dynamic_run)" by code_simp
  have run: "apply_dynamic_concurrency ex_measured_state
       [ex_running_torrent 1 (CHR ''a'') 610, ex_running_torrent 2 (CHR ''b'') 600]
       [ex_waiting_candidate] ex_dynamic_config (seconds 60) = (fst ex_dynamic_run, snd ex_dynamic_run)"
    by (simp add: ex_dynamic_run_def)
  show ?thesis
    using apply_dynamic_concurrency_bounds [OF pre(1-5) refl two run] scaled pre(6-8) by simp
qed

end
