(* ===== verification/Manifest.thy ===== *)
theory Manifest
  imports Lifecycle
begin

text \<open>
  Torrent manifests of \<open>backend/app/torrents/manifest.py\<close>: the validated file list of a torrent, its
  versioned checksum and the stored rows. The digest \<open>sha256\<close> of the cryptographic library is an
  argument, as are the identifiers \<open>uuid4\<close> draws for the rows. The results are that the byte string
  that is hashed determines the file list, and that a manifest reads back page by page as written.
\<close>

section \<open>Entries\<close>

record torrent_content_file =
  cf_file_index :: int
  cf_relative_path :: pytext
  cf_size :: int

definition MAX_TORRENT_FILES :: int where "MAX_TORRENT_FILES = 100000"

definition MAX_MANIFEST_PAGE_SIZE :: int where "MAX_MANIFEST_PAGE_SIZE = 500"

text \<open>\<open>PurePosixPath\<close> of a relative path: empty and \<open>.\<close> components disappear, an empty path prints as \<open>.\<close>.\<close>

fun split_on :: "nat \<Rightarrow> pytext \<Rightarrow> pytext list" where
  "split_on c [] = [[]]"
| "split_on c (x # xs) =
     (if x = c then [] # split_on c xs
      else (case split_on c xs of [] \<Rightarrow> [[x]] | y # ys \<Rightarrow> (x # y) # ys))"

fun join_with :: "pytext \<Rightarrow> pytext list \<Rightarrow> pytext" where
  "join_with sep [] = []"
| "join_with sep [x] = x"
| "join_with sep (x # y # ys) = x @ sep @ join_with sep (y # ys)"

definition posix_parts :: "pytext \<Rightarrow> pytext list" where
  "posix_parts path = filter (\<lambda>c. c \<noteq> [] \<and> c \<noteq> lit ''.'') (split_on 47 path)"

definition as_posix :: "pytext list \<Rightarrow> pytext" where
  "as_posix parts = (if parts = [] then lit ''.'' else join_with [47] parts)"

definition path_ok :: "pytext \<Rightarrow> pytext list \<Rightarrow> bool" where
  "path_ok path paths \<longleftrightarrow>
     path \<noteq> [] \<and> int (length path) \<le> 4096 \<and> hd path \<noteq> 47 \<and> 92 \<notin> set path \<and> 0 \<notin> set path
     \<and> path = as_posix (posix_parts path)
     \<and> list_all (\<lambda>c. c \<notin> {[], lit ''.'', lit ''..''}) (posix_parts path)
     \<and> path \<notin> set paths"

fun validate_entries :: "torrent_content_file list \<Rightarrow> int \<Rightarrow> pytext list \<Rightarrow> int \<Rightarrow> app_error + unit" where
  "validate_entries [] expected_index paths acc = Inr ()"
| "validate_entries (entry # entries) expected_index paths acc =
     rbind (require (cf_file_index entry = expected_index)
              (TorrentManifestError ''manifest indexes must be contiguous'')) (\<lambda>_.
     rbind (require (path_ok (cf_relative_path entry) paths)
              (TorrentManifestError ''manifest path is invalid'')) (\<lambda>_.
     rbind (require (0 \<le> cf_size entry \<and> cf_size entry \<le> MAX_BIGINT)
              (TorrentManifestError ''manifest size is invalid'')) (\<lambda>_.
     rbind (require (acc + cf_size entry \<le> MAX_BIGINT)
              (TorrentManifestError ''manifest total is invalid'')) (\<lambda>_.
     validate_entries entries (expected_index + 1) (cf_relative_path entry # paths)
       (acc + cf_size entry)))))"

definition validated_entries ::
  "torrent_content_file list \<Rightarrow> app_error + torrent_content_file list" where
  "validated_entries files =
     rbind (require (files \<noteq> [] \<and> int (length files) \<le> MAX_TORRENT_FILES)
              (TorrentManifestError ''manifest file count is invalid'')) (\<lambda>_.
     rbind (validate_entries files 0 [] 0) (\<lambda>_. Inr files))"

section \<open>Checksum\<close>

text \<open>The fixed-width fields are big-endian.\<close>

fun to_bytes :: "nat \<Rightarrow> nat \<Rightarrow> string" where
  "to_bytes 0 n = []"
| "to_bytes (Suc w) n = to_bytes w (n div 256) @ [char_of (n mod 256)]"

definition entry_bytes :: "torrent_content_file \<Rightarrow> string" where
  "entry_bytes e =
     to_bytes 8 (nat (cf_file_index e)) @ to_bytes 8 (nat (cf_size e))
     @ to_bytes 4 (length (utf8 (cf_relative_path e))) @ utf8 (cf_relative_path e)"

definition hashed_bytes :: "torrent_content_file list \<Rightarrow> string" where
  "hashed_bytes entries =
     ''world-of-seeds-v2-manifest'' @ [CHR 0x00] @ concat (map entry_bytes entries)"

text \<open>The bytes given to the digest; \<open>UnicodeEncodeError\<close> is a \<open>ValueError\<close>.\<close>

definition checksum_input :: "torrent_content_file list \<Rightarrow> app_error + string" where
  "checksum_input entries =
     (if list_all (\<lambda>e. encodable (cf_relative_path e)) entries then Inr (hashed_bytes entries)
      else Inl (Py (ValueError ''surrogates not allowed'')))"

definition checksum :: "(string \<Rightarrow> string) \<Rightarrow> torrent_content_file list \<Rightarrow> app_error + string" where
  "checksum sha256 entries = rbind (checksum_input entries) (\<lambda>b. Inr (sha256 b))"

section \<open>Writing\<close>

record torrent_manifest_write_result =
  mw_version :: int
  mw_checksum :: string
  mw_file_count :: int
  mw_total_size :: int
  mw_changed :: bool

definition manifest_files :: "uuid \<Rightarrow> db \<Rightarrow> torrent_file list" where
  "manifest_files torrent_id d = filter (\<lambda>f. f_managed_torrent_id f = torrent_id) (db_files d)"

definition file_row :: "uuid \<Rightarrow> uuid \<times> torrent_content_file \<Rightarrow> torrent_file" where
  "file_row torrent_id = (\<lambda>(i, e).
     \<lparr>f_id = i, f_managed_torrent_id = torrent_id, f_file_index = cf_file_index e,
      f_relative_path = cf_relative_path e, f_size = cf_size e\<rparr>)"

definition manifest_current ::
  "managed_torrent \<Rightarrow> string \<Rightarrow> torrent_content_file list \<Rightarrow> int \<Rightarrow> db \<Rightarrow> bool" where
  "manifest_current t digest entries total_size d \<longleftrightarrow>
     1 \<le> t_manifest_version t \<and> t_manifest_checksum t = Some digest
     \<and> t_manifest_file_count t = int (length entries) \<and> t_manifest_total_size t = total_size
     \<and> length (manifest_files (t_id t) d) = length entries"

definition manifest_torrent ::
  "string \<Rightarrow> int \<Rightarrow> int \<Rightarrow> instant \<Rightarrow> managed_torrent \<Rightarrow> managed_torrent" where
  "manifest_torrent digest file_count total_size now t =
     t\<lparr>t_manifest_version := t_manifest_version t + 1, t_manifest_checksum := Some digest,
       t_manifest_file_count := file_count, t_manifest_total_size := total_size, t_updated_at := now\<rparr>"

definition replace_rows ::
  "(nat \<Rightarrow> uuid) \<Rightarrow> uuid \<Rightarrow> torrent_content_file list \<Rightarrow> db \<Rightarrow> app_error + db" where
  "replace_rows fresh torrent_id entries d =
     (let others = filter (\<lambda>f. f_managed_torrent_id f \<noteq> torrent_id) (db_files d);
          rows = map (file_row torrent_id) (zip (map fresh [0..<length entries]) entries)
      in if distinct (map f_id (others @ rows)) then Inr (d\<lparr>db_files := others @ rows\<rparr>)
         else Inl IntegrityError)"

definition replace_torrent_manifest ::
  "(string \<Rightarrow> string) \<Rightarrow> (nat \<Rightarrow> uuid) \<Rightarrow> uuid \<Rightarrow> torrent_content_file list \<Rightarrow> instant \<Rightarrow> db
     \<Rightarrow> app_error + db \<times> torrent_manifest_write_result" where
  "replace_torrent_manifest sha256 fresh torrent_id files now d =
     rbind (validated_entries files) (\<lambda>entries.
     rbind (checksum sha256 entries) (\<lambda>digest.
     let total_size = (\<Sum>e\<leftarrow>entries. cf_size e) in
     case find_row t_id torrent_id (db_torrents d) of
       None \<Rightarrow> Inl (TorrentManifestError ''managed torrent is missing'')
     | Some t \<Rightarrow>
         rbind (require (total_size = t_total_size t)
                  (TorrentManifestError ''manifest total does not match the managed torrent'')) (\<lambda>_.
         if manifest_current t digest entries total_size d
         then Inr (d, \<lparr>mw_version = t_manifest_version t, mw_checksum = digest,
                       mw_file_count = int (length entries), mw_total_size = total_size,
                       mw_changed = False\<rparr>)
         else
           rbind (replace_rows fresh torrent_id entries d) (\<lambda>d'.
           let t' = manifest_torrent digest (int (length entries)) total_size now t
           in Inr (put_torrent t' d',
                   \<lparr>mw_version = t_manifest_version t', mw_checksum = digest,
                    mw_file_count = int (length entries), mw_total_size = total_size,
                    mw_changed = True\<rparr>)))))"

section \<open>Reading\<close>

record torrent_manifest_page =
  mp_managed_torrent_id :: uuid
  mp_version :: int
  mp_checksum :: string
  mp_file_count :: int
  mp_total_size :: int
  mp_offset :: int
  mp_limit :: int
  mp_items :: "torrent_content_file list"

definition content_file :: "torrent_file \<Rightarrow> torrent_content_file" where
  "content_file f =
     \<lparr>cf_file_index = f_file_index f, cf_relative_path = f_relative_path f, cf_size = f_size f\<rparr>"

definition list_torrent_manifest ::
  "uuid \<Rightarrow> int \<Rightarrow> int \<Rightarrow> int option \<Rightarrow> db \<Rightarrow> app_error + torrent_manifest_page" where
  "list_torrent_manifest torrent_id offset limit expected_version d =
     rbind (require (0 \<le> offset) (TorrentManifestError ''manifest offset is invalid'')) (\<lambda>_.
     rbind (require (1 \<le> limit \<and> limit \<le> MAX_MANIFEST_PAGE_SIZE)
              (TorrentManifestError ''manifest limit is invalid'')) (\<lambda>_.
     rbind (require (case expected_version of None \<Rightarrow> True | Some v \<Rightarrow> 1 \<le> v)
              (TorrentManifestError ''manifest version is invalid'')) (\<lambda>_.
     case find_row t_id torrent_id (db_torrents d) of
       None \<Rightarrow> Inl (TorrentManifestUnavailableError ''torrent manifest is unavailable'')
     | Some t \<Rightarrow>
         (case t_manifest_checksum t of
            None \<Rightarrow> Inl (TorrentManifestUnavailableError ''torrent manifest is unavailable'')
          | Some digest \<Rightarrow>
              rbind (require (1 \<le> t_manifest_version t)
                       (TorrentManifestUnavailableError ''torrent manifest is unavailable'')) (\<lambda>_.
              rbind (require (case expected_version of None \<Rightarrow> True | Some v \<Rightarrow> v = t_manifest_version t)
                       (TorrentManifestChangedError ''torrent manifest changed'')) (\<lambda>_.
              let rows = take (nat limit) (drop (nat offset)
                    (sort_key f_file_index (manifest_files torrent_id d)));
                  expected_items = min limit (max 0 (t_manifest_file_count t - offset))
              in rbind (require (int (length rows) = expected_items)
                          (TorrentManifestChangedError ''torrent manifest rows changed'')) (\<lambda>_.
                 Inr \<lparr>mp_managed_torrent_id = torrent_id, mp_version = t_manifest_version t,
                      mp_checksum = digest, mp_file_count = t_manifest_file_count t,
                      mp_total_size = t_manifest_total_size t, mp_offset = offset,
                      mp_limit = limit, mp_items = map content_file rows\<rparr>))))))) "

section \<open>The hashed bytes determine the list\<close>

lemma length_to_bytes [simp]: "length (to_bytes w n) = w"
  by (induction w arbitrary: n) auto

lemma to_bytes_inject:
  "m < 256 ^ w \<Longrightarrow> n < 256 ^ w \<Longrightarrow> to_bytes w m = to_bytes w n \<Longrightarrow> m = n"
proof (induction w arbitrary: m n)
  case (Suc w)
  have "m div 256 < 256 ^ w" "n div 256 < 256 ^ w"
    using Suc.prems(1,2) by (simp_all add: less_mult_imp_div_less mult.commute)
  moreover have "to_bytes w (m div 256) = to_bytes w (n div 256)" "m mod 256 = n mod 256"
    using Suc.prems(3) by (simp_all add: char_of_eq_iff take_bit_eq_mod)
  ultimately have "m div 256 = n div 256" using Suc.IH by blast
  then show ?case using \<open>m mod 256 = n mod 256\<close> by (metis div_mult_mod_eq)
qed simp

definition entry_fits :: "torrent_content_file \<Rightarrow> bool" where
  "entry_fits e \<longleftrightarrow>
     0 \<le> cf_file_index e \<and> cf_file_index e < 2 ^ 64 \<and> 0 \<le> cf_size e \<and> cf_size e < 2 ^ 64
     \<and> length (utf8 (cf_relative_path e)) < 2 ^ 32"

lemma entry_bytes_prefix_free:
  assumes "entry_bytes e @ x = entry_bytes e' @ y" "entry_fits e" "entry_fits e'"
    and "encodable (cf_relative_path e)" "encodable (cf_relative_path e')"
  shows "e = e' \<and> x = y"
proof -
  have "to_bytes 8 (nat (cf_file_index e)) = to_bytes 8 (nat (cf_file_index e'))"
    "to_bytes 8 (nat (cf_size e)) = to_bytes 8 (nat (cf_size e'))"
    and len: "to_bytes 4 (length (utf8 (cf_relative_path e))) = to_bytes 4 (length (utf8 (cf_relative_path e')))"
    and rest: "utf8 (cf_relative_path e) @ x = utf8 (cf_relative_path e') @ y"
    using assms(1) by (simp_all add: entry_bytes_def)
  then have "nat (cf_file_index e) = nat (cf_file_index e')" "nat (cf_size e) = nat (cf_size e')"
    using assms(2,3) by (auto simp: entry_fits_def nat_less_iff intro!: to_bytes_inject)
  moreover have "length (utf8 (cf_relative_path e)) = length (utf8 (cf_relative_path e'))"
    using len assms(2,3) by (auto simp: entry_fits_def intro!: to_bytes_inject)
  then have "cf_relative_path e = cf_relative_path e'" "x = y"
    using rest by (simp_all add: utf8_inject [OF assms(4,5)])
  ultimately show ?thesis using assms(2,3) by (auto simp: entry_fits_def)
qed

lemma entry_bytes_nonempty [simp]: "entry_bytes e \<noteq> []"
  by (auto simp: entry_bytes_def simp flip: length_0_conv)

lemma entries_inject:
  assumes "concat (map entry_bytes es) = concat (map entry_bytes es')"
    "list_all entry_fits es" "list_all entry_fits es'"
    "list_all (\<lambda>e. encodable (cf_relative_path e)) es" "list_all (\<lambda>e. encodable (cf_relative_path e)) es'"
  shows "es = es'"
  using assms
proof (induction es arbitrary: es')
  case Nil
  then show ?case by (cases es') simp_all
next
  case (Cons e es)
  then obtain e' t where es': "es' = e' # t" by (cases es') simp_all
  have "e = e' \<and> concat (map entry_bytes es) = concat (map entry_bytes t)"
    using entry_bytes_prefix_free [of e "concat (map entry_bytes es)" e' "concat (map entry_bytes t)"] Cons.prems es'
    by simp
  then show ?case using Cons.IH [of t] Cons.prems es' by simp
qed

lemma validate_entries_fits:
  assumes "validate_entries es i paths n = Inr ()" "0 \<le> i" "i + int (length es) \<le> 2 ^ 63"
  shows "list_all entry_fits es \<and> map cf_file_index es = map (\<lambda>k. i + int k) [0..<length es]
     \<and> distinct (map cf_relative_path es)
     \<and> set (map cf_relative_path es) \<inter> set paths = {}"
  using assms
proof (induction es i paths n rule: validate_entries.induct)
  case (2 e es i paths n)
  have ok: "cf_file_index e = i" "path_ok (cf_relative_path e) paths" "0 \<le> cf_size e" "cf_size e \<le> MAX_BIGINT"
    "n + cf_size e \<le> MAX_BIGINT" "validate_entries es (i + 1) (cf_relative_path e # paths) (n + cf_size e) = Inr ()"
    using 2(2) by (auto simp: rbind_Inr_iff require_Inr_iff)
  have "length (utf8 (cf_relative_path e)) < 2 ^ 32"
    using encoded_length_bound [of "cf_relative_path e"] ok(2) by (simp add: path_ok_def length_utf8)
  then have fits: "entry_fits e" using ok 2(3,4) by (simp add: entry_fits_def MAX_BIGINT_def)
  have ih: "list_all entry_fits es \<and> map cf_file_index es = map (\<lambda>k. i + 1 + int k) [0..<length es]
     \<and> distinct (map cf_relative_path es)
     \<and> set (map cf_relative_path es) \<inter> set (cf_relative_path e # paths) = {}"
    using 2(1) [of "()" "()" "()" "()"] ok 2(3,4) by simp
  have idx: "map cf_file_index (e # es) = map (\<lambda>k. i + int k) [0..<length (e # es)]"
  proof -
    have "[0..<length (e # es)] = 0 # map Suc [0..<length es]" by (simp add: map_Suc_upt upt_conv_Cons del: upt_Suc)
    then show ?thesis using ih ok(1) by (simp add: comp_def del: upt_Suc)
  qed
  show ?case using fits ih idx ok(2) by (auto simp: path_ok_def simp del: upt_Suc)
qed simp

lemma validated_entries_props:
  assumes "validated_entries files = Inr es"
  shows "es = files" "files \<noteq> []" "list_all entry_fits files"
    "map cf_file_index files = map int [0..<length files]" "distinct (map cf_relative_path files)"
proof -
  from assms show "es = files" "files \<noteq> []"
    by (auto simp: validated_entries_def rbind_Inr_iff require_Inr_iff)
  have "validate_entries files 0 [] 0 = Inr ()" "int (length files) \<le> 2 ^ 63"
    using assms by (auto simp: validated_entries_def rbind_Inr_iff require_Inr_iff MAX_TORRENT_FILES_def)
  then show "list_all entry_fits files" "map cf_file_index files = map int [0..<length files]"
    "distinct (map cf_relative_path files)"
    using validate_entries_fits [of files 0 "[]" 0] by simp_all
qed

lemma checksum_input_Inr:
  "checksum_input es = Inr b \<longleftrightarrow> list_all (\<lambda>e. encodable (cf_relative_path e)) es \<and> b = hashed_bytes es"
  by (auto simp: checksum_input_def)

lemma hashed_bytes_inject:
  assumes "validated_entries files = Inr es" "validated_entries files' = Inr es'"
    and "checksum_input files = Inr b" "checksum_input files' = Inr b'" "b = b'"
  shows "files = files'"
proof (rule entries_inject)
  show "concat (map entry_bytes files) = concat (map entry_bytes files')"
    using assms(3-5) unfolding checksum_input_Inr hashed_bytes_def by simp
  show "list_all entry_fits files" by (rule validated_entries_props(3) [OF assms(1)])
  show "list_all entry_fits files'" by (rule validated_entries_props(3) [OF assms(2)])
qed (use assms(3,4) in \<open>simp_all only: checksum_input_Inr\<close>)

text \<open>
  C38: The checksum identifies the manifest: two accepted file lists that hash the same bytes are the
  same list, because the fields are of fixed width, each path is preceded by the length of its
  UTF-8 encoding, and UTF-8 can be decoded. A collision of manifests is therefore a collision of the
  digest itself.\<close>

theorem checksum_input_injective:
  assumes "validated_entries files = Inr es" "validated_entries files' = Inr es'"
    and "checksum_input es = Inr b" "checksum_input es' = Inr b'"
  shows "b = b' \<longleftrightarrow> files = files'"
  using hashed_bytes_inject [OF assms(1,2), of b b'] assms(3,4)
    validated_entries_props(1) [OF assms(1)] validated_entries_props(1) [OF assms(2)] by auto

definition ex_files :: "torrent_content_file list" where
  "ex_files =
     [\<lparr>cf_file_index = 0, cf_relative_path = lit ''n/a'', cf_size = 40\<rparr>,
      \<lparr>cf_file_index = 1, cf_relative_path = lit ''n/b/c'', cf_size = 20\<rparr>]"

lemma ex_files_valid: "validated_entries ex_files = Inr ex_files"
  by code_simp

lemma ex_files_input: "checksum_input ex_files = Inr (hashed_bytes ex_files)"
  by (simp add: checksum_input_def ex_files_def lit_def)

text \<open>A path with a character of three bytes, U+20AC.\<close>

definition ex_euro :: "torrent_content_file list" where
  "ex_euro = [\<lparr>cf_file_index = 0, cf_relative_path = [0x20AC], cf_size = 60\<rparr>]"

theorem checksum_input_injective_witness:
  "utf8 [0x20AC] = map char_of [226, 130, 172 :: nat] \<and> hashed_bytes ex_files \<noteq> hashed_bytes ex_euro"
proof -
  have v: "validated_entries ex_euro = Inr ex_euro"
    by (simp add: ex_euro_def validated_entries_def path_ok_def posix_parts_def as_posix_def lit_def
        require_def MAX_TORRENT_FILES_def MAX_BIGINT_def)
  have b: "checksum_input ex_euro = Inr (hashed_bytes ex_euro)" by (simp add: checksum_input_def ex_euro_def)
  have "utf8 [0x20AC] = map char_of [226, 130, 172 :: nat]" by (simp add: utf8_def utf8_char_def)
  moreover have "ex_files \<noteq> ex_euro" by (simp add: ex_files_def ex_euro_def)
  ultimately show ?thesis using checksum_input_injective [OF ex_files_valid v ex_files_input b] by blast
qed

section \<open>A manifest reads back as written\<close>

text \<open>
  \<open>manifest_rows_ok\<close>: the rows of a torrent with a manifest are an accepted file list, in any order,
  and the stored checksum is that of the list.
\<close>

definition manifest_entries :: "uuid \<Rightarrow> db \<Rightarrow> torrent_content_file list" where
  "manifest_entries torrent_id d =
     map content_file (sort_key f_file_index (manifest_files torrent_id d))"

definition manifest_rows_ok :: "(string \<Rightarrow> string) \<Rightarrow> db \<Rightarrow> managed_torrent \<Rightarrow> bool" where
  "manifest_rows_ok sha256 d t \<longleftrightarrow>
     (1 \<le> t_manifest_version t \<longrightarrow>
        validated_entries (manifest_entries (t_id t) d) = Inr (manifest_entries (t_id t) d)
        \<and> map_option Inr (t_manifest_checksum t) = Some (checksum sha256 (manifest_entries (t_id t) d))
        \<and> t_manifest_file_count t = int (length (manifest_entries (t_id t) d)))"

lemma content_file_row [simp]: "content_file (file_row k (i, e)) = e"
  by (simp add: content_file_def file_row_def)

lemma sort_rows:
  assumes "map cf_file_index es = map int [0..<length es]"
  shows "map content_file (sort_key f_file_index (map (file_row k) (zip ids es)))
    = map snd (zip ids es)"
proof -
  let ?rows = "map (file_row k) (zip ids es)"
  have "map f_file_index ?rows = take (length ids) (map cf_file_index es)"
  proof -
    have "map f_file_index ?rows = map (\<lambda>p. cf_file_index (snd p)) (zip ids es)"
      by (auto simp: file_row_def)
    also have "\<dots> = map cf_file_index (map snd (zip ids es))" by simp
    also have "\<dots> = take (length ids) (map cf_file_index es)"
      by (simp add: map_snd_zip_take take_map min_def)
    finally show ?thesis .
  qed
  then have "sorted (map f_file_index ?rows)"
    using assms by (simp add: sorted_map sorted_wrt_take take_map sorted_wrt_map)
  then have "sort_key f_file_index ?rows = ?rows" by (rule sort_key_id_if_sorted)
  then show ?thesis by (simp add: comp_def case_prod_unfold) (auto simp: content_file_def file_row_def)
qed

lemma replace_rows_props:
  assumes "replace_rows fresh k es d = Inr d'" "map cf_file_index es = map int [0..<length es]"
  shows "manifest_entries k d' = es" "db_torrents d' = db_torrents d" "db_requests d' = db_requests d"
    "k' \<noteq> k \<Longrightarrow> manifest_files k' d' = manifest_files k' d"
proof -
  define rows where "rows = map (file_row k) (zip (map fresh [0..<length es]) es)"
  have d': "d' = d\<lparr>db_files := filter (\<lambda>f. f_managed_torrent_id f \<noteq> k) (db_files d) @ rows\<rparr>"
    using assms(1) by (simp add: replace_rows_def Let_def rows_def split: if_splits)
  have k: "f_managed_torrent_id f = k" if "f \<in> set rows" for f
    using that by (auto simp: rows_def file_row_def)
  have "filter (\<lambda>f. f_managed_torrent_id f = k) rows = rows" using k by (simp add: filter_id_conv)
  then have "manifest_files k d' = rows" by (simp add: manifest_files_def d')
  then show "manifest_entries k d' = es"
    using sort_rows [OF assms(2), of k "map fresh [0..<length es]"] by (simp add: manifest_entries_def rows_def)
  show "db_torrents d' = db_torrents d" "db_requests d' = db_requests d" by (simp_all add: d')
  have "filter (\<lambda>f. f_managed_torrent_id f = k') rows = []" if "k' \<noteq> k"
    using k that by (auto simp: filter_empty_conv)
  then show "k' \<noteq> k \<Longrightarrow> manifest_files k' d' = manifest_files k' d"
    by (auto simp: manifest_files_def d' intro: filter_cong)
qed

lemma manifest_entries_cong: "db_files d' = db_files d \<Longrightarrow> manifest_entries k d' = manifest_entries k d"
  by (simp add: manifest_entries_def manifest_files_def)

lemma replace_cases:
  assumes "replace_torrent_manifest sha fresh k files now d = Inr (d', w)"
  obtains (current) t c where "validated_entries files = Inr files" "find_row t_id k (db_torrents d) = Some t"
      "checksum sha files = Inr c" "manifest_current t c files (\<Sum>e\<leftarrow>files. cf_size e) d" "d' = d"
      "mw_version w = t_manifest_version t" "mw_checksum w = c"
  | (written) t c d1 where "validated_entries files = Inr files" "find_row t_id k (db_torrents d) = Some t"
      "checksum sha files = Inr c" "replace_rows fresh k files d = Inr d1"
      "d' = put_torrent (manifest_torrent c (int (length files)) (\<Sum>e\<leftarrow>files. cf_size e) now t) d1"
      "mw_version w = t_manifest_version t + 1" "mw_checksum w = c"
      "\<not> manifest_current t c files (\<Sum>e\<leftarrow>files. cf_size e) d"
proof -
  obtain es c where v0: "validated_entries files = Inr es" "checksum sha es = Inr c"
    using assms unfolding replace_torrent_manifest_def rbind_Inr_iff by blast
  have v: "validated_entries files = Inr files" and c: "checksum sha files = Inr c"
    using v0 validated_entries_props(1) [OF v0(1)] by simp_all
  obtain t where t: "find_row t_id k (db_torrents d) = Some t"
    using assms v c by (auto simp: replace_torrent_manifest_def Let_def split: option.splits)
  show thesis
  proof (cases "manifest_current t c files (\<Sum>e\<leftarrow>files. cf_size e) d")
    case True
    then have "d' = d" "mw_version w = t_manifest_version t" "mw_checksum w = c"
      using assms v t c by (auto simp: replace_torrent_manifest_def rbind_Inr_iff Let_def)
    then show thesis by (rule current [OF v t c True])
  next
    case False
    then obtain d1 where d1: "replace_rows fresh k files d = Inr d1"
      "d' = put_torrent (manifest_torrent c (int (length files)) (\<Sum>e\<leftarrow>files. cf_size e) now t) d1"
      "mw_version w = t_manifest_version t + 1" "mw_checksum w = c"
      using assms v t c
      by (auto simp: replace_torrent_manifest_def rbind_Inr_iff Let_def manifest_torrent_def)
    from written [OF v t c d1 False] show thesis .
  qed
qed

lemma manifest_entries_page:
  "map content_file (take n (drop m (sort_key f_file_index (manifest_files k d))))
     = take n (drop m (manifest_entries k d))"
  by (simp add: manifest_entries_def take_map drop_map)

lemma list_manifest_run:
  assumes "find_row t_id k (db_torrents d) = Some t" "t_manifest_checksum t = Some c"
    "1 \<le> t_manifest_version t" "t_manifest_file_count t = int (length (manifest_entries k d))"
    "0 \<le> offset" "1 \<le> limit" "limit \<le> 500"
  shows "\<exists>page. list_torrent_manifest k offset limit (Some (t_manifest_version t)) d = Inr page
    \<and> mp_items page = take (nat limit) (drop (nat offset) (manifest_entries k d))
    \<and> mp_file_count page = int (length (manifest_entries k d)) \<and> mp_checksum page = c"
proof -
  define rows where "rows = sort_key f_file_index (manifest_files k d)"
  have len: "length rows = length (manifest_entries k d)" by (simp add: rows_def manifest_entries_def)
  have "int (length (take (nat limit) (drop (nat offset) rows)))
      = min limit (max 0 (t_manifest_file_count t - offset))"
  proof -
    obtain m n where "offset = int m" "limit = int n" using assms(5,6) by (metis nonneg_int_cases order.trans zero_le_one)
    then show ?thesis using assms(4) by (simp add: len [symmetric] of_nat_diff min_def max_def) linarith
  qed
  then show ?thesis
    using assms manifest_entries_page [of "nat limit" "nat offset" k d]
    by (simp add: list_torrent_manifest_def require_def MAX_MANIFEST_PAGE_SIZE_def Let_def rows_def)
qed

text \<open>
  The life of the manifest of the torrent \<open>k\<close>: it has none at first (and again after a purge, which
  resets the version and deletes the rows), then file lists are written, of this torrent or of others,
  between transactions that touch neither its manifest columns nor its rows.
\<close>

definition manifest_columns :: "managed_torrent \<Rightarrow> int \<times> string option \<times> int \<times> int" where
  "manifest_columns t =
     (t_manifest_version t, t_manifest_checksum t, t_manifest_file_count t, t_manifest_total_size t)"

definition manifest_kept :: "uuid \<Rightarrow> db \<Rightarrow> db \<Rightarrow> bool" where
  "manifest_kept k d d' \<longleftrightarrow>
     manifest_files k d' = manifest_files k d
     \<and> map_option manifest_columns (find_row t_id k (db_torrents d'))
         = map_option manifest_columns (find_row t_id k (db_torrents d))"

definition no_manifest :: "uuid \<Rightarrow> db \<Rightarrow> bool" where
  "no_manifest k d \<longleftrightarrow>
     (case find_row t_id k (db_torrents d) of None \<Rightarrow> True | Some t \<Rightarrow> t_manifest_version t = 0)"

inductive manifest_life :: "(string \<Rightarrow> string) \<Rightarrow> uuid \<Rightarrow> db \<Rightarrow> bool" for sha256 k where
  life_start: "no_manifest k d \<Longrightarrow> manifest_life sha256 k d"
| life_write: "manifest_life sha256 k d \<Longrightarrow>
     replace_torrent_manifest sha256 fresh k' files now d = Inr (d', w) \<Longrightarrow> manifest_life sha256 k d'"
| life_kept: "manifest_life sha256 k d \<Longrightarrow> manifest_kept k d d' \<Longrightarrow> manifest_life sha256 k d'"

lemma manifest_columns_simps:
  "manifest_columns t = manifest_columns t' \<longleftrightarrow>
     t_manifest_version t = t_manifest_version t' \<and> t_manifest_checksum t = t_manifest_checksum t'
     \<and> t_manifest_file_count t = t_manifest_file_count t' \<and> t_manifest_total_size t = t_manifest_total_size t'"
  by (simp add: manifest_columns_def)

lemma manifest_rows_kept:
  assumes "manifest_kept k d d'" "find_row t_id k (db_torrents d') = Some t'"
    and "\<And>t. find_row t_id k (db_torrents d) = Some t \<Longrightarrow> manifest_rows_ok sha256 d t"
  shows "manifest_rows_ok sha256 d' t'"
proof -
  obtain t where t: "find_row t_id k (db_torrents d) = Some t" "manifest_columns t' = manifest_columns t"
    using assms(1,2) by (cases "find_row t_id k (db_torrents d)") (auto simp: manifest_kept_def)
  have "t_id t = k" "t_id t' = k" using find_row_SomeD(1) [OF t(1)] find_row_SomeD(1) [OF assms(2)] by simp_all
  moreover have "manifest_entries k d' = manifest_entries k d"
    using assms(1) by (simp add: manifest_kept_def manifest_entries_def)
  ultimately show ?thesis
    using assms(3) [OF t(1)] t(2) by (simp add: manifest_rows_ok_def manifest_columns_simps)
qed

text \<open>A write leaves the manifest of another torrent alone and establishes its own.\<close>

lemma written_manifest:
  assumes "find_row t_id k (db_torrents d) = Some t" "replace_rows fresh k files d = Inr d1"
    and "validated_entries files = Inr files" "checksum sha256 files = Inr c"
    and d': "d' = put_torrent (manifest_torrent c (int (length files)) n now t) d1"
  shows "find_row t_id k (db_torrents d') = Some (manifest_torrent c (int (length files)) n now t)"
    "manifest_entries k d' = files"
    "manifest_rows_ok sha256 d' (manifest_torrent c (int (length files)) n now t)"
    "k' \<noteq> k \<Longrightarrow> manifest_kept k' d d'"
proof -
  let ?t = "manifest_torrent c (int (length files)) n now t"
  note p = replace_rows_props [OF assms(2) validated_entries_props(4) [OF assms(3)]]
  have id: "t_id ?t = k" "t_id t = k" using find_row_SomeD(1) [OF assms(1)] by (simp_all add: manifest_torrent_def)
  show "find_row t_id k (db_torrents d') = Some ?t"
    using find_row_put_row [of t_id k ?t "db_torrents d"] assms(1) p(2) by (simp add: d' put_torrent_def id)
  show ent: "manifest_entries k d' = files"
    using p(1) manifest_entries_cong [of d' d1] by (simp add: d' put_torrent_def)
  then show "manifest_rows_ok sha256 d' ?t"
    using assms(3,4) by (simp add: manifest_rows_ok_def manifest_torrent_def id [unfolded manifest_torrent_def])
  show "manifest_kept k' d d'" if "k' \<noteq> k"
    using that p(2,4) find_row_put_row [of t_id k' ?t "db_torrents d"] id
    by (simp add: manifest_kept_def d' put_torrent_def manifest_files_def)
qed

lemma manifest_life_rows:
  assumes "manifest_life sha256 k d" "find_row t_id k (db_torrents d) = Some t"
  shows "manifest_rows_ok sha256 d t"
  using assms
proof (induction arbitrary: t rule: manifest_life.induct)
  case (life_start d)
  then show ?case by (simp add: no_manifest_def manifest_rows_ok_def)
next
  case (life_write d fresh k' files now d' w)
  from life_write.hyps(2) show ?case
  proof (cases rule: replace_cases)
    case current
    then show ?thesis using life_write.IH life_write.prems by simp
  next
    case (written t0 c d1)
    note w = written_manifest [OF written(2,4,1,3,5)]
    show ?thesis
    proof (cases "k' = k")
      case True
      then show ?thesis using w(1,3) life_write.prems by simp
    next
      case False
      then show ?thesis using manifest_rows_kept [OF w(4) life_write.prems life_write.IH] by blast
    qed
  qed
next
  case (life_kept d d')
  show ?case by (rule manifest_rows_kept [OF life_kept.hyps(2) life_kept.prems life_kept.IH])
qed

text \<open>
  C39: Round trip of a manifest. Whatever file lists were written before, in any number and order,
  after a successful write of a list every page read at the returned version is exactly the
  corresponding slice of that list, in order, under the returned checksum: also when the write found
  the manifest current and left the rows alone. The rows and manifest columns of the torrent must have
  been written by manifest writes only, from a version of zero (a new row, or the reset of a purge),
  which is how the code touches them, and the digest must not collide on the list stored and the list
  written.\<close>

theorem torrent_manifest_round_trip:
  assumes "distinct (map t_id (db_torrents d))" "t \<in> set (db_torrents d)" "torrent_check t"
    and life: "manifest_life sha256 (t_id t) d"
    and no_collision: "sha256 (hashed_bytes (manifest_entries (t_id t) d)) = sha256 (hashed_bytes files) \<Longrightarrow>
           hashed_bytes (manifest_entries (t_id t) d) = hashed_bytes files"
    and "replace_torrent_manifest sha256 fresh (t_id t) files now d = Inr (d', w)"
    and "0 \<le> offset" "1 \<le> limit" "limit \<le> 500"
  shows "case list_torrent_manifest (t_id t) offset limit (Some (mw_version w)) d' of
      Inl e \<Rightarrow> False
    | Inr page \<Rightarrow> mp_items page = take (nat limit) (drop (nat offset) files)
        \<and> mp_file_count page = int (length files) \<and> mp_checksum page = mw_checksum w"
proof -
  have row: "find_row t_id (t_id t) (db_torrents d) = Some t"
    using find_row_Some_iff [OF assms(1)] assms(2) by blast
  note rows = manifest_life_rows [OF life row]
  from assms(6) show ?thesis
  proof (cases rule: replace_cases)
    case (current t0 c)
    have t0: "t0 = t" using current(2) row by simp
    have cur: "1 \<le> t_manifest_version t" "t_manifest_checksum t = Some c"
      using current(4) by (simp_all add: manifest_current_def t0)
    let ?es = "manifest_entries (t_id t) d"
    have ok: "validated_entries ?es = Inr ?es" "checksum sha256 ?es = Inr c"
      "t_manifest_file_count t = int (length ?es)"
      using rows cur by (simp_all add: manifest_rows_ok_def)
    have inputs: "checksum_input ?es = Inr (hashed_bytes ?es)" "checksum_input files = Inr (hashed_bytes files)"
      "sha256 (hashed_bytes ?es) = sha256 (hashed_bytes files)"
      using ok(2) current(3) by (auto simp: checksum_def checksum_input_def split: if_splits)
    have same: "?es = files"
      by (rule hashed_bytes_inject [OF ok(1) current(1) inputs(1,2)]) (rule no_collision [OF inputs(3)])
    show ?thesis
      using list_manifest_run [OF row cur(2,1) ok(3) assms(7-9)] current(5-7) same by (auto simp: t0)
  next
    case (written t0 c d1)
    have t0: "t0 = t" using written(2) row by simp
    note w = written_manifest [OF written(2,4,1,3,5)]
    let ?t = "manifest_torrent c (int (length files)) (\<Sum>e\<leftarrow>files. cf_size e) now t0"
    have ver: "t_manifest_version ?t = mw_version w" "1 \<le> t_manifest_version ?t"
      using assms(3) written(6) by (simp_all add: manifest_torrent_def t0 torrent_check_def)
    show ?thesis
      using list_manifest_run [OF w(1) _ ver(2) _ assms(7-9), of c] written(7) ver(1) w(2)
      by (auto simp: manifest_torrent_def)
  qed
qed

definition ex_manifest_torrent :: managed_torrent where
  "ex_manifest_torrent =
     \<lparr>t_id = 40, t_info_hash = replicate 40 (CHR ''a''), t_storage_key = 41, t_name = ''n'',
      t_total_size = 60, t_state = ADDING, t_qb_state = None, t_progress = 0,
      t_tracker_account_ref = None, t_qbittorrent_account_ref = None, t_retry_at = None,
      t_last_progress_at = None, t_last_downloaded_bytes = None, t_stall_count = 0,
      t_scheduler_retry_at = None, t_purge_after = None, t_ready_at = None,
      t_retention_expires_at = None, t_purge_stop_pending = False, t_lifecycle_generation = 0,
      t_manifest_version = 0, t_manifest_checksum = None, t_manifest_file_count = 0,
      t_manifest_total_size = 0, t_desired_active = False, t_admin_forced_active = False,
      t_desired_priority = None, t_desired_download_limit = 0, t_schedule_generation = 0,
      t_created_at = 0, t_updated_at = 0\<rparr>"

definition ex_manifest_db :: db where
  "ex_manifest_db = empty_db\<lparr>db_torrents := [ex_manifest_torrent]\<rparr>"

text \<open>A stand-in for the digest: the identity, which has no collisions.\<close>

definition ex_digest :: "string \<Rightarrow> string" where
  "ex_digest s = s"

definition ex_written :: "db \<times> torrent_manifest_write_result" where
  "ex_written =
     (case replace_torrent_manifest ex_digest (\<lambda>i. 70 + of_nat i) 40 ex_files 9 ex_manifest_db of
        Inr r \<Rightarrow> r | Inl _ \<Rightarrow> (ex_manifest_db, undefined))"

theorem torrent_manifest_round_trip_witness:
  "case list_torrent_manifest 40 1 10 (Some (mw_version (snd ex_written))) (fst ex_written) of
     Inl e \<Rightarrow> False
   | Inr page \<Rightarrow> mp_items page = [\<lparr>cf_file_index = 1, cf_relative_path = lit ''n/b/c'', cf_size = 20\<rparr>]"
proof -
  have id: "t_id ex_manifest_torrent = 40" by (simp add: ex_manifest_torrent_def)
  have pre: "distinct (map t_id (db_torrents ex_manifest_db))"
    "ex_manifest_torrent \<in> set (db_torrents ex_manifest_db)" "torrent_check ex_manifest_torrent"
    by (simp add: ex_manifest_db_def, simp add: ex_manifest_db_def, code_simp)
  have life: "manifest_life ex_digest (t_id ex_manifest_torrent) ex_manifest_db"
    by (rule life_start) code_simp
  have "case replace_torrent_manifest ex_digest (\<lambda>i. 70 + of_nat i) 40 ex_files 9 ex_manifest_db of
      Inl _ \<Rightarrow> False | Inr _ \<Rightarrow> True"
    unfolding replace_torrent_manifest_def ex_files_valid checksum_def ex_files_input rbind.simps by code_simp
  then have run: "replace_torrent_manifest ex_digest (\<lambda>i. 70 + of_nat i) (t_id ex_manifest_torrent) ex_files 9
      ex_manifest_db = Inr (fst ex_written, snd ex_written)"
    by (auto simp: ex_written_def id split: sum.splits)
  have no: "ex_digest (hashed_bytes (manifest_entries (t_id ex_manifest_torrent) ex_manifest_db))
        = ex_digest (hashed_bytes ex_files) \<Longrightarrow>
      hashed_bytes (manifest_entries (t_id ex_manifest_torrent) ex_manifest_db) = hashed_bytes ex_files"
    by (simp add: ex_digest_def)
  from torrent_manifest_round_trip [OF pre life no run, of 1 10]
  show ?thesis by (simp add: id ex_files_def split: sum.splits)
qed

text \<open>
  The check of the components is applied to the parsed parts, and the parsed parts of the path \<open>.\<close>
  are empty: that one path passes although a component \<open>.\<close> is refused everywhere else.
\<close>

lemma validated_entries_accepts_dot:
  "validated_entries [\<lparr>cf_file_index = 0, cf_relative_path = lit ''.'', cf_size = 1\<rparr>]
     = Inr [\<lparr>cf_file_index = 0, cf_relative_path = lit ''.'', cf_size = 1\<rparr>]"
  by code_simp

end
