(* ===== verification/Torrent_Effects.thy ===== *)
theory Torrent_Effects
  imports Deduplication Dynamic_Concurrency Manifest
begin

text \<open>
  The job handlers of \<open>backend/app/jobs/torrent_effects.py\<close>: adding a torrent to qBittorrent,
  synchronising an observation, the two transactions of a purge, and the periodic passes that
  enqueue synchronisations and expire rights. A handler is the sequence of its database
  transactions; what the qBittorrent and tracker clients, the payload store and the content store
  return or raise between them is an argument (\<open>Inl\<close> the exception). A transaction that raises is
  rolled back, so a failed handler keeps exactly the transactions it committed.
\<close>

section \<open>Constants and outcomes of the external services\<close>

definition ADD_TORRENT_JOB :: string where "ADD_TORRENT_JOB = ''ADD_TORRENT''"
definition SYNC_JOB_MAX_ATTEMPTS :: int where "SYNC_JOB_MAX_ATTEMPTS = 5"
definition MAX_SYNC_BATCH :: nat where "MAX_SYNC_BATCH = 200"
definition MAX_RETENTION_BATCH :: int where "MAX_RETENTION_BATCH = 200"
definition READY_SYNC_INTERVAL_SECONDS :: int where "READY_SYNC_INTERVAL_SECONDS = 60"
definition SYNC_INTERVAL_OPTION :: string where "SYNC_INTERVAL_OPTION = ''WOS_QB_SYNC_INTERVAL_SECONDS''"
definition STALL_TIMEOUT :: timedelta where "STALL_TIMEOUT = seconds 60"

definition STALL_COOLDOWNS :: "timedelta list" where
  "STALL_COOLDOWNS = [seconds 180, seconds 300, seconds 600]"

definition STALL_EVALUATED_QB_STATES :: "string list" where
  "STALL_EVALUATED_QB_STATES = [''downloading'', ''forceddl'', ''metadl'', ''stalleddl'']"

datatype rejection_cause = INVALID_METAINFO | CONFLICT | REJECTED

datatype integration_error =
    AccountRoutingError
  | IntegrationAuthenticationError
  | QBittorrentV2TransientError
  | QBittorrentV2MissingError
  | QBittorrentV2OwnershipError
  | QBittorrentV2RejectedError rejection_cause
  | NewGreedyV2UnavailableError
  | TorrentValidationBusyError
  | InvalidTorrentError string
  | C411V2PayloadError
  | TorrentPayloadStoreError
  | SharedContentStoreError

text \<open>An exception no handler names reaches the worker as it is.\<close>

definition escaping :: app_error where
  "escaping = Py (RuntimeError ''unexpected integration error'')"

record parsed_torrent =
  pt_content :: string
  pt_info_hash :: string
  pt_name :: string
  pt_total_size :: int
  pt_files :: "torrent_content_file list"

record qbittorrent_torrent_snapshot =
  qs_info_hash :: string
  qs_state :: string
  qs_progress :: rat
  qs_downloaded_bytes :: int

section \<open>Tracker activity\<close>

definition require_opaque_reference :: "uuid \<Rightarrow> string \<Rightarrow> app_error + unit" where
  "require_opaque_reference value field = require (value \<noteq> 0) (TrackerActivityError (''invalid_'' @ field))"

definition same_activity ::
  "uuid \<Rightarrow> uuid \<Rightarrow> tracker_activity_type \<Rightarrow> tracker_activity_outcome \<Rightarrow> tracker_diagnostic_code option
     \<Rightarrow> instant \<Rightarrow> tracker_activity \<Rightarrow> bool" where
  "same_activity managed_id tracker_ref ty outcome diagnostic moment existing \<longleftrightarrow>
     ta_managed_torrent_id existing = managed_id \<and> ta_tracker_account_ref existing = tracker_ref
     \<and> ta_event_type existing = ty \<and> ta_outcome existing = outcome
     \<and> ta_diagnostic_code existing = diagnostic \<and> ta_occurred_at existing = moment"

text \<open>\<open>stamp\<close> is what the column defaults draw: the identifier of the row and its creation time.\<close>

definition record_tracker_activity ::
  "uuid \<times> instant \<Rightarrow> uuid \<Rightarrow> uuid \<Rightarrow> uuid \<Rightarrow> tracker_activity_type \<Rightarrow> tracker_activity_outcome
     \<Rightarrow> tracker_diagnostic_code option \<Rightarrow> datetime \<Rightarrow> db \<Rightarrow> app_error + db \<times> tracker_activity" where
  "record_tracker_activity stamp managed_id event_key tracker_ref ty outcome diagnostic moment d =
     rbind (require_opaque_reference managed_id ''managed_torrent_id'') (\<lambda>_.
     rbind (require_opaque_reference event_key ''tracker_event_key'') (\<lambda>_.
     rbind (require_opaque_reference tracker_ref ''tracker_account_ref'') (\<lambda>_.
     rbind (require (tz_aware moment) (TrackerActivityError ''invalid_tracker_activity_timestamp'')) (\<lambda>_.
     rbind (require ((outcome = SUCCESS) = (diagnostic = None))
              (TrackerActivityError ''inconsistent_tracker_diagnostic'')) (\<lambda>_.
     case find_row ta_event_key event_key (db_activities d) of
       Some existing \<Rightarrow>
         rbind (require (same_activity managed_id tracker_ref ty outcome diagnostic (as_utc moment) existing)
                  (TrackerActivityError ''tracker_event_key_conflict'')) (\<lambda>_. Inr (d, existing))
     | None \<Rightarrow>
         (case find_row t_id managed_id (db_torrents d) of
            None \<Rightarrow> Inl (TrackerActivityError ''managed_torrent_not_found'')
          | Some t \<Rightarrow>
              rbind (require (t_tracker_account_ref t = Some tracker_ref)
                       (TrackerActivityError ''tracker_account_reference_mismatch'')) (\<lambda>_.
              let activity = \<lparr>ta_id = fst stamp, ta_event_key = event_key,
                    ta_managed_torrent_id = managed_id, ta_tracker_account_ref = tracker_ref,
                    ta_event_type = ty, ta_outcome = outcome, ta_diagnostic_code = diagnostic,
                    ta_occurred_at = as_utc moment, ta_created_at = snd stamp\<rparr>
              in if fst stamp \<in> set (map ta_id (db_activities d)) then Inl IntegrityError
                 else Inr (d\<lparr>db_activities := db_activities d @ [activity]\<rparr>, activity))))))))"

section \<open>Adding\<close>

definition adding_torrent :: "instant \<Rightarrow> managed_torrent \<Rightarrow> managed_torrent" where
  "adding_torrent now t = t\<lparr>t_state := ADDING, t_retry_at := None, t_updated_at := now\<rparr>"

definition mark_adding :: "uuid \<Rightarrow> instant \<Rightarrow> db \<Rightarrow> app_error + db \<times> managed_torrent \<times> bool" where
  "mark_adding managed_id now d =
     (case find_row t_id managed_id (db_torrents d) of
        None \<Rightarrow> Inl (PermanentTorrentJobError ''managed_torrent_missing'' None)
      | Some t \<Rightarrow>
          if t_state t \<in> {DOWNLOADING, PAUSED, READY} then Inr (d, t, False)
          else if t_state t \<notin> {PENDING, ADDING, RETRY_WAIT}
          then Inl (PermanentTorrentJobError ''managed_torrent_state_invalid'' None)
          else (let t' = adding_torrent now t in Inr (put_torrent t' d, t', True)))"

definition activated_request :: "instant \<Rightarrow> torrent_request \<Rightarrow> torrent_request" where
  "activated_request now r =
     (if r_state r = R_REQUESTED then r\<lparr>r_state := R_ACTIVE, r_updated_at := now\<rparr>
      else r\<lparr>r_updated_at := now\<rparr>)"

definition stopped_torrent :: "instant \<Rightarrow> managed_torrent \<Rightarrow> managed_torrent" where
  "stopped_torrent now t =
     t\<lparr>t_state := PAUSED, t_qb_state := Some ''stoppeddl'', t_retry_at := None, t_updated_at := now\<rparr>"

definition finish_add ::
  "uuid \<times> instant \<Rightarrow> torrent_job_snapshot \<Rightarrow> uuid \<Rightarrow> instant \<Rightarrow> db \<Rightarrow> app_error + db \<times> torrent_event list \<times> bool" where
  "finish_add stamp snapshot tracker_ref now d =
     (case find_row t_id (sn_managed_torrent_id snapshot) (db_torrents d) of
        None \<Rightarrow> Inl (PermanentTorrentJobError ''managed_torrent_missing'' None)
      | Some managed \<Rightarrow>
          if purge_state (t_state managed) then Inr (d, [], False)
          else
            (let was_ranked = is_ranked_queue_member d managed now;
                 managed' = stopped_torrent now managed;
                 requests = map (activated_request now)
                   (torrent_requests_in (\<lambda>s. s = R_REQUESTED) (t_id managed) d);
                 d1 = put_requests requests (put_torrent managed' d)
             in rbind (record_tracker_activity stamp (t_id managed) (sn_id snapshot) tracker_ref
                         PROXY_HEALTH SUCCESS None (Aware now) d1) (\<lambda>(d2, _).
                Inr (d2, map (event_for EV_PAUSED now) requests,
                     was_ranked \<noteq> is_ranked_queue_member d2 managed' now))))"

record add_services =
  as_route :: "integration_error + uuid"
  as_payload :: "integration_error + parsed_torrent"
  as_prepare :: "integration_error + unit"
  as_add :: "integration_error + unit"

definition waiting_retry :: "string \<Rightarrow> app_error" where
  "waiting_retry code = TransientTorrentJobError code (Some RETRY_WAIT) True"

definition permanent_error :: "string \<Rightarrow> app_error" where
  "permanent_error code = PermanentTorrentJobError code (Some ERROR)"

definition rejection_code :: "rejection_cause \<Rightarrow> string" where
  "rejection_code cause =
     (case cause of
        INVALID_METAINFO \<Rightarrow> ''qbittorrent_metainfo_invalid''
      | CONFLICT \<Rightarrow> ''qbittorrent_add_conflict''
      | REJECTED \<Rightarrow> ''torrent_add_rejected'')"

definition add_failure :: "integration_error \<Rightarrow> app_error" where
  "add_failure e =
     (case e of
        TorrentValidationBusyError \<Rightarrow> waiting_retry ''torrent_validation_busy''
      | NewGreedyV2UnavailableError \<Rightarrow> waiting_retry ''torrent_integration_unavailable''
      | QBittorrentV2TransientError \<Rightarrow> waiting_retry ''torrent_integration_unavailable''
      | QBittorrentV2MissingError \<Rightarrow> waiting_retry ''torrent_integration_unavailable''
      | IntegrationAuthenticationError \<Rightarrow> waiting_retry ''torrent_integration_authentication''
      | InvalidTorrentError code \<Rightarrow> permanent_error code
      | C411V2PayloadError \<Rightarrow> permanent_error ''torrent_payload_invalid''
      | QBittorrentV2OwnershipError \<Rightarrow> permanent_error ''qbittorrent_ownership_conflict''
      | QBittorrentV2RejectedError cause \<Rightarrow> permanent_error (rejection_code cause)
      | _ \<Rightarrow> escaping)"

definition payload_failure :: "integration_error \<Rightarrow> app_error" where
  "payload_failure e =
     (case e of
        TorrentValidationBusyError \<Rightarrow> waiting_retry ''torrent_validation_busy''
      | TorrentPayloadStoreError \<Rightarrow> permanent_error ''torrent_payload_unavailable''
      | _ \<Rightarrow> escaping)"

definition route_failure :: "integration_error \<Rightarrow> app_error" where
  "route_failure e =
     (if e = AccountRoutingError then permanent_error ''torrent_account_route_invalid'' else escaping)"

definition prepare_failure :: "integration_error \<Rightarrow> app_error" where
  "prepare_failure e =
     (if e = SharedContentStoreError then permanent_error ''shared_storage_invalid'' else escaping)"

definition manifest_failure :: "app_error \<Rightarrow> app_error" where
  "manifest_failure e =
     (case e of TorrentManifestError _ \<Rightarrow> permanent_error ''torrent_manifest_invalid'' | _ \<Rightarrow> e)"

definition payload_matches :: "managed_torrent \<Rightarrow> parsed_torrent \<Rightarrow> bool" where
  "payload_matches t p \<longleftrightarrow>
     pt_info_hash p = t_info_hash t \<and> pt_name p = t_name t \<and> pt_total_size p = t_total_size t"

text \<open>
  The handler without interference: three transactions, the outcomes of the services between them.
  The removal of the staged payload at the end never fails the job.
\<close>

definition add_torrent ::
  "(string \<Rightarrow> string) \<Rightarrow> (nat \<Rightarrow> uuid) \<Rightarrow> uuid \<times> instant \<Rightarrow> add_services \<Rightarrow> torrent_job_snapshot \<Rightarrow> instant \<Rightarrow> db
     \<Rightarrow> db \<times> (app_error + torrent_event list \<times> bool)" where
  "add_torrent sha256 fresh stamp services snapshot now d =
     (case mark_adding (sn_managed_torrent_id snapshot) now d of
        Inl e \<Rightarrow> (d, Inl e)
      | Inr (d1, torrent, should_add) \<Rightarrow>
          if \<not> should_add then (d1, Inr ([], False))
          else case as_route services of
            Inl e \<Rightarrow> (d1, Inl (route_failure e))
          | Inr tracker_ref \<Rightarrow>
              (case as_payload services of
                 Inl e \<Rightarrow> (d1, Inl (payload_failure e))
               | Inr parsed \<Rightarrow>
                   if \<not> payload_matches torrent parsed
                   then (d1, Inl (permanent_error ''torrent_payload_mismatch''))
                   else case replace_torrent_manifest sha256 fresh (t_id torrent) (pt_files parsed) now d1 of
                     Inl e \<Rightarrow> (d1, Inl (manifest_failure e))
                   | Inr (d2, _) \<Rightarrow>
                       (case as_prepare services of
                          Inl e \<Rightarrow> (d2, Inl (prepare_failure e))
                        | Inr _ \<Rightarrow>
                            (case as_add services of
                               Inl e \<Rightarrow> (d2, Inl (add_failure e))
                             | Inr _ \<Rightarrow>
                                 (case finish_add stamp snapshot tracker_ref now d2 of
                                    Inl e \<Rightarrow> (d2, Inl e)
                                  | Inr (d3, r) \<Rightarrow> (d3, Inr r))))))"

section \<open>Observations\<close>

definition ends_with :: "string \<Rightarrow> string \<Rightarrow> bool" where
  "ends_with s tl_part = (length tl_part \<le> length s \<and> drop (length s - length tl_part) s = tl_part)"

definition starts_with :: "string \<Rightarrow> string \<Rightarrow> bool" where
  "starts_with s hd_part = (take (length hd_part) s = hd_part)"

definition stopped_state :: "string \<Rightarrow> bool" where
  "stopped_state s = (starts_with s ''stopped'' \<or> starts_with s ''paused'')"

definition domain_state :: "qbittorrent_torrent_snapshot \<Rightarrow> managed_torrent_state \<times> string" where
  "domain_state snapshot =
     (let normalized = lower (qs_state snapshot) in
      if normalized \<in> {''error'', ''missingfiles'', ''unknown''} then (ERROR, normalized)
      else if qs_progress snapshot \<ge> 1 \<or> ends_with normalized ''up'' \<or> normalized = ''uploading''
      then (READY, normalized)
      else if stopped_state normalized then (PAUSED, normalized)
      else if normalized \<in> {''allocating'', ''checkingdl'', ''checkingresumedata'', ''downloading'',
                             ''forceddl'', ''metadl'', ''moving'', ''queueddl'', ''stalleddl''}
      then (DOWNLOADING, normalized)
      else (ERROR, ''unknown''))"

definition snapshot_event_type ::
  "managed_torrent_state \<Rightarrow> managed_torrent_state \<Rightarrow> instant option \<Rightarrow> instant option \<Rightarrow> int
     \<Rightarrow> torrent_event_type option" where
  "snapshot_event_type previous_state state previous_retry_at retry_at previous_stall_count =
     (if state = READY \<and> previous_state \<noteq> READY then Some EV_READY
      else if state = ERROR \<and> previous_state \<noteq> ERROR then Some EV_FAILED
      else if retry_at \<noteq> None \<and> retry_at \<noteq> previous_retry_at then Some EV_STALLED
      else if state = PAUSED \<and> previous_state \<noteq> PAUSED then Some EV_PAUSED
      else if state = DOWNLOADING \<and> previous_state \<noteq> state
      then (if previous_state \<in> {PAUSED, RETRY_WAIT} \<or> previous_stall_count > 0 then Some EV_RESUMED
            else Some EV_STARTED)
      else None)"

definition progressed_torrent :: "instant \<Rightarrow> int \<Rightarrow> managed_torrent \<Rightarrow> managed_torrent" where
  "progressed_torrent now observed t =
     t\<lparr>t_last_progress_at := Some now, t_last_downloaded_bytes := Some observed, t_stall_count := 0,
       t_scheduler_retry_at := None\<rparr>"

definition observed_torrent :: "instant \<Rightarrow> int \<Rightarrow> managed_torrent \<Rightarrow> managed_torrent" where
  "observed_torrent now observed t =
     t\<lparr>t_last_progress_at := Some now, t_last_downloaded_bytes := Some observed\<rparr>"

definition stall_cooldown :: "int \<Rightarrow> timedelta" where
  "stall_cooldown stall_count =
     STALL_COOLDOWNS ! nat (min (stall_count - 1) (int (length STALL_COOLDOWNS) - 1))"

definition apply_stall_observation ::
  "managed_torrent \<Rightarrow> qbittorrent_torrent_snapshot \<Rightarrow> managed_torrent_state \<Rightarrow> string option \<Rightarrow> instant
     \<Rightarrow> managed_torrent \<times> managed_torrent_state" where
  "apply_stall_observation t snapshot state previous_qb_state now =
     (let previous = t_last_downloaded_bytes t;
          useful = (qs_progress snapshot > t_progress t
                    \<or> (case previous of None \<Rightarrow> False | Some n \<Rightarrow> qs_downloaded_bytes snapshot > n));
          observed = max (case previous of None \<Rightarrow> 0 | Some n \<Rightarrow> n) (qs_downloaded_bytes snapshot)
      in if state = READY \<or> useful then (progressed_torrent now observed t, state)
         else case (t_last_progress_at t, previous) of
           (Some last_at, Some _) \<Rightarrow>
             if (case t_scheduler_retry_at t of None \<Rightarrow> False | Some r \<Rightarrow> r > now) then (t, PAUSED)
             else if lower (qs_state snapshot) \<notin> set STALL_EVALUATED_QB_STATES then (t, state)
             else if (case previous_qb_state of None \<Rightarrow> False | Some q \<Rightarrow> stopped_state (lower q))
                  \<or> t_scheduler_retry_at t \<noteq> None
             then ((observed_torrent now observed t)\<lparr>t_scheduler_retry_at := None\<rparr>, state)
             else if now - last_at < STALL_TIMEOUT then (t, state)
             else (t\<lparr>t_stall_count := t_stall_count t + 1,
                     t_scheduler_retry_at := Some (now + stall_cooldown (t_stall_count t + 1))\<rparr>, PAUSED)
         | _ \<Rightarrow> (observed_torrent now observed t, state))"

definition integer_database_option :: "string \<Rightarrow> int \<Rightarrow> db \<Rightarrow> app_error + int" where
  "integer_database_option key fallback d =
     (let resolved = (case integer_option_value key d of None \<Rightarrow> fallback | Some v \<Rightarrow> v) in
      if 1 \<le> resolved \<and> resolved \<le> 2160 then Inr resolved
      else Inl (Py (ValueError (''database option '' @ key @ '' is invalid''))))"

definition AUTO_UNSUBSCRIBE_OPTION :: string where
  "AUTO_UNSUBSCRIBE_OPTION = ''WOS_TORRENT_AUTO_UNSUBSCRIBE_HOURS''"

definition RETENTION_OPTION :: string where
  "RETENTION_OPTION = ''WOS_TORRENT_RETENTION_HOURS''"

definition synced_torrent ::
  "managed_torrent_state \<Rightarrow> string \<Rightarrow> rat \<Rightarrow> instant \<Rightarrow> managed_torrent \<Rightarrow> managed_torrent" where
  "synced_torrent state qb_state progress now t =
     (let t1 = t\<lparr>t_qb_state := Some qb_state, t_state := state, t_progress := progress, t_retry_at := None,
                 t_updated_at := now\<rparr>
      in if state = READY
         then t1\<lparr>t_admin_forced_active := False, t_desired_active := False, t_desired_priority := None,
                  t_desired_download_limit := 0\<rparr>
         else t1)"

text \<open>The flush of a row fails when a CHECK constraint is false.\<close>

definition flush_torrent :: "managed_torrent \<Rightarrow> db \<Rightarrow> app_error + db" where
  "flush_torrent t d = (if torrent_check t then Inr (put_torrent t d) else Inl IntegrityError)"

definition record_completion :: "bool \<Rightarrow> instant \<Rightarrow> db \<Rightarrow> app_error + db" where
  "record_completion first_ready now d =
     (case (first_ready, db_scheduler d) of
        (True, Some scheduler) \<Rightarrow>
          rbind (record_dynamic_completion scheduler now d) (\<lambda>s. Inr (d\<lparr>db_scheduler := Some s\<rparr>))
      | _ \<Rightarrow> Inr d)"

definition sync_requests ::
  "managed_torrent \<Rightarrow> instant \<Rightarrow> db \<Rightarrow> app_error + db \<times> managed_torrent \<times> torrent_request list" where
  "sync_requests t now d =
     (if t_state t = READY
      then rbind (integer_database_option AUTO_UNSUBSCRIBE_OPTION 48 d) (\<lambda>n.
           mark_ready_requests t (Aware now) n d)
      else (let requests = map (activated_request now)
                  (torrent_requests_in waiting_request_state (t_id t) d)
            in Inr (put_requests requests d, t, requests)))"

definition store_observation ::
  "managed_torrent \<Rightarrow> managed_torrent_state \<Rightarrow> string \<Rightarrow> qbittorrent_torrent_snapshot \<Rightarrow> instant \<Rightarrow> db
     \<Rightarrow> app_error + db \<times> managed_torrent \<times> torrent_request list" where
  "store_observation torrent state qb_state snapshot now d =
     (let (t1, state') = apply_stall_observation torrent snapshot state (t_qb_state torrent) now;
          t2 = synced_torrent state' qb_state (qs_progress snapshot) now t1
      in rbind (flush_torrent t2 d) (\<lambda>d1.
         rbind (record_completion (state' = READY \<and> t_state torrent \<noteq> READY) now d1) (\<lambda>d2.
         sync_requests t2 now d2)))"

definition persist_snapshot ::
  "uuid \<Rightarrow> qbittorrent_torrent_snapshot \<Rightarrow> instant \<Rightarrow> db \<Rightarrow> app_error + db \<times> torrent_event list \<times> bool" where
  "persist_snapshot managed_id snapshot now d =
     (let (state, safe_qb_state) = domain_state snapshot in
      case find_row t_id managed_id (db_torrents d) of
        None \<Rightarrow> Inl (PermanentTorrentJobError ''managed_torrent_missing'' None)
      | Some torrent \<Rightarrow>
          if t_info_hash torrent \<noteq> qs_info_hash snapshot
          then Inl (PermanentTorrentJobError ''qbittorrent_sync_mismatch'' None)
          else if purge_state (t_state torrent) then Inr (d, [], False)
          else
            rbind (store_observation torrent state safe_qb_state snapshot now d) (\<lambda>(d', t, requests).
            let event_type = snapshot_event_type (t_state torrent) (t_state t)
                  (t_scheduler_retry_at torrent) (t_scheduler_retry_at t) (t_stall_count torrent);
                was_ranked = is_ranked_queue_member d torrent now;
                is_ranked = is_ranked_queue_member d' t now;
                cooldown_released =
                  ((case t_scheduler_retry_at torrent of None \<Rightarrow> False | Some r \<Rightarrow> r \<le> now)
                   \<and> t_scheduler_retry_at t = None \<and> is_ranked)
            in Inr (d', (case event_type of None \<Rightarrow> [] | Some ty \<Rightarrow> map (event_for ty now) requests),
                    was_ranked \<noteq> is_ranked \<or> cooldown_released)))"

definition sync_failure :: "bool \<Rightarrow> integration_error \<Rightarrow> app_error" where
  "sync_failure final_attempt e =
     (case e of
        QBittorrentV2MissingError \<Rightarrow>
          (if final_attempt then permanent_error ''qbittorrent_managed_torrent_missing''
           else TransientTorrentJobError ''qbittorrent_managed_torrent_missing'' None False)
      | QBittorrentV2TransientError \<Rightarrow>
          TransientTorrentJobError ''qbittorrent_sync_unavailable'' None True
      | IntegrationAuthenticationError \<Rightarrow>
          TransientTorrentJobError ''qbittorrent_sync_unavailable'' None True
      | QBittorrentV2OwnershipError \<Rightarrow> permanent_error ''qbittorrent_ownership_conflict''
      | _ \<Rightarrow> escaping)"

definition sync_torrent ::
  "integration_error + (integration_error + qbittorrent_torrent_snapshot list) \<Rightarrow> torrent_job_snapshot
     \<Rightarrow> instant \<Rightarrow> db \<Rightarrow> app_error + db \<times> torrent_event list \<times> bool" where
  "sync_torrent inspected snapshot now d =
     (case find_row t_id (sn_managed_torrent_id snapshot) (db_torrents d) of
        None \<Rightarrow> Inl (PermanentTorrentJobError ''managed_torrent_missing'' None)
      | Some torrent \<Rightarrow>
          if t_state torrent \<in> {PENDING, PURGE_PENDING, PURGING, PURGED} then Inr (d, [], False)
          else case inspected of
            Inl e \<Rightarrow> Inl (route_failure e)
          | Inr (Inl e) \<Rightarrow> Inl (sync_failure (sn_attempt_count snapshot \<ge> SYNC_JOB_MAX_ATTEMPTS) e)
          | Inr (Inr [s]) \<Rightarrow>
              if fst (domain_state s) = ERROR \<and> \<not> sn_attempt_count snapshot \<ge> SYNC_JOB_MAX_ATTEMPTS
              then Inl (TransientTorrentJobError ''qbittorrent_state_error_observed'' None False)
              else persist_snapshot (sn_managed_torrent_id snapshot) s now d
          | Inr (Inr _) \<Rightarrow> Inl (TransientTorrentJobError ''qbittorrent_sync_incomplete'' None False))"

section \<open>Purging\<close>

definition kept_torrent :: "instant \<Rightarrow> managed_torrent \<Rightarrow> managed_torrent" where
  "kept_torrent now t =
     t\<lparr>t_state := (if t_state t \<in> {PURGE_PENDING, PURGING}
                   then (if t_progress t \<ge> 1 then READY else DOWNLOADING) else t_state t),
       t_purge_after := None, t_purge_stop_pending := False, t_updated_at := now\<rparr>"

definition purge_pending_torrent :: "instant \<Rightarrow> managed_torrent \<Rightarrow> managed_torrent" where
  "purge_pending_torrent now t =
     t\<lparr>t_lifecycle_generation := t_lifecycle_generation t + 1, t_state := PURGE_PENDING,
       t_admin_forced_active := False, t_desired_active := False, t_desired_priority := None,
       t_desired_download_limit := 0, t_purge_stop_pending := True, t_updated_at := now\<rparr>"

definition cancel_other_jobs :: "uuid \<Rightarrow> uuid \<Rightarrow> instant \<Rightarrow> db \<Rightarrow> db" where
  "cancel_other_jobs managed_id job_id now d =
     d\<lparr>db_jobs := update_where
        (\<lambda>j. j_managed_torrent_id j = managed_id \<and> j_id j \<noteq> job_id \<and> active_job_state (j_state j))
        (cancel_active_job now) (db_jobs d)\<rparr>"

definition live_lease :: "instant \<Rightarrow> uuid \<Rightarrow> db \<Rightarrow> bool" where
  "live_lease now managed_id d =
     list_ex (\<lambda>l. dl_managed_torrent_id l = managed_id \<and> now < dl_expires_at l) (db_leases d)"

datatype purge_start = PurgeDone | PurgeActivated | PurgeReady managed_torrent

definition begin_purge ::
  "torrent_job_snapshot \<Rightarrow> instant \<Rightarrow> db \<Rightarrow> app_error + db \<times> purge_start" where
  "begin_purge snapshot now d =
     (case find_row t_id (sn_managed_torrent_id snapshot) (db_torrents d) of
        None \<Rightarrow> Inl (PermanentTorrentJobError ''managed_torrent_missing'' None)
      | Some t \<Rightarrow>
          if t_state t = PURGED then Inr (d, PurgeDone)
          else if has_active_request d (t_id t) then Inr (put_torrent (kept_torrent now t) d, PurgeDone)
          else case t_purge_after t of
            None \<Rightarrow> Inr (d, PurgeDone)
          | Some purge_after \<Rightarrow>
              if purge_after > now then Inl (TransientTorrentJobError ''torrent_retention_active'' None True)
              else if t_state t \<notin> {PURGE_PENDING, PURGING}
              then Inr (cancel_other_jobs (t_id t) (sn_id snapshot) now
                          (put_torrent (purge_pending_torrent now t) d), PurgeActivated)
              else if t_purge_stop_pending t
              then Inl (TransientTorrentJobError ''torrent_scheduler_stop_pending'' None True)
              else if live_lease now (t_id t) d
              then Inl (TransientTorrentJobError ''torrent_download_active'' None True)
              else (let t' = t\<lparr>t_state := PURGING, t_updated_at := now\<rparr>
                    in Inr (put_torrent t' d, PurgeReady t')))"

definition purged_torrent :: "instant \<Rightarrow> managed_torrent \<Rightarrow> managed_torrent" where
  "purged_torrent now t =
     t\<lparr>t_state := PURGED, t_purge_after := None, t_ready_at := None, t_retention_expires_at := None,
       t_purge_stop_pending := False, t_progress := 0, t_qb_state := None, t_retry_at := None,
       t_manifest_version := 0, t_manifest_checksum := None, t_manifest_file_count := 0,
       t_manifest_total_size := 0, t_desired_active := False, t_admin_forced_active := False,
       t_desired_priority := None, t_last_progress_at := None, t_last_downloaded_bytes := None,
       t_stall_count := 0, t_scheduler_retry_at := None, t_updated_at := now\<rparr>"

definition release_ledger :: "int \<Rightarrow> instant \<Rightarrow> db \<Rightarrow> db" where
  "release_ledger n now d =
     d\<lparr>db_ledger := map_option (\<lambda>l. l\<lparr>l_managed_bytes := max 0 (l_managed_bytes l - n),
                                   l_updated_at := now\<rparr>) (db_ledger d)\<rparr>"

definition delete_files :: "uuid \<Rightarrow> db \<Rightarrow> db" where
  "delete_files managed_id d =
     d\<lparr>db_files := filter (\<lambda>f. f_managed_torrent_id f \<noteq> managed_id) (db_files d)\<rparr>"

definition finish_purge :: "uuid \<Rightarrow> int \<Rightarrow> instant \<Rightarrow> db \<Rightarrow> app_error + db" where
  "finish_purge managed_id total_size now d =
     (case find_row t_id managed_id (db_torrents d) of
        None \<Rightarrow> Inl (PermanentTorrentJobError ''managed_torrent_missing'' None)
      | Some t \<Rightarrow>
          if t_state t = PURGED then Inr d
          else if t_state t \<noteq> PURGING
          then Inl (TransientTorrentJobError ''torrent_purge_state_changed'' None False)
          else if has_active_request d (t_id t) \<or> live_lease now (t_id t) d
          then Inl (TransientTorrentJobError ''torrent_purge_race_detected'' None False)
          else Inr (put_torrent (purged_torrent now t)
                     (release_ledger total_size now (delete_files (t_id t) d))))"

definition purge_failure :: "integration_error \<Rightarrow> app_error" where
  "purge_failure e =
     (case e of
        AccountRoutingError \<Rightarrow> PermanentTorrentJobError ''torrent_account_route_invalid'' None
      | QBittorrentV2TransientError \<Rightarrow>
          TransientTorrentJobError ''torrent_purge_integration_unavailable'' None True
      | QBittorrentV2MissingError \<Rightarrow>
          TransientTorrentJobError ''torrent_purge_integration_unavailable'' None True
      | IntegrationAuthenticationError \<Rightarrow>
          TransientTorrentJobError ''torrent_purge_integration_unavailable'' None True
      | QBittorrentV2OwnershipError \<Rightarrow> PermanentTorrentJobError ''qbittorrent_ownership_conflict'' None
      | QBittorrentV2RejectedError _ \<Rightarrow> PermanentTorrentJobError ''torrent_purge_rejected'' None
      | SharedContentStoreError \<Rightarrow>
          TransientTorrentJobError ''torrent_content_purge_unavailable'' None False
      | _ \<Rightarrow> escaping)"

text \<open>The handler without interference; \<open>removed\<close> is the outcome of the removal of the content.\<close>

definition purge_torrent ::
  "integration_error + unit \<Rightarrow> torrent_job_snapshot \<Rightarrow> instant \<Rightarrow> db \<Rightarrow> db \<times> (app_error + unit)" where
  "purge_torrent removed snapshot now d =
     (case begin_purge snapshot now d of
        Inl e \<Rightarrow> (d, Inl e)
      | Inr (d1, PurgeDone) \<Rightarrow> (d1, Inr ())
      | Inr (d1, PurgeActivated) \<Rightarrow>
          (d1, Inl (TransientTorrentJobError ''torrent_scheduler_stop_pending'' None True))
      | Inr (d1, PurgeReady t) \<Rightarrow>
          (case removed of
             Inl e \<Rightarrow> (d1, Inl (purge_failure e))
           | Inr _ \<Rightarrow>
               (case finish_purge (sn_managed_torrent_id snapshot) (t_total_size t) now d1 of
                  Inl e \<Rightarrow> (d1, Inl e)
                | Inr d2 \<Rightarrow> (d2, Inr ()))))"

section \<open>Periodic passes\<close>

definition sync_job :: "uuid \<Rightarrow> string \<Rightarrow> uuid \<Rightarrow> instant \<Rightarrow> torrent_job" where
  "sync_job job_id nonce managed_id now =
     \<lparr>j_id = job_id, j_managed_torrent_id = managed_id, j_torrent_request_id = None,
      j_job_type = SYNC_TORRENT_JOB,
      j_idempotency_key = ''sync:'' @ uuid_hex managed_id @ '':'' @ nonce,
      j_recovery_snapshot = None, j_state = J_QUEUED, j_attempt_count = 0,
      j_max_attempts = SYNC_JOB_MAX_ATTEMPTS, j_available_at = now, j_timeout_at = None,
      j_claimed_by = None, j_claim_expires_at = None, j_cancel_requested_at = None,
      j_last_error_code = None, j_finished_at = None, j_created_at = now, j_updated_at = now\<rparr>"

definition sync_due :: "db \<Rightarrow> instant \<Rightarrow> managed_torrent \<Rightarrow> bool" where
  "sync_due d ready_cutoff t \<longleftrightarrow>
     t_state t \<in> {DOWNLOADING, PAUSED, READY}
     \<and> \<not> list_ex (\<lambda>j. j_managed_torrent_id j = t_id t \<and> j_job_type j = SYNC_TORRENT_JOB
                    \<and> active_job_state (j_state j)) (db_jobs d)
     \<and> (t_state t \<noteq> READY \<or> t_updated_at t \<le> ready_cutoff)"

definition sync_candidates :: "instant \<Rightarrow> db \<Rightarrow> uuid list" where
  "sync_candidates ready_cutoff d =
     map t_id (take MAX_SYNC_BATCH (sort_key
       (\<lambda>t. (if t_state t = READY then 1 else 0 :: int, t_updated_at t, t_id t))
       (filter (sync_due d ready_cutoff) (db_torrents d))))"

text \<open>\<open>ON CONFLICT DO NOTHING\<close>: \<open>ids\<close> gives the identifier and the nonce drawn for each torrent.\<close>

definition insert_sync_job :: "(uuid \<Rightarrow> uuid \<times> uuid) \<Rightarrow> instant \<Rightarrow> db \<times> int \<Rightarrow> uuid \<Rightarrow> db \<times> int" where
  "insert_sync_job ids now = (\<lambda>(d, created) managed_id.
     case insert_job (sync_job (fst (ids managed_id)) (uuid_hex (snd (ids managed_id))) managed_id now) d of
       Inl _ \<Rightarrow> (d, created)
     | Inr d' \<Rightarrow> (d', created + 1))"

definition sync_interval :: "db \<Rightarrow> app_error + int" where
  "sync_interval d =
     (let interval =
        (case find_row o_key SYNC_INTERVAL_OPTION (db_options d) of
           None \<Rightarrow> Some 5
         | Some row \<Rightarrow> if o_value_type row = ''integer'' then o_integer_value row else Some 5)
      in case interval of
           Some n \<Rightarrow> if 2 \<le> n \<and> n \<le> 300 then Inr n
                     else Inl (Py (RuntimeError ''qBittorrent sync interval option is invalid''))
         | None \<Rightarrow> Inl (Py (RuntimeError ''qBittorrent sync interval option is invalid'')))"

definition enqueue_once ::
  "(uuid \<Rightarrow> uuid \<times> uuid) \<Rightarrow> instant \<Rightarrow> db \<Rightarrow> app_error + db \<times> int \<times> int" where
  "enqueue_once ids now d =
     rbind (sync_interval d) (\<lambda>interval.
     let ready_cutoff = now - seconds (max READY_SYNC_INTERVAL_SECONDS interval);
         (d', created) = foldl (insert_sync_job ids now) (d, 0) (sync_candidates ready_cutoff d)
     in Inr (d', interval, created))"

definition expire_once ::
  "(uuid \<Rightarrow> bool) \<Rightarrow> (uuid \<Rightarrow> bool) \<Rightarrow> (uuid \<Rightarrow> uuid) \<Rightarrow> instant \<Rightarrow> instant \<Rightarrow> db
     \<Rightarrow> app_error + db \<times> torrent_event list \<times> int" where
  "expire_once locked_torrents locked_requests fresh now now' d =
     rbind (integer_database_option AUTO_UNSUBSCRIBE_OPTION 48 d) (\<lambda>auto_unsubscribe_hours.
     rbind (integer_database_option RETENTION_OPTION 48 d) (\<lambda>retention_hours.
     rbind (backfill_ready_unsubscribe_deadlines_batch locked_requests (Aware now)
              auto_unsubscribe_hours MAX_RETENTION_BATCH d) (\<lambda>(d1, _).
     rbind (expire_ready_torrents_batch locked_torrents locked_requests fresh (Aware now')
              retention_hours MAX_RETENTION_BATCH d1) (\<lambda>(d2, results).
     Inr (d2, concat (map (\<lambda>r. map (\<lambda>q. \<lparr>ev_user = er_user_id q, ev_type = EV_EXPIRED,
                                        ev_request = er_request_id q, ev_at = now'\<rparr>)
                                   (te_requests r)) results),
          int (length results))))))"

section \<open>Every transaction keeps the invariants\<close>

definition platform_ok :: "db \<Rightarrow> bool" where
  "platform_ok d \<longleftrightarrow> lifecycle_ok d \<and> keys_ok d"

lemma platform_okD:
  assumes "platform_ok d"
  shows "system_ok d" "retained_ok d" "keys_ok d" "lifecycle_ok d"
  using assms by (simp_all add: platform_ok_def lifecycle_ok_def)

lemma platform_ok_cong:
  assumes "db_torrents d' = db_torrents d" "db_requests d' = db_requests d"
    "db_usages d' = db_usages d" "db_ledger d' = db_ledger d"
    "map j_idempotency_key (db_jobs d') = map j_idempotency_key (db_jobs d)"
  shows "platform_ok d' = platform_ok d"
proof -
  have "retained_ok d' = retained_ok d"
    unfolding retained_ok_def assms(1) by (simp add: retained_at_cong [OF assms(2)] cong: list.pred_cong)
  then show ?thesis
    by (simp add: platform_ok_def lifecycle_ok_def system_ok_cong [OF assms(1-4)] keys_ok_cong [OF assms(1,5)])
qed

lemma retained_ok_keep:
  assumes "retained_ok d" "\<And>k. has_active_request d' k = has_active_request d k"
    and "\<And>x'. x' \<in> set (db_torrents d') \<Longrightarrow> \<exists>x\<in>set (db_torrents d). t_id x' = t_id x
           \<and> (t_state x = PURGED \<longrightarrow> t_state x' = PURGED)
           \<and> (t_purge_after x \<noteq> None \<longrightarrow> t_purge_after x' \<noteq> None \<or> t_state x' = PURGED)"
  shows "retained_ok d'"
proof -
  have "retained_at d' x'" if mem: "x' \<in> set (db_torrents d')" for x'
  proof -
    obtain x where x: "x \<in> set (db_torrents d)" "t_id x' = t_id x" "t_state x = PURGED \<longrightarrow> t_state x' = PURGED"
      "t_purge_after x \<noteq> None \<longrightarrow> t_purge_after x' \<noteq> None \<or> t_state x' = PURGED"
      using assms(3) [OF mem] by blast
    have "retained_at d x" using assms(1) x(1) by (simp add: retained_ok_def list_all_iff)
    then show ?thesis using x(2-4) assms(2) unfolding retained_at_def by metis
  qed
  then show ?thesis by (simp add: retained_ok_def list_all_iff)
qed

lemma platform_put_torrent:
  assumes "platform_ok d" "t \<in> set (db_torrents d)" "same_torrent t t'" "torrent_check t'"
    and "t_purge_after t' = t_purge_after t" "t_state t' = PURGED \<longleftrightarrow> t_state t = PURGED"
    and "purge_state (t_state t') \<Longrightarrow> purge_state (t_state t) \<or> t_purge_after t \<noteq> None"
    and "t_lifecycle_generation t \<le> t_lifecycle_generation t'"
  shows "platform_ok (put_torrent t' d)"
proof -
  note ok = platform_okD [OF assms(1)]
  have id: "t_id t' = t_id t" using assms(3) by (simp add: same_torrent_def)
  have rights: "t_purge_after t \<noteq> None \<or> purge_state (t_state t) \<longrightarrow> \<not> has_active_request d (t_id t)"
    using ok(1) assms(2) by (auto simp: system_ok_def rights_ok_def list_all_iff)
  have "system_ok (put_torrent t' d)"
    by (rule system_ok_put_torrent [OF ok(1) assms(2-4,6)]) (use rights assms(5,7) in metis)
  moreover have "retained_ok (put_torrent t' d)"
  proof (rule retained_ok_keep [OF ok(2)])
    show "has_active_request (put_torrent t' d) k = has_active_request d k" for k
      by (rule has_active_request_cong) simp
    fix x' assume "x' \<in> set (db_torrents (put_torrent t' d))"
    then have "x' = t' \<or> x' \<in> set (db_torrents d)" using in_put_torrent [OF assms(2) id] by blast
    then show "\<exists>x\<in>set (db_torrents d). t_id x' = t_id x \<and> (t_state x = PURGED \<longrightarrow> t_state x' = PURGED)
           \<and> (t_purge_after x \<noteq> None \<longrightarrow> t_purge_after x' \<noteq> None \<or> t_state x' = PURGED)"
      using assms(2,5,6) id by metis
  qed
  ultimately show ?thesis
    using keys_ok_put_torrent [OF ok(3) assms(2) id assms(8)] by (simp add: platform_ok_def lifecycle_ok_def)
qed

lemma platform_put_requests:
  assumes "platform_ok d" "keeps_rights d rs"
  shows "platform_ok (put_requests rs d)"
proof -
  note ok = platform_okD [OF assms(1)]
  note p = put_requests_keep [OF ok(1) assms(2)]
  have "retained_ok (put_requests rs d)"
    by (rule retained_ok_keep [OF ok(2)]) (use p in auto)
  then show ?thesis
    using p keys_ok_cong [of "put_requests rs d" d] ok(3) by (simp add: platform_ok_def lifecycle_ok_def)
qed

lemma activated_keep:
  assumes "system_ok d" "db_requests d' = db_requests d" "\<And>s. P s \<Longrightarrow> active_request_state s"
  shows "keeps_rights d' (map (activated_request now) (torrent_requests_in P k d))"
proof -
  have "distinct (map r_id (torrent_requests_in P k d))"
    using requests_distinct [OF assms(1)] by (simp add: torrent_requests_in_def distinct_map_filter)
  then have "distinct (map r_id (map (activated_request now) (torrent_requests_in P k d)))"
    by (simp add: comp_def activated_request_def if_distrib cong: if_cong)
  moreover have "\<exists>r\<in>set (db_requests d'). same_right r (activated_request now x)
      \<and> active_request_state (r_state (activated_request now x)) = active_request_state (r_state r)"
    if "x \<in> set (torrent_requests_in P k d)" for x
    using that assms(2) by (intro bexI [of _ x])
      (auto simp: activated_request_def same_right_def torrent_requests_in_def)
  ultimately show ?thesis by (auto simp: keeps_rights_def)
qed

text \<open>What the row-level functions of the handlers leave alone.\<close>

lemma effect_rows_same:
  "same_torrent t (adding_torrent now t)" "same_torrent t (stopped_torrent now t)"
  "same_torrent t (kept_torrent now t)" "same_torrent t (purge_pending_torrent now t)"
  "same_torrent t (purged_torrent now t)" "same_torrent t (synced_torrent st q p now t)"
  by (simp_all add: same_torrent_def adding_torrent_def stopped_torrent_def kept_torrent_def
      purge_pending_torrent_def purged_torrent_def synced_torrent_def Let_def)

lemma mark_adding_ok:
  assumes "platform_ok d" "mark_adding k now d = Inr (d', t, b)"
  shows "platform_ok d'"
proof -
  obtain t0 where t0: "t0 \<in> set (db_torrents d)"
    "d' = d \<or> t_state t0 \<in> {PENDING, ADDING, RETRY_WAIT} \<and> d' = put_torrent (adding_torrent now t0) d"
    using assms(2) by (auto simp: mark_adding_def Let_def split: option.splits if_splits dest!: find_row_SomeD)
  have check: "torrent_check t0" by (rule torrent_row_ok [OF platform_okD(1) [OF assms(1)] t0(1)])
  have "platform_ok (put_torrent (adding_torrent now t0) d)" if "t_state t0 \<in> {PENDING, ADDING, RETRY_WAIT}"
    by (rule platform_put_torrent [OF assms(1) t0(1) effect_rows_same(1)])
      (use check that in \<open>auto simp: adding_torrent_def torrent_check_def\<close>)
  then show ?thesis using t0(2) assms(1) by blast
qed

lemma record_tracker_activity_frame:
  assumes "record_tracker_activity i k key ref ty out diag m d = Inr (d', a)"
  shows "db_torrents d' = db_torrents d" "db_requests d' = db_requests d" "db_usages d' = db_usages d"
    "db_ledger d' = db_ledger d" "db_jobs d' = db_jobs d" "db_leases d' = db_leases d"
  using assms
  by (auto simp: record_tracker_activity_def rbind_Inr_iff Let_def split: option.splits if_splits)

lemma finish_add_ok:
  assumes "platform_ok d" "finish_add i sn ref now d = Inr (d', r)"
  shows "platform_ok d'"
proof -
  obtain t where t: "find_row t_id (sn_managed_torrent_id sn) (db_torrents d) = Some t"
    using assms(2) by (auto simp: finish_add_def split: option.splits)
  have mem: "t \<in> set (db_torrents d)" using find_row_SomeD [OF t] by simp
  show ?thesis
  proof (cases "purge_state (t_state t)")
    case True
    then show ?thesis using assms t by (simp add: finish_add_def)
  next
    case False
    let ?rs = "map (activated_request now) (torrent_requests_in (\<lambda>s. s = R_REQUESTED) (t_id t) d)"
    let ?d1 = "put_requests ?rs (put_torrent (stopped_torrent now t) d)"
    obtain a where rec: "record_tracker_activity i (t_id t) (sn_id sn) ref PROXY_HEALTH SUCCESS None (Aware now) ?d1
        = Inr (d', a)"
      using assms(2) t False by (auto simp: finish_add_def Let_def rbind_Inr_iff)
    have check: "torrent_check t" by (rule torrent_row_ok [OF platform_okD(1) [OF assms(1)] mem])
    have "platform_ok (put_torrent (stopped_torrent now t) d)"
      by (rule platform_put_torrent [OF assms(1) mem effect_rows_same(2)])
        (use check False in \<open>auto simp: stopped_torrent_def torrent_check_def\<close>)
    then have "platform_ok ?d1"
      by (rule platform_put_requests) (rule activated_keep [OF platform_okD(1) [OF assms(1)]], auto)
    then show ?thesis
      using platform_ok_cong [of d' ?d1] record_tracker_activity_frame [OF rec] by simp
  qed
qed

lemma replace_torrent_manifest_ok:
  assumes "platform_ok d" "\<And>x. length (sha x) = 64" "replace_torrent_manifest sha fresh k files now d = Inr (d', w)"
  shows "platform_ok d'"
  using assms(3)
proof (cases rule: replace_cases)
  case current
  then show ?thesis using assms(1) by simp
next
  case (written t c d1)
  have digest: "length c = 64" using written(3) assms(2) by (auto simp: checksum_def rbind_Inr_iff)
  have mem: "t \<in> set (db_torrents d)" "t_id t = k" using find_row_SomeD [OF written(2)] by simp_all
  have d1: "db_torrents d1 = db_torrents d" "db_requests d1 = db_requests d" "db_usages d1 = db_usages d"
    "db_ledger d1 = db_ledger d" "db_jobs d1 = db_jobs d"
    using written(4) by (auto simp: replace_rows_def Let_def split: if_splits)
  have ok1: "platform_ok d1" using platform_ok_cong [of d1 d] d1 assms(1) by simp
  have check: "torrent_check t" by (rule torrent_row_ok [OF platform_okD(1) [OF assms(1)] mem(1)])
  have sizes: "0 \<le> (\<Sum>e\<leftarrow>files. cf_size e)"
    using validated_entries_props(3) [OF written(1)] by (intro sum_list_nonneg) (auto simp: list_all_iff entry_fits_def)
  show ?thesis
    unfolding written(5)
    by (rule platform_put_torrent [OF ok1 _ _, of t])
      (use mem d1 check sizes digest in \<open>auto simp: manifest_torrent_def same_torrent_def torrent_check_def\<close>)
qed

subsection \<open>Observations\<close>

lemma domain_state_alive: "\<not> purge_state (fst (domain_state s))"
  by (simp add: domain_state_def Let_def)

lemma apply_stall_frame:
  assumes "apply_stall_observation t s state q now = (t', state')"
  shows "same_torrent t t'" "t_purge_after t' = t_purge_after t" "t_state t' = t_state t"
    "t_lifecycle_generation t' = t_lifecycle_generation t" "state' = state \<or> state' = PAUSED"
proof -
  have "same_torrent t t' \<and> t_purge_after t' = t_purge_after t \<and> t_state t' = t_state t
      \<and> t_lifecycle_generation t' = t_lifecycle_generation t \<and> (state' = state \<or> state' = PAUSED)"
    using assms by (auto simp: apply_stall_observation_def Let_def same_torrent_def progressed_torrent_def
        observed_torrent_def split: if_splits option.splits)
  then show "same_torrent t t'" "t_purge_after t' = t_purge_after t" "t_state t' = t_state t"
    "t_lifecycle_generation t' = t_lifecycle_generation t" "state' = state \<or> state' = PAUSED" by blast+
qed

lemma synced_torrent_simps [simp]:
  "t_id (synced_torrent st q p now t) = t_id t" "t_state (synced_torrent st q p now t) = st"
  "t_purge_after (synced_torrent st q p now t) = t_purge_after t"
  "t_lifecycle_generation (synced_torrent st q p now t) = t_lifecycle_generation t"
  by (simp_all add: synced_torrent_def Let_def)

lemma record_completion_frame:
  assumes "record_completion b now d = Inr d'"
  shows "\<exists>s. d' = d\<lparr>db_scheduler := s\<rparr>"
  using assms by (auto simp: record_completion_def rbind_Inr_iff split: bool.splits option.splits
      intro: exI [of _ "db_scheduler d"])

lemma sync_requests_ok:
  assumes "platform_ok d" "t \<in> set (db_torrents d)" "sync_requests t now d = Inr (d', t', rs)"
  shows "platform_ok d'" "db_leases d' = db_leases d"
    "map (\<lambda>x. (t_id x, t_state x)) (db_torrents d') = map (\<lambda>x. (t_id x, t_state x)) (db_torrents d)"
proof -
  note ok = platform_okD [OF assms(1)]
  have "platform_ok d' \<and> db_leases d' = db_leases d
      \<and> map (\<lambda>x. (t_id x, t_state x)) (db_torrents d') = map (\<lambda>x. (t_id x, t_state x)) (db_torrents d)"
  proof (cases "t_state t = READY")
    case True
    then obtain n where run: "mark_ready_requests t (Aware now) n d = Inr (d', t', rs)"
      using assms(3) by (auto simp: sync_requests_def rbind_Inr_iff)
    note m = mark_ready_requests_ok [OF ok(1) assms(2) run]
    have id: "t_id t' = t_id t" using m(4) by (simp add: same_torrent_def)
    note mem = in_put_torrent [OF assms(2) id]
    have "retained_ok d'"
    proof (rule retained_ok_keep [OF ok(2) m(2)])
      fix x' assume "x' \<in> set (db_torrents d')"
      then have "x' = t' \<or> x' \<in> set (db_torrents d)" using mem m(3) by auto
      then show "\<exists>x\<in>set (db_torrents d). t_id x' = t_id x \<and> (t_state x = PURGED \<longrightarrow> t_state x' = PURGED)
           \<and> (t_purge_after x \<noteq> None \<longrightarrow> t_purge_after x' \<noteq> None \<or> t_state x' = PURGED)"
        using assms(2) m(5,6) id by metis
    qed
    moreover have "keys_ok d'"
      using keys_ok_put_torrent [OF ok(3) assms(2) id] m(9) keys_ok_cong [of d' "put_torrent t' d"] m(3,7) by simp
    moreover have "map (\<lambda>x. (t_id x, t_state x)) (db_torrents d') = map (\<lambda>x. (t_id x, t_state x)) (db_torrents d)"
      unfolding m(3) put_torrent_def
      using map_update_row_same [OF torrents_distinct [OF ok(1)] assms(2) id, of "\<lambda>x. (t_id x, t_state x)"] id m(6)
      by simp
    ultimately show ?thesis using m(1,8) by (simp add: platform_ok_def lifecycle_ok_def)
  next
    case False
    then have d': "d' = put_requests (map (activated_request now) (torrent_requests_in waiting_request_state (t_id t) d)) d"
      using assms(3) by (auto simp: sync_requests_def Let_def)
    have "platform_ok d'"
      unfolding d' by (rule platform_put_requests [OF assms(1) activated_keep [OF ok(1)]]) auto
    then show ?thesis by (simp add: d')
  qed
  then show "platform_ok d'" "db_leases d' = db_leases d"
    "map (\<lambda>x. (t_id x, t_state x)) (db_torrents d') = map (\<lambda>x. (t_id x, t_state x)) (db_torrents d)"
    by blast+
qed

text \<open>The states of the rows the observation may leave, for the lease invariant.\<close>

lemma store_observation_cases:
  assumes "platform_ok d" "t \<in> set (db_torrents d)" "\<not> purge_state (t_state t)" "\<not> purge_state state"
    and "store_observation t state q s now d = Inr (d', t', rs)"
  obtains t2 sch where "same_torrent t t2" "\<not> purge_state (t_state t2)" "platform_ok (put_torrent t2 d)"
    "sync_requests t2 now ((put_torrent t2 d)\<lparr>db_scheduler := sch\<rparr>) = Inr (d', t', rs)"
proof -
  obtain t1 state' where st: "apply_stall_observation t s state (t_qb_state t) now = (t1, state')" by fastforce
  define t2 where "t2 = synced_torrent state' q (qs_progress s) now t1"
  note f = apply_stall_frame [OF st]
  from assms(5) obtain d2 where check: "torrent_check t2"
    and d2: "record_completion (state' = READY \<and> t_state t \<noteq> READY) now (put_torrent t2 d) = Inr d2"
    and sync: "sync_requests t2 now d2 = Inr (d', t', rs)"
    by (auto simp: store_observation_def st t2_def [symmetric] rbind_Inr_iff flush_torrent_def split: if_splits)
  have alive: "\<not> purge_state state'" using f(5) assms(4) by auto
  have same: "same_torrent t t2"
    using f(1) effect_rows_same(6) [of t1 state' q "qs_progress s" now] by (simp add: t2_def same_torrent_def)
  have simps: "t_state t2 = state'" "t_purge_after t2 = t_purge_after t"
    "t_lifecycle_generation t2 = t_lifecycle_generation t"
    using f by (simp_all add: t2_def)
  have np: "t_state t \<noteq> PURGED" "state' \<noteq> PURGED" using assms(3) alive by auto
  have ok1: "platform_ok (put_torrent t2 d)"
    by (rule platform_put_torrent [OF assms(1,2) same check]) (use alive simps np in auto)
  obtain sch where "d2 = (put_torrent t2 d)\<lparr>db_scheduler := sch\<rparr>"
    using record_completion_frame [OF d2] by blast
  then show thesis using that [OF same _ ok1] alive simps(1) sync by blast
qed

lemma store_observation_ok:
  assumes "platform_ok d" "t \<in> set (db_torrents d)" "\<not> purge_state (t_state t)" "\<not> purge_state state"
    and "store_observation t state q s now d = Inr (d', t', rs)"
  shows "platform_ok d' \<and> db_leases d' = db_leases d
    \<and> (\<forall>x'\<in>set (db_torrents d'). purge_state (t_state x') \<longrightarrow>
         (\<exists>x\<in>set (db_torrents d). t_id x = t_id x' \<and> t_state x = t_state x'))"
proof -
  obtain t2 sch where c: "same_torrent t t2" "\<not> purge_state (t_state t2)" "platform_ok (put_torrent t2 d)"
    "sync_requests t2 now ((put_torrent t2 d)\<lparr>db_scheduler := sch\<rparr>) = Inr (d', t', rs)"
    by (rule store_observation_cases [OF assms])
  let ?d2 = "(put_torrent t2 d)\<lparr>db_scheduler := sch\<rparr>"
  have id: "t_id t2 = t_id t" using c(1) by (simp add: same_torrent_def)
  have ok2: "platform_ok ?d2" using platform_ok_cong [of ?d2 "put_torrent t2 d"] c(3) by simp
  have mem2: "t2 \<in> set (db_torrents ?d2)" using in_put_torrent [OF assms(2) id] by simp
  note r = sync_requests_ok [OF ok2 mem2 c(4)]
  have "\<exists>x\<in>set (db_torrents d). t_id x = t_id x' \<and> t_state x = t_state x'"
    if x': "x' \<in> set (db_torrents d')" "purge_state (t_state x')" for x'
  proof -
    have "(t_id x', t_state x') \<in> set (map (\<lambda>x. (t_id x, t_state x)) (db_torrents d'))" using x'(1) by auto
    then obtain y where y: "y \<in> set (db_torrents ?d2)" "t_id y = t_id x'" "t_state y = t_state x'"
      unfolding r(3) by auto
    have "y \<in> set (db_torrents (put_torrent t2 d))" using y(1) by simp
    then have "y = t2 \<or> y \<in> set (db_torrents d)" using in_put_torrent [OF assms(2) id] by blast
    then show ?thesis using y x'(2) c(2) by metis
  qed
  then show ?thesis using r(1,2) by simp
qed

lemma persist_snapshot_cases:
  assumes "persist_snapshot k s now d = Inr (d', r)"
  obtains (same) "d' = d"
  | (stored) t state q t' rs where "t \<in> set (db_torrents d)" "\<not> purge_state (t_state t)" "\<not> purge_state state"
      "store_observation t state q s now d = Inr (d', t', rs)"
proof -
  obtain t where t: "find_row t_id k (db_torrents d) = Some t"
    using assms by (auto simp: persist_snapshot_def split: option.splits prod.splits)
  have mem: "t \<in> set (db_torrents d)" using find_row_SomeD [OF t] by simp
  obtain state q where ds: "domain_state s = (state, q)" by fastforce
  have alive: "\<not> purge_state state" using domain_state_alive [of s] ds by simp
  have "d' = d \<or> (\<not> purge_state (t_state t) \<and> (\<exists>t' rs. store_observation t state q s now d = Inr (d', t', rs)))"
    using assms t by (auto simp: persist_snapshot_def ds Let_def rbind_Inr_iff split: if_splits)
  then show thesis using same stored [OF mem _ alive] by blast
qed

lemma persist_snapshot_ok:
  assumes "platform_ok d" "persist_snapshot k s now d = Inr (d', r)"
  shows "platform_ok d'" "db_leases d' = db_leases d"
    "x' \<in> set (db_torrents d') \<Longrightarrow> purge_state (t_state x') \<Longrightarrow>
       \<exists>x\<in>set (db_torrents d). t_id x = t_id x' \<and> t_state x = t_state x'"
proof -
  have "platform_ok d' \<and> db_leases d' = db_leases d
    \<and> (\<forall>x'\<in>set (db_torrents d'). purge_state (t_state x') \<longrightarrow>
         (\<exists>x\<in>set (db_torrents d). t_id x = t_id x' \<and> t_state x = t_state x'))"
    using assms(2)
  proof (cases rule: persist_snapshot_cases)
    case same
    then show ?thesis using assms(1) by blast
  next
    case (stored t state q t' rs)
    then show ?thesis using store_observation_ok [OF assms(1)] by blast
  qed
  then show "platform_ok d'" "db_leases d' = db_leases d"
    "x' \<in> set (db_torrents d') \<Longrightarrow> purge_state (t_state x') \<Longrightarrow>
       \<exists>x\<in>set (db_torrents d). t_id x = t_id x' \<and> t_state x = t_state x'" by blast+
qed

subsection \<open>Purges\<close>

lemma cancel_other_jobs_frame [simp]:
  "db_torrents (cancel_other_jobs k j now d) = db_torrents d"
  "db_requests (cancel_other_jobs k j now d) = db_requests d"
  "db_usages (cancel_other_jobs k j now d) = db_usages d"
  "db_ledger (cancel_other_jobs k j now d) = db_ledger d"
  "db_leases (cancel_other_jobs k j now d) = db_leases d"
  "map j_idempotency_key (db_jobs (cancel_other_jobs k j now d)) = map j_idempotency_key (db_jobs d)"
  by (auto simp: cancel_other_jobs_def update_where_def)

lemma begin_purge_cases:
  assumes "begin_purge sn now d = Inr (d', res)"
  obtains t where "t \<in> set (db_torrents d)" "t_id t = sn_managed_torrent_id sn"
    "(res = PurgeDone \<and> d' = d)
     \<or> (res = PurgeDone \<and> t_state t \<noteq> PURGED \<and> has_active_request d (t_id t)
        \<and> d' = put_torrent (kept_torrent now t) d)
     \<or> (res = PurgeActivated \<and> \<not> purge_state (t_state t) \<and> \<not> has_active_request d (t_id t)
        \<and> t_purge_after t \<noteq> None \<and> the (t_purge_after t) \<le> now
        \<and> d' = cancel_other_jobs (t_id t) (sn_id sn) now (put_torrent (purge_pending_torrent now t) d))
     \<or> (res = PurgeReady (t\<lparr>t_state := PURGING, t_updated_at := now\<rparr>)
        \<and> t_state t \<in> {PURGE_PENDING, PURGING} \<and> \<not> has_active_request d (t_id t)
        \<and> \<not> live_lease now (t_id t) d \<and> \<not> t_purge_stop_pending t
        \<and> t_purge_after t \<noteq> None \<and> the (t_purge_after t) \<le> now
        \<and> d' = put_torrent (t\<lparr>t_state := PURGING, t_updated_at := now\<rparr>) d)"
proof -
  obtain t where t: "find_row t_id (sn_managed_torrent_id sn) (db_torrents d) = Some t"
    using assms by (auto simp: begin_purge_def split: option.splits)
  have mem: "t \<in> set (db_torrents d)" "t_id t = sn_managed_torrent_id sn" using find_row_SomeD [OF t] by simp_all
  show thesis
    by (rule that [OF mem], insert assms t)
      (cases "t_purge_after t"; cases "t_state t";
        auto simp: begin_purge_def Let_def purge_state_def split: if_splits)
qed

lemma begin_purge_ok:
  assumes "platform_ok d" "begin_purge sn now d = Inr (d', res)"
  shows "platform_ok d'"
  using assms(2)
proof (rule begin_purge_cases)
  fix t
  assume mem: "t \<in> set (db_torrents d)" "t_id t = sn_managed_torrent_id sn"
    and c: "(res = PurgeDone \<and> d' = d)
     \<or> (res = PurgeDone \<and> t_state t \<noteq> PURGED \<and> has_active_request d (t_id t)
        \<and> d' = put_torrent (kept_torrent now t) d)
     \<or> (res = PurgeActivated \<and> \<not> purge_state (t_state t) \<and> \<not> has_active_request d (t_id t)
        \<and> t_purge_after t \<noteq> None \<and> the (t_purge_after t) \<le> now
        \<and> d' = cancel_other_jobs (t_id t) (sn_id sn) now (put_torrent (purge_pending_torrent now t) d))
     \<or> (res = PurgeReady (t\<lparr>t_state := PURGING, t_updated_at := now\<rparr>)
        \<and> t_state t \<in> {PURGE_PENDING, PURGING} \<and> \<not> has_active_request d (t_id t)
        \<and> \<not> live_lease now (t_id t) d \<and> \<not> t_purge_stop_pending t
        \<and> t_purge_after t \<noteq> None \<and> the (t_purge_after t) \<le> now
        \<and> d' = put_torrent (t\<lparr>t_state := PURGING, t_updated_at := now\<rparr>) d)"
  note ok = platform_okD [OF assms(1)]
  have check: "torrent_check t" by (rule torrent_row_ok [OF ok(1) mem(1)])
  have kept: "platform_ok (put_torrent (kept_torrent now t) d)" if "has_active_request d (t_id t)"
  proof -
    note a = active_request_not_purged [OF ok(1) mem(1) that]
    have st: "t_state t \<notin> {PURGE_PENDING, PURGING}" "t_state t \<noteq> PURGED" using a(2) by auto
    show ?thesis
      by (rule platform_put_torrent [OF assms(1) mem(1) effect_rows_same(3)])
        (use check a st in \<open>auto simp: kept_torrent_def torrent_check_def\<close>)
  qed
  have pending: "platform_ok (put_torrent (purge_pending_torrent now t) d)"
    if "\<not> purge_state (t_state t)" "t_purge_after t \<noteq> None"
    by (rule platform_put_torrent [OF assms(1) mem(1) effect_rows_same(4)])
      (use check that in \<open>auto simp: purge_pending_torrent_def torrent_check_def\<close>)
  have ready: "platform_ok (put_torrent (t\<lparr>t_state := PURGING, t_updated_at := now\<rparr>) d)"
    if "t_state t \<in> {PURGE_PENDING, PURGING}" "t_purge_after t \<noteq> None"
    by (rule platform_put_torrent [OF assms(1) mem(1)])
      (use check that in \<open>auto simp: same_torrent_def torrent_check_def\<close>)
  from c show ?thesis
    using assms(1) kept pending ready
      platform_ok_cong [of d' "put_torrent (purge_pending_torrent now t) d"]
    by (elim disjE conjE) simp_all
qed

lemma finish_purge_cases:
  assumes "finish_purge k n now d = Inr d'"
  obtains t where "t \<in> set (db_torrents d)" "t_id t = k"
    "(t_state t = PURGED \<and> d' = d)
     \<or> (t_state t = PURGING \<and> \<not> has_active_request d k \<and> \<not> live_lease now k d
        \<and> d' = put_torrent (purged_torrent now t) (release_ledger n now (delete_files k d)))"
proof -
  obtain t where t: "find_row t_id k (db_torrents d) = Some t"
    using assms by (auto simp: finish_purge_def split: option.splits)
  have mem: "t \<in> set (db_torrents d)" "t_id t = k" using find_row_SomeD [OF t] by simp_all
  show thesis by (rule that [OF mem]) (use assms t mem in \<open>auto simp: finish_purge_def split: if_splits\<close>)
qed

lemma release_ledger_frame [simp]:
  "db_torrents (release_ledger n now d) = db_torrents d" "db_requests (release_ledger n now d) = db_requests d"
  "db_usages (release_ledger n now d) = db_usages d" "db_jobs (release_ledger n now d) = db_jobs d"
  "db_leases (release_ledger n now d) = db_leases d"
  "db_torrents (delete_files k d) = db_torrents d" "db_requests (delete_files k d) = db_requests d"
  "db_usages (delete_files k d) = db_usages d" "db_jobs (delete_files k d) = db_jobs d"
  "db_leases (delete_files k d) = db_leases d" "db_ledger (delete_files k d) = db_ledger d"
  by (simp_all add: release_ledger_def delete_files_def)

text \<open>
  The row of a torrent leaves the accounts: the ledger gives back exactly what the row was charged,
  because the sum over the rows covers it.
\<close>

lemma purged_row_ok:
  assumes "platform_ok d" "t \<in> set (db_torrents d)" "same_torrent t t'" "torrent_check t'"
    and "t_state t \<noteq> PURGED" "t_state t' = PURGED" "\<not> has_active_request d (t_id t)"
    and "t_lifecycle_generation t \<le> t_lifecycle_generation t'"
  shows "platform_ok (put_torrent t' (release_ledger (t_total_size t) now (delete_files k d)))"
proof -
  note ok = platform_okD [OF assms(1)]
  let ?e = "release_ledger (t_total_size t) now (delete_files k d)"
  have id: "t_id t' = t_id t" using assms(3) by (simp add: same_torrent_def)
  have sys: "tables_ok d" "accounting_ok d" "rights_ok d" using ok(1) by (simp_all add: system_ok_def)
  have u: "torrents_unique (db_torrents d)" using sys(1) by (simp add: tables_ok_def)
  have mem: "t \<in> set (db_torrents ?e)" using assms(2) by simp
  have frame: "db_torrents ?e = db_torrents d" "db_requests ?e = db_requests d" "db_usages ?e = db_usages d"
    "db_jobs ?e = db_jobs d" by simp_all
  have act: "has_active_request (put_torrent t' ?e) x = has_active_request d x" for x
    by (rule has_active_request_cong) simp
  have tab: "tables_ok ?e" using sys(1) by (simp add: tables_ok_def)
  have weight: "managed_weight t = t_total_size t" "managed_weight t' = 0"
    using assms(5,6) by (simp_all add: managed_weight_def)
  have cover: "t_total_size t \<le> ledger_bytes d"
    using managed_sum_member [of "db_torrents d" t] sys(1,2) assms(2) weight(1)
    by (simp add: tables_ok_def accounting_ok_iff)
  have size: "0 \<le> t_total_size t"
    using torrent_row_ok [OF ok(1) assms(2)] by (simp add: torrent_check_def)
  then have led: "ledger_bytes ?e = ledger_bytes d - t_total_size t"
    using cover by (cases "db_ledger d") (auto simp: ledger_bytes_def release_ledger_def delete_files_def)
  have acc: "accounting_ok (put_torrent t' ?e)"
  proof -
    have u': "torrents_unique (db_torrents ?e)" using u by simp
    have "managed_sum (db_torrents (put_torrent t' ?e)) = managed_sum (db_torrents d) - t_total_size t"
      using managed_sum_put_torrent [OF u' mem id] weight by simp
    moreover have "ledger_bytes (put_torrent t' ?e) = ledger_bytes d - t_total_size t"
      using led by (simp add: ledger_bytes_def)
    moreover have "usage_bytes (put_torrent t' ?e) v = usage_bytes d v" for v
      by (simp add: usage_bytes_def)
    moreover have "logical_sum (db_torrents (put_torrent t' ?e)) (db_requests (put_torrent t' ?e)) v
        = logical_sum (db_torrents d) (db_requests d) v" for v
      using logical_sum_put_torrent [OF u' mem assms(3)] by simp
    ultimately show ?thesis using sys(2) by (simp add: accounting_ok_iff)
  qed
  have rig: "rights_ok (put_torrent t' ?e)"
  proof (rule rights_ok_put_torrent [OF _ mem id])
    have "has_active_request ?e x = has_active_request d x" for x by (rule has_active_request_cong) simp
    then show "rights_ok ?e" "\<not> has_active_request ?e (t_id t)" using sys(3) assms(7) by (simp_all add: rights_ok_def)
  qed
  have ret: "retained_ok (put_torrent t' ?e)"
  proof (rule retained_ok_keep [OF ok(2) act])
    fix x' assume "x' \<in> set (db_torrents (put_torrent t' ?e))"
    then have "x' = t' \<or> x' \<in> set (db_torrents d)" using in_put_torrent [OF mem id] by auto
    then show "\<exists>x\<in>set (db_torrents d). t_id x' = t_id x \<and> (t_state x = PURGED \<longrightarrow> t_state x' = PURGED)
           \<and> (t_purge_after x \<noteq> None \<longrightarrow> t_purge_after x' \<noteq> None \<or> t_state x' = PURGED)"
      using assms(2,6) id by metis
  qed
  have "keys_ok ?e" using ok(3) keys_ok_cong [of ?e d] by simp
  from keys_ok_put_torrent [OF this mem id assms(8)] show ?thesis
    using tables_ok_put_torrent [OF tab mem assms(3,4)] acc rig ret
    by (simp add: platform_ok_def lifecycle_ok_def system_ok_def)
qed

lemma finish_purge_ok:
  assumes "platform_ok d" "finish_purge k n now d = Inr d'"
    and "\<And>t. t \<in> set (db_torrents d) \<Longrightarrow> t_id t = k \<Longrightarrow> t_total_size t = n"
  shows "platform_ok d'"
  using assms(2)
proof (rule finish_purge_cases)
  fix t
  assume t: "t \<in> set (db_torrents d)" "t_id t = k"
    and c: "(t_state t = PURGED \<and> d' = d)
     \<or> (t_state t = PURGING \<and> \<not> has_active_request d k \<and> \<not> live_lease now k d
        \<and> d' = put_torrent (purged_torrent now t) (release_ledger n now (delete_files k d)))"
  have check: "torrent_check t" by (rule torrent_row_ok [OF platform_okD(1) [OF assms(1)] t(1)])
  have n: "n = t_total_size t" using assms(3) [OF t] by simp
  have "platform_ok (put_torrent (purged_torrent now t) (release_ledger (t_total_size t) now (delete_files k d)))"
    if "t_state t = PURGING" "\<not> has_active_request d k"
    by (rule purged_row_ok [OF assms(1) t(1) effect_rows_same(5)])
      (use check that t(2) in \<open>simp_all add: purged_torrent_def torrent_check_def\<close>)
  then show ?thesis using c assms(1) n by blast
qed

end
