(* ===== verification/Downloads.thy ===== *)
theory Downloads
  imports Torrent_Effects
begin

text \<open>
  The download leases of \<open>backend/app/torrents/downloads.py\<close> (class \<open>DownloadLeaseManager\<close>): a lease
  says that a transfer reads the content of a torrent until it expires. A lease starts only on a
  READY right, is renewed while the transfer may finish, and counts against the concurrency limits.
\<close>

definition validate_lease_seconds :: "int \<Rightarrow> app_error + int" where
  "validate_lease_seconds n =
     (if 30 \<le> n \<and> n \<le> 3600 then Inr n
      else Inl (Py (ValueError ''download lease duration is invalid'')))"

definition limit_in_range :: "int option \<Rightarrow> bool" where
  "limit_in_range m = (case m of None \<Rightarrow> True | Some n \<Rightarrow> 1 \<le> n \<and> n \<le> 20)"

definition GLOBAL_LIMIT_OPTION :: string where
  "GLOBAL_LIMIT_OPTION = ''WOS_DOWNLOAD_MAX_CONCURRENT_GLOBAL''"

definition download_right_ready :: "instant \<Rightarrow> managed_torrent option \<Rightarrow> torrent_request option \<Rightarrow> bool" where
  "download_right_ready now managed request =
     (case (managed, request) of
        (Some t, Some r) \<Rightarrow> t_state t = READY \<and> r_state r = R_READY
          \<and> (case r_unsubscribe_at r of None \<Rightarrow> False | Some u \<Rightarrow> u > now)
      | _ \<Rightarrow> False)"

definition active_leases :: "instant \<Rightarrow> string \<Rightarrow> uuid option \<Rightarrow> download_lease list \<Rightarrow> download_lease list" where
  "active_leases now kind owner leases =
     filter (\<lambda>l. now < dl_expires_at l \<and> dl_kind l = kind
       \<and> (case owner of None \<Rightarrow> True | Some u \<Rightarrow> dl_user_id l = u)) leases"

definition below_limit :: "int option \<Rightarrow> download_lease list \<Rightarrow> bool" where
  "below_limit limit leases = (case limit of None \<Rightarrow> True | Some n \<Rightarrow> int (length leases) < n)"

definition new_lease ::
  "uuid \<Rightarrow> int \<Rightarrow> uuid \<Rightarrow> uuid \<Rightarrow> uuid \<Rightarrow> uuid \<Rightarrow> string \<Rightarrow> instant \<Rightarrow> download_lease" where
  "new_lease lease_id lease_seconds owner managed_id request_id file_id kind now =
     \<lparr>dl_id = lease_id, dl_user_id = owner, dl_managed_torrent_id = managed_id,
      dl_torrent_request_id = request_id, dl_torrent_file_id = file_id, dl_kind = kind,
      dl_expires_at = now + seconds lease_seconds, dl_created_at = now, dl_renewed_at = now\<rparr>"

definition acquire_lease ::
  "uuid \<Rightarrow> int \<Rightarrow> uuid \<Rightarrow> uuid \<Rightarrow> uuid \<Rightarrow> uuid \<Rightarrow> int option \<Rightarrow> int option \<Rightarrow> string \<Rightarrow> instant \<Rightarrow> db
     \<Rightarrow> app_error + db \<times> download_lease" where
  "acquire_lease lease_id lease_seconds owner managed_id request_id file_id max_concurrent
       max_concurrent_global kind now d =
     rbind (require (limit_in_range max_concurrent)
              (Py (ValueError ''download concurrency limit is invalid''))) (\<lambda>_.
     rbind (require (limit_in_range max_concurrent_global)
              (Py (ValueError ''global download concurrency limit is invalid''))) (\<lambda>_.
     rbind (require (find_row o_key GLOBAL_LIMIT_OPTION (db_options d) \<noteq> None)
              (ManagedDownloadError ''global download concurrency option is missing'')) (\<lambda>_.
     rbind (require (user_enabled_row owner d)
              (ManagedDownloadError ''download owner is missing or inactive'')) (\<lambda>_.
     let managed = find_row t_id managed_id (db_torrents d);
         request = find (\<lambda>r. r_id r = request_id \<and> r_user_id r = owner
                          \<and> r_managed_torrent_id r = managed_id) (db_requests d);
         file = find (\<lambda>f. f_id f = file_id \<and> f_managed_torrent_id f = managed_id) (db_files d)
     in rbind (require (download_right_ready now managed request \<and> file \<noteq> None)
                 (ManagedDownloadError ''download right is no longer ready'')) (\<lambda>_.
        let leases = filter (\<lambda>l. \<not> dl_expires_at l \<le> now) (db_leases d);
            lease = new_lease lease_id lease_seconds owner managed_id request_id file_id kind now
        in rbind (require (below_limit max_concurrent_global (active_leases now kind None leases))
                    (DownloadConcurrencyError ''global download concurrency limit reached'')) (\<lambda>_.
           rbind (require (below_limit max_concurrent (active_leases now kind (Some owner) leases))
                    (DownloadConcurrencyError ''download concurrency limit reached'')) (\<lambda>_.
           if lease_id \<in> set (map dl_id leases) then Inl IntegrityError
           else Inr (d\<lparr>db_leases := leases @ [lease]\<rparr>, lease))))))))"

definition can_finish_download :: "managed_torrent \<Rightarrow> torrent_request \<Rightarrow> bool" where
  "can_finish_download t r \<longleftrightarrow>
     t_state t = READY \<and> r_state r = R_READY
     \<or> t_state t \<in> {READY, PURGE_PENDING} \<and> r_state r = R_EXPIRED
     \<or> t_state t \<in> {READY, PURGE_PENDING} \<and> r_state r = R_CANCELLED"

definition put_lease :: "download_lease \<Rightarrow> db \<Rightarrow> db" where
  "put_lease l d = d\<lparr>db_leases := update_row dl_id (dl_id l) (\<lambda>_. l) (db_leases d)\<rparr>"

definition renewed_lease :: "int \<Rightarrow> instant \<Rightarrow> download_lease \<Rightarrow> download_lease" where
  "renewed_lease lease_seconds now l =
     l\<lparr>dl_renewed_at := now, dl_expires_at := now + seconds lease_seconds\<rparr>"

definition renew_lease :: "int \<Rightarrow> uuid \<Rightarrow> instant \<Rightarrow> db \<Rightarrow> app_error + db" where
  "renew_lease lease_seconds lease_id now d =
     (let lost = ManagedDownloadError ''download lease was lost'' in
      case find_row dl_id lease_id (db_leases d) of
        None \<Rightarrow> Inl lost
      | Some lease \<Rightarrow>
          (case (find_row t_id (dl_managed_torrent_id lease) (db_torrents d),
                 find_row r_id (dl_torrent_request_id lease) (db_requests d)) of
             (Some t, Some r) \<Rightarrow>
               if dl_expires_at lease \<le> now \<or> \<not> user_enabled_row (dl_user_id lease) d
                  \<or> \<not> can_finish_download t r
               then Inl lost
               else Inr (put_lease (renewed_lease lease_seconds now lease) d)
           | _ \<Rightarrow> Inl lost))"

definition release_lease :: "uuid \<Rightarrow> db \<Rightarrow> db" where
  "release_lease lease_id d = d\<lparr>db_leases := filter (\<lambda>l. dl_id l \<noteq> lease_id) (db_leases d)\<rparr>"

section \<open>Limits\<close>

lemma acquire_lease_Inr:
  assumes "acquire_lease i secs u k rq f m g kind now d = Inr (d', l)"
  obtains t r where "find_row t_id k (db_torrents d) = Some t" "t_state t = READY"
    "r \<in> set (db_requests d)" "r_id r = rq" "r_user_id r = u" "r_managed_torrent_id r = k" "r_state r = R_READY"
    "user_enabled_row u d" "l = new_lease i secs u k rq f kind now"
    "d' = d\<lparr>db_leases := filter (\<lambda>l. \<not> dl_expires_at l \<le> now) (db_leases d) @ [l]\<rparr>"
    "below_limit g (active_leases now kind None (filter (\<lambda>l. \<not> dl_expires_at l \<le> now) (db_leases d)))"
    "below_limit m (active_leases now kind (Some u) (filter (\<lambda>l. \<not> dl_expires_at l \<le> now) (db_leases d)))"
proof -
  have "case (find_row t_id k (db_torrents d),
      find (\<lambda>r. r_id r = rq \<and> r_user_id r = u \<and> r_managed_torrent_id r = k) (db_requests d)) of
      (Some t, Some r) \<Rightarrow> t_state t = READY \<and> r_state r = R_READY | _ \<Rightarrow> False"
    using assms by (auto simp: acquire_lease_def rbind_Inr_iff require_Inr_iff Let_def download_right_ready_def
        split: option.splits)
  then obtain t r where "find_row t_id k (db_torrents d) = Some t" "t_state t = READY" "r_state r = R_READY"
    "find (\<lambda>r. r_id r = rq \<and> r_user_id r = u \<and> r_managed_torrent_id r = k) (db_requests d) = Some r"
    by (auto split: option.splits)
  with assms show thesis
    by (intro that [of t r]) (auto simp: acquire_lease_def rbind_Inr_iff require_Inr_iff Let_def
        split: if_splits dest: find_SomeD)
qed

text \<open>
  C40: A granted download respects every limit. The requester is an enabled account that holds a READY
  right on READY content; counting the new lease, the live leases of its kind are at most the global
  limit and those of the requester at most the personal one; only expired leases were removed, and the
  new one runs for exactly the configured time.\<close>

theorem acquire_lease_limits:
  assumes "acquire_lease i lease_seconds owner k rq file max_concurrent max_global kind now d = Inr (d', l)"
  shows "(case max_global of None \<Rightarrow> True | Some n \<Rightarrow> int (length (active_leases now kind None (db_leases d'))) \<le> n)
    \<and> (case max_concurrent of
         None \<Rightarrow> True | Some n \<Rightarrow> int (length (active_leases now kind (Some owner) (db_leases d'))) \<le> n)
    \<and> user_enabled_row owner d \<and> dl_expires_at l = now + seconds lease_seconds
    \<and> list_ex (\<lambda>t. t_id t = k \<and> t_state t = READY) (db_torrents d)
    \<and> list_ex (\<lambda>r. r_id r = rq \<and> r_user_id r = owner \<and> r_managed_torrent_id r = k \<and> r_state r = R_READY)
        (db_requests d)
    \<and> set (db_leases d') = insert l {x \<in> set (db_leases d). now < dl_expires_at x}"
  using assms
proof (rule acquire_lease_Inr)
  fix t r
  assume t: "find_row t_id k (db_torrents d) = Some t" "t_state t = READY"
    and r: "r \<in> set (db_requests d)" "r_id r = rq" "r_user_id r = owner" "r_managed_torrent_id r = k"
      "r_state r = R_READY"
    and en: "user_enabled_row owner d" and l: "l = new_lease i lease_seconds owner k rq file kind now"
    and d': "d' = d\<lparr>db_leases := filter (\<lambda>l. \<not> dl_expires_at l \<le> now) (db_leases d) @ [l]\<rparr>"
    and g: "below_limit max_global (active_leases now kind None (filter (\<lambda>l. \<not> dl_expires_at l \<le> now) (db_leases d)))"
    and m: "below_limit max_concurrent (active_leases now kind (Some owner) (filter (\<lambda>l. \<not> dl_expires_at l \<le> now) (db_leases d)))"
  have grow: "length (active_leases now kind w (db_leases d'))
      \<le> length (active_leases now kind w (filter (\<lambda>l. \<not> dl_expires_at l \<le> now) (db_leases d))) + 1" for w
    by (simp add: d' active_leases_def)
  have "case max_global of None \<Rightarrow> True | Some n \<Rightarrow> int (length (active_leases now kind None (db_leases d'))) \<le> n"
    using g grow [of None] by (auto simp: below_limit_def split: option.splits)
  moreover have "case max_concurrent of
      None \<Rightarrow> True | Some n \<Rightarrow> int (length (active_leases now kind (Some owner) (db_leases d'))) \<le> n"
    using m grow [of "Some owner"] by (auto simp: below_limit_def split: option.splits)
  moreover have "list_ex (\<lambda>t. t_id t = k \<and> t_state t = READY) (db_torrents d)"
    using find_row_SomeD [OF t(1)] t(2) by (auto simp: list_ex_iff)
  moreover have "list_ex (\<lambda>r. r_id r = rq \<and> r_user_id r = owner \<and> r_managed_torrent_id r = k \<and> r_state r = R_READY)
        (db_requests d)"
    using r by (auto simp: list_ex_iff)
  moreover have "set (db_leases d') = insert l {x \<in> set (db_leases d). now < dl_expires_at x}"
    by (auto simp: d')
  ultimately show ?thesis using en by (simp add: l new_lease_def)
qed

definition ex_download_db :: db where
  "ex_download_db = ex_shared_db\<lparr>
     db_files := [\<lparr>f_id = 95, f_managed_torrent_id = 40, f_file_index = 0, f_relative_path = lit ''n'', f_size = 60\<rparr>],
     db_leases := [new_lease 96 30 ex_user 40 50 95 ''file'' (- seconds 40),
                   new_lease 97 30 3 40 51 95 ''file'' 0],
     db_options := [\<lparr>o_key = GLOBAL_LIMIT_OPTION, o_value_type = ''integer'', o_boolean_value = None,
       o_integer_value = Some 2, o_string_value = None, o_minimum_value = Some 1,
       o_maximum_value = Some 20, o_choices = [], o_editable = True, o_restart_required = False,
       o_version = 1, o_updated_by_user_id = None, o_created_at = 0, o_updated_at = 0\<rparr>]\<rparr>"

theorem acquire_lease_limits_witness:
  "case acquire_lease 98 60 ex_user 40 50 95 (Some 1) (Some 2) ''file'' 9 ex_download_db of
     Inl e \<Rightarrow> False
   | Inr (d', l) \<Rightarrow> int (length (active_leases 9 ''file'' None (db_leases d'))) \<le> 2
       \<and> int (length (active_leases 9 ''file'' (Some ex_user) (db_leases d'))) \<le> 1"
proof -
  have "case acquire_lease 98 60 ex_user 40 50 95 (Some 1) (Some 2) ''file'' 9 ex_download_db of
      Inl e \<Rightarrow> False | Inr (d', l) \<Rightarrow> True"
    by code_simp
  then obtain d' l where
    run: "acquire_lease 98 60 ex_user 40 50 95 (Some 1) (Some 2) ''file'' 9 ex_download_db = Inr (d', l)"
    by (auto split: sum.splits)
  show ?thesis using acquire_lease_limits [OF run] run by simp
qed

end
