(* ===== verification/Torrents_Api.thy ===== *)
theory Torrents_Api
  imports Downloads
begin

text \<open>
  The two transactions of \<open>backend/app/api/routes/torrents_v2.py\<close> that put work in the queue:
  \<open>create_torrent_request\<close> (admission of an upload, with the ADD job of new content) and
  \<open>retry_torrent_request\<close> (a new attempt at content in ERROR). Reading the upload, the options and
  the disk happens before the transaction: their results are arguments, and so is what the payload
  store answers. The clock is read once per transaction; the identifiers \<open>uuid4\<close> draws are
  arguments. An error of a service becomes the HTTP answer of the route.
\<close>

section \<open>Submission\<close>

definition visible_request :: "instant \<Rightarrow> torrent_request \<Rightarrow> bool" where
  "visible_request now r \<longleftrightarrow>
     active_request_state (r_state r)
     \<and> (r_state r \<noteq> R_READY
        \<or> (case r_unsubscribe_at r of None \<Rightarrow> False | Some u \<Rightarrow> u > now))"

definition visible_count :: "uuid \<Rightarrow> instant \<Rightarrow> db \<Rightarrow> int" where
  "visible_count owner_id now d =
     int (length (filter (\<lambda>r. r_user_id r = owner_id \<and> visible_request now r) (db_requests d)))"

definition add_job :: "uuid \<Rightarrow> uuid \<Rightarrow> uuid \<Rightarrow> string \<Rightarrow> int \<Rightarrow> instant \<Rightarrow> torrent_job" where
  "add_job job_id managed_id request_id key max_attempts now =
     \<lparr>j_id = job_id, j_managed_torrent_id = managed_id, j_torrent_request_id = Some request_id,
      j_job_type = ADD_TORRENT_JOB, j_idempotency_key = key, j_recovery_snapshot = None,
      j_state = J_QUEUED, j_attempt_count = 0, j_max_attempts = max_attempts, j_available_at = now,
      j_timeout_at = None, j_claimed_by = None, j_claim_expires_at = None,
      j_cancel_requested_at = None, j_last_error_code = None, j_finished_at = None,
      j_created_at = now, j_updated_at = now\<rparr>"

definition add_key :: "managed_torrent_request_result \<Rightarrow> string" where
  "add_key res =
     (let t = mr_managed_torrent res in
      if mr_managed_torrent_created res then ''add:'' @ uuid_str (t_id t)
      else ''add:'' @ uuid_str (t_id t) @ '':reactivate:'' @ int_str (t_lifecycle_generation t))"

definition create_error :: "app_error \<Rightarrow> app_error" where
  "create_error e =
     (case e of
        StorageAdmissionError code _ \<Rightarrow> HTTPException 507 code
      | TorrentMetadataConflictError _ \<Rightarrow> HTTPException 409 ''torrent_metadata_conflict''
      | TorrentPurgeInProgressError _ \<Rightarrow> HTTPException 409 ''torrent_purge_in_progress''
      | TorrentDeduplicationError _ \<Rightarrow> HTTPException 422 ''torrent_request_invalid''
      | TorrentRequestOwnerError _ \<Rightarrow> HTTPException 422 ''torrent_request_invalid''
      | IntegrityError \<Rightarrow> HTTPException 503 ''torrent_request_unavailable''
      | _ \<Rightarrow> e)"

record upload_ids =
  up_managed_id :: uuid
  up_storage_key :: uuid
  up_request_id :: uuid
  up_job_id :: uuid

text \<open>\<open>staged\<close> is the infohash of the payload as staged, or the failure of the payload store.\<close>

definition enqueue_add ::
  "uuid \<Rightarrow> integration_error + string \<Rightarrow> string \<Rightarrow> int \<Rightarrow> instant \<Rightarrow> managed_torrent_request_result \<Rightarrow> db
     \<Rightarrow> app_error + db \<times> bool" where
  "enqueue_add job_id staged info_hash add_max_attempts now res d =
     (if mr_managed_torrent_created res \<or> mr_managed_torrent_reactivated res
      then rbind (require (staged = Inr info_hash)
                    (HTTPException 503 ''torrent_request_unavailable'')) (\<lambda>_.
           rbind (insert_job (add_job job_id (t_id (mr_managed_torrent res)) (r_id (mr_request res))
                    (add_key res) add_max_attempts now) d) (\<lambda>d'. Inr (d', True)))
      else Inr (d, False))"

definition create_torrent_request ::
  "upload_ids \<Rightarrow> integration_error + string \<Rightarrow> uuid \<Rightarrow> parsed_torrent \<Rightarrow> int \<Rightarrow> int \<Rightarrow> int
     \<Rightarrow> storage_admission_policy \<Rightarrow> storage_disk_snapshot \<Rightarrow> instant \<Rightarrow> db
     \<Rightarrow> app_error + db \<times> managed_torrent_request_result \<times> bool" where
  "create_torrent_request ids staged owner_id parsed max_active add_max_attempts auto_unsubscribe_hours
       policy disk now d =
     (case rbind (create_or_get_torrent_request (up_managed_id ids) (up_storage_key ids)
                    (up_request_id ids) owner_id (pt_info_hash parsed) (pt_name parsed)
                    (pt_total_size parsed) (Aware now) (Some policy) (Some disk)
                    auto_unsubscribe_hours d) (\<lambda>(d1, res).
             rbind (require (mr_request_created res \<longrightarrow> visible_count owner_id now d1 \<le> max_active)
                      (HTTPException 409 ''torrent_limit_reached'')) (\<lambda>_.
             rbind (enqueue_add (up_job_id ids) staged (pt_info_hash parsed) add_max_attempts now res d1)
               (\<lambda>(d2, job_created). Inr (d2, res, job_created)))) of
        Inl e \<Rightarrow> Inl (create_error e)
      | Inr r \<Rightarrow> Inr r)"

section \<open>Retry\<close>

record retry_snapshot =
  rs_managed_id :: uuid
  rs_storage_key :: uuid
  rs_lifecycle_generation :: int
  rs_resync_only :: bool

definition latest_add :: "uuid \<Rightarrow> db \<Rightarrow> torrent_job option" where
  "latest_add managed_id d =
     (case rev (sort_key (\<lambda>j. (j_created_at j, j_id j))
        (filter (\<lambda>j. j_managed_torrent_id j = managed_id \<and> j_job_type j = ADD_TORRENT_JOB) (db_jobs d)))
      of [] \<Rightarrow> None | j # _ \<Rightarrow> Some j)"

definition waiting_right :: "uuid \<Rightarrow> uuid \<Rightarrow> torrent_request \<Rightarrow> bool" where
  "waiting_right request_id owner_id r \<longleftrightarrow>
     r_id r = request_id \<and> r_user_id r = owner_id \<and> waiting_request_state (r_state r)"

definition retry_not_found :: app_error where
  "retry_not_found = HTTPException 404 ''torrent_request_not_found''"

definition retry_not_allowed :: app_error where
  "retry_not_allowed = HTTPException 409 ''torrent_retry_not_allowed''"

definition retry_snapshot_of :: "uuid \<Rightarrow> uuid \<Rightarrow> db \<Rightarrow> app_error + retry_snapshot" where
  "retry_snapshot_of request_id owner_id d =
     (case find (waiting_right request_id owner_id) (db_requests d) of
        None \<Rightarrow> Inl retry_not_found
      | Some r \<Rightarrow>
          (case find_row t_id (r_managed_torrent_id r) (db_torrents d) of
             None \<Rightarrow> Inl retry_not_found
           | Some t \<Rightarrow>
               rbind (require (t_state t = ERROR) retry_not_allowed) (\<lambda>_.
               case map_option j_state (latest_add (t_id t) d) of
                 Some J_COMPLETED \<Rightarrow>
                   Inr \<lparr>rs_managed_id = t_id t, rs_storage_key = t_storage_key t,
                        rs_lifecycle_generation = t_lifecycle_generation t, rs_resync_only = True\<rparr>
               | Some J_FAILED \<Rightarrow>
                   Inr \<lparr>rs_managed_id = t_id t, rs_storage_key = t_storage_key t,
                        rs_lifecycle_generation = t_lifecycle_generation t, rs_resync_only = False\<rparr>
               | _ \<Rightarrow> Inl retry_not_allowed)))"

definition committed_bytes :: "db \<Rightarrow> int" where
  "committed_bytes d =
     (\<Sum>t\<leftarrow>filter (\<lambda>t. t_state t \<in> {PENDING, ADDING, DOWNLOADING, PAUSED, RETRY_WAIT, READY})
              (db_torrents d). t_total_size t)"

definition resynced_torrent :: "instant \<Rightarrow> managed_torrent \<Rightarrow> managed_torrent" where
  "resynced_torrent now t =
     t\<lparr>t_state := PAUSED, t_qb_state := None, t_retry_at := None, t_scheduler_retry_at := None,
       t_stall_count := 0, t_last_progress_at := None, t_last_downloaded_bytes := None,
       t_desired_active := False, t_desired_priority := None, t_desired_download_limit := 0,
       t_admin_forced_active := False, t_updated_at := now\<rparr>"

definition retried_torrent :: "instant \<Rightarrow> managed_torrent \<Rightarrow> managed_torrent" where
  "retried_torrent now t =
     t\<lparr>t_lifecycle_generation := t_lifecycle_generation t + 1, t_state := PENDING, t_qb_state := None,
       t_progress := 0, t_retry_at := None, t_scheduler_retry_at := None, t_stall_count := 0,
       t_last_progress_at := None, t_last_downloaded_bytes := None, t_admin_forced_active := False,
       t_desired_active := False, t_desired_priority := None, t_desired_download_limit := 0,
       t_updated_at := now\<rparr>"

definition retry_key :: "managed_torrent \<Rightarrow> string" where
  "retry_key t = ''add:'' @ uuid_str (t_id t) @ '':retry:'' @ int_str (t_lifecycle_generation t)"

definition requeue_add ::
  "uuid \<Rightarrow> parsed_torrent \<Rightarrow> int \<Rightarrow> instant \<Rightarrow> torrent_request \<Rightarrow> managed_torrent \<Rightarrow> db
     \<Rightarrow> app_error + db \<times> managed_torrent" where
  "requeue_add job_id parsed retry_max_attempts now owned managed d =
     rbind (require (\<not> list_ex (active_add_job (t_id managed)) (db_jobs d))
              (HTTPException 409 ''torrent_retry_in_progress'')) (\<lambda>_.
     rbind (require (payload_matches managed parsed)
              (HTTPException 409 ''torrent_payload_mismatch'')) (\<lambda>_.
     let managed' = retried_torrent now managed
     in case insert_job (add_job job_id (t_id managed) (r_id owned) (retry_key managed')
                           retry_max_attempts now) (put_torrent managed' d) of
          Inl _ \<Rightarrow> Inl (HTTPException 503 ''torrent_retry_unavailable'')
        | Inr d' \<Rightarrow> Inr (d', managed')))"

text \<open>\<open>parsed\<close> is the payload read between the snapshot and this transaction.\<close>

definition retry_transaction ::
  "uuid \<Rightarrow> retry_snapshot \<Rightarrow> parsed_torrent option \<Rightarrow> uuid \<Rightarrow> uuid \<Rightarrow> int \<Rightarrow> storage_admission_policy
     \<Rightarrow> storage_disk_snapshot \<Rightarrow> instant \<Rightarrow> db \<Rightarrow> app_error + db \<times> managed_torrent" where
  "retry_transaction job_id snapshot parsed request_id owner_id retry_max_attempts policy disk now d =
     (case (find_row t_id (rs_managed_id snapshot) (db_torrents d),
            find (\<lambda>r. waiting_right request_id owner_id r
                      \<and> r_managed_torrent_id r = rs_managed_id snapshot) (db_requests d)) of
        (Some managed, Some owned) \<Rightarrow>
          rbind (require (t_state managed = ERROR \<and> t_storage_key managed = rs_storage_key snapshot
                          \<and> t_lifecycle_generation managed = rs_lifecycle_generation snapshot)
                   retry_not_allowed) (\<lambda>_.
          rbind (require (map_option j_state (latest_add (t_id managed) d)
                          = Some (if rs_resync_only snapshot then J_COMPLETED else J_FAILED))
                   retry_not_allowed) (\<lambda>_.
          let (d1, _) = lock_storage_ledger now d in
          rbind (require (committed_bytes d1 + t_total_size managed
                          \<le> managed_reservation_capacity disk policy)
                   (HTTPException 507 ''managed_capacity_exceeded'')) (\<lambda>_.
          if rs_resync_only snapshot
          then (let managed' = resynced_torrent now managed in Inr (put_torrent managed' d1, managed'))
          else (case parsed of
                  None \<Rightarrow> Inl (Py AssertionError)
                | Some p \<Rightarrow> requeue_add job_id p retry_max_attempts now owned managed d1))))
      | _ \<Rightarrow> Inl retry_not_found)"

end
