(* ===== verification/Platform.thy ===== *)
theory Platform
  imports Torrents_Api
begin

text \<open>
  The platform as one transition system: the transactions of the API, the workers, the job handlers,
  the periodic passes and the download leases, interleaved in any order over the shared database.
  \<open>platform_transaction\<close> is the contract of a transaction that starts no purge: it keeps the
  invariants of the tables and is \<open>calm\<close>, so that content under deletion, the jobs that could still
  touch it and the leases on it are only ever reduced. Starting and finishing a purge and the leases
  are treated on their own.
\<close>

section \<open>Content under deletion\<close>

definition purging :: "db \<Rightarrow> uuid \<Rightarrow> bool" where
  "purging d k = list_ex (\<lambda>t. t_id t = k \<and> purge_state (t_state t)) (db_torrents d)"

definition pending_other :: "torrent_job \<Rightarrow> bool" where
  "pending_other j \<longleftrightarrow>
     active_job_state (j_state j) \<and> j_cancel_requested_at j = None \<and> j_job_type j \<noteq> PURGE_TORRENT_JOB"

text \<open>No job but the purge may still act on content under deletion.\<close>

definition purge_jobs_ok :: "db \<Rightarrow> bool" where
  "purge_jobs_ok d \<longleftrightarrow>
     list_all (\<lambda>j. pending_other j \<longrightarrow> \<not> purging d (j_managed_torrent_id j)) (db_jobs d)"

text \<open>Content whose files are being removed, or are removed, is read by nobody.\<close>

definition leases_ok :: "instant \<Rightarrow> db \<Rightarrow> bool" where
  "leases_ok now d \<longleftrightarrow>
     list_all (\<lambda>t. t_state t \<in> {PURGING, PURGED} \<longrightarrow> \<not> live_lease now (t_id t) d) (db_torrents d)"

definition safe_ok :: "instant \<Rightarrow> db \<Rightarrow> bool" where
  "safe_ok now d \<longleftrightarrow> platform_ok d \<and> leases_ok now d \<and> purge_jobs_ok d"

definition calm :: "db \<Rightarrow> db \<Rightarrow> bool" where
  "calm d d' \<longleftrightarrow>
     db_leases d' = db_leases d
     \<and> (\<forall>x'\<in>set (db_torrents d'). purge_state (t_state x') \<longrightarrow>
          (\<exists>x\<in>set (db_torrents d). t_id x = t_id x' \<and> t_state x = t_state x'))
     \<and> (\<forall>j'\<in>set (db_jobs d'). pending_other j' \<longrightarrow>
          (\<exists>j\<in>set (db_jobs d). pending_other j \<and> j_managed_torrent_id j = j_managed_torrent_id j')
          \<or> \<not> purging d' (j_managed_torrent_id j'))"

lemma purging_iff: "purging d k \<longleftrightarrow> (\<exists>t\<in>set (db_torrents d). t_id t = k \<and> purge_state (t_state t))"
  by (auto simp: purging_def list_ex_iff)

lemma calm_purging: "calm d d' \<Longrightarrow> purging d' k \<Longrightarrow> purging d k"
  unfolding calm_def purging_iff by metis

lemma calm_leases: "calm d d' \<Longrightarrow> db_leases d' = db_leases d"
  by (simp add: calm_def)

lemma calm_torrent:
  assumes "calm d d'" "x' \<in> set (db_torrents d')" "purge_state (t_state x')"
  obtains x where "x \<in> set (db_torrents d)" "t_id x = t_id x'" "t_state x = t_state x'"
  using assms unfolding calm_def by blast

lemma calm_job:
  assumes "calm d d'" "j' \<in> set (db_jobs d')" "pending_other j'" "purging d' (j_managed_torrent_id j')"
  obtains j where "j \<in> set (db_jobs d)" "pending_other j" "j_managed_torrent_id j = j_managed_torrent_id j'"
  using assms unfolding calm_def by blast

lemma calmI:
  assumes "db_leases d' = db_leases d"
    and "\<And>x'. x' \<in> set (db_torrents d') \<Longrightarrow> purge_state (t_state x') \<Longrightarrow>
           \<exists>x\<in>set (db_torrents d). t_id x = t_id x' \<and> t_state x = t_state x'"
    and "\<And>j'. j' \<in> set (db_jobs d') \<Longrightarrow> pending_other j' \<Longrightarrow> purging d' (j_managed_torrent_id j') \<Longrightarrow>
           \<exists>j\<in>set (db_jobs d). pending_other j \<and> j_managed_torrent_id j = j_managed_torrent_id j'"
  shows "calm d d'"
  using assms unfolding calm_def by blast

lemma calm_trans: "calm d d' \<Longrightarrow> calm d' d'' \<Longrightarrow> calm d d''"
proof (rule calmI)
  assume c: "calm d d'" "calm d' d''"
  show "db_leases d'' = db_leases d" using c calm_leases by simp
  show "\<exists>x\<in>set (db_torrents d). t_id x = t_id x' \<and> t_state x = t_state x'"
    if "x' \<in> set (db_torrents d'')" "purge_state (t_state x')" for x'
    using calm_torrent [OF c(2) that] calm_torrent [OF c(1)] that(2) by metis
  show "\<exists>j\<in>set (db_jobs d). pending_other j \<and> j_managed_torrent_id j = j_managed_torrent_id j'"
    if j': "j' \<in> set (db_jobs d'')" "pending_other j'" "purging d'' (j_managed_torrent_id j')" for j'
  proof -
    obtain j where j: "j \<in> set (db_jobs d')" "pending_other j" "j_managed_torrent_id j = j_managed_torrent_id j'"
      by (rule calm_job [OF c(2) j'])
    have "purging d' (j_managed_torrent_id j)" using calm_purging [OF c(2) j'(3)] j(3) by simp
    then show ?thesis using calm_job [OF c(1) j(1,2)] j(3) by metis
  qed
qed

text \<open>The writes a calm transaction is made of.\<close>

lemma calm_frame:
  assumes "db_torrents d' = db_torrents d" "db_jobs d' = db_jobs d" "db_leases d' = db_leases d"
  shows "calm d d'"
  using assms by (intro calmI) auto

lemma calm_refl: "calm d d" by (rule calm_frame) simp_all

lemma calm_put_torrent:
  assumes "t \<in> set (db_torrents d)" "t_id t' = t_id t" "purge_state (t_state t') \<Longrightarrow> t_state t' = t_state t"
  shows "calm d (put_torrent t' d)"
proof (rule calmI)
  show "\<exists>x\<in>set (db_torrents d). t_id x = t_id x' \<and> t_state x = t_state x'"
    if "x' \<in> set (db_torrents (put_torrent t' d))" "purge_state (t_state x')" for x'
    using that in_put_torrent [OF assms(1,2)] assms by metis
qed (auto simp: put_torrent_def)

text \<open>A row that is not under deletion may be written whatever the row it replaces.\<close>

lemma calm_put_alive:
  assumes "\<not> purge_state (t_state t')"
  shows "calm d (put_torrent t' d)"
proof (rule calmI)
  show "\<exists>x\<in>set (db_torrents d). t_id x = t_id x' \<and> t_state x = t_state x'"
    if "x' \<in> set (db_torrents (put_torrent t' d))" "purge_state (t_state x')" for x'
    using that assms by (auto simp: put_torrent_def in_update_row)
qed (auto simp: put_torrent_def)

definition quiet_job :: "torrent_job \<Rightarrow> torrent_job \<Rightarrow> bool" where
  "quiet_job j j' \<longleftrightarrow>
     j_managed_torrent_id j' = j_managed_torrent_id j \<and> j_job_type j' = j_job_type j
     \<and> j_idempotency_key j' = j_idempotency_key j \<and> j_id j' = j_id j
     \<and> (pending_other j' \<longrightarrow> pending_other j)"

lemma quiet_refl: "quiet_job j j" by (simp add: quiet_job_def)

text \<open>No transition of the job state machine withdraws a cancellation or changes what the row is about.\<close>

lemma job_step_pending: "job_step j j' \<Longrightarrow> pending_other j' \<Longrightarrow> pending_other j"
proof (induction rule: job_step.induct)
  case (step_claim accepted now j w ttl timeout)
  then show ?case by (simp add: pending_other_def claimed_job_def claimable_def)
next
  case (step_cancel_request j now)
  then show ?case by (simp add: pending_other_def cancel_requested_job_def Let_def split: if_splits)
next
  case (step_cancel_active j now)
  then show ?case by (simp add: pending_other_def cancel_active_job_def Let_def split: if_splits)
next
  case (step_recover now j delay)
  then show ?case
    by (simp add: pending_other_def recovered_job_def expired_claim_def Let_def split: if_splits)
qed (auto simp: pending_other_def job_row_simps give_back_attempt_def split: if_splits option.splits)

lemma job_step_quiet: "job_step j j' \<Longrightarrow> quiet_job j j'"
  using job_step_identity job_step_pending unfolding quiet_job_def by blast

lemma calm_jobs:
  assumes "db_torrents d' = db_torrents d" "db_leases d' = db_leases d"
    and "\<And>j'. j' \<in> set (db_jobs d') \<Longrightarrow> (\<exists>j\<in>set (db_jobs d). quiet_job j j')
           \<or> \<not> pending_other j' \<or> \<not> purging d (j_managed_torrent_id j')"
  shows "calm d d'"
proof (rule calmI)
  have p: "purging d' k = purging d k" for k by (simp add: purging_def assms(1))
  show "\<exists>j\<in>set (db_jobs d). pending_other j \<and> j_managed_torrent_id j = j_managed_torrent_id j'"
    if "j' \<in> set (db_jobs d')" "pending_other j'" "purging d' (j_managed_torrent_id j')" for j'
    using assms(3) [OF that(1)] that(2,3) p unfolding quiet_job_def by metis
qed (use assms in auto)

lemma calm_put_job:
  assumes "j \<in> set (db_jobs d)" "quiet_job j j'"
  shows "calm d (put_job j' d)"
proof (rule calm_jobs)
  fix k assume "k \<in> set (db_jobs (put_job j' d))"
  then have "k = j' \<or> k \<in> set (db_jobs d)" by (auto simp: put_job_def in_update_row)
  then show "(\<exists>i\<in>set (db_jobs d). quiet_job i k) \<or> \<not> pending_other k \<or> \<not> purging d (j_managed_torrent_id k)"
    using assms by (auto simp: quiet_job_def)
qed (simp_all add: put_job_def)

lemma calm_insert_job:
  assumes "insert_job j d = Inr d'" "\<not> pending_other j \<or> \<not> purging d (j_managed_torrent_id j)"
  shows "calm d d'"
proof -
  have d': "d' = d\<lparr>db_jobs := db_jobs d @ [j]\<rparr>" by (rule insert_job_frame [OF assms(1)])
  show ?thesis
    unfolding d' by (rule calm_jobs) (use assms(2) in \<open>auto simp: quiet_job_def\<close>)
qed

section \<open>The contract of a transaction\<close>

lemma calm_purge_jobs: "calm d d' \<Longrightarrow> purge_jobs_ok d \<Longrightarrow> purge_jobs_ok d'"
proof -
  assume c: "calm d d'" and ok: "purge_jobs_ok d"
  have "\<not> purging d' (j_managed_torrent_id j')" if j': "j' \<in> set (db_jobs d')" "pending_other j'" for j'
  proof
    assume p: "purging d' (j_managed_torrent_id j')"
    obtain j where j: "j \<in> set (db_jobs d)" "pending_other j" "j_managed_torrent_id j = j_managed_torrent_id j'"
      by (rule calm_job [OF c j' p])
    have "\<not> purging d (j_managed_torrent_id j')" using ok j by (auto simp: purge_jobs_ok_def list_all_iff)
    then show False using calm_purging [OF c p] by simp
  qed
  then show ?thesis by (simp add: purge_jobs_ok_def list_all_iff)
qed

lemma calm_leases_ok: "calm d d' \<Longrightarrow> leases_ok now d \<Longrightarrow> leases_ok now d'"
proof -
  assume c: "calm d d'" and l: "leases_ok now d"
  have "\<not> live_lease now (t_id x') d'" if x': "x' \<in> set (db_torrents d')" "t_state x' \<in> {PURGING, PURGED}" for x'
  proof -
    have "purge_state (t_state x')" using x'(2) by auto
    then obtain x where "x \<in> set (db_torrents d)" "t_id x = t_id x'" "t_state x = t_state x'"
      by (rule calm_torrent [OF c x'(1)])
    then have "\<not> live_lease now (t_id x') d" using l x'(2) by (auto simp: leases_ok_def list_all_iff)
    then show ?thesis by (simp add: live_lease_def calm_leases [OF c])
  qed
  then show ?thesis by (simp add: leases_ok_def list_all_iff)
qed

lemma calm_safe: "safe_ok now d \<Longrightarrow> platform_ok d' \<Longrightarrow> calm d d' \<Longrightarrow> safe_ok now d'"
  unfolding safe_ok_def using calm_purge_jobs calm_leases_ok by blast

locale platform_transaction =
  fixes run :: "db \<Rightarrow> db \<Rightarrow> bool"
  assumes run_ok: "platform_ok d \<Longrightarrow> purge_jobs_ok d \<Longrightarrow> run d d' \<Longrightarrow> platform_ok d'"
    and run_calm: "platform_ok d \<Longrightarrow> purge_jobs_ok d \<Longrightarrow> run d d' \<Longrightarrow> calm d d'"
begin

lemma safe: "safe_ok now d \<Longrightarrow> run d d' \<Longrightarrow> safe_ok now d'"
  using calm_safe [of now d d'] run_ok [of d d'] run_calm [of d d'] unfolding safe_ok_def by blast

lemma safe_sequence: "safe_ok now d \<Longrightarrow> run\<^sup>*\<^sup>* d d' \<Longrightarrow> safe_ok now d'"
  by (erule rtranclp_induct) (auto intro: safe)

end

section \<open>Admission, cancellation and expiry\<close>

lemma calm_adopt:
  assumes "t \<in> set (db_torrents d)" "t_state t \<noteq> PURGING" "adopt_torrent now t d = Inr (d1, t')"
  shows "calm d d1"
proof -
  have put: "calm d (put_torrent x d)" if "t_id x = t_id t" "\<not> purge_state (t_state x)" for x
    by (rule calm_put_torrent [OF assms(1) that(1)]) (use that(2) in simp)
  have cancel: "calm e (cancel_deferred_purge_jobs k now e)" for e k
  proof (rule calm_jobs)
    fix j' assume "j' \<in> set (db_jobs (cancel_deferred_purge_jobs k now e))"
    then obtain j where "j \<in> set (db_jobs e)"
      "j' = j \<or> (active_job_state (j_state j) \<and> j' = cancel_active_job now j)"
      by (auto simp: cancel_deferred_purge_jobs_def update_where_def deferred_purge_active_def)
    then have "\<exists>j\<in>set (db_jobs e). quiet_job j j'"
      using quiet_refl job_step_quiet [OF step_cancel_active] by blast
    then show "(\<exists>j\<in>set (db_jobs e). quiet_job j j') \<or> \<not> pending_other j' \<or> \<not> purging e (j_managed_torrent_id j')"
      by blast
  qed (simp_all add: cancel_deferred_purge_jobs_def)
  from assms(3,2) show ?thesis
  proof (cases rule: adopt_torrent_cases)
  qed (auto intro!: calm_refl put calm_trans [OF put cancel]
      simp: reactivated_torrent_def restored_torrent_def revoked_torrent_def purge_state_def)
qed

lemma admission_frame:
  assumes "prepare_storage_accounting u h sz policy disk now given (end_due_right u now t d1) = Inr (d3, pr)"
    and "acquire_right i u n now missing t d3 = Inr (d', r, ins)"
  shows "db_torrents d' = db_torrents d1" "db_jobs d' = db_jobs d1" "db_leases d' = db_leases d1"
proof -
  note f = prepare_frame [OF assms(1)]
  have e: "db_torrents (end_due_right u now t d1) = db_torrents d1" "db_jobs (end_due_right u now t d1) = db_jobs d1"
    "db_leases (end_due_right u now t d1) = db_leases d1"
    by (auto simp: end_due_right_def expire_request_def release_usage_def put_request_def split: option.splits)
  have "db_torrents d' = db_torrents d3 \<and> db_jobs d' = db_jobs d3 \<and> db_leases d' = db_leases d3"
    using assms(2)
    by (auto simp: acquire_right_def insert_torrent_request_def apply_storage_accounting_def add_usage_def
        put_request_def Let_def split: option.splits if_splits prod.splits)
  then show "db_torrents d' = db_torrents d1" "db_jobs d' = db_jobs d1" "db_leases d' = db_leases d1"
    using e f(1,4,6) by simp_all
qed

lemma adopted_row:
  assumes "t \<in> set (db_torrents d)" "t_state t \<noteq> PURGING" "adopt_torrent now t d = Inr (d1, t')"
  shows "t' \<in> set (db_torrents d1)" "\<not> purge_state (t_state t')"
proof -
  have mem: "x \<in> set (db_torrents (put_torrent x d))" if "t_id x = t_id t" for x
    using in_put_torrent [OF assms(1) that] by simp
  from assms(3,2) have "t' \<in> set (db_torrents d1) \<and> \<not> purge_state (t_state t')"
  proof (cases rule: adopt_torrent_cases)
    case unchanged
    then show ?thesis using assms(1) by simp
  qed (auto simp: mem reactivated_torrent_def restored_torrent_def revoked_torrent_def
      cancel_deferred_purge_jobs_def purge_state_def)
  then show "t' \<in> set (db_torrents d1)" "\<not> purge_state (t_state t')" by simp_all
qed

lemma create_platform_ok:
  assumes "platform_ok d" "fresh_managed_id mi d"
    and "create_or_get_torrent_request mi sk i u h nm sz now policy disk n d = Inr (d', res)"
  shows "platform_ok d'"
proof -
  note ok = platform_okD [OF assms(1)]
  from ok(4,3) assms(2,3) obtain d1 t d3 pr missing where c:
    "admission_state missing t d1" "missing \<Longrightarrow> \<not> has_active_request d1 (t_id t)"
    "prepare_storage_accounting u (t_info_hash t) (t_total_size t) policy disk (as_utc now) (Some missing)
       (end_due_right u (as_utc now) t d1) = Inr (d3, pr)"
    "acquire_right i u n (as_utc now) missing t d3 = Inr (d', mr_request res, mr_request_created res)"
    "keys_ok d1"
    by (rule create_run) blast
  note a = admitted_ok [OF c(1-4)]
  have "keys_ok d'" using c(5) keys_ok_cong [of d' d1] a(2,3) by simp
  then show ?thesis using a(1) by (simp add: platform_ok_def)
qed

lemma create_calm:
  assumes "create_or_get_torrent_request mi sk i u h nm sz now policy disk n d = Inr (d', res)"
  shows "calm d d'" "\<not> purge_state (t_state (mr_managed_torrent res))"
    "mr_managed_torrent res \<in> set (db_torrents d')"
proof -
  from assms obtain d0 created t0 where c:
    "insert_managed_torrent (new_managed_torrent mi sk h nm sz (as_utc now)) d = (d0, created)"
    "find_row t_info_hash h (db_torrents d0) = Some t0"
    "t_state t0 \<noteq> PURGING" "admit_to_torrent i u (as_utc now) policy disk n created t0 d0 = Inr (d', res)"
    by (rule create_cases)
  from c(4) obtain d1 t d3 pr where a: "adopt_torrent (as_utc now) t0 d0 = Inr (d1, t)"
    "prepare_storage_accounting u (t_info_hash t) (t_total_size t) policy disk (as_utc now)
       (Some (created \<or> t_state t0 = PURGED)) (end_due_right u (as_utc now) t d1) = Inr (d3, pr)"
    "acquire_right i u n (as_utc now) (created \<or> t_state t0 = PURGED) t d3
       = Inr (d', mr_request res, mr_request_created res)" "mr_managed_torrent res = t"
    by (rule admit_cases)
  have row: "t0 \<in> set (db_torrents d0)" using find_row_SomeD [OF c(2)] by simp
  have "calm d d0"
  proof (cases created)
    case True
    then have "d0 = d\<lparr>db_torrents := db_torrents d @ [new_managed_torrent mi sk h nm sz (as_utc now)]\<rparr>"
      using c(1) by (auto simp: insert_managed_torrent_def split: if_splits)
    then show ?thesis by (intro calmI) (auto simp: new_managed_torrent_def)
  next
    case False
    then show ?thesis using c(1) by (auto simp: insert_managed_torrent_def calm_refl split: if_splits)
  qed
  moreover have "calm d0 d1" by (rule calm_adopt [OF row c(3) a(1)])
  moreover have "calm d1 d'" using admission_frame [OF a(2,3)] by (rule calm_frame)
  ultimately show "calm d d'" using calm_trans by blast
  show "\<not> purge_state (t_state (mr_managed_torrent res))" "mr_managed_torrent res \<in> set (db_torrents d')"
    using adopted_row [OF row c(3) a(1)] admission_frame(1) [OF a(2,3)] a(4) by simp_all
qed

lemma cancel_owned_platform_ok:
  assumes "platform_ok d" "job_id \<notin> set (map j_id (db_jobs d))"
    and "cancel_owned_torrent_request job_id u rid n now detect d = Inr (d', res)"
  shows "platform_ok d'"
  using assms(3)
proof (cases rule: cancel_owned_cases)
  case unchanged
  then show ?thesis using assms(1) by simp
next
  case (released r t x)
  note ok = platform_okD [OF assms(1)]
  have rel: "release_right job_id detect (r_user_id r) n now t r d = Inr (d', x)" using released(3,7) by simp
  have "keys_ok d'"
    using release_right_total [OF ok(4,3) assms(2) released(1,4-6), of detect n now] rel by auto
  then show ?thesis
    using release_right_retained [OF ok(4) released(1,4-6) rel] by (simp add: platform_ok_def)
qed

text \<open>Scheduling a purge writes content that is still alive and queues a purge job.\<close>

lemma calm_schedule:
  assumes "\<not> purge_state (t_state t)" "schedule_deferred_purge i t origin pa now d = Inr (d', t', job)"
  shows "calm d d'"
proof -
  from assms(2) have ins: "insert_job job (put_torrent t' d) = Inr d'"
    and t': "t' = purge_scheduled_torrent pa now t" and job: "job = deferred_purge_job i t' origin pa now"
    by (auto simp: schedule_deferred_purge_def Let_def rbind_Inr_iff)
  have "calm d (put_torrent t' d)" by (rule calm_put_alive) (use assms(1) in \<open>simp add: t' purge_scheduled_torrent_def\<close>)
  moreover have "calm (put_torrent t' d) d'"
    by (rule calm_insert_job [OF ins]) (simp add: job pending_other_def deferred_purge_job_def)
  ultimately show ?thesis by (rule calm_trans)
qed

lemma release_frame:
  "db_torrents (release_usage u n now (put_request r d)) = db_torrents d"
  "db_jobs (release_usage u n now (put_request r d)) = db_jobs d"
  "db_leases (release_usage u n now (put_request r d)) = db_leases d"
  by (simp_all add: release_usage_def put_request_def)

lemma cancel_owned_calm:
  assumes "platform_ok d" "cancel_owned_torrent_request job_id u rid n now detect d = Inr (d', res)"
  shows "calm d d'"
  using assms(2)
proof (cases rule: cancel_owned_cases)
  case unchanged
  then show ?thesis by (simp add: calm_refl)
next
  case (released r t x)
  let ?d1 = "release_usage u (t_total_size t) now (put_request (cancelled_request now r) d)"
  have c: "calm d ?d1" by (rule calm_frame) (simp_all add: release_frame)
  have "has_active_request d (t_id t)" using released(1,4,6) by (auto simp: has_active_request_iff)
  then have alive: "\<not> purge_state (t_state t)"
    using active_request_not_purged [OF platform_okD(1) [OF assms(1)] released(5)] by simp
  show ?thesis
  proof (cases "has_active_request ?d1 (t_id t)")
    case True
    then show ?thesis using released(7) c by (simp add: release_right_def Let_def)
  next
    case False
    then obtain t' job where "schedule_deferred_purge job_id t (Some (r_id r))
        (if t_state t = ERROR then now else now + hours n) now ?d1 = Inr (d', t', job)"
      using released(7) by (auto simp: release_right_def Let_def rbind_Inr_iff)
    from calm_trans [OF c calm_schedule [OF alive this]] show ?thesis .
  qed
qed

lemma calm_expire_torrents:
  assumes "\<And>t. t \<in> set torrents \<Longrightarrow> \<not> purge_state (t_state t)"
    and "expire_torrents fresh now n torrents due ids d = Inr (d', res)"
  shows "calm d d'"
  using assms(2)
proof (induction ids arbitrary: d res)
  case Nil
  then show ?case by (simp add: calm_refl)
next
  case (Cons i ids)
  from Cons.prems obtain d1 r rs where step: "expire_torrent fresh now n torrents due i d = Inr (d1, r)"
    and rest: "expire_torrents fresh now n torrents due ids d1 = Inr (d', rs)"
    by (auto simp: rbind_Inr_iff)
  from step obtain t e where t: "find_row t_id i torrents = Some t"
    and e: "e = foldl (expire_request now (t_total_size t)) d (filter (\<lambda>r. r_managed_torrent_id r = i) due)"
    and c: "if has_active_request e i then d1 = e
      else \<exists>t' job. schedule_deferred_purge (fresh i) t
        (Some (r_id (hd (filter (\<lambda>r. r_managed_torrent_id r = i) due)))) (now + hours n) now e = Inr (d1, t', job)"
    by (rule expire_torrent_cases)
  have alive: "\<not> purge_state (t_state t)" using assms(1) find_row_SomeD [OF t] by simp
  have "calm x (foldl (expire_request now k) x rs')" for x k rs'
  proof (induction rs' arbitrary: x)
    case (Cons y ys)
    have "calm x (expire_request now k x y)" by (rule calm_frame) (simp_all add: expire_request_def release_frame)
    then show ?case using Cons.IH calm_trans by fastforce
  qed (simp add: calm_refl)
  then have "calm d e" by (simp add: e)
  moreover have "calm e d1" using c calm_schedule [OF alive] calm_refl by (metis (full_types))
  ultimately show ?case using Cons.IH [OF rest] calm_trans by blast
qed

definition fresh_jobs :: "(uuid \<Rightarrow> uuid) \<Rightarrow> db \<Rightarrow> bool" where
  "fresh_jobs fresh d \<longleftrightarrow>
     inj_on fresh (t_id ` set (db_torrents d)) \<and> fresh ` t_id ` set (db_torrents d) \<inter> j_id ` set (db_jobs d) = {}"

lemma expire_once_cases:
  assumes "expire_once lt lr fresh now now' d = Inr (d', ev, k)"
  obtains m n d1 c res where "1 \<le> n" "n \<le> 2160"
    "backfill_ready_unsubscribe_deadlines_batch lr (Aware now) m MAX_RETENTION_BATCH d = Inr (d1, c)"
    "expire_ready_torrents_batch lt lr fresh (Aware now') n MAX_RETENTION_BATCH d1 = Inr (d', res)"
  using assms
  by (auto simp: expire_once_def rbind_Inr_iff integer_database_option_def Let_def split: if_splits)

lemma backfill_platform_ok:
  assumes "platform_ok d" "backfill_ready_unsubscribe_deadlines_batch lr now n limit d = Inr (d', k)"
  shows "platform_ok d'"
proof -
  note ok = platform_okD [OF assms(1)]
  note b = backfill_ok [OF ok(1) assms(2)]
  have "retained_ok d'" by (rule retained_ok_keep [OF ok(2) b(2)]) (use b(3) in auto)
  moreover have "keys_ok d'" using keys_ok_cong [of d' d] b(3,4) ok(3) by simp
  ultimately show ?thesis using b(1) by (simp add: platform_ok_def lifecycle_ok_def)
qed

lemma due_torrents_alive:
  assumes "system_ok d" "t \<in> set (due_torrents locked now n d)"
  shows "t \<in> set (db_torrents d)" "\<not> purge_state (t_state t)"
proof -
  have t: "t \<in> set (db_torrents d)" "due_deadlines now d (t_id t) \<noteq> []"
    using assms(2) by (auto simp: due_torrents_def dest: in_set_takeD)
  then have "has_active_request d (t_id t)"
    by (auto simp: due_deadlines_def filter_empty_conv due_request_def has_active_request_iff)
  then show "t \<in> set (db_torrents d)" "\<not> purge_state (t_state t)"
    using active_request_not_purged [OF assms(1) t(1)] t(1) by simp_all
qed

lemma expire_batch_torrents:
  assumes "expire_ready_torrents_batch lt lr fresh (Aware now) n limit d = Inr (d', res)"
  obtains due ids where "expire_torrents fresh now n (due_torrents lt now (nat limit) d) due ids d = Inr (d', res)"
  using assms by (auto simp: expire_ready_torrents_batch_def rbind_Inr_iff Let_def)

lemma expire_once_ok:
  assumes "platform_ok d" "fresh_jobs fresh d" "expire_once lt lr fresh now now' d = Inr (d', ev, k)"
  shows "platform_ok d'" "calm d d'"
proof -
  obtain m n d1 c res where r: "1 \<le> n" "n \<le> 2160"
    "backfill_ready_unsubscribe_deadlines_batch lr (Aware now) m MAX_RETENTION_BATCH d = Inr (d1, c)"
    "expire_ready_torrents_batch lt lr fresh (Aware now') n MAX_RETENTION_BATCH d1 = Inr (d', res)"
    by (rule expire_once_cases [OF assms(3)])
  have ok1: "platform_ok d1" by (rule backfill_platform_ok [OF assms(1) r(3)])
  note ok = platform_okD [OF ok1]
  have fr: "db_torrents d1 = db_torrents d" "db_jobs d1 = db_jobs d" "db_leases d1 = db_leases d"
    using backfill_ok [OF platform_okD(1) [OF assms(1)] r(3)] by blast+
  have fresh: "inj_on fresh (t_id ` set (db_torrents d1))"
    "fresh ` t_id ` set (db_torrents d1) \<inter> j_id ` set (db_jobs d1) = {}"
    using assms(2) unfolding fresh_jobs_def fr by blast+
  obtain d2 res2 where run:
    "expire_ready_torrents_batch lt lr fresh (Aware now') n MAX_RETENTION_BATCH d1 = Inr (d2, res2)"
    "lifecycle_ok d2" "keys_ok d2"
    by (rule expire_batch_run [OF ok(4,3) fresh r(1,2) _ _ refl, of MAX_RETENTION_BATCH])
      (auto simp: MAX_RETENTION_BATCH_def)
  then show "platform_ok d'" using r(4) by (simp add: platform_ok_def)
  obtain due ids where
    "expire_torrents fresh now' n (due_torrents lt now' (nat MAX_RETENTION_BATCH) d1) due ids d1 = Inr (d', res)"
    by (rule expire_batch_torrents [OF r(4)])
  then have "calm d1 d'"
    by (rule calm_expire_torrents [rotated]) (rule due_torrents_alive(2) [OF ok(1)])
  then show "calm d d'" using calm_trans [OF calm_frame [OF fr]] by blast
qed

section \<open>The job handlers\<close>

lemma mark_adding_calm:
  assumes "mark_adding k now d = Inr (d', t, b)"
  shows "calm d d'"
proof -
  have "d' = d \<or> (\<exists>t0. d' = put_torrent (adding_torrent now t0) d)"
    using assms by (auto simp: mark_adding_def Let_def split: option.splits if_splits)
  then show ?thesis using calm_put_alive [of "adding_torrent now _"] calm_refl by (auto simp: adding_torrent_def)
qed

lemma finish_add_calm:
  assumes "finish_add i sn ref now d = Inr (d', r)"
  shows "calm d d'"
proof -
  obtain t where t: "find_row t_id (sn_managed_torrent_id sn) (db_torrents d) = Some t"
    using assms by (auto simp: finish_add_def split: option.splits)
  show ?thesis
  proof (cases "purge_state (t_state t)")
    case True
    then show ?thesis using assms t by (simp add: finish_add_def calm_refl)
  next
    case False
    let ?rs = "map (activated_request now) (torrent_requests_in (\<lambda>s. s = R_REQUESTED) (t_id t) d)"
    let ?d0 = "put_torrent (stopped_torrent now t) d"
    obtain a where rec: "record_tracker_activity i (t_id t) (sn_id sn) ref PROXY_HEALTH SUCCESS None (Aware now)
        (put_requests ?rs ?d0) = Inr (d', a)"
      using assms t False by (auto simp: finish_add_def Let_def rbind_Inr_iff)
    have "calm d ?d0" by (rule calm_put_alive) (simp add: stopped_torrent_def)
    moreover have "calm ?d0 d'" by (rule calm_frame) (simp_all add: record_tracker_activity_frame [OF rec])
    ultimately show ?thesis by (rule calm_trans)
  qed
qed

lemma replace_manifest_calm:
  assumes "replace_torrent_manifest sha fresh k files now d = Inr (d', w)"
  shows "calm d d'"
  using assms
proof (cases rule: replace_cases)
  case current
  then show ?thesis by (simp add: calm_refl)
next
  case (written t c d1)
  have mem: "t \<in> set (db_torrents d)" using find_row_SomeD [OF written(2)] by simp
  have fr: "db_torrents d1 = db_torrents d" "db_jobs d1 = db_jobs d" "db_leases d1 = db_leases d"
    using written(4) by (auto simp: replace_rows_def Let_def split: if_splits)
  have "calm d1 d'"
    unfolding written(5) by (rule calm_put_torrent [of t]) (use mem fr in \<open>auto simp: manifest_torrent_def\<close>)
  then show ?thesis using calm_trans [OF calm_frame [OF fr]] by blast
qed

lemma persist_snapshot_jobs:
  assumes "persist_snapshot k s now d = Inr (d', r)"
  shows "db_jobs d' = db_jobs d"
proof -
  have comp: "db_jobs d2 = db_jobs d1" if "record_completion b now d1 = Inr d2" for b d1 d2
    using record_completion_frame [OF that] by auto
  have sync: "db_jobs d2 = db_jobs d1" if "sync_requests t now d1 = Inr (d2, t', rs)" for t d1 d2 t' rs
    using that by (auto simp: sync_requests_def rbind_Inr_iff mark_ready_requests_def Let_def split: if_splits)
  have store: "db_jobs d' = db_jobs d" if run: "store_observation t st q s now d = Inr (d', t', rs)" for t st q t' rs
  proof -
    obtain t1 st' where st: "apply_stall_observation t s st (t_qb_state t) now = (t1, st')" by fastforce
    obtain t2 d2 where "record_completion (st' = READY \<and> t_state t \<noteq> READY) now (put_torrent t2 d) = Inr d2"
      "sync_requests t2 now d2 = Inr (d', t', rs)"
      using run by (auto simp: store_observation_def st Let_def rbind_Inr_iff flush_torrent_def split: if_splits)
    then show ?thesis using comp sync by fastforce
  qed
  show ?thesis
    using assms store by (auto simp: persist_snapshot_def Let_def rbind_Inr_iff split: option.splits prod.splits if_splits)
qed

lemma persist_snapshot_calm:
  assumes "platform_ok d" "persist_snapshot k s now d = Inr (d', r)"
  shows "calm d d'"
  by (rule calmI)
    (use persist_snapshot_ok [OF assms] persist_snapshot_jobs [OF assms(2)] in auto)

section \<open>Queued work\<close>

lemma not_purging:
  assumes "system_ok d" "t \<in> set (db_torrents d)" "\<not> purge_state (t_state t)"
  shows "\<not> purging d (t_id t)"
proof
  assume "purging d (t_id t)"
  then obtain x where x: "x \<in> set (db_torrents d)" "t_id x = t_id t" "purge_state (t_state x)"
    by (auto simp: purging_iff)
  then have "x = t" using torrents_distinct [OF assms(1)] assms(2) by (auto simp: distinct_map inj_on_def)
  then show False using x(3) assms(3) by simp
qed

lemma lifecycle_ok_cong:
  assumes "db_torrents d' = db_torrents d" "db_requests d' = db_requests d"
    "db_usages d' = db_usages d" "db_ledger d' = db_ledger d"
  shows "lifecycle_ok d' = lifecycle_ok d"
proof -
  have "retained_ok d' = retained_ok d"
    unfolding retained_ok_def assms(1) by (simp add: retained_at_cong [OF assms(2)] cong: list.pred_cong)
  then show ?thesis by (simp add: lifecycle_ok_def system_ok_cong [OF assms])
qed

text \<open>A key with another prefix than \<open>purge:\<close> leaves the generations of the purge keys alone.\<close>

lemma insert_job_platform_ok:
  assumes "platform_ok d" "insert_job j d = Inr d'" "take 6 (j_idempotency_key j) \<noteq> ''purge:''"
  shows "platform_ok d'"
proof -
  note ok = platform_okD [OF assms(1)]
  have d': "d' = d\<lparr>db_jobs := db_jobs d @ [j]\<rparr>" by (rule insert_job_frame [OF assms(2)])
  have "key_generation k (j_idempotency_key j) = None" for k
  proof (rule ccontr)
    assume "key_generation k (j_idempotency_key j) \<noteq> None"
    then have "take 43 (j_idempotency_key j) = purge_key_prefix k"
      by (auto simp: key_generation_def split: if_splits)
    then have "take 6 (take 43 (j_idempotency_key j)) = take 6 (purge_key_prefix k)" by simp
    then show False using assms(3) by (simp add: purge_key_prefix_def)
  qed
  then have "keys_ok d'" using ok(3) by (auto simp: keys_ok_def d' key_behind_def list_all_iff)
  moreover have "lifecycle_ok d'" using lifecycle_ok_cong [of d' d] ok(4) by (simp add: d')
  ultimately show ?thesis by (simp add: platform_ok_def)
qed

lemma enqueue_once_ok:
  assumes "platform_ok d" "enqueue_once ids now d = Inr (d', interval, created)"
  shows "platform_ok d'" "calm d d'"
proof -
  obtain cutoff c where fold: "foldl (insert_sync_job ids now) (d, 0) (sync_candidates cutoff d) = (d', c)"
  proof -
    obtain n where "case foldl (insert_sync_job ids now) (d, 0)
        (sync_candidates (now - seconds (max READY_SYNC_INTERVAL_SECONDS n)) d) of (x, c) \<Rightarrow> x = d'"
      using assms(2) by (auto simp: enqueue_once_def rbind_Inr_iff Let_def split: prod.splits)
    then show thesis using that by (auto split: prod.splits)
  qed
  have alive: "\<not> purging d k" if "k \<in> set (sync_candidates cutoff d)" for k
  proof -
    from that obtain t where id: "k = t_id t" and mem: "t \<in> set (take MAX_SYNC_BATCH (sort_key
        (\<lambda>t. (if t_state t = READY then 1 else 0 :: int, t_updated_at t, t_id t))
        (filter (sync_due d cutoff) (db_torrents d))))"
      unfolding sync_candidates_def by auto
    have t: "t \<in> set (db_torrents d)" "sync_due d cutoff t" using in_set_takeD [OF mem] by simp_all
    then have "\<not> purge_state (t_state t)" by (auto simp: sync_due_def)
    then show ?thesis unfolding id by (rule not_purging [OF platform_okD(1) [OF assms(1)] t(1)])
  qed
  have "platform_ok e' \<and> calm e e' \<and> db_torrents e' = db_torrents e"
    if "foldl (insert_sync_job ids now) (e, n) ks = (e', n')" "platform_ok e" "\<And>k. k \<in> set ks \<Longrightarrow> \<not> purging e k"
    for ks e n e' n'
    using that
  proof (induction ks arbitrary: e n)
    case Nil
    then show ?case by (simp add: calm_refl)
  next
    case (Cons k ks)
    let ?j = "sync_job (fst (ids k)) (uuid_hex (snd (ids k))) k now"
    have key: "take 6 (j_idempotency_key ?j) \<noteq> ''purge:''" by (simp add: sync_job_def)
    show ?case
    proof (cases "insert_job ?j e")
      case (Inl x)
      then show ?thesis using Cons by (simp add: insert_sync_job_def)
    next
      case (Inr e1)
      have e1: "db_torrents e1 = db_torrents e" using insert_job_frame [OF Inr] by simp
      have "\<not> purging e k" using Cons.prems(3) by simp
      then have c: "calm e e1" by (intro calm_insert_job [OF Inr]) (simp add: sync_job_def)
      have ok: "platform_ok e1" by (rule insert_job_platform_ok [OF Cons.prems(2) Inr key])
      have "platform_ok e' \<and> calm e1 e' \<and> db_torrents e' = db_torrents e1"
        by (rule Cons.IH [OF _ ok]) (use Cons.prems Inr e1 in \<open>auto simp: insert_sync_job_def purging_def\<close>)
      then show ?thesis using calm_trans [OF c] e1 by simp
    qed
  qed
  from this [OF fold assms(1) alive] show "platform_ok d'" "calm d d'" by blast+
qed

section \<open>The workers\<close>

lemma jobs_platform_ok:
  assumes "platform_ok d" "db_torrents d' = db_torrents d" "db_requests d' = db_requests d"
    "db_usages d' = db_usages d" "db_ledger d' = db_ledger d"
    and "set (map j_idempotency_key (db_jobs d')) \<subseteq> set (map j_idempotency_key (db_jobs d))"
  shows "platform_ok d'"
proof -
  note ok = platform_okD [OF assms(1)]
  have "keys_ok d'" by (rule keys_ok_mono [OF ok(3) assms(6)]) (use assms(2) in auto)
  then show ?thesis using ok(4) lifecycle_ok_cong [OF assms(2-5)] by (simp add: platform_ok_def)
qed

lemma put_job_ok:
  assumes "platform_ok d" "j \<in> set (db_jobs d)" "job_step j j'"
  shows "platform_ok (put_job j' d)" "calm d (put_job j' d)"
proof -
  have q: "quiet_job j j'" by (rule job_step_quiet [OF assms(3)])
  show "calm d (put_job j' d)" by (rule calm_put_job [OF assms(2) q])
  show "platform_ok (put_job j' d)"
    by (rule jobs_platform_ok [OF assms(1)])
      (use q assms(2) in \<open>auto simp: put_job_def in_update_row quiet_job_def\<close>)
qed

lemma claim_one_ok:
  assumes "platform_ok d" "claim_one locked cfg w handlers now d = Inr (d', r)"
  shows "platform_ok d' \<and> calm d d'"
proof (cases "handlers = []")
  case True
  then show ?thesis using assms by (simp add: claim_one_def calm_refl)
next
  case False
  then have "claim_next_torrent_job locked w now (wc_claim_ttl cfg) (wc_execution_timeout cfg) (Some handlers) d
      = Inr (d', r)"
    using assms(2) by (simp add: claim_one_def)
  then show ?thesis
  proof (cases rule: claim_next_cases)
    case none
    then show ?thesis using assms(1) by (simp add: calm_refl)
  next
    case (claimed j)
    then show ?thesis using put_job_ok [OF assms(1) claimed(1) step_claim [OF claimed(2)]] by simp
  qed
qed

lemma heartbeat_ok:
  assumes "platform_ok d" "heartbeat_once cfg w s now d = Inr d'"
  shows "platform_ok d' \<and> calm d d'"
proof -
  obtain j j' where "owned_job w s d = Inr j" "renew_torrent_job_claim j w now (wc_claim_ttl cfg) = Inr j'"
    "d' = put_job j' d"
    using assms(2) by (auto simp: heartbeat_once_def rbind_Inr_iff split: sum.splits app_error.splits)
  moreover from this have "j \<in> set (db_jobs d)" by (auto simp: owned_job_Inr dest: find_row_SomeD)
  ultimately show ?thesis using put_job_ok [OF assms(1) _ step_renew] by blast
qed

lemma job_cancellation_ok:
  assumes "platform_ok d"
  shows "platform_ok (fst (request_torrent_job_cancellation i now d))
    \<and> calm d (fst (request_torrent_job_cancellation i now d))"
proof (cases "find_row j_id i (db_jobs d)")
  case None
  then show ?thesis using assms by (simp add: request_torrent_job_cancellation_def calm_refl)
next
  case (Some j)
  have "j \<in> set (db_jobs d)" using find_row_SomeD [OF Some] by simp
  then show ?thesis
    using put_job_ok [OF assms _ step_cancel_request] Some
    by (simp add: request_torrent_job_cancellation_def Let_def)
qed

lemma recovered_rows_ok:
  assumes "platform_ok d" "\<And>j. j \<in> set js \<Longrightarrow> j \<in> set (db_jobs d) \<and> expired_claim now j" "distinct (map j_id js)"
  shows "platform_ok (foldl (\<lambda>d j. put_job j d) d (map (recovered_job now delay) js))
    \<and> calm d (foldl (\<lambda>d j. put_job j d) d (map (recovered_job now delay) js))"
  using assms
proof (induction js arbitrary: d)
  case Nil
  then show ?case by (simp add: calm_refl)
next
  case (Cons j js)
  have j: "j \<in> set (db_jobs d)" "expired_claim now j" using Cons.prems(2) by auto
  note p = put_job_ok [OF Cons.prems(1) j(1) step_recover [OF j(2), of delay]]
  have "k \<in> set (db_jobs (put_job (recovered_job now delay j) d)) \<and> expired_claim now k" if "k \<in> set js" for k
  proof -
    have "j_id k \<in> j_id ` set js" using that by (rule imageI)
    then have "j_id k \<noteq> j_id j" using Cons.prems(3) by auto
    then show ?thesis using Cons.prems(2) that by (auto simp: put_job_def in_update_row)
  qed
  then show ?case using Cons.IH [OF p(1)] Cons.prems(3) calm_trans [OF p(2)] by simp
qed

lemma error_torrent_ok:
  assumes "platform_ok d" "t \<in> set (db_torrents d)" "\<not> purge_state (t_state t)" "\<not> purge_state st"
  shows "platform_ok (put_torrent (t\<lparr>t_state := st, t_retry_at := r, t_updated_at := now\<rparr>) d)"
proof -
  have "torrent_check t" by (rule torrent_row_ok [OF platform_okD(1) [OF assms(1)] assms(2)])
  then show ?thesis
    by (intro platform_put_torrent [OF assms(1,2)])
      (use assms(3,4) in \<open>auto simp: same_torrent_def torrent_check_def purge_state_def\<close>)
qed

lemma fail_abandoned_ok:
  assumes "platform_ok d"
  shows "platform_ok (fst (foldl (fail_abandoned_torrent now) (d, ev, ch) ids))
    \<and> calm d (fst (foldl (fail_abandoned_torrent now) (d, ev, ch) ids))"
  using assms
proof (induction ids arbitrary: d ev ch)
  case Nil
  then show ?case by (simp add: calm_refl)
next
  case (Cons i ids)
  obtain d1 ev1 ch1 where step: "fail_abandoned_torrent now (d, ev, ch) i = (d1, ev1, ch1)" by (metis prod_cases3)
  have "d1 = d \<or> (\<exists>t. find_row t_id i (db_torrents d) = Some t \<and> failed_add_state (t_state t)
      \<and> d1 = put_torrent (t\<lparr>t_state := ERROR, t_retry_at := None, t_updated_at := now\<rparr>) d)"
    using step by (auto simp: fail_abandoned_torrent_def Let_def split: option.splits if_splits)
  then have "platform_ok d1 \<and> calm d d1"
  proof (elim disjE exE conjE)
    fix t assume t: "find_row t_id i (db_torrents d) = Some t" "failed_add_state (t_state t)"
      and d1: "d1 = put_torrent (t\<lparr>t_state := ERROR, t_retry_at := None, t_updated_at := now\<rparr>) d"
    have "\<not> purge_state (t_state t)" using t(2) by (auto simp: failed_add_state_def)
    then show ?thesis
      using error_torrent_ok [OF Cons.prems _ _, of t ERROR] find_row_SomeD [OF t(1)]
        calm_put_alive [of "t\<lparr>t_state := ERROR, t_retry_at := None, t_updated_at := now\<rparr>"] d1 by simp
  qed (use Cons.prems calm_refl in simp)
  then show ?case using Cons.IH [of d1 ev1 ch1] step calm_trans by auto
qed

lemma recover_expired_ok:
  assumes "platform_ok d" "distinct (map j_id (db_jobs d))"
    and "recover_expired_torrent_jobs locked now delay limit d = Inr (d', rec)"
  shows "platform_ok d' \<and> calm d d'"
proof (rule recover_expired_rows [OF assms(3,2)])
  fix js assume js: "\<forall>j\<in>set js. j \<in> set (db_jobs d) \<and> expired_claim now j" "distinct (map j_id js)"
    "d' = foldl (\<lambda>d j. put_job j d) d (map (recovered_job now delay) js)"
  show ?thesis unfolding js(3) by (rule recovered_rows_ok [OF assms(1)]) (use js(1,2) in blast)+
qed

lemma recover_if_due_ok:
  assumes "platform_ok d" "distinct (map j_id (db_jobs d))"
    and "recover_if_due locked cfg force since now d = Inr (d', ev, ch)"
  shows "platform_ok d' \<and> calm d d'"
  using assms(3,2)
proof (cases rule: recover_if_due_cases)
  case early
  then show ?thesis using assms(1) by (simp add: calm_refl)
next
  case (recovered js ab d1)
  have "platform_ok d1 \<and> calm d d1"
    unfolding recovered(3) by (rule recovered_rows_ok [OF assms(1)]) (use recovered(1,2) in blast)+
  then show ?thesis using recovered(4) fail_abandoned_ok calm_trans by blast
qed

text \<open>
  What a handler may report: a state for its torrent is ERROR or RETRY_WAIT, and the purge handler
  names none. The snapshot of a claim names the type and the torrent of its row, which never change.
\<close>

fun outcome_state :: "handler_outcome \<Rightarrow> managed_torrent_state option" where
  "outcome_state (HandlerTransient code st wt) = st"
| "outcome_state (HandlerPermanent code st) = st"
| "outcome_state outcome = None"

definition outcome_ok :: "torrent_job_snapshot \<Rightarrow> handler_outcome \<Rightarrow> bool" where
  "outcome_ok s outcome \<longleftrightarrow>
     outcome_state outcome \<in> {None, Some ERROR, Some RETRY_WAIT}
     \<and> (sn_job_type s = PURGE_TORRENT_JOB \<longrightarrow> outcome_state outcome = None)"

definition snapshot_current :: "torrent_job_snapshot \<Rightarrow> db \<Rightarrow> bool" where
  "snapshot_current s d \<longleftrightarrow>
     list_all (\<lambda>j. j_id j = sn_id s \<longrightarrow>
       j_job_type j = sn_job_type s \<and> j_managed_torrent_id j = sn_managed_torrent_id s) (db_jobs d)"

lemma settled_job_step:
  assumes "settled_job jitter cfg w s now code permanent wt d j = Inr j'"
  shows "job_step j j'" "j_cancel_requested_at j \<noteq> None \<Longrightarrow> j_state j' = J_CANCELLED"
  using assms
  by (auto simp: settled_job_def retried_job_def Let_def cancel_claimed_torrent_job_def rbind_Inr_iff
      split: if_splits intro: job_step.intros)

lemma finish_failure_writes:
  assumes "platform_ok d" "purge_jobs_ok d" "snapshot_current s d"
    and "ts \<in> {None, Some ERROR, Some RETRY_WAIT}" "sn_job_type s = PURGE_TORRENT_JOB \<Longrightarrow> ts = None"
    and "finish_failure jitter cfg w s code permanent ts wt now d = Inr (d', ev, ch)"
  obtains (job) j j' where "j \<in> set (db_jobs d)" "job_step j j'" "d' = put_job j' d"
  | (torrent) j j' t st r where "j \<in> set (db_jobs d)" "job_step j j'" "t \<in> set (db_torrents d)"
      "\<not> purge_state (t_state t)" "\<not> purge_state st"
      "d' = put_torrent (t\<lparr>t_state := st, t_retry_at := r, t_updated_at := now\<rparr>) (put_job j' d)"
proof -
  define managed where "managed = (if ts \<noteq> None \<or> sn_job_type s = ADD_JOB_TYPE
    then find_row t_id (sn_managed_torrent_id s) (db_torrents d) else None)"
  from assms(6) obtain j j' where own: "owned_job w s d = Inr j"
    and st: "settled_job jitter cfg w s now code permanent wt d j = Inr j'"
    and run: "(case managed of None \<Rightarrow> Inr (put_job j' d, [], False)
      | Some t \<Rightarrow> if j_state j' \<noteq> J_CANCELLED \<and> (ts \<noteq> None \<or> j_state j' = J_FAILED)
                    \<and> (ts \<noteq> None \<or> failed_add_state (t_state t))
                 then settle_torrent ts now j' t (put_job j' d) else Inr (put_job j' d, [], False))
      = Inr (d', ev, ch)"
    unfolding finish_failure_def Let_def managed_def [symmetric] rbind_Inr_iff by blast
  have res: "d' = put_job j' d \<or> (\<exists>t. managed = Some t \<and> j_state j' \<noteq> J_CANCELLED
      \<and> (ts \<noteq> None \<or> failed_add_state (t_state t)) \<and> settle_torrent ts now j' t (put_job j' d) = Inr (d', ev, ch))"
    using run by (cases managed) (auto split: if_splits)
  have j: "j \<in> set (db_jobs d)" "j_id j = sn_id s" "j_state j = J_RUNNING"
    using own by (auto simp: owned_job_Inr dest: find_row_SomeD)
  have wr: "\<exists>t st' r. t \<in> set (db_torrents d) \<and> \<not> purge_state (t_state t) \<and> \<not> purge_state st'
      \<and> d' = put_torrent (t\<lparr>t_state := st', t_retry_at := r, t_updated_at := now\<rparr>) (put_job j' d)" if t: "managed = Some t" "j_state j' \<noteq> J_CANCELLED"
    "ts \<noteq> None \<or> failed_add_state (t_state t)" "settle_torrent ts now j' t (put_job j' d) = Inr (d', ev, ch)" for t
  proof -
    have fr: "find_row t_id (sn_managed_torrent_id s) (db_torrents d) = Some t"
      using t(1) by (simp add: managed_def split: if_splits)
    have row: "t \<in> set (db_torrents d)" "t_id t = sn_managed_torrent_id s" using find_row_SomeD [OF fr] by blast+
    have alive: "\<not> purge_state (t_state t)"
    proof (cases "ts = None")
      case True
      then show ?thesis using t(3) by (auto simp: failed_add_state_def)
    next
      case False
      have cur: "j_job_type j = sn_job_type s" "j_managed_torrent_id j = sn_managed_torrent_id s"
        using assms(3) j(1,2) by (simp_all add: snapshot_current_def list_all_iff)
      have "j_cancel_requested_at j = None" using settled_job_step(2) [OF st] t(2) by blast
      then have "pending_other j" using False assms(5) cur(1) j(3) by (auto simp: pending_other_def)
      then have "\<not> purging d (sn_managed_torrent_id s)"
        using assms(2) j(1) cur(2) by (auto simp: purge_jobs_ok_def list_all_iff)
      then show ?thesis using row by (auto simp: purging_iff)
    qed
    have "\<exists>st' r. \<not> purge_state st'
        \<and> d' = put_torrent (t\<lparr>t_state := st', t_retry_at := r, t_updated_at := now\<rparr>) (put_job j' d)"
      using t(4) assms(4)
      by (cases "j_state j' = J_FAILED"; cases ts)
        (auto simp: settle_torrent_def Let_def rbind_Inr_iff intro: exI [of _ ERROR] exI [of _ RETRY_WAIT])
    then show ?thesis using row(1) alive by blast
  qed
  show thesis
  proof (cases "d' = put_job j' d")
    case True
    then show thesis by (rule job [OF j(1) settled_job_step(1) [OF st]])
  next
    case False
    then obtain t st' r where "t \<in> set (db_torrents d)" "\<not> purge_state (t_state t)" "\<not> purge_state st'"
      "d' = put_torrent (t\<lparr>t_state := st', t_retry_at := r, t_updated_at := now\<rparr>) (put_job j' d)"
      using res wr by blast
    then show thesis by (rule torrent [OF j(1) settled_job_step(1) [OF st]])
  qed
qed

lemma settle_cases:
  assumes "platform_ok d" "purge_jobs_ok d" "snapshot_current s d" "outcome_ok s outcome"
    and "settle_claimed_job jitter cfg w s outcome now d = Inr (d', ev, ch)"
  obtains (same) "d' = d" | (job) j j' where "j \<in> set (db_jobs d)" "job_step j j'" "d' = put_job j' d"
  | (torrent) j j' t st r where "j \<in> set (db_jobs d)" "job_step j j'" "t \<in> set (db_torrents d)"
      "\<not> purge_state (t_state t)" "\<not> purge_state st"
      "d' = put_torrent (t\<lparr>t_state := st, t_retry_at := r, t_updated_at := now\<rparr>) (put_job j' d)"
proof -
  consider "d' = d" | "finish_success w s now d = Inr d'"
    | code permanent ts wt where "ts = outcome_state outcome"
        "finish_failure jitter cfg w s code permanent ts wt now d = Inr (d', ev, ch)"
    using assms(5)
    by (auto simp: settle_claimed_job_def Let_def rbind_Inr_iff
        split: handler_outcome.splits sum.splits app_error.splits)
  then show thesis
  proof cases
    case 1
    then show thesis by (rule same)
  next
    case 2
    then obtain j j' where own: "owned_job w s d = Inr j" and d': "d' = put_job j' d"
      and "complete_torrent_job j w now = Inr j' \<or> cancel_claimed_torrent_job j w now = Inr j'"
      by (rule finish_success_cases)
    then have "job_step j j'" by (auto intro: job_step.intros)
    moreover have "j \<in> set (db_jobs d)" using own by (auto simp: owned_job_Inr dest: find_row_SomeD)
    ultimately show thesis using job d' by blast
  next
    case 3
    have "ts \<in> {None, Some ERROR, Some RETRY_WAIT}" "sn_job_type s = PURGE_TORRENT_JOB \<Longrightarrow> ts = None"
      using assms(4) 3(1) by (simp_all add: outcome_ok_def)
    from assms(1-3) this 3(2) show thesis
      by (cases rule: finish_failure_writes) (assumption | erule (2) job | erule (5) torrent)+
  qed
qed

lemma settle_ok:
  assumes "platform_ok d" "purge_jobs_ok d" "snapshot_current s d" "outcome_ok s outcome"
    and "settle_claimed_job jitter cfg w s outcome now d = Inr (d', ev, ch)"
  shows "platform_ok d' \<and> calm d d'"
  using assms
proof (cases rule: settle_cases)
  case same
  then show ?thesis using assms(1) by (simp add: calm_refl)
next
  case (job j j')
  then show ?thesis using put_job_ok [OF assms(1)] by blast
next
  case (torrent j j' t st r)
  note p = put_job_ok [OF assms(1) torrent(1,2)]
  have "t \<in> set (db_torrents (put_job j' d))" using torrent(3) by simp
  from error_torrent_ok [OF p(1) this torrent(4,5)] show ?thesis
    unfolding torrent(6)
    using calm_trans [OF p(2) calm_put_alive [of "t\<lparr>t_state := st, t_retry_at := r, t_updated_at := now\<rparr>"]]
      torrent(5) by simp
qed

text \<open>The exceptions of the handlers, as the worker sees them.\<close>

fun error_outcome :: "app_error \<Rightarrow> handler_outcome" where
  "error_outcome (TransientTorrentJobError code st wt) = HandlerTransient code st wt"
| "error_outcome (PermanentTorrentJobError code st) = HandlerPermanent code st"
| "error_outcome e = HandlerUnexpected"

definition outcome_of :: "app_error + 'a \<Rightarrow> handler_outcome" where
  "outcome_of r = (case r of Inl e \<Rightarrow> error_outcome e | Inr _ \<Rightarrow> HandlerReturned)"

definition reportable :: "app_error \<Rightarrow> bool" where
  "reportable e \<longleftrightarrow> outcome_state (error_outcome e) \<in> {None, Some ERROR, Some RETRY_WAIT}"

definition reported :: "app_error + 'a \<Rightarrow> bool" where
  "reported r \<longleftrightarrow> (case r of Inl e \<Rightarrow> reportable e | Inr _ \<Rightarrow> True)"

lemma reported_outcome: "reported r \<longleftrightarrow> outcome_state (outcome_of r) \<in> {None, Some ERROR, Some RETRY_WAIT}"
  by (cases r) (simp_all add: reported_def outcome_of_def reportable_def)

lemma reported_sum [simp]: "reported (Inr r)" "reported (Inl e) = reportable e"
  by (simp_all add: reported_def)

lemma reportable_simps [simp]:
  "reportable (PermanentTorrentJobError code None)" "reportable (TransientTorrentJobError code None wt)"
  "reportable (waiting_retry code)" "reportable (permanent_error code)" "reportable escaping"
  "reportable IntegrityError" "reportable (TrackerActivityError code)" "reportable (TorrentManifestError code)"
  "reportable (Py e)"
  by (simp_all add: reportable_def waiting_retry_def permanent_error_def escaping_def)

lemma failures_reportable [simp]:
  "reportable (route_failure e)" "reportable (payload_failure e)" "reportable (prepare_failure e)"
  "reportable (add_failure e)" "reportable (sync_failure b e)" "reportable (purge_failure e)"
  by (cases e; simp add: route_failure_def payload_failure_def prepare_failure_def add_failure_def
      sync_failure_def purge_failure_def)+

lemma reported_rbind: "reported m \<Longrightarrow> (\<And>x. m = Inr x \<Longrightarrow> reported (f x)) \<Longrightarrow> reported (rbind m f)"
  by (cases m) simp_all

lemma reported_require: "reportable e \<Longrightarrow> reported (require b e)"
  by (simp add: require_def)

lemma reported_if: "(b \<Longrightarrow> reported x) \<Longrightarrow> (\<not> b \<Longrightarrow> reported y) \<Longrightarrow> reported (if b then x else y)" by simp

lemmas reported_intros = reported_rbind reported_require reported_if

lemma record_tracker_activity_reported: "reported (record_tracker_activity i k key ref ty out diag m d)"
  unfolding record_tracker_activity_def require_opaque_reference_def Let_def
  by (auto intro!: reported_intros split: option.split)

lemma finish_add_reported: "reported (finish_add i sn ref now d)"
  unfolding finish_add_def Let_def
  by (auto intro!: reported_intros record_tracker_activity_reported split: option.split)

lemma replace_manifest_reported: "reported (replace_torrent_manifest sha fresh k files now d)"
proof -
  have "reported (validate_entries es n ps acc)" for es n ps acc
    by (induction es n ps acc rule: validate_entries.induct) (auto intro!: reported_intros simp: require_Inr_iff)
  then show ?thesis
    unfolding replace_torrent_manifest_def validated_entries_def replace_rows_def checksum_def checksum_input_def
      Let_def
    by (auto intro!: reported_intros split: option.split)
qed

lemma manifest_failure_reportable: "reportable e \<Longrightarrow> reportable (manifest_failure e)"
  by (cases e) (simp_all add: manifest_failure_def)

lemma add_torrent_reported: "reported (snd (add_torrent sha fresh st services sn now d))"
proof -
  have mark: "reportable e" if "mark_adding k now d = Inl e" for k e
    using that by (auto simp: mark_adding_def Let_def split: option.splits if_splits)
  have man: "reportable (manifest_failure e)" if "replace_torrent_manifest sha fresh k files now d1 = Inl e" for k files d1 e
    using replace_manifest_reported [of sha fresh k files now d1] that by (simp add: manifest_failure_reportable)
  have fin: "reportable e" if "finish_add st sn ref now d1 = Inl e" for ref d1 e
    using finish_add_reported [of st sn ref now d1] that by simp
  show ?thesis
    unfolding add_torrent_def by (auto simp: mark man fin split: sum.split prod.split)
qed

lemma persist_snapshot_reported: "reported (persist_snapshot k s now d)"
proof -
  have dyn: "reported (record_dynamic_completion sch now d)" for sch d
    unfolding record_dynamic_completion_def option_row_value_def
    by (auto intro!: reported_intros split: option.split sum.split option_value.split bool.split)
  have comp: "reported (record_completion b now d)" for b d
    unfolding record_completion_def by (auto intro!: reported_intros dyn split: option.split bool.split)
  have sync: "reported (sync_requests t now d)" for t d
    unfolding sync_requests_def mark_ready_requests_def validate_lifecycle_hours_def integer_database_option_def Let_def
    by (auto intro!: reported_intros)
  show ?thesis
    unfolding persist_snapshot_def store_observation_def flush_torrent_def Let_def
    by (auto intro!: reported_intros comp sync split: option.split prod.split)
qed

lemma sync_torrent_reported: "reported (sync_torrent inspected sn now d)"
  unfolding sync_torrent_def
  by (auto intro!: persist_snapshot_reported split: option.split sum.split list.split)

lemma purge_torrent_outcome: "outcome_state (outcome_of (snd (purge_torrent removed sn now d))) = None"
proof -
  have fail: "outcome_state (error_outcome (purge_failure e)) = None" for e
    by (cases e) (simp_all add: purge_failure_def escaping_def)
  have start: "outcome_state (error_outcome e) = None" if "begin_purge sn now d = Inl e" for e
    using that by (auto simp: begin_purge_def Let_def split: option.splits if_splits)
  have fin: "outcome_state (error_outcome e) = None" if "finish_purge k n now d1 = Inl e" for k n d1 e
    using that by (auto simp: finish_purge_def split: option.splits if_splits)
  show ?thesis
    unfolding purge_torrent_def outcome_of_def
    by (auto simp: fail start fin split: sum.split prod.split purge_start.split)
qed

section \<open>The routes\<close>

lemma create_route_cases:
  assumes "create_torrent_request ids staged u p ma aa n policy disk now d = Inr (d', res, jc)"
  obtains d1 where
    "create_or_get_torrent_request (up_managed_id ids) (up_storage_key ids) (up_request_id ids) u
       (pt_info_hash p) (pt_name p) (pt_total_size p) (Aware now) (Some policy) (Some disk) n d = Inr (d1, res)"
    "mr_request_created res \<longrightarrow> visible_count u now d1 \<le> ma"
    "enqueue_add (up_job_id ids) staged (pt_info_hash p) aa now res d1 = Inr (d', jc)"
  using assms
  by (auto simp: create_torrent_request_def rbind_Inr_iff require_Inr_iff split: sum.splits)

lemma create_route_ok:
  assumes "platform_ok d" "fresh_managed_id (up_managed_id ids) d"
    and "create_torrent_request ids staged u p ma aa n policy disk now d = Inr (d', res, jc)"
  shows "platform_ok d' \<and> calm d d'"
proof -
  obtain d1 where c:
    "create_or_get_torrent_request (up_managed_id ids) (up_storage_key ids) (up_request_id ids) u
       (pt_info_hash p) (pt_name p) (pt_total_size p) (Aware now) (Some policy) (Some disk) n d = Inr (d1, res)"
    "enqueue_add (up_job_id ids) staged (pt_info_hash p) aa now res d1 = Inr (d', jc)"
    by (rule create_route_cases [OF assms(3)])
  have ok1: "platform_ok d1" by (rule create_platform_ok [OF assms(1,2) c(1)])
  note cl = create_calm [OF c(1)]
  show ?thesis
  proof (cases "mr_managed_torrent_created res \<or> mr_managed_torrent_reactivated res")
    case False
    then show ?thesis using c(2) ok1 cl(1) by (simp add: enqueue_add_def)
  next
    case True
    let ?j = "add_job (up_job_id ids) (t_id (mr_managed_torrent res)) (r_id (mr_request res)) (add_key res) aa now"
    have ins: "insert_job ?j d1 = Inr d'" using True c(2) by (auto simp: enqueue_add_def rbind_Inr_iff)
    have "\<not> purging d1 (t_id (mr_managed_torrent res))"
      by (rule not_purging [OF platform_okD(1) [OF ok1] cl(3,2)])
    then have "calm d1 d'" by (intro calm_insert_job [OF ins]) (simp add: add_job_def)
    moreover have "platform_ok d'"
      by (rule insert_job_platform_ok [OF ok1 ins]) (simp add: add_job_def add_key_def Let_def)
    ultimately show ?thesis using calm_trans [OF cl(1)] by blast
  qed
qed

lemma lock_ledger_ok:
  assumes "platform_ok d" "lock_storage_ledger now d = (d1, l)"
  shows "platform_ok d1" "calm d d1" "db_torrents d1 = db_torrents d" "db_requests d1 = db_requests d"
    "db_jobs d1 = db_jobs d"
proof -
  note ok = platform_okD [OF assms(1)]
  have all: "db_torrents d1 = db_torrents d \<and> db_requests d1 = db_requests d \<and> db_jobs d1 = db_jobs d
      \<and> db_usages d1 = db_usages d \<and> db_leases d1 = db_leases d \<and> ledger_bytes d1 = ledger_bytes d"
    using assms(2)
    by (auto simp: lock_storage_ledger_def ledger_bytes_def new_storage_ledger_def split: option.splits)
  then show fr: "db_torrents d1 = db_torrents d" "db_requests d1 = db_requests d" "db_jobs d1 = db_jobs d"
    by blast+
  show "calm d d1" by (rule calm_frame) (use all in blast)+
  have act: "has_active_request d1 k = has_active_request d k" for k by (rule has_active_request_cong [OF fr(2)])
  have "accounting_ok d1"
    using ok(1) all by (simp add: accounting_ok_iff system_ok_def usage_bytes_def)
  then have "system_ok d1" using ok(1) act all by (simp add: system_ok_def tables_ok_def rights_ok_def)
  moreover have "retained_ok d1" by (rule retained_ok_keep [OF ok(2) act]) (use fr(1) in auto)
  moreover have "keys_ok d1" using keys_ok_cong [of d1 d] ok(3) fr by simp
  ultimately show "platform_ok d1" by (simp add: platform_ok_def lifecycle_ok_def)
qed

lemma error_retry_ok:
  assumes "platform_ok d" "t \<in> set (db_torrents d)" "t_state t = ERROR"
  shows "platform_ok (put_torrent (resynced_torrent now t) d)" "calm d (put_torrent (resynced_torrent now t) d)"
    "platform_ok (put_torrent (retried_torrent now t) d)" "calm d (put_torrent (retried_torrent now t) d)"
proof -
  have check: "torrent_check t" by (rule torrent_row_ok [OF platform_okD(1) [OF assms(1)] assms(2)])
  show "platform_ok (put_torrent (resynced_torrent now t) d)"
    by (rule platform_put_torrent [OF assms(1,2)])
      (use check assms(3) in \<open>auto simp: resynced_torrent_def same_torrent_def torrent_check_def\<close>)
  show "platform_ok (put_torrent (retried_torrent now t) d)"
    by (rule platform_put_torrent [OF assms(1,2)])
      (use check assms(3) in \<open>auto simp: retried_torrent_def same_torrent_def torrent_check_def\<close>)
  show "calm d (put_torrent (resynced_torrent now t) d)" "calm d (put_torrent (retried_torrent now t) d)"
    by (simp_all add: calm_put_alive resynced_torrent_def retried_torrent_def)
qed

lemma retry_cases:
  assumes "retry_transaction job_id snap p rid u m policy disk now d = Inr (d', t')"
  obtains t r d1 l where "find_row t_id (rs_managed_id snap) (db_torrents d) = Some t" "t_state t = ERROR"
    "t_lifecycle_generation t = rs_lifecycle_generation snap"
    "find (\<lambda>r. waiting_right rid u r \<and> r_managed_torrent_id r = rs_managed_id snap) (db_requests d) = Some r"
    "lock_storage_ledger now d = (d1, l)"
    "committed_bytes d1 + t_total_size t \<le> managed_reservation_capacity disk policy"
    "if rs_resync_only snap then t' = resynced_torrent now t \<and> d' = put_torrent t' d1
     else \<exists>x. p = Some x \<and> requeue_add job_id x m now r t d1 = Inr (d', t')"
proof -
  obtain d1 l where lock: "lock_storage_ledger now d = (d1, l)" by fastforce
  from assms obtain t r where
    tr: "find_row t_id (rs_managed_id snap) (db_torrents d) = Some t"
    "find (\<lambda>r. waiting_right rid u r \<and> r_managed_torrent_id r = rs_managed_id snap) (db_requests d) = Some r"
    by (auto simp: retry_transaction_def split: option.splits)
  show thesis
    by (rule that [OF tr(1) _ _ tr(2) lock])
      (use assms tr lock in \<open>auto simp: retry_transaction_def rbind_Inr_iff require_Inr_iff Let_def
        split: option.splits if_splits\<close>)
qed

lemma retry_ok:
  assumes "platform_ok d" "retry_transaction job_id snap p rid u m policy disk now d = Inr (d', t')"
  shows "platform_ok d' \<and> calm d d'"
  using assms(2)
proof (rule retry_cases)
  fix t r d1 l
  assume t: "find_row t_id (rs_managed_id snap) (db_torrents d) = Some t" "t_state t = ERROR"
    and lock: "lock_storage_ledger now d = (d1, l)"
    and res: "if rs_resync_only snap then t' = resynced_torrent now t \<and> d' = put_torrent t' d1
     else \<exists>x. p = Some x \<and> requeue_add job_id x m now r t d1 = Inr (d', t')"
  note l = lock_ledger_ok [OF assms(1) lock]
  have row: "t \<in> set (db_torrents d1)" using find_row_SomeD [OF t(1)] l(3) by simp
  note e = error_retry_ok [OF l(1) row t(2), of now]
  show ?thesis
  proof (cases "rs_resync_only snap")
    case True
    then show ?thesis using res e calm_trans [OF l(2)] by auto
  next
    case False
    let ?d2 = "put_torrent (retried_torrent now t) d1"
    obtain j where j: "j = add_job job_id (t_id t) (r_id r) (retry_key (retried_torrent now t)) m now"
      and ins: "insert_job j ?d2 = Inr d'"
      using False res by (auto simp: requeue_add_def rbind_Inr_iff Let_def split: sum.splits)
    have id: "t_id (retried_torrent now t) = t_id t" by (simp add: retried_torrent_def)
    have "retried_torrent now t \<in> set (db_torrents ?d2)" using in_put_torrent [OF row id] by simp
    then have "\<not> purging ?d2 (t_id (retried_torrent now t))"
      by (rule not_purging [OF platform_okD(1) [OF e(3)]]) (simp add: retried_torrent_def)
    then have "calm ?d2 d'" by (intro calm_insert_job [OF ins]) (simp add: j add_job_def id)
    moreover have "platform_ok d'"
      by (rule insert_job_platform_ok [OF e(3) ins]) (simp add: j add_job_def retry_key_def)
    ultimately show ?thesis using calm_trans [OF l(2)] calm_trans [OF e(4)] by blast
  qed
qed

end
