(* ===== verification/Platform_System.thy ===== *)
theory Platform_System
  imports Platform
begin

text \<open>
  The transition system of the platform. A state is the database and the clock; a step is the commit
  of one transaction, of the API, a worker, a job handler, a periodic pass, the scheduler or a
  download, in any order, or the passing of time. The invariant covers the accounts, the rights, the
  retention and the safety of purges and holds in every reachable state.
\<close>

section \<open>Steps\<close>

text \<open>
  The fields of a torrent the scheduler and the administrators write: they steer downloads and
  acknowledge stops, and change neither the state nor the retention.
\<close>

definition scheduling_write :: "managed_torrent \<Rightarrow> managed_torrent \<Rightarrow> bool" where
  "scheduling_write t t' \<longleftrightarrow>
     t' = t\<lparr>t_desired_active := t_desired_active t', t_desired_priority := t_desired_priority t',
            t_desired_download_limit := t_desired_download_limit t',
            t_schedule_generation := t_schedule_generation t',
            t_admin_forced_active := t_admin_forced_active t',
            t_purge_stop_pending := t_purge_stop_pending t',
            t_scheduler_retry_at := t_scheduler_retry_at t', t_updated_at := t_updated_at t'\<rparr>"

inductive transaction :: "db \<Rightarrow> db \<Rightarrow> bool" where
  tx_create: "fresh_managed_id (up_managed_id ids) d \<Longrightarrow>
     create_torrent_request ids staged u p max_active attempts n policy disk now d = Inr (d', res, queued) \<Longrightarrow>
     transaction d d'"
| tx_retry: "retry_transaction job_id snap p rid u m policy disk now d = Inr (d', t) \<Longrightarrow> transaction d d'"
| tx_cancel: "job_id \<notin> set (map j_id (db_jobs d)) \<Longrightarrow>
     cancel_owned_torrent_request job_id u rid n now detect d = Inr (d', res) \<Longrightarrow> transaction d d'"
| tx_expire: "fresh_jobs fresh d \<Longrightarrow> expire_once lt lr fresh now now' d = Inr (d', ev, k) \<Longrightarrow> transaction d d'"
| tx_enqueue: "enqueue_once ids now d = Inr (d', interval, created) \<Longrightarrow> transaction d d'"
| tx_mark_adding: "mark_adding k now d = Inr (d', t, b) \<Longrightarrow> transaction d d'"
| tx_manifest: "\<forall>x. length (sha x) = 64 \<Longrightarrow>
     replace_torrent_manifest sha fresh k files now d = Inr (d', w) \<Longrightarrow> transaction d d'"
| tx_finish_add: "finish_add stamp sn ref now d = Inr (d', r) \<Longrightarrow> transaction d d'"
| tx_sync: "persist_snapshot k s now d = Inr (d', r) \<Longrightarrow> transaction d d'"
| tx_claim: "claim_one locked cfg w handlers now d = Inr (d', job) \<Longrightarrow> transaction d d'"
| tx_heartbeat: "heartbeat_once cfg w sn now d = Inr d' \<Longrightarrow> transaction d d'"
| tx_settle: "snapshot_current sn d \<Longrightarrow> outcome_ok sn outcome \<Longrightarrow>
     settle_claimed_job jitter cfg w sn outcome now d = Inr (d', ev, ch) \<Longrightarrow> transaction d d'"
| tx_recover: "distinct (map j_id (db_jobs d)) \<Longrightarrow>
     recover_if_due locked cfg force since now d = Inr (d', ev, ch) \<Longrightarrow> transaction d d'"
| tx_recover_claims: "distinct (map j_id (db_jobs d)) \<Longrightarrow>
     recover_expired_torrent_jobs locked now delay limit d = Inr (d', recovered) \<Longrightarrow> transaction d d'"
| tx_fail_abandoned: "fail_abandoned_torrent now (d, [], False) k = (d', ev, ch) \<Longrightarrow> transaction d d'"
| tx_cancel_job: "transaction d (fst (request_torrent_job_cancellation i now d))"
| tx_schedule: "t \<in> set (db_torrents d) \<Longrightarrow> scheduling_write t t' \<Longrightarrow> torrent_check t' \<Longrightarrow>
     transaction d (put_torrent t' d)"
| tx_other: "db_torrents d' = db_torrents d \<Longrightarrow> db_requests d' = db_requests d \<Longrightarrow>
     db_usages d' = db_usages d \<Longrightarrow> db_ledger d' = db_ledger d \<Longrightarrow> db_jobs d' = db_jobs d \<Longrightarrow>
     db_leases d' = db_leases d \<Longrightarrow> transaction d d'"

lemma schedule_ok:
  assumes "platform_ok d" "t \<in> set (db_torrents d)" "scheduling_write t t'" "torrent_check t'"
  shows "platform_ok (put_torrent t' d) \<and> calm d (put_torrent t' d)"
proof -
  have eq: "t_id t' = t_id t" "t_state t' = t_state t" "t_purge_after t' = t_purge_after t"
    "t_lifecycle_generation t' = t_lifecycle_generation t" "same_torrent t t'"
    using arg_cong [OF assms(3) [unfolded scheduling_write_def], of t_id]
      arg_cong [OF assms(3) [unfolded scheduling_write_def], of t_state]
      arg_cong [OF assms(3) [unfolded scheduling_write_def], of t_purge_after]
      arg_cong [OF assms(3) [unfolded scheduling_write_def], of t_lifecycle_generation]
      arg_cong [OF assms(3) [unfolded scheduling_write_def], of t_info_hash]
      arg_cong [OF assms(3) [unfolded scheduling_write_def], of t_storage_key]
      arg_cong [OF assms(3) [unfolded scheduling_write_def], of t_total_size]
    by (simp_all add: same_torrent_def)
  have "platform_ok (put_torrent t' d)"
    by (rule platform_put_torrent [OF assms(1,2) eq(5) assms(4)]) (use eq in auto)
  moreover have "calm d (put_torrent t' d)" by (rule calm_put_torrent [OF assms(2) eq(1)]) (simp add: eq)
  ultimately show ?thesis by blast
qed

lemma transaction_ok:
  assumes "transaction d d'" "platform_ok d" "purge_jobs_ok d"
  shows "platform_ok d' \<and> calm d d'"
  using assms
proof (cases rule: transaction.cases)
  case tx_create then show ?thesis using create_route_ok assms(2) by blast
next
  case tx_retry then show ?thesis using retry_ok assms(2) by blast
next
  case tx_cancel then show ?thesis using cancel_owned_platform_ok cancel_owned_calm assms(2) by blast
next
  case tx_expire then show ?thesis using expire_once_ok assms(2) by blast
next
  case tx_enqueue then show ?thesis using enqueue_once_ok assms(2) by blast
next
  case tx_mark_adding then show ?thesis using mark_adding_ok mark_adding_calm assms(2) by blast
next
  case tx_manifest then show ?thesis using replace_torrent_manifest_ok replace_manifest_calm assms(2) by blast
next
  case tx_finish_add then show ?thesis using finish_add_ok finish_add_calm assms(2) by blast
next
  case tx_sync
  then show ?thesis
    using persist_snapshot_ok(1) [OF assms(2)] persist_snapshot_calm [OF assms(2)] by blast
next
  case tx_claim then show ?thesis using claim_one_ok assms(2) by blast
next
  case tx_heartbeat then show ?thesis using heartbeat_ok assms(2) by blast
next
  case tx_settle then show ?thesis using settle_ok assms(2,3) by blast
next
  case tx_recover then show ?thesis using recover_if_due_ok assms(2) by blast
next
  case tx_recover_claims then show ?thesis using recover_expired_ok assms(2) by blast
next
  case (tx_fail_abandoned now k ev ch)
  then have "d' = fst (foldl (fail_abandoned_torrent now) (d, [], False) [k])" by simp
  then show ?thesis using fail_abandoned_ok [OF assms(2)] by blast
next
  case tx_cancel_job then show ?thesis using job_cancellation_ok [OF assms(2)] by blast
next
  case tx_schedule then show ?thesis using schedule_ok assms(2) by blast
next
  case tx_other
  have "platform_ok d'" using platform_ok_cong [OF tx_other(1-4)] tx_other(5) assms(2) by simp
  then show ?thesis using calm_frame [OF tx_other(1,5,6)] by blast
qed

interpretation platform_tx: platform_transaction transaction
  by unfold_locales (use transaction_ok in blast)+

section \<open>Purges\<close>

definition purge_snapshot :: "torrent_job_snapshot \<Rightarrow> db \<Rightarrow> bool" where
  "purge_snapshot sn d \<longleftrightarrow> snapshot_current sn d \<and> sn_job_type sn = PURGE_TORRENT_JOB"

lemma safe_okD:
  assumes "safe_ok now d"
  shows "platform_ok d" "leases_ok now d" "purge_jobs_ok d"
  using assms by (simp_all add: safe_ok_def)

lemma live_lease_mono: "live_lease now' k d \<Longrightarrow> now \<le> now' \<Longrightarrow> live_lease now k d"
  by (auto simp: live_lease_def list_ex_iff)

lemma live_lease_cong: "db_leases d' = db_leases d \<Longrightarrow> live_lease now k d' = live_lease now k d"
  by (simp add: live_lease_def)

text \<open>A row that replaces content under deletion, or enters it with its jobs cancelled.\<close>

lemma safe_put_purging:
  assumes "safe_ok now d" "t \<in> set (db_torrents d)" "t_id t' = t_id t" "platform_ok d'"
    and "db_torrents d' = db_torrents (put_torrent t' d)" "db_leases d' = db_leases d"
    and "t_state t' \<in> {PURGING, PURGED} \<Longrightarrow> \<not> live_lease now (t_id t) d"
    and "\<And>j'. j' \<in> set (db_jobs d') \<Longrightarrow> pending_other j' \<Longrightarrow>
           j' \<in> set (db_jobs d) \<and> (j_managed_torrent_id j' = t_id t \<longrightarrow> \<not> purge_state (t_state t'))"
  shows "safe_ok now d'"
proof -
  note ok = safe_okD [OF assms(1)]
  have other: "x = t' \<or> x \<in> set (db_torrents d) \<and> t_id x \<noteq> t_id t" if "x \<in> set (db_torrents d')" for x
    using that assms(2,3) unfolding assms(5) put_torrent_def by (auto simp: in_update_row split: if_splits)
  have "\<not> live_lease now (t_id x) d'" if "x \<in> set (db_torrents d')" "t_state x \<in> {PURGING, PURGED}" for x
    using other [OF that(1)] that(2) assms(3,7) ok(2) live_lease_cong [OF assms(6)]
    by (auto simp: leases_ok_def list_all_iff)
  moreover have "\<not> purging d' (j_managed_torrent_id j')" if j': "j' \<in> set (db_jobs d')" "pending_other j'" for j'
  proof
    assume "purging d' (j_managed_torrent_id j')"
    then obtain x where x: "x \<in> set (db_torrents d')" "t_id x = j_managed_torrent_id j'" "purge_state (t_state x)"
      by (auto simp: purging_iff)
    have "\<not> purging d (j_managed_torrent_id j')"
      using ok(3) assms(8) [OF j'] j'(2) by (auto simp: purge_jobs_ok_def list_all_iff)
    then show False using other [OF x(1)] x assms(3,8) j' unfolding purging_iff by metis
  qed
  ultimately show ?thesis using assms(4) by (simp add: safe_ok_def leases_ok_def purge_jobs_ok_def list_all_iff)
qed

lemma cancel_other_jobs_pending:
  assumes "j' \<in> set (db_jobs (cancel_other_jobs k i now d))" "pending_other j'"
  shows "j' \<in> set (db_jobs d)" "j_managed_torrent_id j' = k \<Longrightarrow> j_id j' = i"
proof -
  obtain j where j: "j \<in> set (db_jobs d)"
    "j' = (if j_managed_torrent_id j = k \<and> j_id j \<noteq> i \<and> active_job_state (j_state j) then cancel_active_job now j else j)"
    using assms(1) by (auto simp: cancel_other_jobs_def update_where_def)
  have "\<not> pending_other (cancel_active_job now j)"
    by (simp add: pending_other_def cancel_active_job_def Let_def)
  then have "j' = j \<and> \<not> (j_managed_torrent_id j = k \<and> j_id j \<noteq> i \<and> active_job_state (j_state j))"
    using j(2) assms(2) by (auto split: if_splits)
  then show "j' \<in> set (db_jobs d)" "j_managed_torrent_id j' = k \<Longrightarrow> j_id j' = i"
    using j(1) assms(2) by (auto simp: pending_other_def)
qed

lemma begin_purge_safe:
  assumes "safe_ok clock d" "purge_snapshot sn d" "now \<le> clock" "begin_purge sn now d = Inr (d', res)"
  shows "safe_ok clock d'"
proof -
  note ok = safe_okD [OF assms(1)]
  have pok: "platform_ok d'" by (rule begin_purge_ok [OF ok(1) assms(4)])
  from assms(4) obtain t where t: "t \<in> set (db_torrents d)" "t_id t = sn_managed_torrent_id sn"
    and c: "(res = PurgeDone \<and> d' = d)
     \<or> (res = PurgeDone \<and> t_state t \<noteq> PURGED \<and> has_active_request d (t_id t)
        \<and> d' = put_torrent (kept_torrent now t) d)
     \<or> (res = PurgeActivated \<and> \<not> purge_state (t_state t) \<and> \<not> has_active_request d (t_id t)
        \<and> t_purge_after t \<noteq> None \<and> the (t_purge_after t) \<le> now
        \<and> d' = cancel_other_jobs (t_id t) (sn_id sn) now (put_torrent (purge_pending_torrent now t) d))
     \<or> (res = PurgeReady (t\<lparr>t_state := PURGING, t_updated_at := now\<rparr>)
        \<and> t_state t \<in> {PURGE_PENDING, PURGING} \<and> \<not> has_active_request d (t_id t)
        \<and> \<not> live_lease now (t_id t) d \<and> \<not> t_purge_stop_pending t
        \<and> t_purge_after t \<noteq> None \<and> the (t_purge_after t) \<le> now
        \<and> d' = put_torrent (t\<lparr>t_state := PURGING, t_updated_at := now\<rparr>) d)"
    by (rule begin_purge_cases)
  have quiet: "\<not> pending_other j" if "j \<in> set (db_jobs d)" "j_managed_torrent_id j = t_id t" "purge_state (t_state t)" for j
    using ok(3) t(1) that unfolding purge_jobs_ok_def list_all_iff purging_iff by metis
  from c show ?thesis
  proof (elim disjE conjE)
    assume "d' = d"
    then show ?thesis using assms(1) by simp
  next
    assume held: "has_active_request d (t_id t)" and d': "d' = put_torrent (kept_torrent now t) d"
    have "\<not> purge_state (t_state t)" using active_request_not_purged [OF platform_okD(1) [OF ok(1)] t(1) held] by simp
    then have "calm d d'" unfolding d' by (intro calm_put_alive) (auto simp: kept_torrent_def)
    then show ?thesis by (rule calm_safe [OF assms(1) pok])
  next
    assume d': "d' = cancel_other_jobs (t_id t) (sn_id sn) now (put_torrent (purge_pending_torrent now t) d)"
    show ?thesis
    proof (rule safe_put_purging [OF assms(1) t(1) _ pok, of "purge_pending_torrent now t"])
      fix j' assume j': "j' \<in> set (db_jobs d')" "pending_other j'"
      note m = cancel_other_jobs_pending [OF j'(1) [unfolded d'] j'(2)]
      have "j_managed_torrent_id j' \<noteq> t_id t"
      proof
        assume "j_managed_torrent_id j' = t_id t"
        then have "j_id j' = sn_id sn" by (rule m(2))
        then have "j_job_type j' = PURGE_TORRENT_JOB"
          using assms(2) m(1) by (auto simp: purge_snapshot_def snapshot_current_def list_all_iff)
        then show False using j'(2) by (simp add: pending_other_def)
      qed
      then show "j' \<in> set (db_jobs d) \<and> (j_managed_torrent_id j' = t_id t \<longrightarrow> \<not> purge_state (t_state (purge_pending_torrent now t)))"
        using m(1) by simp
    qed (simp_all add: d' purge_pending_torrent_def)
  next
    assume st: "t_state t \<in> {PURGE_PENDING, PURGING}" and free: "\<not> live_lease now (t_id t) d"
      and d': "d' = put_torrent (t\<lparr>t_state := PURGING, t_updated_at := now\<rparr>) d"
    have "purge_state (t_state t)" using st by auto
    then show ?thesis
      by (intro safe_put_purging [OF assms(1) t(1) _ pok, of "t\<lparr>t_state := PURGING, t_updated_at := now\<rparr>"])
        (use free assms(3) live_lease_mono quiet d' in auto)
  qed
qed

lemma finish_purge_safe:
  assumes "safe_ok clock d" "finish_purge k n now d = Inr d'"
    and "\<And>t. t \<in> set (db_torrents d) \<Longrightarrow> t_id t = k \<Longrightarrow> t_total_size t = n"
  shows "safe_ok clock d'"
proof -
  note ok = safe_okD [OF assms(1)]
  have pok: "platform_ok d'" by (rule finish_purge_ok [OF ok(1) assms(2,3)])
  from assms(2) obtain t where t: "t \<in> set (db_torrents d)" "t_id t = k"
    and c: "(t_state t = PURGED \<and> d' = d)
     \<or> (t_state t = PURGING \<and> \<not> has_active_request d k \<and> \<not> live_lease now k d
        \<and> d' = put_torrent (purged_torrent now t) (release_ledger n now (delete_files k d)))"
    by (rule finish_purge_cases)
  show ?thesis
  proof (cases "t_state t = PURGED \<and> d' = d")
    case True
    then show ?thesis using assms(1) by simp
  next
    case False
    then have st: "t_state t = PURGING"
      and d': "d' = put_torrent (purged_torrent now t) (release_ledger n now (delete_files k d))"
      using c by auto
    have quiet: "\<not> pending_other j" if "j \<in> set (db_jobs d)" "j_managed_torrent_id j = t_id t" for j
    proof -
      have "purging d (t_id t)" using t(1) st by (auto simp: purging_iff)
      then show ?thesis using ok(3) that by (auto simp: purge_jobs_ok_def list_all_iff)
    qed
    have free: "\<not> live_lease clock (t_id t) d" using ok(2) t(1) st by (auto simp: leases_ok_def list_all_iff)
    show ?thesis
      by (rule safe_put_purging [OF assms(1) t(1) _ pok, of "purged_torrent now t"])
        (use quiet free in \<open>auto simp: d' purged_torrent_def put_torrent_def\<close>)
  qed
qed

section \<open>Leases\<close>

lemma safe_leases:
  assumes "safe_ok clock d" "d' = d\<lparr>db_leases := ls\<rparr>"
    and "\<And>t l. t \<in> set (db_torrents d) \<Longrightarrow> t_state t \<in> {PURGING, PURGED} \<Longrightarrow> l \<in> set ls \<Longrightarrow>
           dl_managed_torrent_id l = t_id t \<Longrightarrow> l \<in> set (db_leases d)"
  shows "safe_ok clock d'"
proof -
  note ok = safe_okD [OF assms(1)]
  have "platform_ok d'" using platform_ok_cong [of d' d] ok(1) assms(2) by simp
  moreover have "purge_jobs_ok d'" using ok(3) by (simp add: purge_jobs_ok_def purging_def assms(2))
  moreover have "leases_ok clock d'"
    using ok(2) assms(3) unfolding leases_ok_def live_lease_def assms(2) list_all_iff list_ex_iff by auto
  ultimately show ?thesis by (simp add: safe_ok_def)
qed

lemma torrent_by_id:
  assumes "platform_ok d" "find_row t_id k (db_torrents d) = Some t" "x \<in> set (db_torrents d)" "t_id x = k"
  shows "x = t"
  using find_row_SomeD [OF assms(2)] torrents_distinct [OF platform_okD(1) [OF assms(1)]] assms(3,4)
  by (auto simp: distinct_map inj_on_def)

lemma acquire_lease_safe:
  assumes "safe_ok clock d" "acquire_lease i secs u k rq f m g kind now d = Inr (d', l)"
  shows "safe_ok clock d'"
  using assms(2)
proof (rule acquire_lease_Inr)
  fix t
  assume t: "find_row t_id k (db_torrents d) = Some t" "t_state t = READY"
    and l: "l = new_lease i secs u k rq f kind now"
    and d': "d' = d\<lparr>db_leases := filter (\<lambda>l. \<not> dl_expires_at l \<le> now) (db_leases d) @ [l]\<rparr>"
  show ?thesis
  proof (rule safe_leases [OF assms(1) d'])
    fix x l' assume x: "x \<in> set (db_torrents d)" "t_state x \<in> {PURGING, PURGED}"
      and l': "l' \<in> set (filter (\<lambda>l. \<not> dl_expires_at l \<le> now) (db_leases d) @ [l])" "dl_managed_torrent_id l' = t_id x"
    have "t_id x \<noteq> k"
      using torrent_by_id [OF safe_okD(1) [OF assms(1)] t(1) x(1)] x(2) t(2) by auto
    then show "l' \<in> set (db_leases d)" using l' by (auto simp: l new_lease_def)
  qed
qed

lemma renew_lease_safe:
  assumes "safe_ok clock d" "renew_lease secs i now d = Inr d'"
  shows "safe_ok clock d'"
proof -
  obtain l t r where l: "find_row dl_id i (db_leases d) = Some l"
    and t: "find_row t_id (dl_managed_torrent_id l) (db_torrents d) = Some t" and fin: "can_finish_download t r"
    and d': "d' = put_lease (renewed_lease secs now l) d"
    using assms(2) by (auto simp: renew_lease_def Let_def split: option.splits if_splits)
  have st: "t_state t \<notin> {PURGING, PURGED}" using fin by (auto simp: can_finish_download_def)
  show ?thesis
  proof (rule safe_leases [OF assms(1) d' [unfolded put_lease_def]])
    fix x l' assume x: "x \<in> set (db_torrents d)" "t_state x \<in> {PURGING, PURGED}"
      and l': "l' \<in> set (update_row dl_id (dl_id (renewed_lease secs now l)) (\<lambda>_. renewed_lease secs now l) (db_leases d))"
        "dl_managed_torrent_id l' = t_id x"
    have "t_id x \<noteq> dl_managed_torrent_id l"
      using torrent_by_id [OF safe_okD(1) [OF assms(1)] t x(1)] x(2) st by blast
    then have "l' \<noteq> renewed_lease secs now l" using l'(2) by (auto simp: renewed_lease_def)
    then show "l' \<in> set (db_leases d)" using l'(1) by (auto simp: in_update_row split: if_splits)
  qed
qed

lemma release_lease_safe: "safe_ok clock d \<Longrightarrow> safe_ok clock (release_lease i d)"
  by (rule safe_leases [OF _ release_lease_def]) auto

lemma tick_safe: "safe_ok now d \<Longrightarrow> now \<le> now' \<Longrightarrow> safe_ok now' d"
  by (auto simp: safe_ok_def leases_ok_def list_all_iff dest: live_lease_mono)

section \<open>The system\<close>

record platform =
  pf_db :: db
  pf_now :: instant

inductive platform_step :: "platform \<Rightarrow> platform \<Rightarrow> bool" where
  ps_transaction: "transaction (pf_db s) d' \<Longrightarrow> platform_step s (s\<lparr>pf_db := d'\<rparr>)"
| ps_begin_purge: "purge_snapshot sn (pf_db s) \<Longrightarrow> now \<le> pf_now s \<Longrightarrow>
     begin_purge sn now (pf_db s) = Inr (d', res) \<Longrightarrow> platform_step s (s\<lparr>pf_db := d'\<rparr>)"
| ps_finish_purge: "\<forall>t\<in>set (db_torrents (pf_db s)). t_id t = k \<longrightarrow> t_total_size t = n \<Longrightarrow>
     finish_purge k n now (pf_db s) = Inr d' \<Longrightarrow> platform_step s (s\<lparr>pf_db := d'\<rparr>)"
| ps_acquire: "acquire_lease i secs u k rq f m g kind now (pf_db s) = Inr (d', l) \<Longrightarrow>
     platform_step s (s\<lparr>pf_db := d'\<rparr>)"
| ps_renew: "renew_lease secs i now (pf_db s) = Inr d' \<Longrightarrow> platform_step s (s\<lparr>pf_db := d'\<rparr>)"
| ps_release: "platform_step s (s\<lparr>pf_db := release_lease i (pf_db s)\<rparr>)"
| ps_tick: "pf_now s \<le> now' \<Longrightarrow> platform_step s (s\<lparr>pf_now := now'\<rparr>)"

inductive_cases platform_stepE: "platform_step s s'"

text \<open>A platform starts with accounts and options, and with no content.\<close>

definition platform_init :: "platform \<Rightarrow> bool" where
  "platform_init s \<longleftrightarrow>
     db_torrents (pf_db s) = [] \<and> db_requests (pf_db s) = [] \<and> db_usages (pf_db s) = []
     \<and> ledger_bytes (pf_db s) = 0 \<and> db_jobs (pf_db s) = [] \<and> db_leases (pf_db s) = []"

definition platform_inv :: "platform \<Rightarrow> bool" where
  "platform_inv s \<longleftrightarrow> safe_ok (pf_now s) (pf_db s)"

lemma platform_init_inv: "platform_init s \<Longrightarrow> platform_inv s"
  by (simp add: platform_init_def platform_inv_def safe_ok_def platform_ok_def lifecycle_ok_def system_ok_def
      tables_ok_def accounting_ok_iff rights_ok_def retained_ok_def keys_ok_def leases_ok_def purge_jobs_ok_def
      torrents_unique_def requests_unique_def active_requests_def usage_bytes_def logical_sum_def managed_sum_def find_row_def)

lemma platform_step_inv:
  assumes "platform_step s s'" "platform_inv s"
  shows "platform_inv s'"
proof -
  have ok: "safe_ok (pf_now s) (pf_db s)" using assms(2) by (simp add: platform_inv_def)
  from assms(1) show ?thesis
  proof (cases rule: platform_step.cases)
    case (ps_transaction d')
    then show ?thesis using platform_tx.safe [OF ok] by (simp add: platform_inv_def)
  next
    case (ps_begin_purge sn now d' res)
    then show ?thesis using begin_purge_safe [OF ok ps_begin_purge(2-4)] by (simp add: platform_inv_def)
  next
    case (ps_finish_purge k n now d')
    then show ?thesis using finish_purge_safe [OF ok ps_finish_purge(3)] by (simp add: platform_inv_def)
  next
    case (ps_acquire i secs u k rq f m g kind now d' l)
    then show ?thesis using acquire_lease_safe [OF ok ps_acquire(2)] by (simp add: platform_inv_def)
  next
    case (ps_renew secs i now d')
    then show ?thesis using renew_lease_safe [OF ok ps_renew(2)] by (simp add: platform_inv_def)
  next
    case (ps_release i)
    then show ?thesis using release_lease_safe [OF ok] by (simp add: platform_inv_def)
  next
    case (ps_tick now')
    then show ?thesis using tick_safe [OF ok ps_tick(2)] by (simp add: platform_inv_def)
  qed
qed

interpretation platform_system: invariant_system platform_init platform_step platform_inv
  by unfold_locales (auto intro: platform_init_inv platform_step_inv)

end
