(* ===== verification/Platform_Safety.thy ===== *)
theory Platform_Safety
  imports Platform_System
begin

text \<open>
  What every reachable state of the platform guarantees, and an execution from an empty database
  through the admission of an upload, its cancellation and its purge.
\<close>

section \<open>Reachable states\<close>

lemma safe_ok_facts:
  assumes "safe_ok now d"
  shows "t \<in> set (db_torrents d) \<Longrightarrow> t_purge_after t \<noteq> None \<or> purge_state (t_state t) \<Longrightarrow> \<not> has_active_request d (t_id t)"
    and "t \<in> set (db_torrents d) \<Longrightarrow> t_state t \<in> {PURGING, PURGED} \<Longrightarrow> \<not> live_lease now (t_id t) d"
    and "t \<in> set (db_torrents d) \<Longrightarrow> t_state t = PURGED \<or> t_purge_after t \<noteq> None \<or> has_active_request d (t_id t)"
    and "usage_bytes d u = logical_sum (db_torrents d) (db_requests d) u"
    and "ledger_bytes d = managed_sum (db_torrents d)"
proof -
  note ok = safe_okD [OF assms] platform_okD [OF safe_okD(1) [OF assms]]
  have sys: "rights_ok d" "accounting_ok d" "retained_ok d"
    using ok(1) by (simp_all add: platform_ok_def lifecycle_ok_def system_ok_def)
  show "t \<in> set (db_torrents d) \<Longrightarrow> t_purge_after t \<noteq> None \<or> purge_state (t_state t) \<Longrightarrow> \<not> has_active_request d (t_id t)"
    using sys(1) by (auto simp: rights_ok_def list_all_iff)
  show "t \<in> set (db_torrents d) \<Longrightarrow> t_state t \<in> {PURGING, PURGED} \<Longrightarrow> \<not> live_lease now (t_id t) d"
    using ok(2) by (auto simp: leases_ok_def list_all_iff)
  show "t \<in> set (db_torrents d) \<Longrightarrow> t_state t = PURGED \<or> t_purge_after t \<noteq> None \<or> has_active_request d (t_id t)"
    using sys(3) by (auto simp: retained_ok_def retained_at_def list_all_iff)
  show "usage_bytes d u = logical_sum (db_torrents d) (db_requests d) u"
    "ledger_bytes d = managed_sum (db_torrents d)"
    using sys(2) by (auto simp: accounting_ok_iff)
qed

text \<open>An upload is admitted, cancelled, and purged after its retention.\<close>

definition ex_parsed :: parsed_torrent where
  "ex_parsed = \<lparr>pt_content = ''d'', pt_info_hash = ex_hash, pt_name = ''n'', pt_total_size = 60, pt_files = []\<rparr>"

definition ex_upload :: upload_ids where
  "ex_upload = \<lparr>up_managed_id = 40, up_storage_key = 41, up_request_id = 50, up_job_id = 60\<rparr>"

definition ex_new_db :: db where
  "ex_new_db = empty_db\<lparr>db_users := [ex_owner]\<rparr>"

definition committed :: "db \<Rightarrow> app_error + db \<times> 'a \<Rightarrow> db" where
  "committed d r = (case r of Inl _ \<Rightarrow> d | Inr (d', _) \<Rightarrow> d')"

abbreviation ex_create where
  "ex_create \<equiv> create_torrent_request ex_upload (Inr ex_hash) ex_user ex_parsed 5 3 48
     ex_storage_policy ex_disk 10 ex_new_db"

definition ex_created_db :: db where
  "ex_created_db = committed ex_new_db ex_create"

abbreviation ex_cancel where
  "ex_cancel \<equiv> cancel_owned_torrent_request 61 ex_user 50 1 20 False ex_created_db"

definition ex_cancelled_db :: db where
  "ex_cancelled_db = committed ex_created_db ex_cancel"

definition ex_purge :: torrent_job_snapshot where
  "ex_purge = \<lparr>sn_id = 61, sn_managed_torrent_id = 40, sn_torrent_request_id = Some 50,
     sn_job_type = PURGE_TORRENT_JOB, sn_idempotency_key = purge_key 40 1, sn_attempt_count = 1\<rparr>"

definition ex_late :: instant where
  "ex_late = 20 + hours 1"

abbreviation ex_activate where
  "ex_activate \<equiv> begin_purge ex_purge ex_late ex_cancelled_db"

definition ex_pending_db :: db where
  "ex_pending_db = committed ex_cancelled_db ex_activate"

definition ex_pending :: managed_torrent where
  "ex_pending = hd (db_torrents ex_pending_db)"

definition ex_stopped_db :: db where
  "ex_stopped_db = put_torrent (ex_pending\<lparr>t_purge_stop_pending := False\<rparr>) ex_pending_db"

abbreviation ex_start where
  "ex_start \<equiv> begin_purge ex_purge ex_late ex_stopped_db"

definition ex_purging_db :: db where
  "ex_purging_db = committed ex_stopped_db ex_start"

lemma ex_create_run: "isl ex_create = False" by code_simp

lemma ex_cancel_run: "isl ex_cancel = False" by code_simp

lemma ex_activate_run: "isl ex_activate = False" by code_simp

lemma ex_start_run: "isl ex_start = False" by code_simp

lemma ex_finish_run:
  "case finish_purge 40 60 ex_late ex_purging_db of
     Inl _ \<Rightarrow> False
   | Inr d \<Rightarrow> map t_state (db_torrents d) = [PURGED] \<and> map r_state (db_requests d) = [R_CANCELLED]
       \<and> ledger_bytes d = 0 \<and> usage_bytes d ex_user = 0"
  by code_simp

lemma not_isl: "isl r = False \<Longrightarrow> \<exists>y. r = Inr (committed d r, y)"
  by (cases r) (auto simp: committed_def)

lemma not_islE:
  assumes "isl r = False"
  obtains y where "r = Inr (committed d r, y)"
  using not_isl [OF assms] by blast

definition ex_platform :: "db \<Rightarrow> instant \<Rightarrow> platform" where
  "ex_platform d now = \<lparr>pf_db = d, pf_now = now\<rparr>"

lemma ex_platform_update: "ex_platform d' now = ex_platform d now\<lparr>pf_db := d'\<rparr>"
  "ex_platform d now' = ex_platform d now\<lparr>pf_now := now'\<rparr>"
  by (simp_all add: ex_platform_def)

lemma ex_platform_transaction: "transaction d d' \<Longrightarrow> platform_step (ex_platform d now) (ex_platform d' now)"
  using ps_transaction [of "ex_platform d now" d'] by (simp add: ex_platform_def)

lemma ex_reach_created: "reach platform_init platform_step (ex_platform ex_created_db 10)"
proof (rule reach_step)
  show "reach platform_init platform_step (ex_platform ex_new_db 10)"
    by (rule reach_init) code_simp
  obtain y where "ex_create = Inr (ex_created_db, y)"
    using not_islE [OF ex_create_run, of ex_new_db] unfolding ex_created_db_def by blast
  moreover obtain res queued where "y = (res, queued)" by (cases y)
  ultimately have "ex_create = Inr (ex_created_db, res, queued)" by simp
  moreover have "fresh_managed_id (up_managed_id ex_upload) ex_new_db" by code_simp
  ultimately have "transaction ex_new_db ex_created_db" by (intro tx_create)
  then show "platform_step (ex_platform ex_new_db 10) (ex_platform ex_created_db 10)"
    by (rule ex_platform_transaction)
qed

lemma ex_reach_cancelled: "reach platform_init platform_step (ex_platform ex_cancelled_db ex_late)"
proof (rule reach_step)
  obtain y where "ex_cancel = Inr (ex_cancelled_db, y)"
    using not_islE [OF ex_cancel_run, of ex_created_db] unfolding ex_cancelled_db_def by blast
  moreover have "61 \<notin> set (map j_id (db_jobs ex_created_db))" by code_simp
  ultimately have "transaction ex_created_db ex_cancelled_db" by (intro tx_cancel)
  then have "platform_step (ex_platform ex_created_db 10) (ex_platform ex_cancelled_db 10)"
    by (rule ex_platform_transaction)
  then show "reach platform_init platform_step (ex_platform ex_cancelled_db 10)"
    by (rule reach_step [OF ex_reach_created])
  have "10 \<le> ex_late" by code_simp
  then show "platform_step (ex_platform ex_cancelled_db 10) (ex_platform ex_cancelled_db ex_late)"
    using ps_tick [of "ex_platform ex_cancelled_db 10" ex_late] by (simp add: ex_platform_def)
qed

lemma ex_begin_step:
  assumes "isl (begin_purge ex_purge ex_late d) = False" "purge_snapshot ex_purge d"
    "reach platform_init platform_step (ex_platform d ex_late)"
  shows "reach platform_init platform_step (ex_platform (committed d (begin_purge ex_purge ex_late d)) ex_late)"
proof (rule reach_step [OF assms(3)])
  obtain y where run: "begin_purge ex_purge ex_late d = Inr (committed d (begin_purge ex_purge ex_late d), y)"
    by (rule not_islE [OF assms(1)])
  show "platform_step (ex_platform d ex_late) (ex_platform (committed d (begin_purge ex_purge ex_late d)) ex_late)"
    using ps_begin_purge [of ex_purge "ex_platform d ex_late" ex_late] assms(2) run
    by (simp add: ex_platform_def)
qed

lemma ex_reach_purging: "reach platform_init platform_step (ex_platform ex_purging_db ex_late)"
proof -
  have "purge_snapshot ex_purge ex_cancelled_db" by code_simp
  then have pending: "reach platform_init platform_step (ex_platform ex_pending_db ex_late)"
    unfolding ex_pending_db_def by (rule ex_begin_step [OF ex_activate_run _ ex_reach_cancelled])
  have "ex_pending \<in> set (db_torrents ex_pending_db)" by code_simp
  moreover have "scheduling_write ex_pending (ex_pending\<lparr>t_purge_stop_pending := False\<rparr>)"
    by (simp add: scheduling_write_def)
  moreover have "torrent_check (ex_pending\<lparr>t_purge_stop_pending := False\<rparr>)" by code_simp
  ultimately have "transaction ex_pending_db ex_stopped_db" unfolding ex_stopped_db_def by (rule tx_schedule)
  then have stopped: "reach platform_init platform_step (ex_platform ex_stopped_db ex_late)"
    by (intro reach_step [OF pending] ex_platform_transaction)
  have "purge_snapshot ex_purge ex_stopped_db" by code_simp
  then show ?thesis
    unfolding ex_purging_db_def by (rule ex_begin_step [OF ex_start_run _ stopped])
qed

text \<open>
  C2: In every reachable state of the platform, content whose files are being removed or are removed
  is held by no user and read by no live download, content scheduled for its purge is held by no user,
  and every active job of content that entered its purge, other than the purge itself, carries a
  cancellation request. Nothing is claimed of when such a job stops: one that runs, like an ADD, can
  still call qBittorrent until it sees the request.\<close>

theorem platform_purge_safe:
  assumes "reach platform_init platform_step s"
  shows "(\<forall>t\<in>set (db_torrents (pf_db s)).
            (t_state t \<in> {PURGING, PURGED} \<longrightarrow> \<not> live_lease (pf_now s) (t_id t) (pf_db s))
            \<and> (t_purge_after t \<noteq> None \<or> t_state t \<in> {PURGE_PENDING, PURGING, PURGED} \<longrightarrow>
                 \<not> has_active_request (pf_db s) (t_id t)))
       \<and> (\<forall>j\<in>set (db_jobs (pf_db s)). \<forall>t\<in>set (db_torrents (pf_db s)).
            j_managed_torrent_id j = t_id t \<and> t_state t \<in> {PURGE_PENDING, PURGING, PURGED}
            \<and> active_job_state (j_state j) \<and> j_job_type j \<noteq> PURGE_TORRENT_JOB \<longrightarrow>
              j_cancel_requested_at j \<noteq> None)"
proof -
  have inv: "safe_ok (pf_now s) (pf_db s)"
    using platform_system.reach_inv [OF assms] by (simp add: platform_inv_def)
  note facts = safe_ok_facts [OF inv]
  have "j_cancel_requested_at j \<noteq> None"
    if "j \<in> set (db_jobs (pf_db s))" "t \<in> set (db_torrents (pf_db s))" "j_managed_torrent_id j = t_id t"
      "t_state t \<in> {PURGE_PENDING, PURGING, PURGED}" "active_job_state (j_state j)"
      "j_job_type j \<noteq> PURGE_TORRENT_JOB" for j t
  proof -
    have "purging (pf_db s) (t_id t)" using that(2,4) by (auto simp: purging_iff purge_state_def)
    then show ?thesis
      using safe_okD(3) [OF inv] that by (auto simp: purge_jobs_ok_def list_all_iff pending_other_def)
  qed
  moreover have "purge_state x \<longleftrightarrow> x \<in> {PURGE_PENDING, PURGING, PURGED}" for x
    by (cases x) (simp_all add: purge_state_def)
  ultimately show ?thesis using facts(1,2) by blast
qed

theorem platform_purge_safe_witness:
  "map t_state (db_torrents ex_purging_db) = [PURGING] \<and> map t_id (db_torrents ex_purging_db) = [40]
   \<and> \<not> live_lease ex_late 40 ex_purging_db \<and> \<not> has_active_request ex_purging_db 40"
proof -
  have run: "map t_state (db_torrents ex_purging_db) = [PURGING]" "map t_id (db_torrents ex_purging_db) = [40]"
    by code_simp+
  then show ?thesis using platform_purge_safe [OF ex_reach_purging] by (auto simp: ex_platform_def)
qed

text \<open>
  C3: In every reachable state of the platform the bytes charged to each user are the sizes of the
  contents the user holds, the ledger is the size of the contents that are not purged, and content
  that nobody holds is purged or has a date for its purge.\<close>

theorem platform_counters_exact:
  assumes "reach platform_init platform_step s"
  shows "usage_bytes (pf_db s) u = logical_sum (db_torrents (pf_db s)) (db_requests (pf_db s)) u
       \<and> ledger_bytes (pf_db s) = managed_sum (db_torrents (pf_db s))
       \<and> (\<forall>t\<in>set (db_torrents (pf_db s)).
            has_active_request (pf_db s) (t_id t) \<or> t_state t = PURGED \<or> t_purge_after t \<noteq> None)"
proof -
  have inv: "safe_ok (pf_now s) (pf_db s)"
    using platform_system.reach_inv [OF assms] by (simp add: platform_inv_def)
  show ?thesis using safe_ok_facts(3-5) [OF inv] by blast
qed

theorem platform_counters_exact_witness:
  "usage_bytes ex_created_db ex_user = 60 \<and> ledger_bytes ex_created_db = 60
   \<and> usage_bytes ex_created_db ex_user
       = logical_sum (db_torrents ex_created_db) (db_requests ex_created_db) ex_user
   \<and> ledger_bytes ex_created_db = managed_sum (db_torrents ex_created_db)"
proof -
  have "usage_bytes ex_created_db ex_user = 60" "ledger_bytes ex_created_db = 60" by code_simp+
  then show ?thesis using platform_counters_exact [OF ex_reach_created, of ex_user] by (simp add: ex_platform_def)
qed

end
