(* ===== verification/Sharing_Refinement.thy ===== *)
theory Sharing_Refinement
  imports Platform_Safety
begin

text \<open>
  What the platform promises its users, as an abstract library: who holds which content, and which
  content is stored. A user is granted content, rights are dropped, and content nobody holds is
  purged; nothing else happens. The transition system of the platform refines this library.
\<close>

section \<open>The abstract library\<close>

record library =
  lib_held :: "(uuid \<times> string) set"
  lib_stored :: "string set"

inductive library_step :: "library \<Rightarrow> library \<Rightarrow> bool" where
  lib_grant: "library_step l (l\<lparr>lib_held := insert (u, h) (lib_held l), lib_stored := insert h (lib_stored l)\<rparr>)"
| lib_drop: "library_step l (l\<lparr>lib_held := lib_held l - dropped\<rparr>)"
| lib_purge: "\<forall>u. (u, h) \<notin> lib_held l \<Longrightarrow> library_step l (l\<lparr>lib_stored := lib_stored l - {h}\<rparr>)"
| lib_idle: "library_step l l"

section \<open>The abstraction\<close>

definition rights_view :: "db \<Rightarrow> (uuid \<times> uuid) set" where
  "rights_view d =
     (\<lambda>r. (r_user_id r, r_managed_torrent_id r)) ` set (filter (\<lambda>r. active_request_state (r_state r)) (db_requests d))"

definition content_view :: "db \<Rightarrow> (uuid \<times> string \<times> bool) set" where
  "content_view d = (\<lambda>t. (t_id t, t_info_hash t, t_state t = PURGED)) ` set (db_torrents d)"

definition held_of :: "(uuid \<times> uuid) set \<Rightarrow> (uuid \<times> string \<times> bool) set \<Rightarrow> (uuid \<times> string) set" where
  "held_of rs cs = (\<Union>(u, k)\<in>rs. (\<lambda>c. (u, fst (snd c))) ` Set.filter (\<lambda>c. fst c = k) cs)"

definition library_of :: "db \<Rightarrow> library" where
  "library_of d =
     \<lparr>lib_held = held_of (rights_view d) (content_view d),
      lib_stored = (\<lambda>c. fst (snd c)) ` Set.filter (\<lambda>c. \<not> snd (snd c)) (content_view d)\<rparr>"

lemma held_of_eq: "held_of rs cs = {(u, h). \<exists>k p. (u, k) \<in> rs \<and> (k, h, p) \<in> cs}"
  by (force simp: held_of_def)

lemma library_of_eq:
  "library_of d = \<lparr>lib_held = held_of (rights_view d) (content_view d),
                   lib_stored = {h. \<exists>k. (k, h, False) \<in> content_view d}\<rparr>"
  by (force simp: library_of_def)

definition keeps :: "db \<Rightarrow> db \<Rightarrow> bool" where
  "keeps d d' \<longleftrightarrow> rights_view d' = rights_view d \<and> content_view d' = content_view d"

lemma keeps_library: "keeps d d' \<Longrightarrow> library_of d' = library_of d"
  by (simp add: keeps_def library_of_eq)

lemma keeps_refl: "keeps d d" by (simp add: keeps_def)

lemma keeps_trans: "keeps d d' \<Longrightarrow> keeps d' d'' \<Longrightarrow> keeps d d''"
  by (simp add: keeps_def)

lemma keeps_frame: "db_torrents d' = db_torrents d \<Longrightarrow> db_requests d' = db_requests d \<Longrightarrow> keeps d d'"
  by (simp add: keeps_def rights_view_def content_view_def)

lemma rights_view_iff:
  "(u, k) \<in> rights_view d \<longleftrightarrow>
     (\<exists>r\<in>set (db_requests d). active_request_state (r_state r) \<and> r_user_id r = u \<and> r_managed_torrent_id r = k)"
  by (auto simp: rights_view_def)

lemma content_view_iff:
  "(k, h, p) \<in> content_view d \<longleftrightarrow>
     (\<exists>t\<in>set (db_torrents d). t_id t = k \<and> t_info_hash t = h \<and> (t_state t = PURGED) = p)"
  by (auto simp: content_view_def)

lemma torrent_row_unique:
  "platform_ok d \<Longrightarrow> x \<in> set (db_torrents d) \<Longrightarrow> y \<in> set (db_torrents d) \<Longrightarrow> t_id x = t_id y \<Longrightarrow> x = y"
  using torrents_distinct [OF platform_okD(1)] by (auto simp: distinct_map inj_on_def)

lemma keeps_put_torrent:
  assumes "distinct (map t_id (db_torrents d))" "t \<in> set (db_torrents d)" "t_id t' = t_id t" "t_info_hash t' = t_info_hash t"
    "t_state t' = PURGED \<longleftrightarrow> t_state t = PURGED"
  shows "keeps d (put_torrent t' d)"
proof -
  have m: "map (\<lambda>t. (t_id t, t_info_hash t, t_state t = PURGED)) (db_torrents (put_torrent t' d))
      = map (\<lambda>t. (t_id t, t_info_hash t, t_state t = PURGED)) (db_torrents d)"
    unfolding put_torrent_def
    using map_update_row_same [OF assms(1,2), of t'
        "\<lambda>t. (t_id t, t_info_hash t, t_state t = PURGED)"] assms(3-5) by simp
  have "content_view (put_torrent t' d) = content_view d"
    unfolding content_view_def set_map [symmetric] m by (rule refl)
  then show ?thesis by (simp add: keeps_def rights_view_def)
qed

text \<open>Writing back one request: a right that stays, and a right that ends.\<close>

lemma rights_view_keep_right:
  assumes "distinct (map r_id (db_requests d))" "r \<in> set (db_requests d)" "same_right r r'"
    and "active_request_state (r_state r') = active_request_state (r_state r)"
  shows "rights_view (put_request r' d) = rights_view d"
proof -
  have "active_request_state (r_state y) = active_request_state (r_state r')
      \<and> (r_user_id y, r_managed_torrent_id y) = (r_user_id r', r_managed_torrent_id r')"
    if "y \<in> set (db_requests d)" "r_id y = r_id r'" for y
  proof -
    have "y = r" using assms(1-3) that by (auto simp: same_right_def distinct_map inj_on_def)
    then show ?thesis using assms(3,4) by (simp add: same_right_def)
  qed
  then have m: "map (\<lambda>r. (r_user_id r, r_managed_torrent_id r))
        (filter (\<lambda>r. active_request_state (r_state r)) (db_requests (put_request r' d)))
      = map (\<lambda>r. (r_user_id r, r_managed_torrent_id r))
        (filter (\<lambda>r. active_request_state (r_state r)) (db_requests d))"
    unfolding put_request_def by (simp add: map_filter_update_row_same)
  show ?thesis unfolding rights_view_def set_map [symmetric] m by (rule refl)
qed

lemma rights_view_end_right:
  assumes "requests_unique (db_requests d)" "r \<in> set (db_requests d)" "same_right r r'"
    and "active_request_state (r_state r)" "\<not> active_request_state (r_state r')"
  shows "rights_view (put_request r' d) = rights_view d - {(r_user_id r, r_managed_torrent_id r)}"
proof -
  have dist: "distinct (map r_id (db_requests d))" using assms(1) by (simp add: requests_unique_def)
  have only: "x = r" if "x \<in> set (db_requests d)" "active_request_state (r_state x)"
    "r_user_id x = r_user_id r" "r_managed_torrent_id x = r_managed_torrent_id r" for x
    using assms(1,2,4) that
    by (auto simp: requests_unique_def active_requests_def request_owner_def distinct_map inj_on_def)
  have other: "x \<in> set (db_requests (put_request r' d)) \<and> active_request_state (r_state x)
      \<longleftrightarrow> x \<in> set (db_requests d) \<and> active_request_state (r_state x) \<and> x \<noteq> r" for x
    using in_put_request [OF dist assms(2,3), of x] assms(2,5) dist by (auto simp: distinct_map inj_on_def)
  have "(u, k) \<in> rights_view (put_request r' d)
      \<longleftrightarrow> (u, k) \<in> rights_view d \<and> (u, k) \<noteq> (r_user_id r, r_managed_torrent_id r)" for u k
    unfolding rights_view_iff using other only by blast
  then show ?thesis by auto
qed

lemma put_requests_view:
  assumes "system_ok d" "keeps_rights d rs"
  shows "rights_view (put_requests rs d) = rights_view d"
  using assms
proof (induction rs arbitrary: d)
  case (Cons r' rs)
  obtain r where r: "r \<in> set (db_requests d)" "same_right r r'"
    "active_request_state (r_state r') = active_request_state (r_state r)"
    using Cons.prems(2) by (auto simp: keeps_rights_def)
  have "rights_view (put_request r' d) = rights_view d"
    by (rule rights_view_keep_right [OF requests_distinct [OF Cons.prems(1)] r])
  moreover have "rights_view (put_requests rs (put_request r' d)) = rights_view (put_request r' d)"
    by (rule Cons.IH [OF system_ok_keep_right [OF Cons.prems(1) r] keeps_rights_tl [OF Cons.prems(1,2) r]])
  ultimately show ?case by simp
qed simp

section \<open>Transactions the library does not see\<close>

lemma platform_ids: "platform_ok d \<Longrightarrow> distinct (map t_id (db_torrents d))"
  by (rule torrents_distinct [OF platform_okD(1)])

lemma keeps_put_alive:
  assumes "distinct (map t_id (db_torrents d))" "t \<in> set (db_torrents d)" "t_id t' = t_id t"
    "t_info_hash t' = t_info_hash t" "\<not> purge_state (t_state t)" "\<not> purge_state (t_state t')"
  shows "keeps d (put_torrent t' d)"
  by (rule keeps_put_torrent [OF assms(1-4)]) (use assms(5,6) in auto)

lemma keeps_put_job: "keeps d (put_job j d)"
  by (rule keeps_frame) (simp_all add: put_job_def)

lemma keeps_insert_job: "insert_job j d = Inr d' \<Longrightarrow> keeps d d'"
  by (rule keeps_frame) (auto dest: insert_job_frame)

lemma retry_keeps:
  assumes "platform_ok d" "retry_transaction job_id snap p rid u m policy disk now d = Inr (d', t')"
  shows "keeps d d'"
  using assms(2)
proof (rule retry_cases)
  fix t r d1 l
  assume t: "find_row t_id (rs_managed_id snap) (db_torrents d) = Some t" "t_state t = ERROR"
    and lock: "lock_storage_ledger now d = (d1, l)"
    and res: "if rs_resync_only snap then t' = resynced_torrent now t \<and> d' = put_torrent t' d1
     else \<exists>x. p = Some x \<and> requeue_add job_id x m now r t d1 = Inr (d', t')"
  note l = lock_ledger_ok [OF assms(1) lock]
  have row: "t \<in> set (db_torrents d1)" using find_row_SomeD [OF t(1)] l(3) by simp
  have d1: "keeps d d1" by (rule keeps_frame [OF l(3,4)])
  note put = keeps_put_alive [OF platform_ids [OF l(1)] row]
  have "keeps d1 (put_torrent (resynced_torrent now t) d1)"
    by (rule put) (simp_all add: resynced_torrent_def t(2))
  moreover have "keeps d1 (put_torrent (retried_torrent now t) d1)"
    by (rule put) (simp_all add: retried_torrent_def t(2))
  moreover have "d' = put_torrent (resynced_torrent now t) d1
      \<or> (\<exists>j. insert_job j (put_torrent (retried_torrent now t) d1) = Inr d')"
    using res by (auto simp: requeue_add_def rbind_Inr_iff Let_def split: sum.splits if_splits)
  ultimately show ?thesis using keeps_trans d1 keeps_insert_job by metis
qed

lemma enqueue_keeps:
  assumes "enqueue_once ids now d = Inr (d', interval, created)"
  shows "keeps d d'"
proof -
  have "db_torrents e' = db_torrents e \<and> db_requests e' = db_requests e"
    if "foldl (insert_sync_job ids now) (e, n) ks = (e', n')" for ks e n e' n'
    using that
  proof (induction ks arbitrary: e n)
    case (Cons k ks)
    then show ?case
      by (cases "insert_job (sync_job (fst (ids k)) (uuid_hex (snd (ids k))) k now) e")
        (auto simp: insert_sync_job_def dest!: insert_job_frame)
  qed simp
  moreover obtain n where "case foldl (insert_sync_job ids now) (d, 0)
      (sync_candidates (now - seconds (max READY_SYNC_INTERVAL_SECONDS n)) d) of (x, c) \<Rightarrow> x = d'"
    using assms by (auto simp: enqueue_once_def rbind_Inr_iff Let_def split: prod.splits)
  ultimately show ?thesis by (intro keeps_frame) (auto split: prod.splits)
qed

lemma mark_adding_keeps:
  assumes "platform_ok d" "mark_adding k now d = Inr (d', t, b)"
  shows "keeps d d'"
proof -
  have "d' = d \<or> (\<exists>t\<in>set (db_torrents d). t_state t \<in> {PENDING, ADDING, RETRY_WAIT} \<and> d' = put_torrent (adding_torrent now t) d)"
    using assms(2) by (auto simp: mark_adding_def Let_def dest: find_row_SomeD split: option.splits if_splits)
  then show ?thesis
    using keeps_put_alive [OF platform_ids [OF assms(1)]] keeps_refl by (auto simp: adding_torrent_def)
qed

lemma manifest_keeps:
  assumes "platform_ok d" "replace_torrent_manifest sha fresh k files now d = Inr (d', w)"
  shows "keeps d d'"
  using assms(2)
proof (cases rule: replace_cases)
  case current
  then show ?thesis by (simp add: keeps_refl)
next
  case (written t c d1)
  have mem: "t \<in> set (db_torrents d)" using find_row_SomeD [OF written(2)] by simp
  have fr: "db_torrents d1 = db_torrents d" "db_requests d1 = db_requests d"
    using written(4) by (auto simp: replace_rows_def Let_def split: if_splits)
  have "keeps d1 d'"
    unfolding written(5) by (rule keeps_put_torrent [of _ t])
      (use mem fr platform_ids [OF assms(1)] in \<open>auto simp: manifest_torrent_def\<close>)
  then show ?thesis using keeps_trans [OF keeps_frame [OF fr]] by blast
qed

lemma keeps_put_requests:
  assumes "system_ok d" "keeps_rights d rs"
  shows "keeps d (put_requests rs d)"
  using put_requests_view [OF assms] by (simp add: keeps_def content_view_def)

lemma keeps_activated:
  assumes "platform_ok d" "\<And>s. P s \<Longrightarrow> active_request_state s"
  shows "keeps d (put_requests (map (activated_request now) (torrent_requests_in P k d)) d)"
  using platform_okD(1) [OF assms(1)] by (intro keeps_put_requests activated_keep) (auto intro: assms(2))

lemma finish_add_keeps:
  assumes "platform_ok d" "finish_add i sn ref now d = Inr (d', r)"
  shows "keeps d d'"
proof -
  obtain t where t: "find_row t_id (sn_managed_torrent_id sn) (db_torrents d) = Some t"
    using assms(2) by (auto simp: finish_add_def split: option.splits)
  have mem: "t \<in> set (db_torrents d)" using find_row_SomeD [OF t] by simp
  note ok = platform_okD [OF assms(1)]
  show ?thesis
  proof (cases "purge_state (t_state t)")
    case True
    then show ?thesis using assms(2) t by (simp add: finish_add_def keeps_refl)
  next
    case False
    let ?d0 = "put_torrent (stopped_torrent now t) d"
    let ?rs = "map (activated_request now) (torrent_requests_in (\<lambda>s. s = R_REQUESTED) (t_id t) d)"
    obtain a where rec: "record_tracker_activity i (t_id t) (sn_id sn) ref PROXY_HEALTH SUCCESS None (Aware now)
        (put_requests ?rs ?d0) = Inr (d', a)"
      using assms(2) t False by (auto simp: finish_add_def Let_def rbind_Inr_iff)
    have put: "keeps d ?d0"
      by (rule keeps_put_alive [OF platform_ids [OF assms(1)] mem]) (simp_all add: stopped_torrent_def False)
    have "platform_ok ?d0"
      by (rule platform_put_torrent [OF assms(1) mem])
        (use torrent_row_ok [OF ok(1) mem] False in
          \<open>auto simp: stopped_torrent_def same_torrent_def torrent_check_def\<close>)
    then have "keeps ?d0 (put_requests ?rs ?d0)"
      by (intro keeps_put_requests activated_keep [OF ok(1)] platform_okD(1)) simp_all
    moreover have "keeps (put_requests ?rs ?d0) d'"
      by (rule keeps_frame) (simp_all add: record_tracker_activity_frame [OF rec])
    ultimately show ?thesis using put keeps_trans by blast
  qed
qed

lemma sync_requests_keeps:
  assumes "platform_ok d" "t \<in> set (db_torrents d)" "sync_requests t now d = Inr (d', t', rs)"
  shows "keeps d d'"
proof (cases "t_state t = READY")
  case True
  then obtain n where run: "mark_ready_requests t (Aware now) n d = Inr (d', t', rs)"
    using assms(3) by (auto simp: sync_requests_def rbind_Inr_iff)
  note ok = platform_okD [OF assms(1)]
  let ?rs = "map (ready_request now n) (pending_requests (t_id t) d)"
  have t': "t' = (if t_ready_at t = None then t\<lparr>t_ready_at := Some now\<rparr> else t)"
    and d': "d' = put_requests ?rs (put_torrent t' d)"
    using run by (auto simp: mark_ready_requests_def rbind_Inr_iff require_Inr_iff Let_def)
  have row: "t_id t' = t_id t" "t_info_hash t' = t_info_hash t" "t_state t' = t_state t"
    "t_purge_after t' = t_purge_after t" "t_lifecycle_generation t' = t_lifecycle_generation t"
    "same_torrent t t'" "torrent_check t'"
    using torrent_row_ok [OF ok(1) assms(2)] by (simp_all add: t' same_torrent_def torrent_check_def)
  have put: "keeps d (put_torrent t' d)"
    by (rule keeps_put_torrent [OF platform_ids [OF assms(1)] assms(2)]) (simp_all add: row)
  have "platform_ok (put_torrent t' d)"
    by (rule platform_put_torrent [OF assms(1,2) row(6,7)]) (simp_all add: row)
  then have "keeps (put_torrent t' d) d'"
    unfolding d' by (intro keeps_put_requests pending_ready_keep [OF ok(1)] platform_okD(1)) simp_all
  then show ?thesis using put keeps_trans by blast
next
  case False
  then have d': "d' = put_requests (map (activated_request now) (torrent_requests_in waiting_request_state (t_id t) d)) d"
    using assms(3) by (auto simp: sync_requests_def Let_def)
  show ?thesis unfolding d' by (rule keeps_activated [OF assms(1)]) auto
qed

lemma backfill_keeps:
  assumes "system_ok d" "backfill_ready_unsubscribe_deadlines_batch locked now n limit d = Inr (d', k)"
  shows "keeps d d'"
  using assms(2)
proof (rule backfill_cases [OF assms(1)])
  fix rs
  assume "keeps_rights d rs" "d' = put_requests rs d"
  then show ?thesis using keeps_put_requests [OF assms(1)] by simp
qed

lemma persist_snapshot_keeps:
  assumes "platform_ok d" "persist_snapshot k s now d = Inr (d', r)"
  shows "keeps d d'"
  using assms(2)
proof (cases rule: persist_snapshot_cases)
  case same
  then show ?thesis by (simp add: keeps_refl)
next
  case (stored t state q t' rs)
  from assms(1) stored obtain t2 sch where c: "same_torrent t t2" "\<not> purge_state (t_state t2)"
    "platform_ok (put_torrent t2 d)"
    "sync_requests t2 now ((put_torrent t2 d)\<lparr>db_scheduler := sch\<rparr>) = Inr (d', t', rs)"
    by (rule store_observation_cases)
  let ?d2 = "(put_torrent t2 d)\<lparr>db_scheduler := sch\<rparr>"
  have id: "t_id t2 = t_id t" "t_info_hash t2 = t_info_hash t" using c(1) by (simp_all add: same_torrent_def)
  have "keeps d (put_torrent t2 d)"
    by (rule keeps_put_alive [OF platform_ids [OF assms(1)] stored(1) id stored(2) c(2)])
  moreover have "keeps (put_torrent t2 d) ?d2" by (rule keeps_frame) simp_all
  moreover have "platform_ok ?d2" using platform_ok_cong [of ?d2 "put_torrent t2 d"] c(3) by simp
  moreover have "t2 \<in> set (db_torrents ?d2)" using in_put_torrent [OF stored(1) id(1)] by simp
  ultimately show ?thesis using sync_requests_keeps c(4) keeps_trans by blast
qed

lemma claim_keeps: "claim_one locked cfg w handlers now d = Inr (d', r) \<Longrightarrow> keeps d d'"
proof (cases "handlers = []")
  case False
  assume "claim_one locked cfg w handlers now d = Inr (d', r)"
  then have "claim_next_torrent_job locked w now (wc_claim_ttl cfg) (wc_execution_timeout cfg) (Some handlers) d
      = Inr (d', r)"
    using False by (simp add: claim_one_def)
  then show ?thesis by (cases rule: claim_next_cases) (auto simp: keeps_refl keeps_put_job)
qed (simp add: claim_one_def keeps_refl)

lemma heartbeat_keeps: "heartbeat_once cfg w s now d = Inr d' \<Longrightarrow> keeps d d'"
  by (auto simp: heartbeat_once_def rbind_Inr_iff keeps_put_job split: sum.splits app_error.splits)

lemma job_cancellation_keeps: "keeps d (fst (request_torrent_job_cancellation i now d))"
  by (auto simp: request_torrent_job_cancellation_def Let_def keeps_refl keeps_put_job split: option.splits)

lemma settle_keeps:
  assumes "platform_ok d" "purge_jobs_ok d" "snapshot_current s d" "outcome_ok s outcome"
    and "settle_claimed_job jitter cfg w s outcome now d = Inr (d', ev, ch)"
  shows "keeps d d'"
  using assms
proof (cases rule: settle_cases)
  case same
  then show ?thesis by (simp add: keeps_refl)
next
  case (job j j')
  then show ?thesis by (simp add: keeps_put_job)
next
  case (torrent j j' t st r)
  have "keeps (put_job j' d) d'"
    unfolding torrent(6)
    by (rule keeps_put_alive [of _ t]) (use torrent(3-5) platform_ids [OF assms(1)] in simp_all)
  then show ?thesis using keeps_trans keeps_put_job by blast
qed

lemma fail_abandoned_keeps:
  assumes "distinct (map t_id (db_torrents e))"
  shows "keeps e (fst (foldl (fail_abandoned_torrent now) (e, x, y) ids))"
  using assms
proof (induction ids arbitrary: e x y)
  case Nil
  then show ?case by (simp add: keeps_refl)
next
  case (Cons i ids)
  obtain e1 x1 y1 where step: "fail_abandoned_torrent now (e, x, y) i = (e1, x1, y1)" by (metis prod_cases3)
  have "e1 = e \<or> (\<exists>t. t \<in> set (db_torrents e) \<and> \<not> purge_state (t_state t)
      \<and> e1 = put_torrent (t\<lparr>t_state := ERROR, t_retry_at := None, t_updated_at := now\<rparr>) e)"
    using step by (auto simp: fail_abandoned_torrent_def failed_add_state_def Let_def dest: find_row_SomeD
        split: option.splits if_splits)
  then have k: "keeps e e1 \<and> distinct (map t_id (db_torrents e1))"
  proof (elim disjE exE conjE)
    fix t assume t: "t \<in> set (db_torrents e)" "\<not> purge_state (t_state t)"
      and e1: "e1 = put_torrent (t\<lparr>t_state := ERROR, t_retry_at := None, t_updated_at := now\<rparr>) e"
    have "map t_id (db_torrents e1) = map t_id (db_torrents e)"
      unfolding e1 put_torrent_def
      using map_update_row_same [OF Cons.prems t(1), of "t\<lparr>t_state := ERROR, t_retry_at := None, t_updated_at := now\<rparr>" t_id] by simp
    moreover have "keeps e e1" unfolding e1 by (rule keeps_put_alive [OF Cons.prems t(1)]) (simp_all add: t(2))
    ultimately show ?thesis using Cons.prems by simp
  qed (use Cons.prems keeps_refl in simp)
  then have "keeps e1 (fst (foldl (fail_abandoned_torrent now) (e1, x1, y1) ids))" using Cons.IH by blast
  then show ?case using k step keeps_trans by auto
qed

lemma recovered_rows_frame:
  "db_torrents (foldl (\<lambda>d j. put_job j d) e ks) = db_torrents e
     \<and> db_requests (foldl (\<lambda>d j. put_job j d) e ks) = db_requests e"
  by (induction ks arbitrary: e) (simp_all add: put_job_def)

lemma recover_expired_keeps:
  assumes "distinct (map j_id (db_jobs d))" "recover_expired_torrent_jobs locked now delay limit d = Inr (d', rec)"
  shows "keeps d d'"
proof (rule recover_expired_rows [OF assms(2,1)])
  fix js assume "d' = foldl (\<lambda>d j. put_job j d) d (map (recovered_job now delay) js)"
  then show ?thesis using recovered_rows_frame by (intro keeps_frame) simp_all
qed

lemma recover_keeps:
  assumes "platform_ok d" "distinct (map j_id (db_jobs d))"
    and "recover_if_due locked cfg force since now d = Inr (d', ev, ch)"
  shows "keeps d d'"
  using assms(3,2)
proof (cases rule: recover_if_due_cases)
  case early
  then show ?thesis by (simp add: keeps_refl)
next
  case (recovered js ab d1)
  then have d1: "keeps d d1" "distinct (map t_id (db_torrents d1))"
    using platform_ids [OF assms(1)] recovered_rows_frame by (auto intro!: keeps_frame)
  then show ?thesis using recovered(4) fail_abandoned_keeps keeps_trans by blast
qed

lemma schedule_keeps:
  assumes "platform_ok d" "t \<in> set (db_torrents d)" "scheduling_write t t'"
  shows "keeps d (put_torrent t' d)"
proof -
  have "t_id t' = t_id t" "t_info_hash t' = t_info_hash t" "t_state t' = t_state t"
    using arg_cong [OF assms(3) [unfolded scheduling_write_def], of t_id]
      arg_cong [OF assms(3) [unfolded scheduling_write_def], of t_info_hash]
      arg_cong [OF assms(3) [unfolded scheduling_write_def], of t_state] by simp_all
  then show ?thesis using keeps_put_torrent [OF platform_ids [OF assms(1)] assms(2)] by simp
qed

section \<open>Rights that end\<close>

definition narrows :: "db \<Rightarrow> db \<Rightarrow> bool" where
  "narrows d d' \<longleftrightarrow> content_view d' = content_view d \<and> rights_view d' \<subseteq> rights_view d"

lemma keeps_narrows: "keeps d d' \<Longrightarrow> narrows d d'"
  by (simp add: keeps_def narrows_def)

lemma narrows_trans: "narrows d d' \<Longrightarrow> narrows d' d'' \<Longrightarrow> narrows d d''"
  by (auto simp: narrows_def)

lemma narrows_step: "narrows d d' \<Longrightarrow> library_step (library_of d) (library_of d')"
proof -
  assume n: "narrows d d'"
  have "lib_held (library_of d') \<subseteq> lib_held (library_of d)"
    using n by (auto simp: narrows_def library_of_eq held_of_eq)
  then have "library_of d' = (library_of d)\<lparr>lib_held := lib_held (library_of d) - (lib_held (library_of d) - lib_held (library_of d'))\<rparr>"
    using n by (auto simp: library_of_eq narrows_def)
  then show ?thesis using lib_drop by metis
qed

lemma narrows_end_right:
  assumes "\<not> active_request_state (r_state r')"
  shows "narrows d (put_request r' d)"
proof -
  have "set (db_requests (put_request r' d)) \<subseteq> insert r' (set (db_requests d))"
    by (auto simp: put_request_def in_update_row)
  then have "rights_view (put_request r' d) \<subseteq> rights_view d" using assms unfolding rights_view_def by auto
  then show ?thesis by (simp add: narrows_def content_view_def)
qed

lemma narrows_end_charge:
  assumes "\<not> active_request_state (r_state r')"
  shows "narrows d (release_usage u n now (put_request r' d))"
proof -
  have "keeps (put_request r' d) (release_usage u n now (put_request r' d))" by (rule keeps_frame) simp_all
  then show ?thesis using narrows_trans [OF narrows_end_right [OF assms]] keeps_narrows by blast
qed

lemma put_torrent_ids: "map t_id (db_torrents (put_torrent t' d)) = map t_id (db_torrents d)"
  by (simp add: put_torrent_def update_row_def)

lemma schedule_purge_keeps:
  assumes "distinct (map t_id (db_torrents d))" "(t_id t, t_info_hash t, False) \<in> content_view d"
    and "\<not> purge_state (t_state t)" "schedule_deferred_purge i t origin pa now d = Inr (d', t', job)"
  shows "keeps d d'" "map t_id (db_torrents d') = map t_id (db_torrents d)"
proof -
  note c = schedule_deferred_purge_cases [OF assms(4)]
  obtain x where x: "x \<in> set (db_torrents d)" "t_id x = t_id t" "t_info_hash x = t_info_hash t" "t_state x \<noteq> PURGED"
    using assms(2) by (auto simp: content_view_iff)
  have "keeps d (put_torrent t' d)"
    by (rule keeps_put_torrent [OF assms(1) x(1)]) (use x assms(3) in \<open>auto simp: c(1) purge_scheduled_torrent_def\<close>)
  moreover have "keeps (put_torrent t' d) d'" by (rule keeps_frame) (simp_all add: c(3))
  ultimately show "keeps d d'" by (rule keeps_trans)
  show "map t_id (db_torrents d') = map t_id (db_torrents d)" by (simp add: c(3) put_torrent_ids)
qed

lemma content_row: "t \<in> set (db_torrents d) \<Longrightarrow> \<not> purge_state (t_state t) \<Longrightarrow> (t_id t, t_info_hash t, False) \<in> content_view d"
  by (auto simp: content_view_iff)

lemma cancel_owned_narrows:
  assumes "platform_ok d" "cancel_owned_torrent_request job_id u rid n now detect d = Inr (d', res)"
  shows "narrows d d'"
  using assms(2)
proof (cases rule: cancel_owned_cases)
  case unchanged
  then show ?thesis by (simp add: keeps_narrows keeps_refl)
next
  case (released r t x)
  let ?d1 = "release_usage u (t_total_size t) now (put_request (cancelled_request now r) d)"
  have c: "narrows d ?d1" by (rule narrows_end_charge) simp
  have "has_active_request d (t_id t)" using released(1,4,6) by (auto simp: has_active_request_iff)
  then have alive: "\<not> purge_state (t_state t)"
    using active_request_not_purged [OF platform_okD(1) [OF assms(1)] released(5)] by simp
  show ?thesis
  proof (cases "has_active_request ?d1 (t_id t)")
    case True
    then show ?thesis using released(7) c by (simp add: release_right_def Let_def)
  next
    case False
    then obtain t' job where sch: "schedule_deferred_purge job_id t (Some (r_id r))
        (if t_state t = ERROR then now else now + hours n) now ?d1 = Inr (d', t', job)"
      using released(7) by (auto simp: release_right_def Let_def rbind_Inr_iff)
    have "keeps ?d1 d'"
      by (rule schedule_purge_keeps(1) [OF _ content_row alive sch])
        (use platform_ids [OF assms(1)] released(5) alive in simp_all)
    then show ?thesis using narrows_trans [OF c] keeps_narrows by blast
  qed
qed

lemma expire_torrents_narrows:
  assumes "\<And>t. t \<in> set torrents \<Longrightarrow> \<not> purge_state (t_state t) \<and> (t_id t, t_info_hash t, False) \<in> content_view d"
    and "expire_torrents fresh now n torrents due ids d = Inr (d', res)" "distinct (map t_id (db_torrents d))"
  shows "narrows d d'"
  using assms
proof (induction ids arbitrary: d res)
  case Nil
  then show ?case by (simp add: keeps_narrows keeps_refl)
next
  case (Cons i ids)
  from Cons.prems(2) obtain d1 r rs where step: "expire_torrent fresh now n torrents due i d = Inr (d1, r)"
    and rest: "expire_torrents fresh now n torrents due ids d1 = Inr (d', rs)"
    by (auto simp: rbind_Inr_iff)
  from step obtain t e where t: "find_row t_id i torrents = Some t"
    and e: "e = foldl (expire_request now (t_total_size t)) d (filter (\<lambda>r. r_managed_torrent_id r = i) due)"
    and c: "if has_active_request e i then d1 = e
      else \<exists>t' job. schedule_deferred_purge (fresh i) t
        (Some (r_id (hd (filter (\<lambda>r. r_managed_torrent_id r = i) due)))) (now + hours n) now e = Inr (d1, t', job)"
    by (rule expire_torrent_cases)
  have "narrows x (foldl (expire_request now k) x rs') \<and> db_torrents (foldl (expire_request now k) x rs') = db_torrents x"
    for x k rs'
  proof (induction rs' arbitrary: x)
    case (Cons y ys)
    have "narrows x (expire_request now k x y)"
      unfolding expire_request_def by (rule narrows_end_charge) (rule expired_request_same(2))
    then show ?case using Cons.IH [of "expire_request now k x y"] narrows_trans by auto
  qed (simp add: keeps_narrows keeps_refl)
  then have e1: "narrows d e" "db_torrents e = db_torrents d" by (simp_all add: e)
  have "t \<in> set torrents" using find_row_SomeD [OF t] by simp
  from Cons.prems(1) [OF this] have row: "\<not> purge_state (t_state t)" "(t_id t, t_info_hash t, False) \<in> content_view e"
    using e1(1) by (simp_all add: narrows_def)
  have "keeps e d1 \<and> map t_id (db_torrents d1) = map t_id (db_torrents e)"
    using c schedule_purge_keeps [OF _ row(2,1)] Cons.prems(3) e1(2) keeps_refl by (metis (full_types))
  then have n1: "narrows d d1" "distinct (map t_id (db_torrents d1))"
    using e1 Cons.prems(3) narrows_trans keeps_narrows by auto
  have "narrows d1 d'"
    by (rule Cons.IH [OF _ rest n1(2)]) (use Cons.prems(1) n1(1) in \<open>auto simp: narrows_def\<close>)
  then show ?case using narrows_trans [OF n1(1)] by blast
qed

lemma expire_once_narrows:
  assumes "platform_ok d" "expire_once lt lr fresh now now' d = Inr (d', ev, k)"
  shows "narrows d d'"
proof -
  obtain m n d1 c res where r:
    "backfill_ready_unsubscribe_deadlines_batch lr (Aware now) m MAX_RETENTION_BATCH d = Inr (d1, c)"
    "expire_ready_torrents_batch lt lr fresh (Aware now') n MAX_RETENTION_BATCH d1 = Inr (d', res)"
    by (rule expire_once_cases [OF assms(2)])
  have ok1: "platform_ok d1" by (rule backfill_platform_ok [OF assms(1) r(1)])
  note ok = platform_okD [OF ok1]
  have "keeps d d1"
    using backfill_keeps [OF platform_okD(1) [OF assms(1)] r(1)] by simp
  moreover obtain due ids where
    "expire_torrents fresh now' n (due_torrents lt now' (nat MAX_RETENTION_BATCH) d1) due ids d1 = Inr (d', res)"
    by (rule expire_batch_torrents [OF r(2)])
  then have "narrows d1 d'"
    using due_torrents_alive [OF ok(1)] content_row platform_ids [OF ok1]
    by (intro expire_torrents_narrows) auto
  ultimately show ?thesis using keeps_narrows narrows_trans by blast
qed

section \<open>Rights that begin\<close>

lemma library_grant:
  assumes "rights_view d' = insert (u, k) (rights_view d)"
    and "content_view d' = {c \<in> content_view d. fst c \<noteq> k} \<union> {(k, h, False)}"
    and "\<And>v i. (v, i) \<in> rights_view d \<Longrightarrow> \<exists>x p. (i, x, p) \<in> content_view d"
    and "\<And>x p. (k, x, p) \<in> content_view d \<Longrightarrow> x = h"
  shows "library_of d' = (library_of d)\<lparr>lib_held := insert (u, h) (lib_held (library_of d)),
                                        lib_stored := insert h (lib_stored (library_of d))\<rparr>"
proof -
  have "(v, x) \<in> held_of (rights_view d') (content_view d')
      \<longleftrightarrow> (v, x) = (u, h) \<or> (v, x) \<in> held_of (rights_view d) (content_view d)" (is "?l = ?r") for v x
  proof
    assume ?l
    then obtain i p where i: "(v, i) \<in> rights_view d'" "(i, x, p) \<in> content_view d'" by (auto simp: held_of_eq)
    show ?r
    proof (cases "i = k")
      case True
      then have "x = h" using i(2) assms(2) by auto
      moreover have "v = u \<or> (v, k) \<in> rights_view d" using i(1) True assms(1) by auto
      moreover have "\<exists>p. (k, h, p) \<in> content_view d" if "(v, k) \<in> rights_view d"
        using assms(3) [OF that] assms(4) by metis
      ultimately show ?thesis by (auto simp: held_of_eq)
    next
      case False
      then have "(v, i) \<in> rights_view d" "(i, x, p) \<in> content_view d" using i assms(1,2) by auto
      then show ?thesis by (auto simp: held_of_eq)
    qed
  next
    assume ?r
    then consider "v = u" "x = h" | i p where "(v, i) \<in> rights_view d" "(i, x, p) \<in> content_view d"
      by (auto simp: held_of_eq)
    then show ?l
    proof cases
      case 1
      then show ?thesis using assms(1,2) by (auto simp: held_of_eq)
    next
      case (2 i p)
      have "(i, x, if i = k then False else p) \<in> content_view d'"
        using 2(2) assms(2) assms(4) [of x p] by (cases "i = k") auto
      moreover have "(v, i) \<in> rights_view d'" using 2(1) assms(1) by simp
      ultimately show ?thesis unfolding held_of_eq by blast
    qed
  qed
  then have "held_of (rights_view d') (content_view d') = insert (u, h) (held_of (rights_view d) (content_view d))"
    by auto
  moreover have "{x. \<exists>i. (i, x, False) \<in> content_view d'} = insert h {x. \<exists>i. (i, x, False) \<in> content_view d}"
    unfolding assms(2) using assms(4) by auto
  ultimately show ?thesis by (simp add: library_of_eq)
qed

lemma acquire_rights_view:
  assumes "acquire_right i u n now missing t d = Inr (d', r, ins)"
  shows "rights_view d' = insert (u, t_id t) (rights_view d)"
proof (cases "active_request_of d u (t_id t)")
  case None
  then have "i \<notin> set (map r_id (db_requests d))" using acquire_right_clash assms by fastforce
  from acquire_right_new [where n = n and now = now and missing = missing, OF None this]
  have "d' = apply_storage_accounting u True missing (t_total_size t) now
      (d\<lparr>db_requests := db_requests d @ [granted_request i u n now t]\<rparr>)"
    using assms by simp
  then show ?thesis by (auto simp: rights_view_def)
next
  case (Some x)
  then have "(u, t_id t) \<in> rights_view d"
    using active_request_of_SomeD [OF Some] by (auto simp: rights_view_iff)
  moreover have "rights_view d' = rights_view d"
    using acquire_right_existing [where i = i and n = n and now = now and missing = missing, OF Some] assms
    by (auto simp: rights_view_def)
  ultimately show ?thesis by auto
qed

lemma end_due_rights_view:
  assumes "requests_unique (db_requests d)"
  shows "insert (u, t_id t) (rights_view (end_due_right u now t d)) = insert (u, t_id t) (rights_view d)"
    "content_view (end_due_right u now t d) = content_view d"
proof -
  show "content_view (end_due_right u now t d) = content_view d"
    by (auto simp: content_view_def end_due_right_def split: option.splits)
  show "insert (u, t_id t) (rights_view (end_due_right u now t d)) = insert (u, t_id t) (rights_view d)"
  proof (cases "active_request_of d u (t_id t)")
    case (Some r)
    note a = active_request_of_SomeD [OF Some]
    from rights_view_end_right [OF assms a(1) expired_request_same(1) a(4) expired_request_same(2)]
    have "rights_view (expire_request now (t_total_size t) d r) = rights_view d - {(u, t_id t)}"
      using a(2,3) by (simp add: expire_request_def rights_view_def)
    then show ?thesis using Some by (auto simp: end_due_right_def)
  qed (simp add: end_due_right_def)
qed

lemma content_view_put:
  assumes "distinct (map t_id (db_torrents d))" "t \<in> set (db_torrents d)" "t_id t' = t_id t"
  shows "content_view (put_torrent t' d)
    = {c \<in> content_view d. fst c \<noteq> t_id t} \<union> {(t_id t', t_info_hash t', t_state t' = PURGED)}"
  using in_put_torrent [OF assms(2,3)] by (auto simp: content_view_def)

lemma adopt_view:
  assumes "distinct (map t_id (db_torrents d))" "t \<in> set (db_torrents d)" "t_state t \<noteq> PURGING"
    and "adopt_torrent now t d = Inr (d1, t')"
  shows "content_view d1 = {c \<in> content_view d. fst c \<noteq> t_id t} \<union> {(t_id t, t_info_hash t, False)}"
    "db_requests d1 = db_requests d" "t_id t' = t_id t" "t_info_hash t' = t_info_hash t"
proof -
  have cancel: "content_view (cancel_deferred_purge_jobs k now e) = content_view e"
    "db_requests (cancel_deferred_purge_jobs k now e) = db_requests e" for k e
    by (simp_all add: content_view_def cancel_deferred_purge_jobs_def)
  have row: "t_id t' = t_id t \<and> t_info_hash t' = t_info_hash t \<and> t_state t' \<noteq> PURGED
      \<and> content_view d1 = content_view (put_torrent t' d) \<and> db_requests d1 = db_requests d"
    using assms(4,3)
  proof (cases rule: adopt_torrent_cases)
    case unchanged
    then have "keeps d (put_torrent t d)" by (intro keeps_put_torrent [OF assms(1,2)]) simp_all
    then show ?thesis using unchanged by (auto simp: keeps_def)
  qed (simp_all add: cancel reactivated_torrent_def restored_torrent_def revoked_torrent_def, auto)
  then show "content_view d1 = {c \<in> content_view d. fst c \<noteq> t_id t} \<union> {(t_id t, t_info_hash t, False)}"
    using content_view_put [OF assms(1,2), of t'] by simp
  show "db_requests d1 = db_requests d" "t_id t' = t_id t" "t_info_hash t' = t_info_hash t"
    using row by blast+
qed

lemma right_has_content:
  assumes "system_ok d" "(u, k) \<in> rights_view d"
  shows "\<exists>h p. (k, h, p) \<in> content_view d"
proof -
  obtain r where r: "r \<in> set (db_requests d)" "r_managed_torrent_id r = k"
    using assms(2) by (auto simp: rights_view_iff)
  have "list_all (\<lambda>r. r_managed_torrent_id r \<in> set (map t_id (db_torrents d))) (db_requests d)"
    using assms(1) by (simp add: system_ok_def tables_ok_def)
  then have "k \<in> set (map t_id (db_torrents d))" using r by (auto simp: list_all_iff)
  then show ?thesis by (auto simp: content_view_iff)
qed

lemma create_grants:
  assumes "platform_ok d"
    and "create_or_get_torrent_request mi sk i u h nm sz now policy disk n d = Inr (d', res)"
  shows "library_of d' = (library_of d)\<lparr>lib_held := insert (u, h) (lib_held (library_of d)),
                                        lib_stored := insert h (lib_stored (library_of d))\<rparr>"
proof -
  note sys = platform_okD(1) [OF assms(1)]
  have uniq: "requests_unique (db_requests d)" using sys by (simp add: system_ok_def tables_ok_def)
  let ?new = "new_managed_torrent mi sk h nm sz (as_utc now)"
  from assms(2) obtain d0 created t0 where c: "insert_managed_torrent ?new d = (d0, created)"
    "find_row t_info_hash h (db_torrents d0) = Some t0"
    "t_state t0 \<noteq> PURGING" "admit_to_torrent i u (as_utc now) policy disk n created t0 d0 = Inr (d', res)"
    by (rule create_cases)
  from c(4) obtain d1 t d3 pr where a: "adopt_torrent (as_utc now) t0 d0 = Inr (d1, t)"
    "prepare_storage_accounting u (t_info_hash t) (t_total_size t) policy disk (as_utc now)
       (Some (created \<or> t_state t0 = PURGED)) (end_due_right u (as_utc now) t d1) = Inr (d3, pr)"
    "acquire_right i u n (as_utc now) (created \<or> t_state t0 = PURGED) t d3
       = Inr (d', mr_request res, mr_request_created res)"
    by (rule admit_cases)
  have row: "t0 \<in> set (db_torrents d0)" "t_info_hash t0 = h" using find_row_SomeD [OF c(2)] by simp_all
  have ins: "(d0 = d \<or> d0 = d\<lparr>db_torrents := db_torrents d @ [?new]\<rparr>) \<and> distinct (map t_id (db_torrents d0))"
    using c(1) platform_ids [OF assms(1)] by (auto simp: insert_managed_torrent_def split: if_splits)
  have ids: "x = t0" if "x \<in> set (db_torrents d0)" "t_id x = t_id t0" for x
    using ins row(1) that by (auto simp: distinct_map inj_on_def)
  note v = adopt_view [OF conjunct2 [OF ins] row(1) c(3) a(1)]
  have req: "requests_unique (db_requests d1)" using v(2) ins uniq by auto
  note e = end_due_rights_view [where u = u and t = t and now = "as_utc now", OF req]
  have rights: "rights_view d' = insert (u, t_id t0) (rights_view d)"
  proof -
    have "rights_view d' = insert (u, t_id t) (rights_view (end_due_right u (as_utc now) t d1))"
      using acquire_rights_view [OF a(3)] prepare_frame(2) [OF a(2)] by (simp add: rights_view_def)
    also have "\<dots> = insert (u, t_id t) (rights_view d1)" by (rule e(1))
    also have "rights_view d1 = rights_view d" using v(2) ins by (auto simp: rights_view_def)
    finally show ?thesis by (simp add: v(3))
  qed
  have "content_view d' = content_view d1"
    using admission_frame(1) [OF a(2,3)] by (simp add: content_view_def)
  then have content: "content_view d' = {c \<in> content_view d0. fst c \<noteq> t_id t0} \<union> {(t_id t0, h, False)}"
    using v(1) row(2) by simp
  have "{c \<in> content_view d0. fst c \<noteq> t_id t0} = {c \<in> content_view d. fst c \<noteq> t_id t0}"
  proof (cases "d0 = d")
    case False
    then have d0: "d0 = d\<lparr>db_torrents := db_torrents d @ [?new]\<rparr>" using ins by blast
    have "h \<notin> t_info_hash ` set (db_torrents d)"
      using c(1) False by (auto simp: insert_managed_torrent_def new_managed_torrent_def split: if_splits)
    then have "t0 = ?new" using row by (auto simp: d0)
    then show ?thesis by (auto simp: content_view_def d0)
  qed simp
  then have content': "content_view d' = {c \<in> content_view d. fst c \<noteq> t_id t0} \<union> {(t_id t0, h, False)}"
    using content by simp
  have sub: "set (db_torrents d) \<subseteq> set (db_torrents d0)" using ins by auto
  have "x = h" if "(t_id t0, x, p) \<in> content_view d" for x p
    using that ids sub row(2) by (auto simp: content_view_iff)
  from library_grant [OF rights content' right_has_content [OF sys] this] show ?thesis .
qed

lemma create_route_grants:
  assumes "platform_ok d"
    and "create_torrent_request ids staged u p ma aa n policy disk now d = Inr (d', res, jc)"
  shows "library_of d' = (library_of d)\<lparr>lib_held := insert (u, pt_info_hash p) (lib_held (library_of d)),
                                        lib_stored := insert (pt_info_hash p) (lib_stored (library_of d))\<rparr>"
proof -
  obtain d1 where c:
    "create_or_get_torrent_request (up_managed_id ids) (up_storage_key ids) (up_request_id ids) u
       (pt_info_hash p) (pt_name p) (pt_total_size p) (Aware now) (Some policy) (Some disk) n d = Inr (d1, res)"
    "enqueue_add (up_job_id ids) staged (pt_info_hash p) aa now res d1 = Inr (d', jc)"
    by (rule create_route_cases [OF assms(2)])
  have "keeps d1 d'"
    using c(2) keeps_insert_job keeps_refl by (auto simp: enqueue_add_def rbind_Inr_iff split: if_splits)
  then show ?thesis using create_grants [OF assms(1) c(1)] keeps_library by simp
qed

section \<open>Purges\<close>

lemma begin_purge_keeps:
  assumes "platform_ok d" "begin_purge sn now d = Inr (d', res)"
  shows "keeps d d'"
proof -
  note put = keeps_put_torrent [OF platform_ids [OF assms(1)]]
  have cancel: "keeps e (cancel_other_jobs k i now e)" for e k i by (rule keeps_frame) simp_all
  from assms(2) obtain t where t: "t \<in> set (db_torrents d)" and c:
    "d' = d \<or> (t_state t \<noteq> PURGED \<and> d' = put_torrent (kept_torrent now t) d)
     \<or> (t_state t \<noteq> PURGED
        \<and> d' = cancel_other_jobs (t_id t) (sn_id sn) now (put_torrent (purge_pending_torrent now t) d))
     \<or> (t_state t \<noteq> PURGED \<and> d' = put_torrent (t\<lparr>t_state := PURGING, t_updated_at := now\<rparr>) d)"
    by (rule begin_purge_cases) (auto simp: purge_state_def)
  from c show ?thesis
  proof (elim disjE conjE)
    assume "t_state t \<noteq> PURGED" "d' = cancel_other_jobs (t_id t) (sn_id sn) now (put_torrent (purge_pending_torrent now t) d)"
    moreover have "keeps d (put_torrent (purge_pending_torrent now t) d)"
      by (rule put [OF t]) (use calculation(1) in \<open>auto simp: purge_pending_torrent_def\<close>)
    ultimately show ?thesis using keeps_trans cancel by blast
  qed (auto simp: kept_torrent_def intro!: put [OF t] keeps_refl)
qed

lemma finish_purge_step:
  assumes "platform_ok d" "finish_purge k n now d = Inr d'"
  shows "library_step (library_of d) (library_of d')"
proof -
  note sys = platform_okD(1) [OF assms(1)]
  from assms(2) obtain t where t: "t \<in> set (db_torrents d)" "t_id t = k"
    and c: "(t_state t = PURGED \<and> d' = d)
     \<or> (t_state t = PURGING \<and> \<not> has_active_request d k \<and> \<not> live_lease now k d
        \<and> d' = put_torrent (purged_torrent now t) (release_ledger n now (delete_files k d)))"
    by (rule finish_purge_cases)
  show ?thesis
  proof (cases "d' = d")
    case True
    then show ?thesis by (simp add: lib_idle)
  next
    case False
    then have free: "\<not> has_active_request d k"
      and d': "d' = put_torrent (purged_torrent now t) (release_ledger n now (delete_files k d))"
      using c by auto
    let ?e = "release_ledger n now (delete_files k d)"
    have e: "db_torrents ?e = db_torrents d" "db_requests ?e = db_requests d"
      by (simp_all add: release_ledger_def delete_files_def)
    have "content_view d' = {c \<in> content_view ?e. fst c \<noteq> t_id t}
        \<union> {(t_id (purged_torrent now t), t_info_hash (purged_torrent now t), t_state (purged_torrent now t) = PURGED)}"
      unfolding d' by (rule content_view_put) (use platform_ids [OF assms(1)] t(1) e(1) in \<open>simp_all add: purged_torrent_def\<close>)
    then have content: "content_view d' = {c \<in> content_view d. fst c \<noteq> k} \<union> {(k, t_info_hash t, True)}"
      using e(1) t(2) by (simp add: content_view_def purged_torrent_def)
    have rights: "rights_view d' = rights_view d" using e(2) by (simp add: rights_view_def d')
    have "torrents_unique (db_torrents d)" using sys by (simp add: system_ok_def tables_ok_def)
    then have hash: "i = k" if "(i, t_info_hash t, p) \<in> content_view d" for i p
      using that t by (auto simp: content_view_iff torrents_unique_def distinct_map inj_on_def)
    have id: "x = t_info_hash t" if "(k, x, p) \<in> content_view d" for x p
      using that t platform_ids [OF assms(1)] by (auto simp: content_view_iff distinct_map inj_on_def)
    have free': "(v, k) \<notin> rights_view d" for v
      using free by (auto simp: has_active_request_iff rights_view_iff)
    have "(v, i) \<in> rights_view d \<and> (i, x, p) \<in> content_view d'
        \<longleftrightarrow> (v, i) \<in> rights_view d \<and> (i, x, p) \<in> content_view d" for v i x p
      using free' [of v] by (cases "i = k") (auto simp: content)
    then have held: "held_of (rights_view d') (content_view d') = held_of (rights_view d) (content_view d)"
      by (simp add: rights held_of_eq)
    have m: "(i, x, False) \<in> content_view d' \<longleftrightarrow> (i, x, False) \<in> content_view d \<and> i \<noteq> k" for i x
      by (simp add: content)
    have "(\<exists>i. (i, x, False) \<in> content_view d')
        \<longleftrightarrow> (\<exists>i. (i, x, False) \<in> content_view d) \<and> x \<noteq> t_info_hash t" for x
      unfolding m using hash id by blast
    then have "{x. \<exists>i. (i, x, False) \<in> content_view d'} = {x. \<exists>i. (i, x, False) \<in> content_view d} - {t_info_hash t}"
      by (simp add: set_diff_eq)
    then have lib: "library_of d' = (library_of d)\<lparr>lib_stored := lib_stored (library_of d) - {t_info_hash t}\<rparr>"
      using held by (simp add: library_of_eq)
    have "\<forall>v. (v, t_info_hash t) \<notin> lib_held (library_of d)"
      using hash free' by (auto simp: library_of_eq held_of_eq)
    then show ?thesis unfolding lib by (rule lib_purge)
  qed
qed

section \<open>The simulation\<close>

lemma keeps_step: "keeps d d' \<Longrightarrow> library_step (library_of d) (library_of d')"
  using keeps_library lib_idle by metis

lemma transaction_step:
  assumes "transaction d d'" "platform_ok d" "purge_jobs_ok d"
  shows "library_step (library_of d) (library_of d')"
  using assms
proof (cases rule: transaction.cases)
  case tx_create
  then show ?thesis using create_route_grants [OF assms(2)] lib_grant by metis
next
  case tx_retry then show ?thesis using retry_keeps keeps_step assms(2) by blast
next
  case tx_cancel then show ?thesis using cancel_owned_narrows narrows_step assms(2) by blast
next
  case tx_expire then show ?thesis using expire_once_narrows narrows_step assms(2) by blast
next
  case tx_enqueue then show ?thesis using enqueue_keeps keeps_step by blast
next
  case tx_mark_adding then show ?thesis using mark_adding_keeps keeps_step assms(2) by blast
next
  case tx_manifest then show ?thesis using manifest_keeps keeps_step assms(2) by blast
next
  case tx_finish_add then show ?thesis using finish_add_keeps keeps_step assms(2) by blast
next
  case tx_sync then show ?thesis using persist_snapshot_keeps keeps_step assms(2) by blast
next
  case tx_claim then show ?thesis using claim_keeps keeps_step by blast
next
  case tx_heartbeat then show ?thesis using heartbeat_keeps keeps_step by blast
next
  case tx_settle then show ?thesis using settle_keeps keeps_step assms(2,3) by blast
next
  case tx_recover then show ?thesis using recover_keeps keeps_step assms(2) by blast
next
  case tx_recover_claims then show ?thesis using recover_expired_keeps keeps_step by blast
next
  case (tx_fail_abandoned now k ev ch)
  then have "d' = fst (foldl (fail_abandoned_torrent now) (d, [], False) [k])" by simp
  then show ?thesis using fail_abandoned_keeps [OF platform_ids [OF assms(2)]] keeps_step by blast
next
  case tx_cancel_job then show ?thesis using job_cancellation_keeps keeps_step by blast
next
  case tx_schedule then show ?thesis using schedule_keeps keeps_step assms(2) by blast
next
  case tx_other then show ?thesis using keeps_frame keeps_step by blast
qed

lemma platform_step_library:
  assumes "platform_step s s'" "platform_inv s"
  shows "library_step (library_of (pf_db s)) (library_of (pf_db s'))"
proof -
  have inv: "safe_ok (pf_now s) (pf_db s)" using assms(2) by (simp add: platform_inv_def)
  note ok = safe_okD [OF inv]
  from assms(1) show ?thesis
  proof (cases rule: platform_step.cases)
    case (ps_transaction d')
    then show ?thesis using transaction_step ok(1,3) by simp
  next
    case (ps_begin_purge sn now d' res)
    then show ?thesis using begin_purge_keeps [OF ok(1)] keeps_step by fastforce
  next
    case (ps_finish_purge k n now d')
    then show ?thesis using finish_purge_step [OF ok(1)] by simp
  next
    case (ps_acquire i secs u k rq f m g kind now d' l)
    from ps_acquire(2) have "keeps (pf_db s) d'" by (rule acquire_lease_Inr) (simp add: keeps_frame)
    then show ?thesis using ps_acquire(1) keeps_step by simp
  next
    case (ps_renew secs i now d')
    then have "keeps (pf_db s) d'"
      by (auto simp: renew_lease_def Let_def put_lease_def intro!: keeps_frame split: option.splits if_splits)
    then show ?thesis using ps_renew(1) keeps_step by simp
  next
    case (ps_release i)
    have "keeps (pf_db s) (release_lease i (pf_db s))" by (rule keeps_frame) (simp_all add: release_lease_def)
    then show ?thesis using ps_release keeps_step by simp
  next
    case (ps_tick now')
    then show ?thesis by (simp add: lib_idle)
  qed
qed

definition empty_library :: "library \<Rightarrow> bool" where
  "empty_library l \<longleftrightarrow> lib_held l = {} \<and> lib_stored l = {}"

interpretation library_refinement: refinement_system platform_init platform_step platform_inv
    empty_library library_step "\<lambda>s. library_of (pf_db s)"
proof
  show "platform_init s \<Longrightarrow> empty_library (library_of (pf_db s))" for s
    by (simp add: platform_init_def empty_library_def library_of_eq held_of_eq rights_view_def content_view_def)
  show "platform_inv s \<Longrightarrow> platform_step s t \<Longrightarrow> library_step (library_of (pf_db s)) (library_of (pf_db t))" for s t
    by (rule platform_step_library)
qed

text \<open>Content that is held is stored: the library never purges what somebody holds.\<close>

definition library_sound :: "library \<Rightarrow> bool" where
  "library_sound l \<longleftrightarrow> snd ` lib_held l \<subseteq> lib_stored l"

interpretation library_system: invariant_system empty_library library_step library_sound
proof
  show "empty_library l \<Longrightarrow> library_sound l" for l by (simp add: empty_library_def library_sound_def)
  show "library_sound l \<Longrightarrow> library_step l l' \<Longrightarrow> library_sound l'" for l l'
    by (erule library_step.cases) (auto simp: library_sound_def)
qed

text \<open>
  C1: The platform refines the library: every state it reaches, through any interleaving of its
  transactions, purges and leases, is a state the abstract library reaches by granting contents,
  dropping rights and purging contents nobody holds; each further step is one such step; and content
  that somebody holds is stored.\<close>

theorem platform_refines_library:
  assumes "reach platform_init platform_step s"
  shows "reach empty_library library_step (library_of (pf_db s))
       \<and> (\<forall>s'. platform_step s s' \<longrightarrow> library_step (library_of (pf_db s)) (library_of (pf_db s')))
       \<and> (\<forall>(u, h)\<in>lib_held (library_of (pf_db s)). h \<in> lib_stored (library_of (pf_db s)))"
proof (intro conjI)
  show reach: "reach empty_library library_step (library_of (pf_db s))"
    by (rule library_refinement.reach_abs [OF assms])
  show "\<forall>s'. platform_step s s' \<longrightarrow> library_step (library_of (pf_db s)) (library_of (pf_db s'))"
    using library_refinement.refines_step [OF platform_system.reach_inv [OF assms]] by blast
  show "\<forall>(u, h)\<in>lib_held (library_of (pf_db s)). h \<in> lib_stored (library_of (pf_db s))"
    using library_system.reach_inv [OF reach] by (auto simp: library_sound_def)
qed

theorem platform_refines_library_witness:
  "reach empty_library library_step (library_of ex_created_db)
   \<and> (ex_user, ex_hash) \<in> lib_held (library_of ex_created_db) \<and> ex_hash \<in> lib_stored (library_of ex_created_db)"
proof -
  have held: "(ex_user, ex_hash) \<in> lib_held (library_of ex_created_db)" by code_simp
  then show ?thesis using platform_refines_library [OF ex_reach_created] by (auto simp: ex_platform_def)
qed

end
