(* ===== verification/Route_Effects.thy ===== *)
theory Route_Effects
  imports Sharing_Refinement
begin

text \<open>
  What the two routes that put work in the queue guarantee when they commit, over the abstract
  library and the job table.
\<close>

section \<open>Submission\<close>

lemma visible_count_cong: "db_requests d' = db_requests d \<Longrightarrow> visible_count u now d' = visible_count u now d"
  by (simp add: visible_count_def)

lemma enqueue_add_cases:
  assumes "enqueue_add job_id staged h n now res d = Inr (d', queued)"
  obtains (none) "\<not> mr_managed_torrent_created res" "\<not> mr_managed_torrent_reactivated res" "d' = d" "\<not> queued"
  | (queued) "mr_managed_torrent_created res \<or> mr_managed_torrent_reactivated res" "staged = Inr h" queued
      "d' = d\<lparr>db_jobs := db_jobs d
          @ [add_job job_id (t_id (mr_managed_torrent res)) (r_id (mr_request res)) (add_key res) n now]\<rparr>"
proof (cases "mr_managed_torrent_created res \<or> mr_managed_torrent_reactivated res")
  case True
  then have "staged = Inr h" "queued"
    "insert_job (add_job job_id (t_id (mr_managed_torrent res)) (r_id (mr_request res)) (add_key res) n now) d = Inr d'"
    using assms by (auto simp: enqueue_add_def rbind_Inr_iff require_Inr_iff)
  with True show thesis using queued insert_job_frame by blast
next
  case False
  then show thesis using assms none by (simp add: enqueue_add_def)
qed

lemma queued_add_job:
  "j_id (add_job i k r key n now) = i" "j_job_type (add_job i k r key n now) = ADD_TORRENT_JOB"
  "j_managed_torrent_id (add_job i k r key n now) = k" "j_state (add_job i k r key n now) = J_QUEUED"
  "j_available_at (add_job i k r key n now) = now" "j_max_attempts (add_job i k r key n now) = n"
  by (simp_all add: add_job_def)

text \<open>
  C7: A submission that commits grants exactly the submitted content to the user and stores it; a
  new right keeps the user within the limit of active torrents; exactly when the content was created
  or stored anew, an ADD job for it is inserted, queued and due at once, whose payload was staged;
  and no other job is inserted or changed, purge jobs apart.\<close>

theorem create_torrent_request_effect:
  assumes "platform_ok d"
    and "create_torrent_request ids staged u p max_active attempts n policy disk now d = Inr (d', res, queued)"
  shows "library_of d' = (library_of d)\<lparr>lib_held := insert (u, pt_info_hash p) (lib_held (library_of d)),
                                        lib_stored := insert (pt_info_hash p) (lib_stored (library_of d))\<rparr>
       \<and> (mr_request_created res \<longrightarrow> visible_count u now d' \<le> max_active)
       \<and> (queued \<longleftrightarrow> mr_managed_torrent_created res \<or> mr_managed_torrent_reactivated res)
       \<and> (queued \<longrightarrow> staged = Inr (pt_info_hash p)
            \<and> (\<exists>j\<in>set (db_jobs d'). j_id j = up_job_id ids \<and> j_job_type j = ADD_TORRENT_JOB
                 \<and> j_managed_torrent_id j = t_id (mr_managed_torrent res) \<and> j_state j = J_QUEUED
                 \<and> j_available_at j = now \<and> j_max_attempts j = attempts))
       \<and> map j_id (db_jobs d') = map j_id (db_jobs d) @ (if queued then [up_job_id ids] else [])
       \<and> filter (\<lambda>j. j_job_type j \<noteq> PURGE_TORRENT_JOB) (db_jobs d')
           = filter (\<lambda>j. j_job_type j \<noteq> PURGE_TORRENT_JOB) (db_jobs d)
             @ (if queued
                then [add_job (up_job_id ids) (t_id (mr_managed_torrent res)) (r_id (mr_request res))
                        (add_key res) attempts now]
                else [])"
proof -
  obtain d1 where c:
    "create_or_get_torrent_request (up_managed_id ids) (up_storage_key ids) (up_request_id ids) u
       (pt_info_hash p) (pt_name p) (pt_total_size p) (Aware now) (Some policy) (Some disk) n d = Inr (d1, res)"
    "mr_request_created res \<longrightarrow> visible_count u now d1 \<le> max_active"
    "enqueue_add (up_job_id ids) staged (pt_info_hash p) attempts now res d1 = Inr (d', queued)"
    by (rule create_route_cases [OF assms(2)])
  note grant = create_route_grants [OF assms]
  have jobs: "same_jobs_but_purges d d1" using create_frames [OF c(1)] by blast
  from c(3) show ?thesis
  proof (cases rule: enqueue_add_cases)
    case none
    then show ?thesis using grant c(2) jobs by (simp add: same_jobs_but_purges_def)
  next
    case queued
    then have "visible_count u now d' = visible_count u now d1" by (intro visible_count_cong) simp
    moreover note queued grant c(2) jobs [unfolded same_jobs_but_purges_def]
    ultimately show ?thesis by (simp add: queued_add_job ADD_TORRENT_JOB_def PURGE_TORRENT_JOB_def)
  qed
qed

theorem create_torrent_request_effect_witness:
  "(ex_user, ex_hash) \<in> lib_held (library_of ex_created_db) \<and> lib_held (library_of ex_new_db) = {}
   \<and> visible_count ex_user 10 ex_created_db \<le> 5
   \<and> (\<exists>j\<in>set (db_jobs ex_created_db). j_id j = 60 \<and> j_state j = J_QUEUED)"
proof -
  have res: "case ex_create of Inl _ \<Rightarrow> False | Inr (_, res, queued) \<Rightarrow> queued \<and> mr_request_created res" by code_simp
  obtain y where "ex_create = Inr (ex_created_db, y)"
    using not_islE [OF ex_create_run, of ex_new_db] unfolding ex_created_db_def by blast
  moreover obtain res queued where "y = (res, queued)" by (cases y)
  ultimately have run: "ex_create = Inr (ex_created_db, res, queued)" by simp
  have flags: "queued" "mr_request_created res" using res unfolding run by simp_all
  have "platform_init (ex_platform ex_new_db 10)" by code_simp
  from platform_init_inv [OF this] have "safe_ok 10 ex_new_db" by (simp add: platform_inv_def ex_platform_def)
  then have "platform_ok ex_new_db" by (rule safe_okD(1))
  note e = create_torrent_request_effect [OF this run]
  have ids: "pt_info_hash ex_parsed = ex_hash" "up_job_id ex_upload = 60"
    by (simp_all add: ex_parsed_def ex_upload_def)
  have "(ex_user, ex_hash) \<in> lib_held (library_of ex_created_db)"
    unfolding conjunct1 [OF e] ids by simp
  moreover have "lib_held (library_of ex_new_db) = {}" by code_simp
  moreover have "visible_count ex_user 10 ex_created_db \<le> 5" using e flags(2) by blast
  moreover have "\<exists>j\<in>set (db_jobs ex_created_db). j_id j = 60 \<and> j_state j = J_QUEUED"
    using e flags(1) unfolding ids by blast
  ultimately show ?thesis by blast
qed

section \<open>Retry\<close>

definition queued_add :: "uuid \<Rightarrow> managed_torrent \<Rightarrow> int \<Rightarrow> instant \<Rightarrow> torrent_job \<Rightarrow> bool" where
  "queued_add job_id t attempts now j \<longleftrightarrow>
     j_id j = job_id \<and> j_job_type j = ADD_TORRENT_JOB \<and> j_managed_torrent_id j = t_id t
     \<and> j_state j = J_QUEUED \<and> j_available_at j = now \<and> j_max_attempts j = attempts"

text \<open>
  C8: A retry that commits was asked for by a user with a waiting right on content in ERROR that did
  not change since it was examined, and the capacity holds the content again. Either the download
  only has to be observed again and the content is paused, with no new job, or its payload matches,
  no ADD job is active, and the content is pending in a new generation with a queued ADD job.\<close>

theorem retry_transaction_effect:
  assumes "retry_transaction job_id snap parsed request_id u attempts policy disk now d = Inr (d', t')"
  shows "\<exists>t r. t \<in> set (db_torrents d) \<and> t_id t = rs_managed_id snap \<and> t_state t = ERROR
       \<and> t_lifecycle_generation t = rs_lifecycle_generation snap
       \<and> r \<in> set (db_requests d) \<and> r_id r = request_id \<and> r_user_id r = u
       \<and> r_managed_torrent_id r = t_id t \<and> waiting_request_state (r_state r)
       \<and> committed_bytes d + t_total_size t \<le> managed_reservation_capacity disk policy
       \<and> t' \<in> set (db_torrents d') \<and> t_id t' = t_id t
       \<and> (if rs_resync_only snap
          then t_state t' = PAUSED \<and> t_lifecycle_generation t' = t_lifecycle_generation t \<and> db_jobs d' = db_jobs d
          else t_state t' = PENDING \<and> t_lifecycle_generation t' = t_lifecycle_generation t + 1
            \<and> (\<exists>p. parsed = Some p \<and> payload_matches t p)
            \<and> (\<forall>j\<in>set (db_jobs d). \<not> active_add_job (t_id t) j)
            \<and> (\<exists>j. queued_add job_id t attempts now j \<and> db_jobs d' = db_jobs d @ [j]))"
  using assms
proof (rule retry_cases)
  fix t r d1 l
  assume t: "find_row t_id (rs_managed_id snap) (db_torrents d) = Some t" "t_state t = ERROR"
    "t_lifecycle_generation t = rs_lifecycle_generation snap"
    and r: "find (\<lambda>r. waiting_right request_id u r \<and> r_managed_torrent_id r = rs_managed_id snap) (db_requests d) = Some r"
    and lock: "lock_storage_ledger now d = (d1, l)"
    and cap: "committed_bytes d1 + t_total_size t \<le> managed_reservation_capacity disk policy"
    and res: "if rs_resync_only snap then t' = resynced_torrent now t \<and> d' = put_torrent t' d1
     else \<exists>x. parsed = Some x \<and> requeue_add job_id x attempts now r t d1 = Inr (d', t')"
  have d1: "db_torrents d1 = db_torrents d" "db_jobs d1 = db_jobs d"
    using lock by (auto simp: lock_storage_ledger_def split: option.splits)
  have row: "t \<in> set (db_torrents d)" "t_id t = rs_managed_id snap" using find_row_SomeD [OF t(1)] by blast+
  have cap': "committed_bytes d + t_total_size t \<le> managed_reservation_capacity disk policy"
    using cap d1(1) by (simp add: committed_bytes_def)
  have right: "r \<in> set (db_requests d)" "waiting_right request_id u r" "r_managed_torrent_id r = t_id t"
    using find_SomeD [OF r] row(2) by simp_all
  have mem: "x \<in> set (db_torrents (put_torrent x d1))" if "t_id x = t_id t" for x
    using in_put_torrent [of t d1 x] row(1) d1(1) that by simp
  have "t' \<in> set (db_torrents d') \<and> t_id t' = t_id t \<and> (if rs_resync_only snap
      then t_state t' = PAUSED \<and> t_lifecycle_generation t' = t_lifecycle_generation t \<and> db_jobs d' = db_jobs d
      else t_state t' = PENDING \<and> t_lifecycle_generation t' = t_lifecycle_generation t + 1
        \<and> (\<exists>p. parsed = Some p \<and> payload_matches t p)
        \<and> (\<forall>j\<in>set (db_jobs d). \<not> active_add_job (t_id t) j)
        \<and> (\<exists>j. queued_add job_id t attempts now j \<and> db_jobs d' = db_jobs d @ [j]))"
  proof (cases "rs_resync_only snap")
    case True
    then show ?thesis using res mem [of "resynced_torrent now t"] d1(2) by (simp add: resynced_torrent_def)
  next
    case False
    let ?t = "retried_torrent now t"
    let ?j = "add_job job_id (t_id t) (r_id r) (retry_key ?t) attempts now"
    obtain x where x: "parsed = Some x" and run: "requeue_add job_id x attempts now r t d1 = Inr (d', t')"
      using res False by auto
    have c: "\<not> list_ex (active_add_job (t_id t)) (db_jobs d1)" "payload_matches t x" "t' = ?t"
      and ins: "insert_job ?j (put_torrent ?t d1) = Inr d'"
      using run by (auto simp: requeue_add_def rbind_Inr_iff require_Inr_iff Let_def split: sum.splits)
    have d': "d' = (put_torrent ?t d1)\<lparr>db_jobs := db_jobs (put_torrent ?t d1) @ [?j]\<rparr>"
      by (rule insert_job_frame [OF ins])
    have "queued_add job_id t attempts now ?j" by (simp add: queued_add_def add_job_def)
    moreover have "\<forall>j\<in>set (db_jobs d). \<not> active_add_job (t_id t) j" using c(1) d1(2) by (auto simp: list_ex_iff)
    moreover have "t_id ?t = t_id t" "t_state ?t = PENDING" "t_lifecycle_generation ?t = t_lifecycle_generation t + 1"
      by (simp_all add: retried_torrent_def)
    ultimately show ?thesis using False x c(2,3) mem [of ?t] d1(2) by (auto simp: d')
  qed
  moreover have "r_id r = request_id" "r_user_id r = u" "waiting_request_state (r_state r)"
    using right(2) by (simp_all add: waiting_right_def)
  ultimately show ?thesis using row t(2,3) right(1,3) cap' by blast
qed

definition ex_failed_db :: db where
  "ex_failed_db = ex_created_db\<lparr>
     db_torrents := map (\<lambda>t. t\<lparr>t_state := ERROR\<rparr>) (db_torrents ex_created_db),
     db_jobs := map (\<lambda>j. j\<lparr>j_state := J_FAILED\<rparr>) (db_jobs ex_created_db)\<rparr>"

definition ex_retry_snapshot :: retry_snapshot where
  "ex_retry_snapshot = \<lparr>rs_managed_id = 40, rs_storage_key = 41, rs_lifecycle_generation = 0, rs_resync_only = False\<rparr>"

abbreviation ex_retry where
  "ex_retry \<equiv> retry_transaction 62 ex_retry_snapshot (Some ex_parsed) 50 ex_user 3 ex_storage_policy ex_disk 30 ex_failed_db"

theorem retry_transaction_effect_witness:
  "case ex_retry of Inl _ \<Rightarrow> False | Inr (d', t') \<Rightarrow>
     t_state t' = PENDING \<and> (\<exists>t. t_state t = ERROR \<and> (\<exists>j. queued_add 62 t 3 30 j \<and> db_jobs d' = db_jobs ex_failed_db @ [j]))"
proof -
  have "isl ex_retry = False" by code_simp
  then obtain d' t' where run: "ex_retry = Inr (d', t')" by (cases ex_retry) auto
  have "\<not> rs_resync_only ex_retry_snapshot" by (simp add: ex_retry_snapshot_def)
  then show ?thesis using retry_transaction_effect [OF run] unfolding run by auto
qed

end
