(* ===== verification/Fair_Selection.thy ===== *)
theory Fair_Selection
  imports Weighted_Fair
begin

text \<open>
  Correctness of the selection loop of \<open>Weighted_Fair\<close>: every pass of the loop keeps the
  invariants and decreases a measure, so the loop ends without an exception, and its result is
  within capacity, free of duplicates, fair per user and work conserving.
\<close>

section \<open>The choice of the user\<close>

lemma find_in_set: "find P xs = Some x \<Longrightarrow> x \<in> set xs"
  by (induction xs) (auto split: if_splits)

lemma hd_sort_in_set: "xs \<noteq> [] \<Longrightarrow> hd (sort xs) \<in> set xs"
  by (metis hd_in_set set_empty set_sort)

lemma next_eligible_user_in:
  assumes "next_eligible_user eligible qs cur = Inr u"
  shows "u \<in> set eligible"
proof (cases cur)
  case None
  then show ?thesis
    using assms by (auto simp: next_eligible_user_def arg_min_list_in split: if_splits)
next
  case (Some v)
  then show ?thesis
    using assms find_in_set [of "\<lambda>u. v < u" "sort eligible"] hd_sort_in_set [of eligible]
    by (auto simp: next_eligible_user_def split: if_splits option.splits)
qed

lemma next_eligible_user_total:
  assumes "eligible \<noteq> []" "\<forall>u\<in>set eligible. queue_of qs u \<noteq> []"
  shows "\<exists>u. next_eligible_user eligible qs cur = Inr u"
  using assms by (auto simp: next_eligible_user_def split: option.splits)

lemma choose_user_eligible:
  assumes "choose_user env st = Inr (u, cur, idx)"
  shows "u \<in> set (eligible_users env st)"
  using assms
  by (auto simp: choose_user_def Let_def result_simps split: if_splits prod.splits
      dest: next_eligible_user_in)

lemma choose_user_total:
  assumes "eligible_users env st \<noteq> []"
    and "\<forall>u\<in>set (eligible_users env st). queue_of (s_queues st) u \<noteq> []"
  shows "\<exists>r. choose_user env st = Inr r"
proof -
  let ?e = "eligible_users env st"
  obtain idx cur where scan: "scan_fair env (s_counts st) (length (e_fair_order env))
      (s_fair_index st) (s_cursor st) = (idx, cur)" by fastforce
  obtain u where u: "next_eligible_user ?e (s_queues st) cur = Inr u"
    using next_eligible_user_total [OF assms] by blast
  obtain v where v: "next_eligible_user ?e (s_queues st) (s_cursor st) = Inr v"
    using next_eligible_user_total [OF assms] by blast
  show ?thesis by (simp add: choose_user_def Let_def scan u v)
qed

lemma eligible_users_iff:
  assumes "distinct (map fst (s_queues st))"
  shows "u \<in> set (eligible_users env st) \<longleftrightarrow> queue_of (s_queues st) u \<noteq> []
    \<and> dget (s_counts st) u 0 < max_active_per_user (e_policy env)"
proof
  assume "u \<in> set (eligible_users env st)"
  then obtain q where "(u, q) \<in> set (s_queues st)" "q \<noteq> []"
    "dget (s_counts st) u 0 < max_active_per_user (e_policy env)"
    by (auto simp: eligible_users_def)
  then show "queue_of (s_queues st) u \<noteq> []
      \<and> dget (s_counts st) u 0 < max_active_per_user (e_policy env)"
    using queue_of_in [OF assms] by blast
next
  assume r: "queue_of (s_queues st) u \<noteq> []
      \<and> dget (s_counts st) u 0 < max_active_per_user (e_policy env)"
  then have "(u, queue_of (s_queues st) u) \<in> set (s_queues st)"
    using queue_of_mem [OF assms] by blast
  with r show "u \<in> set (eligible_users env st)"
    unfolding eligible_users_def by (auto intro!: image_eqI [where x = "(u, queue_of (s_queues st) u)"])
qed

section \<open>One pass of the loop\<close>

definition sched_inv ::
  "sched_env \<Rightarrow> scheduler_candidate list \<Rightarrow> uuid set \<Rightarrow> (uuid \<rightharpoonup> int) \<Rightarrow> nat \<Rightarrow> (uuid \<Rightarrow> int) \<Rightarrow> int
     \<Rightarrow> sched \<Rightarrow> bool" where
  "sched_inv env cs keys act n d0 r0 st \<longleftrightarrow>
     queue_inv env cs keys st \<and> count_inv env act n st \<and> deficit_inv env d0 st \<and> r0 \<le> s_rounds st"

definition env_ok :: "sched_env \<Rightarrow> uuid set \<Rightarrow> bool" where
  "env_ok env keys \<longleftrightarrow> valid_policy (e_policy env) \<and> finite keys
     \<and> (\<forall>u\<in>keys. \<exists>w\<ge>1. e_weights env u = Some w)"

lemma serve_rounds [simp]: "s_rounds (serve env u n st) = s_rounds st"
  by (induction env u n st rule: serve.induct)
    (auto simp: Let_def take_torrent_def split: list.splits)

lemma serve_progress:
  "serve env u n st = st\<lparr>s_slots := n\<rparr> \<or> s_slots (serve env u n st) < n"
proof (induction env u n st rule: serve.induct)
  case (2 env u n st)
  show ?case
  proof (cases "queue_of (s_queues st) u")
    case (Cons c q)
    let ?d = "decision (e_policy env) c (e_now env) u"
    show ?thesis
      using "2.IH" [OF Cons refl _ refl] Cons
      by (cases "dget (s_deficits st) u 0 < charged_cost ?d") (auto simp: Let_def)
  qed simp
qed simp

lemma serve_idle_cost:
  assumes "serve env u n st = st\<lparr>s_slots := n\<rparr>" "0 < n" "queue_of (s_queues st) u = c # q"
  shows "dget (s_deficits st) u 0 < charged_cost (decision (e_policy env) c (e_now env) u)"
proof (rule ccontr)
  obtain k where k: "n = Suc k" using assms(2) by (cases n) auto
  let ?d = "decision (e_policy env) c (e_now env) u"
  assume "\<not> ?thesis"
  then have "s_slots (serve env u n st) \<le> k"
    using assms(3) serve_progress [of env u k "take_torrent u ?d st"] by (auto simp: k Let_def)
  with assms(1) k show False by simp
qed

definition hunger :: "uuid set \<Rightarrow> (uuid \<rightharpoonup> int) \<Rightarrow> nat" where
  "hunger keys m = (\<Sum>u\<in>keys. 4 - min 4 (nat (dget m u 0)))"

definition sched_measure :: "uuid set \<Rightarrow> sched \<Rightarrow> nat" where
  "sched_measure keys st = s_slots st * Suc (4 * card keys) + hunger keys (s_deficits st)"

lemma hunger_bound: "hunger keys m \<le> 4 * card keys"
  using sum_bounded_above [of keys "\<lambda>u. 4 - min 4 (nat (dget m u 0))" 4]
  by (simp add: hunger_def mult.commute)

lemma measure_slots_less:
  assumes "s_slots st' < s_slots st"
  shows "sched_measure keys st' < sched_measure keys st"
proof -
  have "Suc (s_slots st') * Suc (4 * card keys) \<le> s_slots st * Suc (4 * card keys)"
    using assms by (intro mult_le_mono1) simp
  then show ?thesis
    using hunger_bound [of keys "s_deficits st'"] by (simp add: sched_measure_def)
qed

lemma hunger_less:
  assumes "finite keys" "u \<in> keys" "0 \<le> dget m u 0" "dget m u 0 < 4" "dget m u 0 < v"
  shows "hunger keys (m(u \<mapsto> v)) < hunger keys m"
  unfolding hunger_def
  by (rule sum_strict_mono_ex1) (use assms in \<open>auto simp: min_def\<close>)

lemma credit_deficit_inv:
  assumes "valid_policy (e_policy env)" "1 \<le> w" "deficit_inv env d0 st"
  shows "deficit_inv env d0 (credit env u w st)"
proof -
  have "0 \<le> deficit_quantum (e_policy env) * w" "0 \<le> deficit_cap (e_policy env)"
    using valid_policyD(1) [OF assms(1)] assms(2) by (auto simp: deficit_cap_def cost_defs)
  then show ?thesis
    using assms(3) by (auto simp: deficit_inv_def credit_def min_def)
qed

lemma credit_raises:
  assumes "valid_policy (e_policy env)" "1 \<le> w" "0 \<le> dget (s_deficits st) u 0"
    and "dget (s_deficits (credit env u w st)) u 0 < 4"
  shows "dget (s_deficits st) u 0 < dget (s_deficits (credit env u w st)) u 0"
proof -
  have "1 \<le> deficit_quantum (e_policy env) * w"
    using valid_policyD(1) [OF assms(1)] assms(2) mult_mono [of 1 "deficit_quantum (e_policy env)" 1 w]
    by simp
  moreover have "32 \<le> deficit_cap (e_policy env)" by (simp add: deficit_cap_def cost_defs)
  ultimately show ?thesis using assms(3,4) by (auto simp: credit_def min_def split: if_splits)
qed

lemma credit_other_inv:
  "queue_inv env cs keys (credit env u w (st\<lparr>s_cursor := cur, s_fair_index := idx\<rparr>)) =
     queue_inv env cs keys st"
  "count_inv env act n ((credit env u w (st\<lparr>s_cursor := cur, s_fair_index := idx\<rparr>))
     \<lparr>s_slots := s_slots st\<rparr>) = count_inv env act n st"
  "deficit_inv env d0 (st\<lparr>s_cursor := cur, s_fair_index := idx\<rparr>) = deficit_inv env d0 st"
  by (simp_all add: queue_inv_def count_inv_def deficit_inv_def credit_def)

theorem sched_step_ok:
  assumes env: "env_ok env keys" and inv: "sched_inv env cs keys act n d0 r0 st"
    and go: "sched_continue env st"
  shows "\<exists>st'. sched_step env st = Inr st' \<and> sched_inv env cs keys act n d0 r0 st'
    \<and> sched_measure keys st' < sched_measure keys st"
proof -
  have vp: "valid_policy (e_policy env)" and fin: "finite keys"
    using env by (auto simp: env_ok_def)
  have q: "queue_inv env cs keys st" and c: "count_inv env act n st"
    and d: "deficit_inv env d0 st" and r: "r0 \<le> s_rounds st"
    using inv by (auto simp: sched_inv_def)
  have dist: "distinct (map fst (s_queues st))" and keys: "fst ` set (s_queues st) = keys"
    using q by (auto simp: queue_inv_def)
  obtain u cur idx where ch: "choose_user env st = Inr (u, cur, idx)"
    using choose_user_total [of env st] go eligible_users_iff [OF dist]
    by (auto simp: sched_continue_def)
  have u: "queue_of (s_queues st) u \<noteq> []"
    and cnt: "dget (s_counts st) u 0 < max_active_per_user (e_policy env)"
    using choose_user_eligible [OF ch] eligible_users_iff [OF dist] by auto
  have "u \<in> keys" using queue_of_mem [OF dist u] keys by force
  then obtain w where w: "e_weights env u = Some w" "1 \<le> w"
    using env by (auto simp: env_ok_def)
  define st1 where "st1 = credit env u w (st\<lparr>s_cursor := cur, s_fair_index := idx\<rparr>)"
  define st2 where "st2 = serve env u (s_slots st) st1"
  have step: "sched_step env st = Inr st2"
    by (simp add: sched_step_def ch w st1_def st2_def)
  have d1: "deficit_inv env d0 st1"
    unfolding st1_def by (rule credit_deficit_inv [OF vp w(2)]) (simp add: credit_other_inv d)
  have inv2: "queue_inv env cs keys st2 \<and> count_inv env act n st2 \<and> deficit_inv env d0 st2"
    unfolding st2_def
  proof (rule serve_inv [OF vp _ _ d1])
    show "queue_inv env cs keys st1" "count_inv env act n (st1\<lparr>s_slots := s_slots st\<rparr>)"
      using q c by (simp_all add: st1_def credit_other_inv)
    show "dget (s_counts st1) u 0 < max_active_per_user (e_policy env)"
      using cnt by (simp add: st1_def credit_def)
  qed
  have "r0 \<le> s_rounds st2" using r by (simp add: st2_def st1_def credit_def)
  moreover have "sched_measure keys st2 < sched_measure keys st"
  proof (cases "s_slots st2 < s_slots st")
    case False
    then have idle: "st2 = st1\<lparr>s_slots := s_slots st\<rparr>"
      using serve_progress [of env u "s_slots st" st1] by (auto simp: st2_def)
    obtain x xs where x: "queue_of (s_queues st1) u = x # xs"
      using u by (cases "queue_of (s_queues st) u") (auto simp: st1_def credit_def)
    have "dget (s_deficits st1) u 0 < 4"
      using serve_idle_cost [OF idle [unfolded st2_def] _ x] go charged_cost_bounds(2) [OF vp]
      by (fastforce simp: sched_continue_def intro: less_le_trans)
    then have less: "dget (s_deficits st) u 0 < dget (s_deficits st1) u 0"
      using credit_raises [OF vp w(2), of "st\<lparr>s_cursor := cur, s_fair_index := idx\<rparr>" u] d
      by (simp add: st1_def deficit_inv_def)
    have "s_deficits st1 = (s_deficits st)(u \<mapsto> dget (s_deficits st1) u 0)"
      by (simp add: st1_def credit_def)
    then have "hunger keys (s_deficits st1) < hunger keys (s_deficits st)"
      using hunger_less [OF fin \<open>u \<in> keys\<close>, of "s_deficits st" "dget (s_deficits st1) u 0"]
        less \<open>dget (s_deficits st1) u 0 < 4\<close> d by (simp add: deficit_inv_def)
    then show ?thesis using idle by (simp add: sched_measure_def)
  qed (rule measure_slots_less)
  ultimately show ?thesis using step inv2 by (auto simp: sched_inv_def)
qed

section \<open>The loop\<close>

theorem sched_loop_ok:
  assumes env: "env_ok env keys" and inv: "sched_inv env cs keys act n d0 r0 st"
  shows "\<exists>st'. sched_loop env st = Some (Inr st') \<and> sched_inv env cs keys act n d0 r0 st'
    \<and> \<not> sched_continue env st'"
proof -
  let ?b = "\<lambda>r. case r of Inl _ \<Rightarrow> False | Inr s \<Rightarrow> sched_continue env s"
  let ?c = "\<lambda>r. rbind r (sched_step env)"
  let ?P = "\<lambda>r. \<exists>s. r = Inr s \<and> sched_inv env cs keys act n d0 r0 s"
  let ?f = "\<lambda>r. case r of Inl _ \<Rightarrow> 0 | Inr s \<Rightarrow> sched_measure keys s"
  have step: "?P (?c r) \<and> ?f (?c r) < ?f r" if "?P r" "?b r" for r
    using that sched_step_ok [OF env] by force
  have P0: "?P (Inr st)" using inv by blast
  obtain r where r: "while_option ?b ?c (Inr st) = Some r"
    using measure_while_option_Some [of ?P ?b ?c ?f "Inr st"] step P0 by blast
  have "?P r"
    using while_option_rule [where P = ?P, OF _ r P0] step by blast
  moreover have "\<not> ?b r" using while_option_stop [OF r] .
  ultimately show ?thesis using r by (auto simp: sched_loop_def)
qed

section \<open>From admission to the loop\<close>

definition valid_input :: "scheduler_candidate list \<Rightarrow> selection_input \<Rightarrow> bool" where
  "valid_input cs inp \<longleftrightarrow> valid_policy (in_policy inp) \<and> list_all valid_candidate cs"

abbreviation active_of :: "selection_input \<Rightarrow> uuid \<Rightarrow> int" where
  "active_of inp u \<equiv> dget (map_of (in_active_by_user inp)) u 0"

abbreviation free_slots :: "selection_input \<Rightarrow> nat" where
  "free_slots inp \<equiv> nat (max_active_global (in_policy inp) - in_active_global inp)"

definition initial_credit :: "selection_input \<Rightarrow> uuid \<Rightarrow> int" where
  "initial_credit inp u =
     dget (map_of (filter (\<lambda>(u, v). 0 \<le> v) (ledger_deficits (previous_ledger inp)))) u 0"

abbreviation loop_inv ::
  "scheduler_candidate list \<Rightarrow> selection_input \<Rightarrow> admission \<Rightarrow> sched \<Rightarrow> bool" where
  "loop_inv cs inp adm \<equiv>
     sched_inv (selection_env inp adm) cs (fst ` set (adm_queues adm))
       (map_of (in_active_by_user inp)) (free_slots inp) (initial_credit inp)
       (ledger_rounds (previous_ledger inp))"

lemma admit_InrD:
  assumes "admit cs inp = Inr adm"
  shows "distinct (map torrent_id cs)" "list_all (\<lambda>(u, n). 0 \<le> n) (in_active_by_user inp)"
    "admit_candidates (in_policy inp) (map_of (in_active_by_user inp)) cs empty_admission = Inr adm"
    "tz_aware (in_now inp)"
  using assms by (auto simp: admit_def selection_checks_def result_simps utc_def split: if_splits)

lemma admitted:
  assumes "admit cs inp = Inr adm"
  shows "queue_of (adm_queues adm) v =
      admitted_queue (in_policy inp) (map_of (in_active_by_user inp)) cs v"
    and "set (active_users adm) = (\<Union>c\<in>set cs. set (beneficiaries c))"
    and "stalled_ids adm = map torrent_id (filter stalled cs)"
    and "queue_keys (adm_queues adm)"
    and "weights adm v = Some w \<Longrightarrow> \<exists>c\<in>set cs. w = weight_for c v"
    and "c \<in> set cs \<Longrightarrow> v \<in> set (beneficiaries c) \<Longrightarrow> weights adm v \<noteq> None"
    and "distinct (active_users adm)"
  using admit_candidates_Inr [OF admit_InrD(3) [OF assms]]
  by (simp_all add: empty_admission_def queue_of_def queue_keys_def del: set_beneficiaries) blast

lemma admitted_key:
  assumes "admit cs inp = Inr adm" "(u, q) \<in> set (adm_queues adm)"
  shows "q = admitted_queue (in_policy inp) (map_of (in_active_by_user inp)) cs u"
    and "active_of inp u < max_active_per_user (in_policy inp)"
    and "set q = waiting cs [] u" and "q \<noteq> []"
proof -
  have k: "distinct (map fst (adm_queues adm))" "q \<noteq> []"
    using admitted(4) [OF assms(1)] assms(2) by (auto simp: queue_keys_def)
  show q: "q = admitted_queue (in_policy inp) (map_of (in_active_by_user inp)) cs u"
    using queue_of_in [OF k(1) assms(2)] admitted(1) [OF assms(1)] by simp
  show a: "active_of inp u < max_active_per_user (in_policy inp)"
    using q k(2) by (auto simp: admitted_queue_def admits_def filter_empty_conv)
  show "set q = waiting cs [] u"
    using a by (auto simp: q admitted_queue_def admits_def waiting_def)
  show "q \<noteq> []" by (rule k(2))
qed

lemma initial_env_ok:
  assumes "valid_input cs inp" "admit cs inp = Inr adm"
  shows "env_ok (selection_env inp adm) (fst ` set (adm_queues adm))"
proof -
  have "\<exists>w\<ge>1. weights adm u = Some w" if key: "(u, q) \<in> set (adm_queues adm)" for u q
  proof -
    obtain c where "c \<in> set cs" "u \<in> set (beneficiaries c)"
      using admitted_key(3,4) [OF assms(2) key]
      by (cases q) (auto simp: waiting_def simp del: set_beneficiaries)
    then obtain w where w: "weights adm u = Some w"
      using admitted(6) [OF assms(2)] by blast
    then obtain c' where "c' \<in> set cs" "w = weight_for c' u"
      using admitted(5) [OF assms(2)] by blast
    then show ?thesis
      using w weight_for_bounds(1) assms(1) by (auto simp: valid_input_def list_all_iff)
  qed
  then show ?thesis
    using assms(1) by (force simp: env_ok_def selection_env_def valid_input_def)
qed

lemma sort_queues_simps [simp]:
  "map fst (sort_queues qs) = map fst qs" "fst ` set (sort_queues qs) = fst ` set qs"
  "(u, q) \<in> set (sort_queues qs) \<longleftrightarrow> (\<exists>q'. (u, q') \<in> set qs \<and> q = sort_key candidate_order q')"
  by (induction qs) (auto simp: sort_queues_def)

lemma initial_loop_inv:
  assumes "admit cs inp = Inr adm"
  shows "loop_inv cs inp adm (initial_sched inp adm)"
proof -
  have "0 \<le> initial_credit inp u" for u
    by (auto simp: initial_credit_def dget_def split: option.splits dest!: map_of_SomeD)
  moreover have "distinct (map fst (adm_queues adm))"
    using admitted(4) [OF assms] by (simp add: queue_keys_def)
  ultimately show ?thesis
    using admitted_key(3) [OF assms]
    by (auto simp: sched_inv_def initial_sched_def Let_def queue_inv_def count_inv_def
        deficit_inv_def initial_credit_def [symmetric] taken_by_def selection_env_def)
qed

text \<open>The run of a selection: the admission, and the final state with its invariant.\<close>

lemma select_torrents_run:
  assumes "valid_input cs inp" "admit cs inp = Inr adm"
  shows "\<exists>st. select_torrents cs inp = Some (Inr (finish_selection adm st))
    \<and> loop_inv cs inp adm st \<and> \<not> sched_continue (selection_env inp adm) st"
  using sched_loop_ok [OF initial_env_ok [OF assms] initial_loop_inv [OF assms(2)]] assms(2)
  by (auto simp: select_torrents_def)

lemma select_torrents_InrE:
  assumes "valid_input cs inp" "select_torrents cs inp = Some (Inr res)"
  obtains adm st where "admit cs inp = Inr adm" "res = finish_selection adm st"
    "loop_inv cs inp adm st" "\<not> sched_continue (selection_env inp adm) st"
proof -
  obtain adm where adm: "admit cs inp = Inr adm"
    using assms(2) by (cases "admit cs inp") (auto simp: select_torrents_def)
  show ?thesis
    using select_torrents_run [OF assms(1) adm] assms(2) that [OF adm] by auto
qed

lemma selection_bounds:
  assumes "valid_input cs inp" "select_torrents cs inp = Some (Inr res)"
  shows "length (selected res) + capacity_remaining res = free_slots inp"
    and "distinct (selected_ids (selected res))"
    and "d \<in> set (selected res) \<Longrightarrow> d_candidate d \<in> set cs \<and> \<not> stalled (d_candidate d)
          \<and> beneficiary_user_id d \<in> set (beneficiaries (d_candidate d))"
    and "0 < taken_by u (selected res) \<Longrightarrow>
      active_of inp u + int (taken_by u (selected res)) \<le> max_active_per_user (in_policy inp)"
proof -
  obtain adm st where "res = finish_selection adm st" "loop_inv cs inp adm st"
    using select_torrents_InrE [OF assms] .
  then show "length (selected res) + capacity_remaining res = free_slots inp"
    and "distinct (selected_ids (selected res))"
    and "d \<in> set (selected res) \<Longrightarrow> d_candidate d \<in> set cs \<and> \<not> stalled (d_candidate d)
          \<and> beneficiary_user_id d \<in> set (beneficiaries (d_candidate d))"
    and "0 < taken_by u (selected res) \<Longrightarrow>
      active_of inp u + int (taken_by u (selected res)) \<le> max_active_per_user (in_policy inp)"
    by (auto simp: finish_selection_def sched_inv_def queue_inv_def count_inv_def selection_env_def)
qed

section \<open>Properties of the selection\<close>

text \<open>
  C13: the selection always ends. For a validated policy and validated candidates the loop of
  \<open>select_torrents\<close> neither runs forever nor raises: the only exceptions are those of the checks
  made before the loop.
\<close>

theorem select_torrents_total:
  assumes "valid_input cs inp"
  shows "case admit cs inp of
      Inl e \<Rightarrow> select_torrents cs inp = Some (Inl e)
    | Inr adm \<Rightarrow> \<exists>res. select_torrents cs inp = Some (Inr res)"
  using select_torrents_run [OF assms]
  by (auto simp: select_torrents_def split: sum.splits)

text \<open>
  C14: the selection respects capacity and selects each physical torrent at most once. The
  selected torrents are candidates, none of them stalled, each charged to one of its
  beneficiaries, and they use exactly the slots that are no longer reported as remaining.
\<close>

theorem select_torrents_capacity:
  assumes "valid_input cs inp" "select_torrents cs inp = Some (Inr res)"
  shows "length (selected res) + capacity_remaining res = free_slots inp
    \<and> distinct (selected_ids (selected res))
    \<and> (\<forall>d. d \<in> set (selected res) \<longrightarrow> d_candidate d \<in> set cs \<and> \<not> stalled (d_candidate d)
          \<and> beneficiary_user_id d \<in> set (beneficiaries (d_candidate d)))"
  using selection_bounds [OF assms] by blast

text \<open>
  C15: no user is pushed over the per-user limit. A user who is charged for at least one torrent
  ends with at most \<open>max_active_per_user\<close> active torrents, the ones active before included.
\<close>

theorem select_torrents_user_limit:
  assumes "valid_input cs inp" "select_torrents cs inp = Some (Inr res)"
    and "0 < taken_by u (selected res)"
  shows "active_of inp u + int (taken_by u (selected res)) \<le> max_active_per_user (in_policy inp)"
  using selection_bounds(4) [OF assms] .

text \<open>
  C16: the selection is work conserving. When slots remain, every candidate that is neither
  stalled nor selected has all its beneficiaries at the per-user limit.
\<close>

theorem select_torrents_work_conserving:
  assumes "valid_input cs inp" "select_torrents cs inp = Some (Inr res)"
    and "0 < capacity_remaining res" and "c \<in> set cs" "\<not> stalled c"
    and "torrent_id c \<notin> set (selected_ids (selected res))" "u \<in> set (beneficiaries c)"
  shows "max_active_per_user (in_policy inp) \<le> active_of inp u + int (taken_by u (selected res))"
proof (rule ccontr)
  assume less: "\<not> ?thesis"
  obtain adm st where adm: "admit cs inp = Inr adm" and res: "res = finish_selection adm st"
    and inv: "loop_inv cs inp adm st" and stop: "\<not> sched_continue (selection_env inp adm) st"
    using select_torrents_InrE [OF assms(1,2)] .
  have q: "queue_inv (selection_env inp adm) cs (fst ` set (adm_queues adm)) st"
    and cnt: "dget (s_counts st) u 0 = active_of inp u + int (taken_by u (selected res))"
    using inv by (auto simp: sched_inv_def count_inv_def res finish_selection_def)
  have "active_of inp u < max_active_per_user (in_policy inp)" using less by simp
  then have "c \<in> set (queue_of (adm_queues adm) u)"
    using assms(4,5,7) by (simp add: admitted(1) [OF adm] admitted_queue_def admits_def
        del: set_beneficiaries)
  then have "u \<in> fst ` set (adm_queues adm)"
    using queue_of_mem [of "adm_queues adm" u] admitted(4) [OF adm]
    by (force simp: queue_keys_def)
  then obtain qu where qu: "(u, qu) \<in> set (s_queues st)"
    by (auto simp flip: queue_invD(2) [OF q])
  have "c \<in> set qu"
    using assms(4-7) by (simp add: queue_invD(3) [OF q qu] waiting_def res finish_selection_def
        del: set_beneficiaries)
  then have "queue_of (s_queues st) u \<noteq> []"
    using queue_of_in [OF queue_invD(1) [OF q] qu] by auto
  then have "u \<in> set (eligible_users (selection_env inp adm) st)"
    using eligible_users_iff [OF queue_invD(1) [OF q]] cnt less by (simp add: selection_env_def)
  moreover have "0 < s_slots st" using assms(3) by (simp add: res finish_selection_def)
  ultimately show False using stop qu by (auto simp: sched_continue_def)
qed

text \<open>
  C17: torrents of one user are admitted oldest first. A candidate of a user that is left waiting
  was queued no earlier than any torrent that was selected on that user's account.
\<close>

theorem select_torrents_fifo:
  assumes "valid_input cs inp" "select_torrents cs inp = Some (Inr res)"
    and "d \<in> set (selected res)" and "c \<in> set cs" "\<not> stalled c"
    and "torrent_id c \<notin> set (selected_ids (selected res))"
    and "beneficiary_user_id d \<in> set (beneficiaries c)"
  shows "candidate_order (d_candidate d) \<le> candidate_order c"
proof -
  obtain adm st where "res = finish_selection adm st" "loop_inv cs inp adm st"
    using select_torrents_InrE [OF assms(1,2)] .
  then show ?thesis
    using assms(3-7)
    by (auto simp: finish_selection_def sched_inv_def queue_inv_def waiting_def
        simp del: set_beneficiaries)
qed

lemma in_next_deficits:
  "(u, v) \<in> set (next_deficits users f) \<longleftrightarrow> u \<in> set users \<and> v = f u \<and> 0 < v"
  by (auto simp: next_deficits_def)

lemma map_fst_next_deficits: "distinct users \<Longrightarrow> distinct (map fst (next_deficits users f))"
  by (simp add: next_deficits_def comp_def)

text \<open>
  C18: the ledger stays well formed and its credit bounded. The new ledger passes the check of its
  constructor, counts no fewer rounds than before, holds one positive credit per user at most,
  only for users with a candidate, and no credit above the cap unless it was above it before.
\<close>

theorem select_torrents_ledger:
  assumes "valid_input cs inp" "select_torrents cs inp = Some (Inr res)"
    and "ledger_post_init (previous_ledger inp) = Inr l"
  shows "ledger_post_init (result_ledger res) = Inr (result_ledger res)
    \<and> ledger_rounds (previous_ledger inp) \<le> ledger_rounds (result_ledger res)
    \<and> distinct (map fst (ledger_deficits (result_ledger res)))
    \<and> (\<forall>u v. (u, v) \<in> set (ledger_deficits (result_ledger res)) \<longrightarrow>
          0 < v \<and> v \<le> max (initial_credit inp u) (deficit_cap (in_policy inp))
          \<and> (\<exists>c\<in>set cs. u \<in> set (beneficiaries c)))"
proof -
  obtain adm st where adm: "admit cs inp = Inr adm" and res: "res = finish_selection adm st"
    and inv: "loop_inv cs inp adm st"
    using select_torrents_InrE [OF assms(1,2)] .
  have d: "dget (s_deficits st) u 0 \<le> max (initial_credit inp u) (deficit_cap (in_policy inp))" for u
    using inv by (auto simp: sched_inv_def deficit_inv_def selection_env_def)
  have r: "0 \<le> ledger_rounds (previous_ledger inp)"
    "ledger_rounds (previous_ledger inp) \<le> s_rounds st"
    using assms(3) inv by (auto simp: ledger_post_init_def result_simps sched_inv_def)
  then have "ledger_post_init (result_ledger res) = Inr (result_ledger res)"
    by (auto simp: res finish_selection_def ledger_post_init_def result_simps list_all_iff
        in_next_deficits)
  then show ?thesis
    using r(2) d map_fst_next_deficits [OF admitted(7) [OF adm]] admitted(2) [OF adm]
    by (simp add: res finish_selection_def in_next_deficits del: set_beneficiaries)
qed

section \<open>Selection with continuity\<close>

text \<open>
  without retained torrents, \<open>select_with_continuity\<close> is exactly \<open>select_torrents\<close> run
  with no per-user counts, as its documentation says.
\<close>

theorem select_with_continuity_empty:
  "select_with_continuity cs [] inp = select_torrents cs (inp\<lparr>in_active_by_user := []\<rparr>)"
proof -
  have "(\<lambda>r. rbind r (\<lambda>res. Inr res)) = (id :: py_error + scheduler_result \<Rightarrow> _)"
    by (rule ext) (case_tac r; simp)
  then show ?thesis
    by (simp add: select_with_continuity_def kept_candidates_def option.map_id)
qed

definition kept_count :: "uuid \<Rightarrow> scheduler_candidate list \<Rightarrow> int" where
  "kept_count u kept = int (length (filter (\<lambda>c. user_id c = u) kept))"

lemma keep_retained_ConsE:
  assumes "by_id t = Some c" "\<not> stalled c" "n \<noteq> 0"
    "dget (map_of per) (user_id c) 0 < max_active_per_user p"
    and "keep_retained by_id p (t # ts) n per = (kept, pu)"
  obtains ks where "kept = c # ks" "keep_retained by_id p ts (n - 1)
       (AList.update (user_id c) (dget (map_of per) (user_id c) 0 + 1) per) = (ks, pu)"
proof -
  obtain ks pu' where k: "keep_retained by_id p ts (n - 1)
       (AList.update (user_id c) (dget (map_of per) (user_id c) 0 + 1) per) = (ks, pu')"
    by (meson surj_pair)
  then show ?thesis using assms that [of ks] by simp
qed

lemma keep_retained_skip:
  assumes "\<not> (\<exists>c. by_id t = Some c \<and> \<not> stalled c \<and> n \<noteq> 0
      \<and> dget (map_of per) (user_id c) 0 < max_active_per_user p)"
  shows "keep_retained by_id p (t # ts) n per = keep_retained by_id p ts n per"
  using assms by (cases "by_id t") auto

lemma keep_retained_shape:
  assumes "keep_retained by_id p ts n per = (kept, pu)"
    and ids: "\<And>t c. by_id t = Some c \<Longrightarrow> torrent_id c = t"
  shows "length kept \<le> n \<and> (distinct ts \<longrightarrow> distinct (map torrent_id kept))
    \<and> (\<forall>c\<in>set kept. \<not> stalled c \<and> torrent_id c \<in> set ts \<and> by_id (torrent_id c) = Some c)"
  using assms(1)
proof (induction ts arbitrary: n per kept)
  case (Cons t ts)
  show ?case
  proof (cases "\<exists>c. by_id t = Some c \<and> \<not> stalled c \<and> n \<noteq> 0
      \<and> dget (map_of per) (user_id c) 0 < max_active_per_user p")
    case True
    then obtain c where c: "by_id t = Some c" "\<not> stalled c" "n \<noteq> 0"
      "dget (map_of per) (user_id c) 0 < max_active_per_user p" by blast
    obtain ks where kept: "kept = c # ks" and k: "keep_retained by_id p ts (n - 1)
        (AList.update (user_id c) (dget (map_of per) (user_id c) 0 + 1) per) = (ks, pu)"
      using keep_retained_ConsE [where by_id = by_id and t = t, OF c Cons.prems] .
    show ?thesis
      using Cons.IH [OF k] c by (simp add: kept ids [OF c(1)]) force
  next
    case False
    then have "keep_retained by_id p ts n per = (kept, pu)"
      using Cons.prems keep_retained_skip [where by_id = by_id and t = t, OF False] by simp
    from Cons.IH [OF this] show ?thesis by auto
  qed
qed simp

lemma keep_retained_counts:
  assumes "keep_retained by_id p ts n per = (kept, pu)"
  shows "dget (map_of pu) u 0 = dget (map_of per) u 0 + kept_count u kept
    \<and> (0 < kept_count u kept \<longrightarrow> dget (map_of pu) u 0 \<le> max_active_per_user p)"
  using assms
proof (induction ts arbitrary: n per kept)
  case (Cons t ts)
  show ?case
  proof (cases "\<exists>c. by_id t = Some c \<and> \<not> stalled c \<and> n \<noteq> 0
      \<and> dget (map_of per) (user_id c) 0 < max_active_per_user p")
    case True
    then obtain c where c: "by_id t = Some c" "\<not> stalled c" "n \<noteq> 0"
      "dget (map_of per) (user_id c) 0 < max_active_per_user p" by blast
    obtain ks where kept: "kept = c # ks" and k: "keep_retained by_id p ts (n - 1)
        (AList.update (user_id c) (dget (map_of per) (user_id c) 0 + 1) per) = (ks, pu)"
      using keep_retained_ConsE [where by_id = by_id and t = t, OF c Cons.prems] .
    have "0 \<le> kept_count u ks" by (simp add: kept_count_def)
    then show ?thesis
      using Cons.IH [OF k] c
      by (cases "0 < kept_count u ks") (auto simp: kept kept_count_def)
  next
    case False
    then have "keep_retained by_id p ts n per = (kept, pu)"
      using Cons.prems keep_retained_skip [where by_id = by_id and t = t, OF False] by simp
    from Cons.IH [OF this] show ?thesis .
  qed
qed (simp add: kept_count_def)

lemma by_id_Some:
  assumes "map_of (map (\<lambda>c. (torrent_id c, c)) cs) t = Some c"
  shows "torrent_id c = t" "c \<in> set cs"
  using map_of_SomeD [OF assms] by auto

lemma taken_by_kept:
  "int (taken_by u (map (\<lambda>c. decision p c now (user_id c)) kept)) = kept_count u kept"
  by (induction kept) (auto simp: taken_by_def kept_count_def)

lemma taken_by_append: "taken_by u (xs @ ys) = taken_by u xs + taken_by u ys"
  by (simp add: taken_by_def)

lemma continuity_bounds:
  assumes "valid_input cs inp" "distinct retained"
    and "select_with_continuity cs retained inp = Some (Inr res)"
  shows "length (selected res) + capacity_remaining res = free_slots inp"
    and "distinct (selected_ids (selected res))"
    and "d \<in> set (selected res) \<Longrightarrow> d_candidate d \<in> set cs \<and> \<not> stalled (d_candidate d)"
    and "0 < taken_by u (selected res) \<Longrightarrow>
          int (taken_by u (selected res)) \<le> max_active_per_user (in_policy inp)"
proof -
  let ?by = "map_of (map (\<lambda>c. (torrent_id c, c)) (rev cs))"
  obtain kept pu where k: "keep_retained ?by (in_policy inp) retained (free_slots inp) [] = (kept, pu)"
    by fastforce
  let ?cs = "filter (\<lambda>c. torrent_id c \<notin> set (map torrent_id kept)) cs"
  let ?inp = "inp\<lparr>in_active_global := in_active_global inp + int (length kept),
                in_active_by_user := pu\<rparr>"
  have kp: "length kept \<le> free_slots inp" "distinct (map torrent_id kept)"
    "\<And>c. c \<in> set kept \<Longrightarrow> \<not> stalled c \<and> c \<in> set cs"
    using keep_retained_shape [OF k by_id_Some(1) [where cs = "rev cs"]]
      by_id_Some(2) [of "rev cs"] assms(2) by auto
  have kc: "active_of ?inp u = kept_count u kept"
    "0 < kept_count u kept \<Longrightarrow> kept_count u kept \<le> max_active_per_user (in_policy inp)" for u
    using keep_retained_counts [OF k, of u] by auto
  obtain sub where sub: "select_torrents ?cs ?inp = Some (Inr sub)"
    and res: "res = (if kept = [] then sub else merge_kept cs kept inp sub)"
    using assms(3) k by (auto simp: select_with_continuity_def kept_candidates_def result_simps)
  have v: "valid_input ?cs ?inp"
    using assms(1) by (auto simp: valid_input_def list_all_iff)
  have sel: "selected res = map (\<lambda>c. decision (in_policy inp) c (as_utc (in_now inp)) (user_id c)) kept
      @ selected sub" and cap: "capacity_remaining res = capacity_remaining sub"
    by (simp_all add: res merge_kept_def Let_def)
  note c = selection_bounds(1-3) [OF v sub]
  show "int (taken_by u (selected res)) \<le> max_active_per_user (in_policy inp)"
    if "0 < taken_by u (selected res)"
    using selection_bounds(4) [OF v sub, of u] kc [of u] that
      taken_by_kept [of u "in_policy inp" "as_utc (in_now inp)" kept]
    by (cases "taken_by u (selected sub) = 0") (auto simp: sel taken_by_append)
  show "length (selected res) + capacity_remaining res = free_slots inp"
    using c(1) kp(1) by (simp add: sel cap)
  show "distinct (selected_ids (selected res))"
  proof -
    have "torrent_id (d_candidate d) \<notin> torrent_id ` set kept" if "d \<in> set (selected sub)" for d
      using c(3) [OF that] by simp
    then have "set (selected_ids (selected sub)) \<subseteq> - set (map torrent_id kept)"
      by (simp add: image_subset_iff)
    then have "set (map torrent_id kept) \<inter> set (selected_ids (selected sub)) = {}" by blast
    moreover have "selected_ids (selected res) = map torrent_id kept @ selected_ids (selected sub)"
      by (simp add: sel)
    ultimately show ?thesis using c(2) kp(2) by simp
  qed
  show "d_candidate d \<in> set cs \<and> \<not> stalled (d_candidate d)" if "d \<in> set (selected res)"
    using that c(3) kp(3) by (auto simp: sel)
qed

text \<open>
  C19: keeping the running torrents is safe. When the retained identifiers are distinct and the
  input is valid, the selection with retained torrents still uses no more than the free slots, selects no physical torrent twice, selects only candidates that are
  not stalled, and charges no user with more than \<open>max_active_per_user\<close> torrents.
\<close>

theorem select_with_continuity_capacity:
  assumes "valid_input cs inp" "distinct retained"
    and "select_with_continuity cs retained inp = Some (Inr res)"
  shows "length (selected res) + capacity_remaining res = free_slots inp
    \<and> distinct (selected_ids (selected res))
    \<and> (\<forall>d. d \<in> set (selected res) \<longrightarrow> d_candidate d \<in> set cs \<and> \<not> stalled (d_candidate d))
    \<and> (\<forall>u. 0 < taken_by u (selected res) \<longrightarrow>
          int (taken_by u (selected res)) \<le> max_active_per_user (in_policy inp))"
  using continuity_bounds [OF assms] by blast

section \<open>The contract of a selector\<close>

text \<open>
  What the control plan relies on: a selector whose results, under its precondition, hold
  distinct torrents of the candidates it was given and no more of them than there are free slots.
\<close>

locale selector =
  fixes select :: "scheduler_candidate list \<Rightarrow> selection_input \<Rightarrow> (py_error + scheduler_result) option"
    and ok :: "scheduler_candidate list \<Rightarrow> selection_input \<Rightarrow> bool"
  assumes select_distinct:
      "ok cs inp \<Longrightarrow> select cs inp = Some (Inr res) \<Longrightarrow> distinct (selected_ids (selected res))"
    and select_subset:
      "ok cs inp \<Longrightarrow> select cs inp = Some (Inr res) \<Longrightarrow>
         set (selected_ids (selected res)) \<subseteq> set (map torrent_id cs)"
    and select_within:
      "ok cs inp \<Longrightarrow> select cs inp = Some (Inr res) \<Longrightarrow> length (selected res) \<le> free_slots inp"

interpretation plain_selector: selector select_torrents valid_input
proof
  fix cs inp res
  assume v: "valid_input cs inp" and r: "select_torrents cs inp = Some (Inr res)"
  show "distinct (selected_ids (selected res))" by (rule selection_bounds(2) [OF v r])
  show "set (selected_ids (selected res)) \<subseteq> set (map torrent_id cs)"
    using selection_bounds(3) [OF v r] by auto
  show "length (selected res) \<le> free_slots inp" using selection_bounds(1) [OF v r] by simp
qed

interpretation retaining_selector:
  selector "\<lambda>cs. select_with_continuity cs retained" "\<lambda>cs inp. valid_input cs inp \<and> distinct retained"
  for retained
proof
  fix cs inp res
  assume v: "valid_input cs inp \<and> distinct retained"
    and r: "select_with_continuity cs retained inp = Some (Inr res)"
  note b = continuity_bounds [OF conjunct1 [OF v] conjunct2 [OF v] r]
  show "distinct (selected_ids (selected res))" by (rule b(2))
  show "set (selected_ids (selected res)) \<subseteq> set (map torrent_id cs)" using b(3) by auto
  show "length (selected res) \<le> free_slots inp" using b(1) by simp
qed

section \<open>A concrete run\<close>

text \<open>
  Two users, two slots: user 10 has two small torrents, user 11 a large one that has aged to the
  minimal cost. One torrent per user is allowed.
\<close>

definition ex_policy :: scheduler_policy where
  "ex_policy = \<lparr>max_active_global = 3, max_active_per_user = 1, small_torrent_bytes = 100,
     medium_torrent_bytes = 1000, deficit_quantum = 1, aging_interval_seconds = 60,
     aging_max_bonus = 3\<rparr>"

definition ex_candidate :: "uuid \<Rightarrow> uuid \<Rightarrow> int \<Rightarrow> int \<Rightarrow> scheduler_candidate" where
  "ex_candidate t u n q = \<lparr>torrent_id = t, user_id = u, remaining_bytes = n,
     queued_at = Aware (seconds q), user_weight = 1, stalled = False, beneficiary_user_ids = [],
     beneficiary_weights = []\<rparr>"

definition ex_candidates :: "scheduler_candidate list" where
  "ex_candidates = [ex_candidate 1 10 50 0, ex_candidate 2 10 50 5, ex_candidate 3 11 5000 1]"

definition ex_input :: selection_input where
  "ex_input = \<lparr>in_policy = ex_policy, in_now = Aware (seconds 100), in_active_global = 0,
     in_active_by_user = [], in_ledger = None, in_fair_order = [], in_complete = False\<rparr>"

definition ex_result :: scheduler_result where
  "ex_result =
     \<lparr>selected = [decision ex_policy (ex_candidate 1 10 50 0) (seconds 100) 10,
                  decision ex_policy (ex_candidate 3 11 5000 1) (seconds 100) 11],
      result_ledger = \<lparr>ledger_deficits = [], ledger_rounds = 4, cursor_user_id = Some 11\<rparr>,
      stalled_torrent_ids = [], capacity_remaining = 1\<rparr>"

lemma ex_valid: "valid_input ex_candidates ex_input"
  by code_simp

lemma ex_run: "select_torrents ex_candidates ex_input = Some (Inr ex_result)"
  by code_simp

lemma ex_continuity:
  "select_with_continuity ex_candidates [3] ex_input =
     Some (Inr \<lparr>selected = [decision ex_policy (ex_candidate 3 11 5000 1) (seconds 100) 11,
                  decision ex_policy (ex_candidate 1 10 50 0) (seconds 100) 10],
      result_ledger = \<lparr>ledger_deficits = [], ledger_rounds = 1, cursor_user_id = Some 10\<rparr>,
      stalled_torrent_ids = [], capacity_remaining = 1\<rparr>)"
  by code_simp

theorem select_torrents_total_witness:
  "valid_input ex_candidates ex_input
    \<and> (\<exists>res. select_torrents ex_candidates ex_input = Some (Inr res))"
proof -
  have "\<exists>adm. admit ex_candidates ex_input = Inr adm"
    using ex_run by (cases "admit ex_candidates ex_input") (auto simp: select_torrents_def)
  then show ?thesis using ex_valid select_torrents_total [OF ex_valid] by auto
qed

theorem select_torrents_capacity_witness:
  "length (selected ex_result) + capacity_remaining ex_result = 3
    \<and> distinct (selected_ids (selected ex_result))"
  using select_torrents_capacity [OF ex_valid ex_run] by (simp add: ex_input_def ex_policy_def)

theorem select_torrents_user_limit_witness:
  "active_of ex_input 11 + int (taken_by 11 (selected ex_result)) \<le> 1"
proof -
  have "0 < taken_by 11 (selected ex_result)" by code_simp
  from select_torrents_user_limit [OF ex_valid ex_run this] show ?thesis
    by (simp add: ex_input_def ex_policy_def)
qed

theorem select_torrents_work_conserving_witness:
  "1 \<le> active_of ex_input 10 + int (taken_by 10 (selected ex_result))"
proof -
  have h: "0 < capacity_remaining ex_result" "ex_candidate 2 10 50 5 \<in> set ex_candidates"
    "\<not> stalled (ex_candidate 2 10 50 5)"
    "torrent_id (ex_candidate 2 10 50 5) \<notin> set (selected_ids (selected ex_result))"
    "10 \<in> set (beneficiaries (ex_candidate 2 10 50 5))"
    by code_simp+
  from select_torrents_work_conserving [OF ex_valid ex_run h] show ?thesis
    by (simp add: ex_input_def ex_policy_def)
qed

theorem select_torrents_fifo_witness:
  "candidate_order (ex_candidate 1 10 50 0) \<le> candidate_order (ex_candidate 2 10 50 5)"
proof -
  let ?d = "decision ex_policy (ex_candidate 1 10 50 0) (seconds 100) 10"
  have h: "?d \<in> set (selected ex_result)" "ex_candidate 2 10 50 5 \<in> set ex_candidates"
    "\<not> stalled (ex_candidate 2 10 50 5)"
    "torrent_id (ex_candidate 2 10 50 5) \<notin> set (selected_ids (selected ex_result))"
    "beneficiary_user_id ?d \<in> set (beneficiaries (ex_candidate 2 10 50 5))"
    by code_simp+
  from select_torrents_fifo [OF ex_valid ex_run h] show ?thesis by simp
qed

theorem select_torrents_ledger_witness:
  "ledger_post_init (result_ledger ex_result) = Inr (result_ledger ex_result)"
proof -
  have "ledger_post_init (previous_ledger ex_input) = Inr empty_ledger" by code_simp
  from select_torrents_ledger [OF ex_valid ex_run this] show ?thesis by blast
qed

theorem select_with_continuity_capacity_witness:
  "\<exists>res. select_with_continuity ex_candidates [3] ex_input = Some (Inr res)
    \<and> length (selected res) + capacity_remaining res = 3 \<and> distinct (selected_ids (selected res))"
  using select_with_continuity_capacity [OF ex_valid _ ex_continuity] ex_continuity
  by (simp add: ex_input_def ex_policy_def)

end
