(* ===== verification/Qb_Control.thy ===== *)
theory Qb_Control
  imports Fair_Selection
begin

text \<open>
  The qBittorrent control plan, \<open>backend/app/scheduler/qbittorrent_control.py\<close>: the result of a
  selection becomes one desired control per torrent of the control set, the selected ones running
  with their share of the global download limit, the others stopped.
\<close>

section \<open>Controls\<close>

datatype qb_run_state = RUNNING | STOPPED

record control_identity =
  ci_torrent_id :: uuid
  ci_info_hash :: string
  ci_storage_key :: uuid
  ci_qbittorrent_account_ref :: "uuid option"

record desired_control =
  dc_info_hash :: string
  dc_storage_key :: uuid
  run_state :: qb_run_state
  download_limit_bytes_per_second :: int
  dc_qbittorrent_account_ref :: "uuid option"

definition download_limit_shares :: "int \<Rightarrow> nat \<Rightarrow> int list" where
  "download_limit_shares global_limit active_count =
     (if active_count = 0 then []
      else if global_limit = 0 then replicate active_count 0
      else if global_limit < int active_count then replicate active_count 1
      else let base = global_limit div int active_count;
               remainder = global_limit mod int active_count
           in map (\<lambda>index. base + (if int index < remainder then 1 else 0)) [0..<active_count])"

definition control_of :: "control_identity \<Rightarrow> qb_run_state \<Rightarrow> int \<Rightarrow> desired_control" where
  "control_of i rs limit =
     \<lparr>dc_info_hash = ci_info_hash i, dc_storage_key = ci_storage_key i, run_state = rs,
      download_limit_bytes_per_second = limit,
      dc_qbittorrent_account_ref = ci_qbittorrent_account_ref i\<rparr>"

definition global_download_limit :: "(string \<rightharpoonup> option_value) \<Rightarrow> py_error + int" where
  "global_download_limit options =
     (case options ''WOS_QB_DOWNLOAD_MAX_BYTES_PER_SECOND_GLOBAL'' of
        Some (OInt limit) \<Rightarrow>
          if 0 \<le> limit \<and> limit \<le> 10000000000 then Inr limit
          else Inl (ValueError ''WOS_QB_DOWNLOAD_MAX_BYTES_PER_SECOND_GLOBAL is invalid'')
      | _ \<Rightarrow> Inl (ValueError ''WOS_QB_DOWNLOAD_MAX_BYTES_PER_SECOND_GLOBAL is invalid''))"

definition build_qbittorrent_control_plan ::
  "scheduler_result \<Rightarrow> control_identity list \<Rightarrow> (string \<rightharpoonup> option_value)
     \<Rightarrow> py_error + desired_control list" where
  "build_qbittorrent_control_plan result identities options =
     rbind (require (distinct (map ci_torrent_id identities))
       (ValueError ''Each physical torrent must have one control identity'')) (\<lambda>_.
     rbind (require (distinct (map ci_info_hash identities))
       (ValueError ''Each qB infohash must have one control identity'')) (\<lambda>_.
     rbind (require (distinct (map ci_storage_key identities))
       (ValueError ''Each storage key must have one control identity'')) (\<lambda>_.
     rbind (global_download_limit options) (\<lambda>limit.
     let by_torrent_id = map_of (map (\<lambda>i. (ci_torrent_id i, i)) identities);
         ids = selected_ids (selected result)
     in rbind (require (distinct ids)
          (ValueError ''Scheduler result selects a physical torrent more than once'')) (\<lambda>_.
        rbind (require (list_all (\<lambda>t. by_torrent_id t \<noteq> None) ids)
          (ValueError ''Scheduler result has no qB control identity'')) (\<lambda>_.
        let shares = download_limit_shares limit (length ids) in
        Inr (map (\<lambda>(t, share). control_of (the (by_torrent_id t)) RUNNING share) (zip ids shares)
             @ map (\<lambda>i. control_of i STOPPED 0)
                 (filter (\<lambda>i. ci_torrent_id i \<notin> set ids) (sort_key ci_torrent_id identities)))))))))"

section \<open>Shares of the global limit\<close>

lemma length_shares [simp]: "length (download_limit_shares limit n) = n"
  by (simp add: download_limit_shares_def Let_def)

lemma sum_extra: "(\<Sum>i\<leftarrow>[0..<n]. if int i < r then 1 else (0::int)) = min (int n) (max 0 r)"
  by (induction n) (auto simp: min_def max_def)

lemma shares_split:
  assumes "0 < n" "int n \<le> limit"
  shows "sum_list (download_limit_shares limit n) = limit"
proof -
  have "sum_list (download_limit_shares limit n) =
      int n * (limit div int n) + min (int n) (max 0 (limit mod int n))"
    using assms sum_extra [of "limit mod int n" n]
    by (simp add: download_limit_shares_def Let_def sum_list_addf sum_list_triv)
  also have "\<dots> = int n * (limit div int n) + limit mod int n"
    using assms(1) pos_mod_bound [of "int n" limit] pos_mod_sign [of "int n" limit] by simp
  also have "\<dots> = limit" by simp
  finally show ?thesis .
qed

text \<open>
  C20: the global download limit is split fairly and never lifted. For a positive limit there is one
  share for each of the \<open>n\<close> selected torrents, of at least one byte per second (a share of zero would
  mean unlimited); two shares differ by at most one; the shares add up to the limit whenever it is
  large enough to give every torrent a byte, and otherwise each is one byte.
\<close>

theorem download_limit_shares_fair:
  assumes "0 < limit" "0 < n"
  shows "length (download_limit_shares limit n) = n
    \<and> (\<forall>s. s \<in> set (download_limit_shares limit n) \<longrightarrow> 1 \<le> s)
    \<and> (\<forall>s t. s \<in> set (download_limit_shares limit n) \<and> t \<in> set (download_limit_shares limit n)
          \<longrightarrow> \<bar>s - t\<bar> \<le> 1)
    \<and> (int n \<le> limit \<longrightarrow> sum_list (download_limit_shares limit n) = limit)
    \<and> (limit < int n \<longrightarrow> download_limit_shares limit n = replicate n 1)"
proof (cases "limit < int n")
  case True
  then show ?thesis using assms by (auto simp: download_limit_shares_def)
next
  case False
  then have "1 \<le> limit div int n"
    using assms by (simp add: pos_imp_zdiv_pos_iff int_one_le_iff_zero_less)
  then show ?thesis
    using False assms shares_split [of n limit] by (auto simp: download_limit_shares_def Let_def)
qed

section \<open>The plan\<close>

lemma control_of_sel [simp]:
  "dc_info_hash (control_of i rs l) = ci_info_hash i" "run_state (control_of i rs l) = rs"
  "dc_storage_key (control_of i rs l) = ci_storage_key i"
  "download_limit_bytes_per_second (control_of i rs l) = l"
  by (simp_all add: control_of_def)

definition identity_of :: "control_identity list \<Rightarrow> uuid \<Rightarrow> control_identity" where
  "identity_of identities t = the (map_of (map (\<lambda>i. (ci_torrent_id i, i)) identities) t)"

lemma plan_Inr:
  assumes "build_qbittorrent_control_plan result identities options = Inr plan"
  obtains limit ids where "ids = selected_ids (selected result)"
    "global_download_limit options = Inr limit"
    "distinct (map ci_torrent_id identities)" "distinct (map ci_info_hash identities)"
    "distinct ids" "set ids \<subseteq> set (map ci_torrent_id identities)"
    "plan = map (\<lambda>(t, share). control_of (identity_of identities t) RUNNING share)
              (zip ids (download_limit_shares limit (length ids)))
        @ map (\<lambda>i. control_of i STOPPED 0)
            (filter (\<lambda>i. ci_torrent_id i \<notin> set ids) (sort_key ci_torrent_id identities))"
proof -
  have "list_all (\<lambda>t. map_of (map (\<lambda>i. (ci_torrent_id i, i)) identities) t \<noteq> None) ids \<longleftrightarrow>
      set ids \<subseteq> set (map ci_torrent_id identities)" for ids
    by (auto simp: list_all_iff map_of_eq_None_iff image_image simp del: not_None_eq)
  then show ?thesis
    using assms that [OF refl]
    by (auto simp: build_qbittorrent_control_plan_def result_simps Let_def identity_of_def)
qed

lemma identity_of_in:
  assumes "distinct (map ci_torrent_id identities)" "i \<in> set identities"
  shows "identity_of identities (ci_torrent_id i) = i"
proof -
  have "map_of (map (\<lambda>i. (ci_torrent_id i, i)) identities) (ci_torrent_id i) = Some i"
    using assms by (intro map_of_is_SomeI) (auto simp: comp_def)
  then show ?thesis by (simp add: identity_of_def)
qed

lemma mset_identities_split:
  assumes "distinct (map ci_torrent_id identities)" "distinct ids"
    and "set ids \<subseteq> set (map ci_torrent_id identities)"
  shows "mset (map (identity_of identities) ids)
      + mset (filter (\<lambda>i. ci_torrent_id i \<notin> set ids) identities) = mset identities"
proof -
  have di: "distinct identities" using assms(1) by (simp add: distinct_map)
  have id: "ci_torrent_id (identity_of identities t) = t \<and> identity_of identities t \<in> set identities"
    if "t \<in> set ids" for t
    using that assms(3) identity_of_in [OF assms(1)] by auto
  then have inj: "inj_on (identity_of identities) (set ids)"
    by (intro inj_on_inverseI [where g = ci_torrent_id]) blast
  have "set (map (identity_of identities) ids) = {i \<in> set identities. ci_torrent_id i \<in> set ids}"
    using id identity_of_in [OF assms(1)] by (auto simp: image_iff) metis
  then have "mset (map (identity_of identities) ids) =
      mset (filter (\<lambda>i. ci_torrent_id i \<in> set ids) identities)"
    using di inj assms(2) by (intro set_eq_iff_mset_eq_distinct [THEN iffD1]) (auto simp: distinct_map)
  then show ?thesis by (metis mset_filter multiset_partition)
qed

text \<open>
  C21: the plan is complete and exact. It holds exactly one control for every torrent of the
  control set (no torrent is forgotten, none is controlled twice), the running ones are the selected
  torrents in scheduler order, and every other torrent is stopped and uncapped.
\<close>

theorem control_plan_exact:
  assumes "build_qbittorrent_control_plan result identities options = Inr plan"
  shows "mset (map dc_info_hash plan) = mset (map ci_info_hash identities)
    \<and> distinct (map dc_info_hash plan)
    \<and> map dc_info_hash (filter (\<lambda>c. run_state c = RUNNING) plan) =
        map (ci_info_hash \<circ> identity_of identities) (selected_ids (selected result))
    \<and> (\<forall>c. c \<in> set plan \<longrightarrow> run_state c = STOPPED \<longrightarrow> download_limit_bytes_per_second c = 0)"
proof -
  obtain limit ids where ids: "ids = selected_ids (selected result)"
    and d: "distinct (map ci_torrent_id identities)" "distinct (map ci_info_hash identities)"
      "distinct ids" "set ids \<subseteq> set (map ci_torrent_id identities)"
    and plan: "plan = map (\<lambda>(t, share). control_of (identity_of identities t) RUNNING share)
              (zip ids (download_limit_shares limit (length ids)))
        @ map (\<lambda>i. control_of i STOPPED 0)
            (filter (\<lambda>i. ci_torrent_id i \<notin> set ids) (sort_key ci_torrent_id identities))"
    using plan_Inr [OF assms] .
  define stopped where
    "stopped = filter (\<lambda>i. ci_torrent_id i \<notin> set ids) (sort_key ci_torrent_id identities)"
  have run: "map (ci_info_hash \<circ> (\<lambda>(t, share). identity_of identities t)) (zip ids (download_limit_shares limit (length ids)))
      = map (ci_info_hash \<circ> identity_of identities) ids"
    using map_zip_fst [of ids "download_limit_shares limit (length ids)"
        "\<lambda>t. ci_info_hash (identity_of identities t)"]
    by (simp add: split_def comp_def)
  have hashes: "map dc_info_hash plan =
      map ci_info_hash (map (identity_of identities) ids @ stopped)"
    using run by (simp add: plan stopped_def split_def comp_def)
  have "mset (map (identity_of identities) ids @ stopped) = mset identities"
    using mset_identities_split [OF d(1,3,4)] by (simp add: stopped_def)
  then have m: "mset (map dc_info_hash plan) = mset (map ci_info_hash identities)"
    by (metis hashes mset_map)
  have "filter (\<lambda>c. run_state c = RUNNING) plan = map (\<lambda>(t, share). control_of (identity_of identities t) RUNNING share)
              (zip ids (download_limit_shares limit (length ids)))"
    by (auto simp: plan filter_empty_conv filter_map comp_def split_def)
  then have "map dc_info_hash (filter (\<lambda>c. run_state c = RUNNING) plan) =
      map (ci_info_hash \<circ> identity_of identities) ids"
    using run by (simp add: split_def comp_def)
  moreover have "distinct (map dc_info_hash plan)"
    using m d(2) by (metis mset_eq_imp_distinct_iff)
  ultimately show ?thesis
    using m by (auto simp: ids plan)
qed

section \<open>Selection and plan together\<close>

context selector
begin

lemma plan_within_slots:
  assumes "ok cs inp" "select cs inp = Some (Inr res)"
    and "build_qbittorrent_control_plan res identities options = Inr plan"
  shows "length (filter (\<lambda>c. run_state c = RUNNING) plan) \<le> free_slots inp"
proof -
  obtain limit ids where "ids = selected_ids (selected res)"
    and "plan = map (\<lambda>(t, share). control_of (identity_of identities t) RUNNING share)
              (zip ids (download_limit_shares limit (length ids)))
        @ map (\<lambda>i. control_of i STOPPED 0)
            (filter (\<lambda>i. ci_torrent_id i \<notin> set ids) (sort_key ci_torrent_id identities))"
    using plan_Inr [OF assms(3)] .
  then have "length (filter (\<lambda>c. run_state c = RUNNING) plan) = length (selected res)"
    by (simp add: filter_map comp_def split_def)
  then show ?thesis using select_within [OF assms(1,2)] by simp
qed

lemma plan_exists:
  assumes "ok cs inp" "select cs inp = Some (Inr res)"
    and "global_download_limit options = Inr limit"
    and "distinct (map ci_torrent_id identities)" "distinct (map ci_info_hash identities)"
      "distinct (map ci_storage_key identities)"
    and "set (map torrent_id cs) \<subseteq> set (map ci_torrent_id identities)"
  shows "\<exists>plan. build_qbittorrent_control_plan res identities options = Inr plan"
proof -
  have "list_all (\<lambda>t. map_of (map (\<lambda>i. (ci_torrent_id i, i)) identities) t \<noteq> None)
      (selected_ids (selected res))"
    using select_subset [OF assms(1,2)] assms(7)
    by (auto simp: list_all_iff map_of_eq_None_iff image_image simp del: not_None_eq)
  then show ?thesis
    using assms(3-6) select_distinct [OF assms(1,2)]
    by (simp add: build_qbittorrent_control_plan_def Let_def)
qed

end

text \<open>
  a scheduling decision can always be turned into controls, and never starts more torrents
  than there are slots. When every candidate has a control identity, the identities are unique
  and the limit option is valid, the plan of a selection with retained torrents exists, and it runs
  at most as many torrents as the policy leaves free.
\<close>

theorem continuity_plan_within_slots:
  assumes "valid_input cs inp" "distinct retained"
    and "select_with_continuity cs retained inp = Some (Inr res)"
    and "global_download_limit options = Inr limit"
    and "distinct (map ci_torrent_id identities)" "distinct (map ci_info_hash identities)"
      "distinct (map ci_storage_key identities)"
    and "set (map torrent_id cs) \<subseteq> set (map ci_torrent_id identities)"
  shows "\<exists>plan. build_qbittorrent_control_plan res identities options = Inr plan
    \<and> length (filter (\<lambda>c. run_state c = RUNNING) plan) \<le> free_slots inp"
proof -
  have ok: "valid_input cs inp \<and> distinct retained" using assms(1,2) by blast
  obtain plan where "build_qbittorrent_control_plan res identities options = Inr plan"
    using retaining_selector.plan_exists [OF ok assms(3-8)] by blast
  then show ?thesis
    using retaining_selector.plan_within_slots [OF ok assms(3)] by blast
qed

section \<open>A concrete plan\<close>

definition ex_identities :: "control_identity list" where
  "ex_identities = map (\<lambda>(t, h). \<lparr>ci_torrent_id = t, ci_info_hash = h, ci_storage_key = t + 100,
     ci_qbittorrent_account_ref = None\<rparr>) [(3, ''c''), (1, ''a''), (2, ''b'')]"

definition ex_options :: "string \<rightharpoonup> option_value" where
  "ex_options = [''WOS_QB_DOWNLOAD_MAX_BYTES_PER_SECOND_GLOBAL'' \<mapsto> OInt 7]"

lemma ex_plan:
  "build_qbittorrent_control_plan ex_result ex_identities ex_options =
     Inr [\<lparr>dc_info_hash = ''a'', dc_storage_key = 101, run_state = RUNNING,
           download_limit_bytes_per_second = 4, dc_qbittorrent_account_ref = None\<rparr>,
          \<lparr>dc_info_hash = ''c'', dc_storage_key = 103, run_state = RUNNING,
           download_limit_bytes_per_second = 3, dc_qbittorrent_account_ref = None\<rparr>,
          \<lparr>dc_info_hash = ''b'', dc_storage_key = 102, run_state = STOPPED,
           download_limit_bytes_per_second = 0, dc_qbittorrent_account_ref = None\<rparr>]"
  by code_simp

theorem download_limit_shares_fair_witness:
  "download_limit_shares 7 3 = [3, 2, 2] \<and> sum_list (download_limit_shares 7 3) = 7"
proof -
  have "sum_list (download_limit_shares 7 3) = 7"
    using download_limit_shares_fair [of 7 3] by simp
  moreover have "download_limit_shares 7 3 = [3, 2, 2]" by code_simp
  ultimately show ?thesis by blast
qed

theorem control_plan_exact_witness:
  "\<exists>plan. build_qbittorrent_control_plan ex_result ex_identities ex_options = Inr plan
    \<and> mset (map dc_info_hash plan) = {#''a'', ''b'', ''c''#}"
  using control_plan_exact [OF ex_plan] ex_plan by (simp add: ex_identities_def)

theorem continuity_plan_within_slots_witness:
  "\<exists>res plan. select_with_continuity ex_candidates [3] ex_input = Some (Inr res)
    \<and> build_qbittorrent_control_plan res ex_identities ex_options = Inr plan
    \<and> length (filter (\<lambda>c. run_state c = RUNNING) plan) \<le> 3"
proof -
  have h: "distinct [3 :: uuid]" "global_download_limit ex_options = Inr 7"
    "distinct (map ci_torrent_id ex_identities)" "distinct (map ci_info_hash ex_identities)"
    "distinct (map ci_storage_key ex_identities)"
    "set (map torrent_id ex_candidates) \<subseteq> set (map ci_torrent_id ex_identities)"
    by code_simp+
  have "free_slots ex_input = 3" by code_simp
  then show ?thesis
    using continuity_plan_within_slots [OF ex_valid h(1) ex_continuity h(2-6)] ex_continuity by auto
qed

end
