(* ===== verification/Scheduler_Runtime.thy ===== *)
theory Scheduler_Runtime
  imports Dynamic_Concurrency Fair_Selection Qb_Control Worker
begin

text \<open>
  The singleton scheduler of \<open>backend/app/scheduler/runtime.py\<close> and \<open>persistence.py\<close>: the lease on
  the scheduler row, the ledger rows, the transaction that plans a cycle (\<open>plan_cycle\<close>), the one
  that records its application (\<open>apply_cycle\<close>), and the pacing of the loop. Between the two the
  qBittorrent gateway is called: whether its stop controls succeeded is the argument \<open>stopped\<close>. The
  options a cycle reads are an argument, and so are the rows \<open>SKIP LOCKED\<close> passes over. NULL sorts
  last, as in PostgreSQL, and the clock is read once per transaction.
\<close>

section \<open>The lease\<close>

text \<open>The row the insertion of \<open>_ensure_scheduler_state\<close> makes, with the defaults of its columns.\<close>

definition new_scheduler_state :: "instant \<Rightarrow> scheduler_state" where
  "new_scheduler_state now =
     \<lparr>ss_lease_owner = None, ss_lease_expires_at = None, ss_desired_generation = 0,
      ss_applied_generation = 0, ss_rounds = 0, ss_cursor_user_id = None,
      ss_scan_cursor_created_at = None, ss_scan_cursor_id = None, ss_dynamic_current_active = 2,
      ss_dynamic_last_evaluated_at = None, ss_dynamic_cooldown_until = None,
      ss_dynamic_sampled_at = None, ss_dynamic_sample_baseline = [],
      ss_dynamic_observed_bytes_per_second = 0, ss_dynamic_active_count = 0,
      ss_dynamic_waiting_count = 0, ss_dynamic_next_evaluation_at = None,
      ss_dynamic_last_decision = ''dynamic_idle_reset'', ss_updated_at = now\<rparr>"

definition ensure_scheduler_state :: "instant \<Rightarrow> db \<Rightarrow> scheduler_state" where
  "ensure_scheduler_state now d =
     (case db_scheduler d of None \<Rightarrow> new_scheduler_state now | Some s \<Rightarrow> s)"

definition lease_taken :: "string \<Rightarrow> instant \<Rightarrow> scheduler_state \<Rightarrow> bool" where
  "lease_taken owner now s \<longleftrightarrow>
     ss_lease_owner s \<notin> {None, Some owner}
     \<and> (case ss_lease_expires_at s of None \<Rightarrow> False | Some e \<Rightarrow> e > now)"

definition leased_state :: "string \<Rightarrow> instant \<Rightarrow> timedelta \<Rightarrow> scheduler_state \<Rightarrow> scheduler_state" where
  "leased_state owner now ttl s =
     s\<lparr>ss_lease_owner := Some owner, ss_lease_expires_at := Some (now + ttl), ss_updated_at := now\<rparr>"

definition acquire_scheduler_lease ::
  "string \<Rightarrow> instant \<Rightarrow> timedelta \<Rightarrow> db \<Rightarrow> app_error + db \<times> scheduler_state option" where
  "acquire_scheduler_lease owner now ttl d =
     rbind (require (1 \<le> length owner \<and> length owner \<le> 128)
              (Py (ValueError ''scheduler lease owner must contain between 1 and 128 characters''))) (\<lambda>_.
     rbind (require (0 < ttl) (Py (ValueError ''scheduler lease TTL must be positive''))) (\<lambda>_.
     let s = ensure_scheduler_state now d
     in if lease_taken owner now s then Inr (d\<lparr>db_scheduler := Some s\<rparr>, None)
        else (let s' = leased_state owner now ttl s
              in Inr (d\<lparr>db_scheduler := Some s'\<rparr>, Some s'))))"

definition mark_scheduler_generation_applied ::
  "string \<Rightarrow> int \<Rightarrow> instant \<Rightarrow> db \<Rightarrow> app_error + db" where
  "mark_scheduler_generation_applied owner generation now d =
     (case db_scheduler d of
        Some s \<Rightarrow>
          if ss_lease_owner s = Some owner \<and> ss_desired_generation s = generation
          then Inr (d\<lparr>db_scheduler :=
                        Some (s\<lparr>ss_applied_generation := generation, ss_updated_at := now\<rparr>)\<rparr>)
          else Inl (SchedulerLeaseLostError ''scheduler lease or desired generation changed'')
      | None \<Rightarrow> Inl (SchedulerLeaseLostError ''scheduler lease or desired generation changed''))"

definition release_scheduler_lease :: "string \<Rightarrow> instant \<Rightarrow> db \<Rightarrow> db" where
  "release_scheduler_lease owner now d =
     (case db_scheduler d of
        Some s \<Rightarrow>
          if ss_lease_owner s = Some owner
          then d\<lparr>db_scheduler :=
                   Some (s\<lparr>ss_lease_owner := None, ss_lease_expires_at := None, ss_updated_at := now\<rparr>)\<rparr>
          else d
      | None \<Rightarrow> d)"

section \<open>The ledger rows\<close>

definition load_scheduler_ledger :: "scheduler_state \<Rightarrow> db \<Rightarrow> py_error + scheduler_ledger" where
  "load_scheduler_ledger s d =
     ledger_post_init
       \<lparr>ledger_deficits = map (\<lambda>r. (sd_user_id r, sd_credit r)) (sort_key sd_user_id (db_deficits d)),
        ledger_rounds = ss_rounds s, cursor_user_id = ss_cursor_user_id s\<rparr>"

definition persist_scheduler_ledger ::
  "scheduler_state \<Rightarrow> scheduler_ledger \<Rightarrow> instant \<Rightarrow> db \<Rightarrow> db" where
  "persist_scheduler_ledger s ledger now d =
     d\<lparr>db_deficits := map (\<lambda>(u, c). \<lparr>sd_user_id = u, sd_credit = c, sd_updated_at = now\<rparr>)
          (ledger_deficits ledger),
       db_scheduler := Some (s\<lparr>ss_rounds := ledger_rounds ledger,
          ss_cursor_user_id := cursor_user_id ledger, ss_updated_at := now\<rparr>)\<rparr>"

section \<open>The control set\<close>

definition MAX_SCHEDULER_CONTROL_SET :: nat where
  "MAX_SCHEDULER_CONTROL_SET = 200"

definition schedulable_state :: "managed_torrent_state \<Rightarrow> bool" where
  "schedulable_state s \<longleftrightarrow> s \<in> {DOWNLOADING, PAUSED}"

definition load_purge_stops :: "(uuid \<Rightarrow> bool) \<Rightarrow> db \<Rightarrow> managed_torrent list" where
  "load_purge_stops locked d =
     take MAX_SCHEDULER_CONTROL_SET (sort_key (\<lambda>t. (t_updated_at t, t_id t))
       (filter (\<lambda>t. t_state t = PURGE_PENDING \<and> t_purge_stop_pending t \<and> \<not> locked (t_id t))
          (db_torrents d)))"

definition load_error_stops :: "(uuid \<Rightarrow> bool) \<Rightarrow> nat \<Rightarrow> db \<Rightarrow> managed_torrent list" where
  "load_error_stops locked limit d =
     take limit (sort_key (\<lambda>t. (t_updated_at t, t_id t))
       (filter (\<lambda>t. t_state t = ERROR \<and> (t_desired_active t \<or> t_admin_forced_active t) \<and> \<not> locked (t_id t))
          (db_torrents d)))"

definition active_control :: "managed_torrent \<Rightarrow> bool" where
  "active_control t \<longleftrightarrow>
     schedulable_state (t_state t) \<and> (t_desired_active t \<or> t_admin_forced_active t)"

definition idle_control :: "managed_torrent \<Rightarrow> bool" where
  "idle_control t \<longleftrightarrow>
     schedulable_state (t_state t) \<and> \<not> t_desired_active t \<and> \<not> t_admin_forced_active t"

definition priority_order :: "managed_torrent \<Rightarrow> int \<times> int \<times> uuid" where
  "priority_order t =
     (case t_desired_priority t of None \<Rightarrow> (1, 0, t_id t) | Some p \<Rightarrow> (0, p, t_id t))"

definition scan_order :: "managed_torrent \<Rightarrow> instant \<times> uuid" where
  "scan_order t = (t_created_at t, t_id t)"

definition after_cursor :: "scheduler_state \<Rightarrow> managed_torrent \<Rightarrow> bool" where
  "after_cursor s t =
     (case (ss_scan_cursor_created_at s, ss_scan_cursor_id s) of
        (Some c, Some i) \<Rightarrow> t_created_at t > c \<or> (t_created_at t = c \<and> t_id t > i)
      | _ \<Rightarrow> True)"

definition scan_window :: "scheduler_state \<Rightarrow> nat \<Rightarrow> managed_torrent list \<Rightarrow> managed_torrent list" where
  "scan_window s capacity base =
     (let window = take capacity (filter (after_cursor s) base)
      in if length window < capacity \<and> ss_scan_cursor_id s \<noteq> None
         then window @ take (capacity - length window)
                (filter (\<lambda>t. t_id t \<notin> set (map t_id window)) base)
         else window)"

definition moved_cursor :: "managed_torrent list \<Rightarrow> scheduler_state \<Rightarrow> scheduler_state" where
  "moved_cursor window s =
     (if window = [] then s\<lparr>ss_scan_cursor_created_at := None, ss_scan_cursor_id := None\<rparr>
      else s\<lparr>ss_scan_cursor_created_at := Some (t_created_at (last window)),
             ss_scan_cursor_id := Some (t_id (last window))\<rparr>)"

definition load_control_set ::
  "scheduler_state \<Rightarrow> db \<Rightarrow> py_error + scheduler_state \<times> managed_torrent list" where
  "load_control_set s d =
     (let active = take (MAX_SCHEDULER_CONTROL_SET + 1)
                     (sort_key priority_order (filter active_control (db_torrents d)));
          capacity = MAX_SCHEDULER_CONTROL_SET - length active
      in if length active > MAX_SCHEDULER_CONTROL_SET
         then Inl (RuntimeError ''active scheduler control set exceeds the bounded limit'')
         else if capacity = 0 then Inr (s, active)
         else (let window = scan_window s capacity
                     (sort_key scan_order (filter idle_control (db_torrents d)))
               in Inr (moved_cursor window s, active @ window)))"

section \<open>The queue\<close>

definition enabled_user :: "user \<Rightarrow> bool" where
  "enabled_user u \<longleftrightarrow> u_is_active u \<and> u_deleted_at u = None"

definition elapsed :: "instant \<Rightarrow> instant option \<Rightarrow> bool" where
  "elapsed now retry_at = (case retry_at of None \<Rightarrow> True | Some r \<Rightarrow> r \<le> now)"

definition fairness_request :: "instant \<Rightarrow> db \<Rightarrow> uuid \<Rightarrow> torrent_request \<Rightarrow> bool" where
  "fairness_request now d u r \<longleftrightarrow>
     r_user_id r = u \<and> waiting_request_state (r_state r)
     \<and> list_ex (\<lambda>t. t_id t = r_managed_torrent_id r \<and> schedulable_state (t_state t)
                    \<and> 0 < t_total_size t \<and> t_progress t < 1 \<and> elapsed now (t_scheduler_retry_at t))
         (db_torrents d)"

definition load_fairness_user_order ::
  "uuid option \<Rightarrow> instant \<Rightarrow> db \<Rightarrow> uuid list \<times> bool" where
  "load_fairness_user_order cursor now d =
     (case cursor of
        None \<Rightarrow> ([], False)
      | Some c \<Rightarrow>
          (let users = sort (map u_id (filter
                 (\<lambda>u. enabled_user u \<and> list_ex (fairness_request now d (u_id u)) (db_requests d)) (db_users d)));
               probe = MAX_SCHEDULER_CONTROL_SET + 1;
               successors = take probe (filter (\<lambda>u. c < u) users);
               ring = (if length successors < probe
                       then successors @ take (probe - length successors) (filter (\<lambda>u. u \<le> c) users)
                       else successors)
           in (take MAX_SCHEDULER_CONTROL_SET ring, length ring \<le> MAX_SCHEDULER_CONTROL_SET)))"

definition load_active_requests :: "managed_torrent list \<Rightarrow> db \<Rightarrow> torrent_request list" where
  "load_active_requests torrents d =
     sort_key (\<lambda>r. (r_managed_torrent_id r, r_created_at r, r_user_id r))
       (filter (\<lambda>r. r_managed_torrent_id r \<in> set (map t_id torrents) \<and> waiting_request_state (r_state r)
                    \<and> list_ex (\<lambda>u. u_id u = r_user_id r \<and> enabled_user u) (db_users d))
          (db_requests d))"

definition cooled :: "torrent_request list \<Rightarrow> instant \<Rightarrow> managed_torrent \<Rightarrow> bool" where
  "cooled requests now t \<longleftrightarrow>
     \<not> t_desired_active t \<and> t_id t \<in> set (map r_managed_torrent_id requests)
     \<and> t_scheduler_retry_at t \<noteq> None \<and> elapsed now (t_scheduler_retry_at t)"

definition release_elapsed_cooldowns ::
  "managed_torrent list \<Rightarrow> torrent_request list \<Rightarrow> instant \<Rightarrow> managed_torrent list \<times> bool" where
  "release_elapsed_cooldowns torrents requests now =
     (map (\<lambda>t. if cooled requests now t then t\<lparr>t_scheduler_retry_at := None, t_updated_at := now\<rparr> else t)
        torrents,
      list_ex (cooled requests now) torrents)"

text \<open>\<open>total_size * progress\<close> converts the integer and multiplies in binary64.\<close>

definition remaining_bytes_of :: "int \<Rightarrow> rat \<Rightarrow> int option" where
  "remaining_bytes_of total_bytes progress =
     (if total_bytes \<le> 0 then None
      else if progress \<le> 0 then Some total_bytes
      else if progress \<ge> 1 then Some 0
      else Some (max 1 (min total_bytes (total_bytes - \<lfloor>fl64 (fl64 (of_int total_bytes) * progress)\<rfloor>))))"

text \<open>\<open>dict.fromkeys\<close> keeps the first occurrence of a user.\<close>

definition candidate_of ::
  "torrent_request list \<Rightarrow> instant \<Rightarrow> managed_torrent \<Rightarrow> py_error + scheduler_candidate option" where
  "candidate_of requests now t =
     (let rs = filter (\<lambda>r. r_managed_torrent_id r = t_id t) requests;
          users = rev (remdups (rev (map r_user_id rs)))
      in if rs = [] \<or> \<not> elapsed now (t_scheduler_retry_at t) then Inr None
         else case remaining_bytes_of (t_total_size t) (t_progress t) of
           None \<Rightarrow> Inr None
         | Some n \<Rightarrow>
             if n \<le> 0 then Inr None
             else rbind (candidate_post_init
                    \<lparr>torrent_id = t_id t, user_id = hd users, remaining_bytes = n,
                     queued_at = Aware (Min (set (map r_created_at rs))), user_weight = 1,
                     stalled = False, beneficiary_user_ids = tl users, beneficiary_weights = []\<rparr>)
                    (\<lambda>c. Inr (Some c)))"

fun scheduler_candidates ::
  "torrent_request list \<Rightarrow> instant \<Rightarrow> managed_torrent list \<Rightarrow> py_error + scheduler_candidate list" where
  "scheduler_candidates requests now [] = Inr []"
| "scheduler_candidates requests now (t # ts) =
     rbind (candidate_of requests now t) (\<lambda>c.
     rbind (scheduler_candidates requests now ts) (\<lambda>cs.
     Inr (case c of None \<Rightarrow> cs | Some c \<Rightarrow> c # cs)))"

section \<open>Pacing\<close>

definition rotation_due :: "instant option \<Rightarrow> instant \<Rightarrow> int \<Rightarrow> bool" where
  "rotation_due last_rotation now quantum_seconds =
     (case last_rotation of
        None \<Rightarrow> True
      | Some at0 \<Rightarrow> now < at0 \<or> total_seconds (now - at0) \<ge> of_int quantum_seconds)"

definition cycle_quantum :: "(string \<rightharpoonup> option_value) \<Rightarrow> app_error + int" where
  "cycle_quantum options =
     (case options ''WOS_SCHEDULER_CONTROL_INTERVAL_SECONDS'' of
        None \<Rightarrow> Inl (Py KeyError)
      | Some (OInt n) \<Rightarrow> Inr n
      | Some _ \<Rightarrow> Inr 0)"

text \<open>The pause after a cycle of the leader, and after the \<open>n\<close>-th failure in a row, in seconds.\<close>

definition leader_interval :: "(string \<rightharpoonup> option_value) \<Rightarrow> app_error + int" where
  "leader_interval options =
     (case options ''WOS_SCHEDULER_CONTROL_INTERVAL_SECONDS'' of
        None \<Rightarrow> Inl (Py KeyError)
      | Some v \<Rightarrow>
          (let interval = (case v of OInt n \<Rightarrow> n | _ \<Rightarrow> 5)
           in case (options ''WOS_SCHEDULER_DYNAMIC_CONCURRENCY_ENABLED'',
                    options ''WOS_SCHEDULER_DYNAMIC_EVALUATION_SECONDS'') of
                (Some (OBool True), Some (OInt n)) \<Rightarrow> Inr (min interval n)
              | _ \<Rightarrow> Inr interval))"

definition failure_interval :: "nat \<Rightarrow> int" where
  "failure_interval consecutive_failures = min 60 (5 * 2 ^ min (consecutive_failures - 1) 4)"

text \<open>\<open>outcome\<close> is the result of the cycle: an error, or whether this process led it.\<close>

definition guarded_cycle ::
  "(string \<rightharpoonup> option_value) \<Rightarrow> nat \<Rightarrow> app_error + bool \<Rightarrow> int \<times> nat" where
  "guarded_cycle options failures outcome =
     (case rbind outcome (\<lambda>leader. if leader then leader_interval options else Inr 5) of
        Inr interval \<Rightarrow> (interval, 0)
      | Inl _ \<Rightarrow> (let n = (case outcome of Inl _ \<Rightarrow> failures + 1 | Inr _ \<Rightarrow> 1)
                  in (failure_interval n, n)))"

section \<open>Desired controls\<close>

text \<open>A flushed row takes the current time as \<open>updated_at\<close>, by the \<open>onupdate\<close> of the column.\<close>

definition desired_row ::
  "int \<Rightarrow> instant \<Rightarrow> int \<Rightarrow> desired_control \<Rightarrow> managed_torrent \<Rightarrow> managed_torrent" where
  "desired_row generation now rank control t =
     t\<lparr>t_desired_active := (run_state control = RUNNING),
       t_desired_priority := (if run_state control = RUNNING then Some rank else None),
       t_desired_download_limit := download_limit_bytes_per_second control,
       t_schedule_generation := generation, t_updated_at := now\<rparr>"

fun persist_desired_controls ::
  "(string \<rightharpoonup> desired_control) \<Rightarrow> int \<Rightarrow> instant \<Rightarrow> int \<Rightarrow> managed_torrent list
     \<Rightarrow> py_error + managed_torrent list" where
  "persist_desired_controls by_hash generation now rank [] = Inr []"
| "persist_desired_controls by_hash generation now rank (t # ts) =
     (case by_hash (t_info_hash t) of
        None \<Rightarrow> Inl KeyError
      | Some control \<Rightarrow>
          rbind (persist_desired_controls by_hash generation now
                   (if run_state control = RUNNING then rank + 1 else rank) ts) (\<lambda>rows.
          Inr (desired_row generation now rank control t # rows)))"

definition control_of_torrent :: "qb_run_state \<Rightarrow> int \<Rightarrow> managed_torrent \<Rightarrow> desired_control" where
  "control_of_torrent rs limit t =
     \<lparr>dc_info_hash = t_info_hash t, dc_storage_key = t_storage_key t, run_state = rs,
      download_limit_bytes_per_second = limit,
      dc_qbittorrent_account_ref = t_qbittorrent_account_ref t\<rparr>"

definition identity_of_torrent :: "managed_torrent \<Rightarrow> control_identity" where
  "identity_of_torrent t =
     \<lparr>ci_torrent_id = t_id t, ci_info_hash = t_info_hash t, ci_storage_key = t_storage_key t,
      ci_qbittorrent_account_ref = t_qbittorrent_account_ref t\<rparr>"

definition control_event_target ::
  "managed_torrent list \<Rightarrow> managed_torrent list \<Rightarrow> torrent_request
     \<Rightarrow> (uuid \<times> uuid \<times> torrent_event_type) list" where
  "control_event_target previous torrents r =
     (case (find_row t_id (r_managed_torrent_id r) previous, find_row t_id (r_managed_torrent_id r) torrents) of
        (Some before, Some t) \<Rightarrow>
          if t_desired_active t = t_desired_active before then []
          else [(r_user_id r, r_id r,
                 if t_desired_active t
                 then (if t_stall_count t > 0 then EV_RESUMED else EV_STARTED)
                 else EV_PAUSED)]
      | _ \<Rightarrow> [])"

section \<open>Planning a cycle\<close>

record cycle_view =
  cv_state :: scheduler_state
  cv_db :: db
  cv_torrents :: "managed_torrent list"
  cv_requests :: "torrent_request list"
  cv_released :: bool
  cv_candidates :: "scheduler_candidate list"
  cv_retained :: "uuid list"
  cv_input :: selection_input
  cv_config :: dynamic_concurrency_config
  cv_purge_stops :: "managed_torrent list"
  cv_error_stops :: "managed_torrent list"
  cv_rotated :: bool

definition forced_slot :: "managed_torrent \<Rightarrow> bool" where
  "forced_slot t \<longleftrightarrow> t_admin_forced_active t \<and> \<not> t_purge_stop_pending t"

definition cv_schedulable :: "cycle_view \<Rightarrow> managed_torrent list" where
  "cv_schedulable v = filter (\<lambda>t. \<not> forced_slot t) (cv_torrents v)"

definition cv_forced :: "cycle_view \<Rightarrow> managed_torrent list" where
  "cv_forced v = filter forced_slot (cv_torrents v)"

definition write_torrents :: "managed_torrent list \<Rightarrow> db \<Rightarrow> db" where
  "write_torrents ts d = foldl (\<lambda>d t. put_torrent t d) d ts"

definition retained_order :: "managed_torrent \<Rightarrow> int \<times> uuid" where
  "retained_order t = ((case t_desired_priority t of None \<Rightarrow> 2 ^ 30 | Some p \<Rightarrow> p), t_id t)"

definition lift_py :: "py_error + 'a \<Rightarrow> app_error + 'a" where
  "lift_py r = (case r of Inl e \<Rightarrow> Inl (Py e) | Inr x \<Rightarrow> Inr x)"

text \<open>From the lease to the inputs of the selection; \<open>s\<close> is the row of the lease in \<open>d\<close>.\<close>

definition observe_cycle ::
  "(uuid \<Rightarrow> bool) \<Rightarrow> (string \<rightharpoonup> option_value) \<Rightarrow> instant option \<Rightarrow> instant \<Rightarrow> scheduler_state \<Rightarrow> db
     \<Rightarrow> app_error + cycle_view" where
  "observe_cycle locked options last_rotation now s d =
     rbind (lift_py (policy_from_options options)) (\<lambda>base_policy.
     rbind (lift_py (dynamic_config_from_options options)) (\<lambda>config.
     let purge_stops = load_purge_stops locked d;
         error_stops = load_error_stops locked (MAX_SCHEDULER_CONTROL_SET - length purge_stops) d
     in rbind (lift_py (load_control_set s d)) (\<lambda>(s1, loaded).
     let requests = load_active_requests (filter (\<lambda>t. \<not> forced_slot t) loaded) d;
         (schedulable, released) = release_elapsed_cooldowns
           (filter (\<lambda>t. \<not> forced_slot t) loaded) requests now;
         torrents = map (\<lambda>t. case find_row t_id (t_id t) schedulable of None \<Rightarrow> t | Some t' \<Rightarrow> t') loaded;
         d1 = write_torrents schedulable d
     in rbind (lift_py (load_scheduler_ledger s1 d1)) (\<lambda>ledger.
     let (order, complete) = load_fairness_user_order (cursor_user_id ledger) now d1
     in rbind (lift_py (scheduler_candidates requests now schedulable)) (\<lambda>candidates.
     let (s2, dynamic) = apply_dynamic_concurrency s1 torrents candidates config now
     in rbind (lift_py (policy_post_init (base_policy\<lparr>max_active_global := dd_active_limit dynamic\<rparr>))) (\<lambda>policy.
     rbind (cycle_quantum options) (\<lambda>quantum.
     let rotated = rotation_due last_rotation now quantum
     in Inr \<lparr>cv_state = s2, cv_db = d1, cv_torrents = torrents, cv_requests = requests,
             cv_released = released,
             cv_candidates = (if dd_preserve_active_set dynamic
                then filter (\<lambda>c. torrent_id c \<in> set (dd_active_torrent_ids dynamic)) candidates
                else candidates),
             cv_retained = (if rotated \<or> dd_preserve_active_set dynamic then []
                else map t_id (filter t_desired_active (sort_key retained_order schedulable))),
             cv_input = \<lparr>in_policy = policy, in_now = Aware now,
                in_active_global = int (length (filter forced_slot loaded)), in_active_by_user = [],
                in_ledger = Some ledger, in_fair_order = order, in_complete = complete\<rparr>,
             cv_config = config, cv_purge_stops = purge_stops, cv_error_stops = error_stops,
             cv_rotated = rotated\<rparr>)))))))"

record scheduler_plan =
  cy_generation :: int
  cy_stop_controls :: "desired_control list"
  cy_controls :: "desired_control list"
  cy_purge_stops :: "(uuid \<times> int) list"
  cy_error_stops :: "(uuid \<times> int) list"
  cy_forced_stops :: "(uuid \<times> int) list"
  cy_targets :: "(uuid \<times> uuid \<times> torrent_event_type) list"
  cy_queue_changed :: "bool \<times> bool"
  cy_rotated :: bool
  cy_selected :: "uuid list"

definition stop_generations :: "managed_torrent list \<Rightarrow> (uuid \<times> int) list" where
  "stop_generations ts = map (\<lambda>t. (t_id t, t_lifecycle_generation t)) ts"

definition plan_selection ::
  "(string \<rightharpoonup> option_value) \<Rightarrow> instant \<Rightarrow> cycle_view \<Rightarrow> scheduler_result
     \<Rightarrow> app_error + db \<times> scheduler_plan" where
  "plan_selection options now v selection =
     rbind (lift_py (build_qbittorrent_control_plan selection
              (map identity_of_torrent (cv_schedulable v)) options)) (\<lambda>scheduled.
     let generation = ss_desired_generation (cv_state v) + 1
     in rbind (lift_py (persist_desired_controls
                 (map_of (map (\<lambda>c. (dc_info_hash c, c)) (rev scheduled))) generation now 0
                 (cv_schedulable v))) (\<lambda>rows.
     let measured = selected_ids (selected selection) @ map t_id (cv_forced v);
         s = align_measurement_after_selection (cv_state v) (cv_torrents v) measured (cv_config v) now;
         targets = concat (map (control_event_target (cv_schedulable v) rows) (cv_requests v))
     in Inr (persist_scheduler_ledger (s\<lparr>ss_desired_generation := generation\<rparr>)
               (result_ledger selection) now (write_torrents rows (cv_db v)),
             \<lparr>cy_generation = generation,
              cy_stop_controls = map (control_of_torrent STOPPED 0) (cv_purge_stops v @ cv_error_stops v),
              cy_controls = map (\<lambda>t. control_of_torrent RUNNING (t_desired_download_limit t) t) (cv_forced v)
                @ scheduled,
              cy_purge_stops = stop_generations (cv_purge_stops v),
              cy_error_stops = stop_generations (cv_error_stops v),
              cy_forced_stops = stop_generations (filter
                (\<lambda>t. t_admin_forced_active t \<and> t_purge_stop_pending t \<and> \<not> t_desired_active t) rows),
              cy_targets = targets,
              cy_queue_changed = (cv_released v, targets \<noteq> [] \<and> \<not> cv_released v),
              cy_rotated = cv_rotated v,
              cy_selected = selected_ids (selected selection)\<rparr>)))"

definition plan_cycle ::
  "string \<Rightarrow> timedelta \<Rightarrow> (uuid \<Rightarrow> bool) \<Rightarrow> (string \<rightharpoonup> option_value) \<Rightarrow> instant option \<Rightarrow> instant \<Rightarrow> db
     \<Rightarrow> (app_error + db \<times> scheduler_plan option) option" where
  "plan_cycle owner ttl locked options last_rotation now d =
     (case acquire_scheduler_lease owner now ttl d of
        Inl e \<Rightarrow> Some (Inl e)
      | Inr (d1, None) \<Rightarrow> Some (Inr (d1, None))
      | Inr (d1, Some s) \<Rightarrow>
          (case observe_cycle locked options last_rotation now s d1 of
             Inl e \<Rightarrow> Some (Inl e)
           | Inr v \<Rightarrow>
               map_option (\<lambda>r. rbind (lift_py r) (\<lambda>selection.
                   rbind (plan_selection options now v selection) (\<lambda>(d', plan). Inr (d', Some plan))))
                 (select_with_continuity (cv_candidates v) (cv_retained v) (cv_input v))))"

section \<open>Recording the application\<close>

definition planned_stop :: "(uuid \<times> int) list \<Rightarrow> managed_torrent \<Rightarrow> bool" where
  "planned_stop stops t \<longleftrightarrow> map_of stops (t_id t) = Some (t_lifecycle_generation t)"

definition stopped_error_torrent :: "instant \<Rightarrow> managed_torrent \<Rightarrow> managed_torrent" where
  "stopped_error_torrent now t =
     t\<lparr>t_desired_active := False, t_desired_priority := None, t_admin_forced_active := False,
       t_updated_at := now\<rparr>"

definition acknowledge_error :: "scheduler_plan \<Rightarrow> bool \<Rightarrow> instant \<Rightarrow> managed_torrent \<Rightarrow> managed_torrent" where
  "acknowledge_error plan stopped now t =
     (if stopped \<and> t_state t = ERROR \<and> planned_stop (cy_error_stops plan) t
      then stopped_error_torrent now t else t)"

definition acknowledge_forced :: "scheduler_plan \<Rightarrow> instant \<Rightarrow> managed_torrent \<Rightarrow> managed_torrent" where
  "acknowledge_forced plan now t =
     (if planned_stop (cy_forced_stops plan) t \<and> t_purge_stop_pending t \<and> \<not> t_desired_active t
      then t\<lparr>t_admin_forced_active := False, t_purge_stop_pending := False, t_updated_at := now\<rparr> else t)"

definition acknowledge_purge :: "scheduler_plan \<Rightarrow> bool \<Rightarrow> instant \<Rightarrow> managed_torrent \<Rightarrow> managed_torrent" where
  "acknowledge_purge plan stopped now t =
     (if stopped \<and> t_state t = PURGE_PENDING \<and> t_purge_stop_pending t \<and> planned_stop (cy_purge_stops plan) t
      then t\<lparr>t_purge_stop_pending := False, t_updated_at := now\<rparr> else t)"

definition acknowledge_stops :: "scheduler_plan \<Rightarrow> bool \<Rightarrow> instant \<Rightarrow> managed_torrent \<Rightarrow> managed_torrent" where
  "acknowledge_stops plan stopped now t =
     acknowledge_purge plan stopped now (acknowledge_forced plan now (acknowledge_error plan stopped now t))"

definition apply_cycle ::
  "string \<Rightarrow> scheduler_plan \<Rightarrow> bool \<Rightarrow> instant \<Rightarrow> db \<Rightarrow> app_error + db" where
  "apply_cycle owner plan stopped now d =
     rbind (mark_scheduler_generation_applied owner (cy_generation plan) now d) (\<lambda>d1.
     Inr (d1\<lparr>db_torrents := map (acknowledge_stops plan stopped now) (db_torrents d1)\<rparr>))"

end
