(* ===== verification/Scheduler_Lease.thy ===== *)
theory Scheduler_Lease
  imports Scheduler_Runtime
begin

text \<open>
  The scheduler as a set of processes that compete for the lease of the singleton row. Each process
  has its own view: until when it holds the lease, and which generation it planned and has not yet
  recorded. Steps are transactions of any process at the current time, in any order, changes of the
  rest of the database, and the passing of time.
\<close>

section \<open>What a cycle does to the scheduler row\<close>

type_synonym lease_fields = "string option \<times> instant option \<times> int \<times> int"

definition lease_of :: "scheduler_state \<Rightarrow> lease_fields" where
  "lease_of s = (ss_lease_owner s, ss_lease_expires_at s, ss_desired_generation s, ss_applied_generation s)"

definition lease_view :: "db \<Rightarrow> lease_fields option" where
  "lease_view d = map_option lease_of (db_scheduler d)"

text \<open>The fields only the lease, the plan and the scan of the queue write; the measurements keep them.\<close>

definition static_of :: "scheduler_state \<Rightarrow> lease_fields \<times> instant option \<times> uuid option" where
  "static_of s = (lease_of s, ss_scan_cursor_created_at s, ss_scan_cursor_id s)"

lemma static_lease: "static_of s' = static_of s \<Longrightarrow> lease_of s' = lease_of s"
  by (simp add: static_of_def)

lemmas measurement_defs = static_of_def lease_of_def start_measurement_def clear_measurement_def

lemma static_of_window: "evaluate_window config n observed s = (s', scaled) \<Longrightarrow> static_of s' = static_of s"
  by (auto simp: evaluate_window_def measurement_defs split: if_splits)

lemma static_of_running: "measure_running config active n now s = (s', res) \<Longrightarrow> static_of s' = static_of s"
  unfolding measure_running_def Let_def
  by (auto split: option.splits if_splits prod.splits dest!: static_of_window) (simp_all add: measurement_defs)

lemma static_of_dynamic:
  assumes "apply_dynamic_concurrency s torrents cs config now = (s', res)"
  shows "static_of s' = static_of s"
  using assms unfolding apply_dynamic_concurrency_def Let_def completion_cooldown_def
  by (auto split: option.splits if_splits dest!: static_of_running) (simp_all add: measurement_defs)

lemma static_of_align [simp]:
  "static_of (align_measurement_after_selection s torrents ids config now) = static_of s"
  by (simp add: align_measurement_after_selection_def Let_def measurement_defs)

lemma lease_of_align [simp]:
  "lease_of (align_measurement_after_selection s torrents ids config now) = lease_of s"
  by (rule static_lease) simp

lemma lease_of_cursor [simp]: "lease_of (moved_cursor w s) = lease_of s"
  by (simp add: moved_cursor_def lease_of_def)

lemma lift_py_Inr [simp]: "lift_py r = Inr x \<longleftrightarrow> r = Inr x"
  by (simp add: lift_py_def split: sum.splits)

lemma acquire_cases:
  assumes "acquire_scheduler_lease owner now ttl d = Inr (d', r)"
  obtains (refused) "r = None" "lease_taken owner now (ensure_scheduler_state now d)"
      "d' = d\<lparr>db_scheduler := Some (ensure_scheduler_state now d)\<rparr>"
  | (leased) s where "r = Some s" "\<not> lease_taken owner now (ensure_scheduler_state now d)"
      "s = leased_state owner now ttl (ensure_scheduler_state now d)" "d' = d\<lparr>db_scheduler := Some s\<rparr>" "0 < ttl"
  using assms by (auto simp: acquire_scheduler_lease_def rbind_Inr_iff require_Inr_iff Let_def split: if_splits)

lemma write_torrents_frame [simp]:
  "db_scheduler (write_torrents ts d) = db_scheduler d" "db_requests (write_torrents ts d) = db_requests d"
  "db_jobs (write_torrents ts d) = db_jobs d" "db_leases (write_torrents ts d) = db_leases d"
  "db_usages (write_torrents ts d) = db_usages d" "db_ledger (write_torrents ts d) = db_ledger d"
  "db_deficits (write_torrents ts d) = db_deficits d" "db_users (write_torrents ts d) = db_users d"
  by (induction ts arbitrary: d) (simp_all add: write_torrents_def put_torrent_def)

lemma observe_cases:
  assumes "observe_cycle locked options last_rotation now s d = Inr v"
  obtains s1 loaded requests schedulable released config ledger cs s2 dyn base policy where
    "load_control_set s d = Inr (s1, loaded)"
    "requests = load_active_requests (filter (\<lambda>t. \<not> forced_slot t) loaded) d"
    "release_elapsed_cooldowns (filter (\<lambda>t. \<not> forced_slot t) loaded) requests now = (schedulable, released)"
    "dynamic_config_from_options options = Inr config"
    "load_scheduler_ledger s1 (write_torrents schedulable d) = Inr ledger"
    "scheduler_candidates requests now schedulable = Inr cs"
    "cv_torrents v = map (\<lambda>t. case find_row t_id (t_id t) schedulable of None \<Rightarrow> t | Some t' \<Rightarrow> t') loaded"
    "apply_dynamic_concurrency s1 (cv_torrents v) cs config now = (s2, dyn)"
    "policy_post_init (base\<lparr>max_active_global := dd_active_limit dyn\<rparr>) = Inr policy"
    "cv_state v = s2" "cv_db v = write_torrents schedulable d" "cv_requests v = requests"
    "cv_config v = config" "in_policy (cv_input v) = policy" "in_ledger (cv_input v) = Some ledger"
    "set (cv_candidates v) \<subseteq> set cs"
    "cv_purge_stops v = load_purge_stops locked d"
    "cv_error_stops v = load_error_stops locked (MAX_SCHEDULER_CONTROL_SET - length (load_purge_stops locked d)) d"
    "cv_retained v \<in> {[], map t_id (filter t_desired_active (sort_key retained_order schedulable))}"
    "in_active_global (cv_input v) = int (length (filter forced_slot loaded))"
proof -
  obtain s1 loaded where l: "load_control_set s d = Inr (s1, loaded)"
    using assms by (fastforce simp: observe_cycle_def rbind_Inr_iff Let_def)
  obtain schedulable released where
    r: "release_elapsed_cooldowns (filter (\<lambda>t. \<not> forced_slot t) loaded)
      (load_active_requests (filter (\<lambda>t. \<not> forced_slot t) loaded) d) now = (schedulable, released)"
    by fastforce
  obtain ledger where le: "load_scheduler_ledger s1 (write_torrents schedulable d) = Inr ledger"
    using assms by (auto simp: observe_cycle_def rbind_Inr_iff Let_def l r)
  obtain order complete where
    f: "load_fairness_user_order (cursor_user_id ledger) now (write_torrents schedulable d) = (order, complete)"
    by fastforce
  obtain config cs where c: "dynamic_config_from_options options = Inr config"
    and cs: "scheduler_candidates (load_active_requests (filter (\<lambda>t. \<not> forced_slot t) loaded) d) now schedulable = Inr cs"
    using assms by (auto simp: observe_cycle_def rbind_Inr_iff Let_def l r le f)
  let ?ts = "map (\<lambda>t. case find_row t_id (t_id t) schedulable of None \<Rightarrow> t | Some t' \<Rightarrow> t') loaded"
  obtain s2 dyn where dyn: "apply_dynamic_concurrency s1 ?ts cs config now = (s2, dyn)" by fastforce
  obtain base policy quantum where
    p: "policy_post_init (base\<lparr>max_active_global := dd_active_limit dyn\<rparr>) = Inr policy"
    and b: "policy_from_options options = Inr base" and q: "cycle_quantum options = Inr quantum"
    using assms by (auto simp: observe_cycle_def rbind_Inr_iff Let_def l r le f c cs dyn)
  note eqs = l r le f c cs dyn p b q
  have v: "cv_state v = s2" "cv_db v = write_torrents schedulable d"
    "cv_requests v = load_active_requests (filter (\<lambda>t. \<not> forced_slot t) loaded) d" "cv_torrents v = ?ts"
    "cv_config v = config" "in_policy (cv_input v) = policy" "in_ledger (cv_input v) = Some ledger"
    "cv_purge_stops v = load_purge_stops locked d"
    "cv_error_stops v = load_error_stops locked (MAX_SCHEDULER_CONTROL_SET - length (load_purge_stops locked d)) d"
    "in_active_global (cv_input v) = int (length (filter forced_slot loaded))"
    using assms by (auto simp: observe_cycle_def rbind_Inr_iff Let_def eqs)
  have w: "set (cv_candidates v) \<subseteq> set cs"
    "cv_retained v \<in> {[], map t_id (filter t_desired_active (sort_key retained_order schedulable))}"
    using assms by (auto simp: observe_cycle_def rbind_Inr_iff Let_def eqs split: if_splits)
  show thesis
    by (rule that [OF l refl r c le cs]) (use dyn p v w in simp_all)
qed

lemma persist_ledger_row [simp]:
  "lease_view (persist_scheduler_ledger s l now d) = Some (lease_of s)"
  by (simp add: lease_view_def persist_scheduler_ledger_def lease_of_def)

lemma plan_selection_lease:
  assumes "plan_selection options now v selection = Inr (d', plan)"
  shows "cy_generation plan = ss_desired_generation (cv_state v) + 1"
    and "lease_view d' = Some (ss_lease_owner (cv_state v), ss_lease_expires_at (cv_state v),
      cy_generation plan, ss_applied_generation (cv_state v))"
proof -
  have align: "lease_of (align_measurement_after_selection (cv_state v) ts ids c now) = lease_of (cv_state v)"
    for ts ids c by simp
  show "cy_generation plan = ss_desired_generation (cv_state v) + 1"
    using assms by (auto simp: plan_selection_def rbind_Inr_iff Let_def)
  then show "lease_view d' = Some (ss_lease_owner (cv_state v), ss_lease_expires_at (cv_state v),
      cy_generation plan, ss_applied_generation (cv_state v))"
    using assms by (auto simp: plan_selection_def rbind_Inr_iff Let_def)
      (use align [unfolded lease_of_def] in \<open>simp add: lease_of_def\<close>)
qed

lemma control_set_lease: "load_control_set s d = Inr (s1, loaded) \<Longrightarrow> lease_of s1 = lease_of s"
  by (auto simp: load_control_set_def Let_def split: if_splits)

lemma observe_cycle_lease:
  assumes "observe_cycle locked options last_rotation now s d = Inr v"
  shows "lease_of (cv_state v) = lease_of s"
  using assms
proof (cases rule: observe_cases)
  case (1 s1 loaded requests schedulable released config ledger cs s2 dyn base policy)
  then show ?thesis using control_set_lease static_lease [OF static_of_dynamic] by metis
qed

lemma plan_cycle_cases:
  assumes "plan_cycle owner ttl locked options last_rotation now d = Some (Inr (d', r))"
  obtains (refused) "r = None" "acquire_scheduler_lease owner now ttl d = Inr (d', None)"
  | (planned) d1 s v selection plan where "r = Some plan"
      "acquire_scheduler_lease owner now ttl d = Inr (d1, Some s)"
      "observe_cycle locked options last_rotation now s d1 = Inr v"
      "select_with_continuity (cv_candidates v) (cv_retained v) (cv_input v) = Some (Inr selection)"
      "plan_selection options now v selection = Inr (d', plan)"
  using assms
  by (auto simp: plan_cycle_def rbind_Inr_iff split: sum.splits option.splits)

section \<open>What a transaction does to the lease\<close>

text \<open>The four transactions, seen through the lease and the two generations only.\<close>

definition free_for :: "string \<Rightarrow> instant \<Rightarrow> lease_fields option \<Rightarrow> bool" where
  "free_for owner now l =
     (case l of Some (Some p, Some e, _) \<Rightarrow> p = owner \<or> e \<le> now | _ \<Rightarrow> True)"

definition generations :: "lease_fields option \<Rightarrow> int \<times> int" where
  "generations l = (case l of None \<Rightarrow> (0, 0) | Some (_, _, g, a) \<Rightarrow> (g, a))"

lemma ensured_lease:
  "lease_of (ensure_scheduler_state now d) =
     (case lease_view d of None \<Rightarrow> (None, None, 0, 0) | Some l \<Rightarrow> l)"
  by (simp add: ensure_scheduler_state_def lease_view_def lease_of_def new_scheduler_state_def
      split: option.splits)

lemma lease_taken_iff:
  "lease_taken owner now (ensure_scheduler_state now d) \<longleftrightarrow> \<not> free_for owner now (lease_view d)"
  by (auto simp: ensure_scheduler_state_def lease_view_def lease_of_def lease_taken_def free_for_def
      new_scheduler_state_def split: option.splits)

lemma acquire_lease:
  assumes "acquire_scheduler_lease owner now ttl d = Inr (d', r)"
  obtains (refused) "r = None" "\<not> free_for owner now (lease_view d)" "lease_view d' = lease_view d"
  | (leased) s where "r = Some s" "db_scheduler d' = Some s" "free_for owner now (lease_view d)" "0 < ttl"
      "lease_view d' = Some (Some owner, Some (now + ttl), generations (lease_view d))"
  using assms
proof (cases rule: acquire_cases)
  case refused
  have "lease_view d' = lease_view d"
    using refused by (auto simp: lease_view_def lease_taken_def ensure_scheduler_state_def
        new_scheduler_state_def split: option.splits)
  with refused that(1) show ?thesis by (simp add: lease_taken_iff)
next
  case (leased s)
  have "generations (lease_view d) =
      (ss_desired_generation (ensure_scheduler_state now d), ss_applied_generation (ensure_scheduler_state now d))"
    using ensured_lease [of now d] by (auto simp: lease_of_def generations_def split: option.splits)
  with leased that(2) show ?thesis
    by (simp add: lease_taken_iff) (simp add: lease_view_def lease_of_def leased_state_def)
qed

lemma plan_cycle_lease:
  assumes "plan_cycle owner ttl locked options last_rotation now d = Some (Inr (d', r))"
  obtains (refused) "r = None" "\<not> free_for owner now (lease_view d)" "lease_view d' = lease_view d"
  | (planned) plan where "r = Some plan" "free_for owner now (lease_view d)" "0 < ttl"
      "cy_generation plan = fst (generations (lease_view d)) + 1"
      "lease_view d' = Some (Some owner, Some (now + ttl), cy_generation plan, snd (generations (lease_view d)))"
  using assms
proof (cases rule: plan_cycle_cases)
  case refused
  then show ?thesis using that(1) by (auto elim: acquire_lease)
next
  case (planned d1 s v selection plan)
  from planned(2) show ?thesis
  proof (cases rule: acquire_lease)
    case (leased s')
    have "lease_of (cv_state v) = (Some owner, Some (now + ttl), generations (lease_view d))"
      using observe_cycle_lease [OF planned(3)] leased by (simp add: lease_view_def)
    then show ?thesis
      using that(2) [OF planned(1)] plan_selection_lease [OF planned(5)] leased
      by (cases "generations (lease_view d)") (simp add: lease_of_def)
  qed simp
qed

lemma mark_applied_lease:
  assumes "mark_scheduler_generation_applied owner g now d = Inr d'"
  obtains e where "lease_view d' = Some (Some owner, e, g, g)" "db_torrents d' = db_torrents d"
    "\<exists>a. lease_view d = Some (Some owner, e, g, a)"
  using assms by (auto simp: mark_scheduler_generation_applied_def lease_view_def lease_of_def
      split: option.splits if_splits)

lemma apply_cycle_lease:
  assumes "apply_cycle owner plan stopped now d = Inr d'"
  obtains e a where "lease_view d = Some (Some owner, e, cy_generation plan, a)"
    "lease_view d' = Some (Some owner, e, cy_generation plan, cy_generation plan)"
proof -
  obtain d1 where m: "mark_scheduler_generation_applied owner (cy_generation plan) now d = Inr d1"
    and d': "d' = d1\<lparr>db_torrents := map (acknowledge_stops plan stopped now) (db_torrents d1)\<rparr>"
    using assms by (auto simp: apply_cycle_def rbind_Inr_iff)
  have "lease_view d' = lease_view d1" by (simp add: d' lease_view_def)
  with m that show thesis by (auto elim!: mark_applied_lease)
qed

lemma release_lease:
  "lease_view (release_scheduler_lease owner now d) =
     (case lease_view d of
        Some (Some p, l) \<Rightarrow> if p = owner then Some (None, None, snd l) else lease_view d
      | l \<Rightarrow> l)"
  by (auto simp: release_scheduler_lease_def lease_view_def lease_of_def split: option.splits)

section \<open>The competing schedulers\<close>

text \<open>
  \<open>el_held p\<close>: until when process \<open>p\<close> believes to hold the lease. \<open>el_plan p\<close>: the plan \<open>p\<close> is
  applying. A process reads its clock before its transaction runs, so the time it uses is any past one.
\<close>

record election =
  el_db :: db
  el_now :: instant
  el_held :: "string \<Rightarrow> instant option"
  el_plan :: "string \<Rightarrow> scheduler_plan option"

definition election_init :: "election \<Rightarrow> bool" where
  "election_init e \<longleftrightarrow> db_scheduler (el_db e) = None \<and> el_held e = (\<lambda>_. None) \<and> el_plan e = (\<lambda>_. None)"

inductive election_step :: "timedelta \<Rightarrow> election \<Rightarrow> election \<Rightarrow> bool" for ttl where
  el_lease: "now \<le> el_now e \<Longrightarrow> acquire_scheduler_lease p now ttl (el_db e) = Inr (d', r) \<Longrightarrow>
    election_step ttl e (e\<lparr>el_db := d', el_held := (el_held e)(p := map_option (\<lambda>_. now + ttl) r)\<rparr>)"
| el_planning: "now \<le> el_now e \<Longrightarrow>
    plan_cycle p ttl locked options last_rotation now (el_db e) = Some (Inr (d', r)) \<Longrightarrow>
    election_step ttl e (e\<lparr>el_db := d', el_held := (el_held e)(p := map_option (\<lambda>_. now + ttl) r),
      el_plan := (el_plan e)(p := r)\<rparr>)"
| el_applied: "now \<le> el_now e \<Longrightarrow> el_plan e p = Some plan \<Longrightarrow>
    apply_cycle p plan stopped now (el_db e) = Inr d' \<Longrightarrow>
    election_step ttl e (e\<lparr>el_db := d', el_plan := (el_plan e)(p := None)\<rparr>)"
| el_failed: "election_step ttl e (e\<lparr>el_plan := (el_plan e)(p := None)\<rparr>)"
| el_crashed: "election_step ttl e (e\<lparr>el_held := (el_held e)(p := None), el_plan := (el_plan e)(p := None)\<rparr>)"
| el_released: "now \<le> el_now e \<Longrightarrow>
    election_step ttl e (e\<lparr>el_db := release_scheduler_lease p now (el_db e),
      el_held := (el_held e)(p := None), el_plan := (el_plan e)(p := None)\<rparr>)"
| el_elsewhere: "lease_view d' = lease_view (el_db e) \<Longrightarrow> election_step ttl e (e\<lparr>el_db := d'\<rparr>)"
| el_tick: "el_now e \<le> now \<Longrightarrow> election_step ttl e (e\<lparr>el_now := now\<rparr>)"

definition leading :: "election \<Rightarrow> string \<Rightarrow> bool" where
  "leading e p \<longleftrightarrow> (case el_held e p of None \<Rightarrow> False | Some u \<Rightarrow> el_now e < u)"

definition election_inv :: "election \<Rightarrow> bool" where
  "election_inv e \<longleftrightarrow>
     (\<forall>p u. el_held e p = Some u \<and> el_now e < u \<longrightarrow>
        (\<exists>g. lease_view (el_db e) = Some (Some p, Some u, g)))
     \<and> (\<forall>p P. el_plan e p = Some P \<longrightarrow> cy_generation P \<le> fst (generations (lease_view (el_db e))))
     \<and> (\<forall>p q P Q. el_plan e p = Some P \<and> el_plan e q = Some Q \<and> cy_generation P = cy_generation Q \<longrightarrow> p = q)
     \<and> snd (generations (lease_view (el_db e))) \<le> fst (generations (lease_view (el_db e)))"

lemma election_invI:
  assumes "\<And>p u. el_held e p = Some u \<Longrightarrow> el_now e < u \<Longrightarrow> \<exists>g. lease_view (el_db e) = Some (Some p, Some u, g)"
    and "\<And>p P. el_plan e p = Some P \<Longrightarrow> cy_generation P \<le> fst (generations (lease_view (el_db e)))"
    and "\<And>p q P Q. el_plan e p = Some P \<Longrightarrow> el_plan e q = Some Q \<Longrightarrow> cy_generation P = cy_generation Q \<Longrightarrow> p = q"
    and "snd (generations (lease_view (el_db e))) \<le> fst (generations (lease_view (el_db e)))"
  shows "election_inv e"
  using assms unfolding election_inv_def by blast

lemma election_invD:
  assumes "election_inv e"
  shows "el_held e p = Some u \<Longrightarrow> el_now e < u \<Longrightarrow> \<exists>g. lease_view (el_db e) = Some (Some p, Some u, g)"
    and "el_plan e p = Some P \<Longrightarrow> cy_generation P \<le> fst (generations (lease_view (el_db e)))"
    and "el_plan e p = Some P \<Longrightarrow> el_plan e q = Some Q \<Longrightarrow> cy_generation P = cy_generation Q \<Longrightarrow> p = q"
    and "snd (generations (lease_view (el_db e))) \<le> fst (generations (lease_view (el_db e)))"
  using assms unfolding election_inv_def by blast+

text \<open>While somebody leads, the lease is free for nobody else, whatever past time is used.\<close>

lemma leading_excludes:
  assumes "election_inv e" "el_held e p = Some u" "el_now e < u" "now \<le> el_now e"
    and "free_for q now (lease_view (el_db e))"
  shows "p = q"
  using election_invD(1) [OF assms(1-3)] assms(3-5) by (auto simp: free_for_def)

lemma lease_step_inv:
  assumes inv: "election_inv e" and now: "now \<le> el_now e"
    and free: "free_for p now (lease_view (el_db e))"
    and view: "lease_view d' = Some (Some p, Some (now + ttl), g, a)"
    and g: "fst (generations (lease_view (el_db e))) \<le> g" "a = snd (generations (lease_view (el_db e)))"
    and plans: "\<And>q Q. pl q = Some Q \<Longrightarrow> el_plan e q = Some Q \<or> (q = p \<and> cy_generation Q = g
        \<and> fst (generations (lease_view (el_db e))) < g)"
  shows "election_inv (e\<lparr>el_db := d', el_held := (el_held e)(p := Some (now + ttl)), el_plan := pl\<rparr>)"
proof (rule election_invI, goal_cases)
  case (1 q u)
  show ?case
  proof (cases "q = p")
    case True
    then show ?thesis using 1 by (simp add: view)
  next
    case False
    then show ?thesis using 1 leading_excludes [OF inv _ _ now free, of q] by simp
  qed
next
  case (2 q Q)
  then show ?case using plans [of q Q] election_invD(2) [OF inv, of q Q] g by (auto simp: generations_def view)
next
  case (3 q q' Q Q')
  then have eq: "cy_generation Q = cy_generation Q'" and Q: "pl q = Some Q" "pl q' = Some Q'" by simp_all
  have old: "cy_generation X < g" if "el_plan e r = Some X" "fst (generations (lease_view (el_db e))) < g" for r X
    using election_invD(2) [OF inv that(1)] that(2) by linarith
  from plans [OF Q(1)] plans [OF Q(2)] eq show ?case
    by (elim disjE conjE) (use election_invD(3) [OF inv] old in \<open>blast | force\<close>)+
next
  case 4
  then show ?case using election_invD(4) [OF inv] g by (simp add: generations_def view)
qed

text \<open>Forgetting the lease or a plan keeps the invariant, as long as the generations do not fall.\<close>

lemma forget_step_inv:
  assumes inv: "election_inv e"
    and view: "\<And>q u g. h q = Some u \<Longrightarrow> lease_view (el_db e) = Some (Some q, Some u, g)
        \<Longrightarrow> \<exists>g'. lease_view d' = Some (Some q, Some u, g')"
    and g: "fst (generations (lease_view d')) = fst (generations (lease_view (el_db e)))"
      "snd (generations (lease_view d')) \<le> fst (generations (lease_view d'))"
    and n: "el_now e \<le> n"
    and h: "\<And>q u. h q = Some u \<Longrightarrow> el_held e q = Some u"
    and pl: "\<And>q Q. pl q = Some Q \<Longrightarrow> el_plan e q = Some Q"
  shows "election_inv \<lparr>el_db = d', el_now = n, el_held = h, el_plan = pl\<rparr>"
proof (rule election_invI, goal_cases)
  case (1 q u)
  then have "el_held e q = Some u" "el_now e < u" "h q = Some u" using h n by auto
  then show ?case using election_invD(1) [OF inv, of q u] view [of q u] by auto
next
  case (2 q Q)
  then show ?case using pl election_invD(2) [OF inv, of q Q] g by simp
next
  case (3 q q' Q Q')
  then show ?case using pl [of q Q] pl [of q' Q'] election_invD(3) [OF inv, of q Q q' Q'] by simp
next
  case 4
  then show ?case using g by simp
qed

lemma election_step_inv:
  assumes "election_step ttl e e'" "election_inv e"
  shows "election_inv e'"
  using assms
proof (induction rule: election_step.induct)
  case (el_lease now e p d' r)
  from el_lease(2) show ?case
  proof (cases rule: acquire_lease)
    case refused
    have "election_inv \<lparr>el_db = d', el_now = el_now e, el_held = (el_held e)(p := None), el_plan = el_plan e\<rparr>"
      by (rule forget_step_inv [OF el_lease(3)]) (use refused election_invD(4) [OF el_lease(3)] in \<open>auto split: if_splits\<close>)
    then show ?thesis using refused by (cases e) simp
  next
    case (leased s)
    obtain g a where ga: "generations (lease_view (el_db e)) = (g, a)" by fastforce
    have "election_inv (e\<lparr>el_db := d', el_held := (el_held e)(p := Some (now + ttl)), el_plan := el_plan e\<rparr>)"
      by (rule lease_step_inv [OF el_lease(3,1) leased(3), where g = g and a = a]) (use leased ga in auto)
    then show ?thesis using leased by (cases e) simp
  qed
next
  case (el_planning now e p locked options last_rotation d' r)
  from el_planning(2) show ?case
  proof (cases rule: plan_cycle_lease)
    case refused
    have "election_inv \<lparr>el_db = d', el_now = el_now e, el_held = (el_held e)(p := None), el_plan = (el_plan e)(p := None)\<rparr>"
      by (rule forget_step_inv [OF el_planning(3)])
        (use refused election_invD(4) [OF el_planning(3)] in \<open>auto split: if_splits\<close>)
    then show ?thesis using refused by (cases e) simp
  next
    case (planned plan)
    have "election_inv (e\<lparr>el_db := d', el_held := (el_held e)(p := Some (now + ttl)),
        el_plan := (el_plan e)(p := Some plan)\<rparr>)"
      by (rule lease_step_inv [OF el_planning(3,1) planned(2), where g = "cy_generation plan"])
        (use planned in \<open>auto split: if_splits\<close>)
    then show ?thesis using planned by simp
  qed
next
  case (el_applied now e p plan stopped d')
  from el_applied(3) obtain x a where l: "lease_view (el_db e) = Some (Some p, x, cy_generation plan, a)"
    "lease_view d' = Some (Some p, x, cy_generation plan, cy_generation plan)" by (rule apply_cycle_lease)
  have "election_inv \<lparr>el_db = d', el_now = el_now e, el_held = el_held e, el_plan = (el_plan e)(p := None)\<rparr>"
    by (rule forget_step_inv [OF el_applied(4)]) (use l in \<open>auto simp: generations_def split: if_splits\<close>)
  then show ?case by (cases e) simp
next
  case (el_failed e p)
  have "election_inv \<lparr>el_db = el_db e, el_now = el_now e, el_held = el_held e, el_plan = (el_plan e)(p := None)\<rparr>"
    by (rule forget_step_inv [OF el_failed]) (use election_invD(4) [OF el_failed] in \<open>auto split: if_splits\<close>)
  then show ?case by (cases e) simp
next
  case (el_crashed e p)
  have "election_inv \<lparr>el_db = el_db e, el_now = el_now e, el_held = (el_held e)(p := None), el_plan = (el_plan e)(p := None)\<rparr>"
    by (rule forget_step_inv [OF el_crashed]) (use election_invD(4) [OF el_crashed] in \<open>auto split: if_splits\<close>)
  then show ?case by (cases e) simp
next
  case (el_released now e p)
  have "election_inv \<lparr>el_db = release_scheduler_lease p now (el_db e), el_now = el_now e,
      el_held = (el_held e)(p := None), el_plan = (el_plan e)(p := None)\<rparr>"
    by (rule forget_step_inv [OF el_released(2)])
      (use election_invD(4) [OF el_released(2)] in
        \<open>auto simp: release_lease generations_def split: if_splits option.splits\<close>)
  then show ?case by (cases e) simp
next
  case (el_elsewhere d' e)
  have "election_inv \<lparr>el_db = d', el_now = el_now e, el_held = el_held e, el_plan = el_plan e\<rparr>"
    by (rule forget_step_inv [OF el_elsewhere(2)]) (use el_elsewhere(1) election_invD(4) [OF el_elsewhere(2)] in auto)
  then show ?case by (cases e) simp
next
  case (el_tick e now)
  have "election_inv \<lparr>el_db = el_db e, el_now = now, el_held = el_held e, el_plan = el_plan e\<rparr>"
    by (rule forget_step_inv [OF el_tick(2)]) (use el_tick(1) election_invD(4) [OF el_tick(2)] in auto)
  then show ?case by (cases e) simp
qed

lemma election_init_inv: "election_init e \<Longrightarrow> election_inv e"
  by (rule election_invI) (simp_all add: election_init_def lease_view_def generations_def)

interpretation election: invariant_system election_init "election_step ttl" election_inv for ttl
  by unfold_locales (auto intro: election_init_inv election_step_inv)

section \<open>A database with two torrents in the queue\<close>

definition ex_scheduler_options :: "string \<rightharpoonup> option_value" where
  "ex_scheduler_options =
     [''WOS_SCHEDULER_MAX_ACTIVE_GLOBAL'' \<mapsto> OInt 10, ''WOS_SCHEDULER_MAX_ACTIVE_PER_USER'' \<mapsto> OInt 2,
      ''WOS_SCHEDULER_SMALL_TORRENT_BYTES'' \<mapsto> OInt 1000, ''WOS_SCHEDULER_MEDIUM_TORRENT_BYTES'' \<mapsto> OInt 5000,
      ''WOS_SCHEDULER_DEFICIT_QUANTUM'' \<mapsto> OInt 4, ''WOS_SCHEDULER_AGING_INTERVAL_SECONDS'' \<mapsto> OInt 3600,
      ''WOS_SCHEDULER_AGING_MAX_BONUS'' \<mapsto> OInt 2, ''WOS_SCHEDULER_CONTROL_INTERVAL_SECONDS'' \<mapsto> OInt 60,
      ''WOS_SCHEDULER_DYNAMIC_CONCURRENCY_ENABLED'' \<mapsto> OBool True,
      ''WOS_SCHEDULER_DYNAMIC_INITIAL_ACTIVE'' \<mapsto> OInt 1, ''WOS_SCHEDULER_DYNAMIC_MIN_BYTES_PER_SECOND'' \<mapsto> OInt 1000,
      ''WOS_SCHEDULER_DYNAMIC_TARGET_BYTES_PER_SECOND'' \<mapsto> OInt 2000,
      ''WOS_SCHEDULER_DYNAMIC_EVALUATION_SECONDS'' \<mapsto> OInt 60, ''WOS_SCHEDULER_DYNAMIC_STEP'' \<mapsto> OInt 1,
      ''WOS_SCHEDULER_DYNAMIC_MAX_ACTIVE'' \<mapsto> OInt 4,
      ''WOS_QB_DOWNLOAD_MAX_BYTES_PER_SECOND_GLOBAL'' \<mapsto> OInt 900]"

definition ex_queued_torrent :: "uuid \<Rightarrow> char \<Rightarrow> managed_torrent" where
  "ex_queued_torrent i c =
     (ex_running_torrent i c 0)\<lparr>t_state := PAUSED, t_desired_active := False, t_desired_priority := None,
       t_progress := 1 / 4\<rparr>"

definition ex_queued_request :: "uuid \<Rightarrow> uuid \<Rightarrow> uuid \<Rightarrow> torrent_request" where
  "ex_queued_request i u t =
     \<lparr>r_id = i, r_user_id = u, r_managed_torrent_id = t, r_state = R_ACTIVE, r_ready_at = None,
      r_unsubscribe_at = None, r_cancelled_at = None, r_expires_at = None, r_created_at = 0, r_updated_at = 0\<rparr>"

definition ex_queued_db :: db where
  "ex_queued_db = empty_db
     \<lparr>db_users := map (\<lambda>i. \<lparr>u_id = i, u_username = ''u'', u_is_admin = False, u_is_active = True, u_deleted_at = None\<rparr>) [10, 11],
      db_torrents := [ex_queued_torrent 1 (CHR ''a''), ex_queued_torrent 2 (CHR ''b'')],
      db_requests := [ex_queued_request 21 10 1, ex_queued_request 22 11 2]\<rparr>"

definition ex_leased :: scheduler_state where
  "ex_leased = leased_state ''a'' 100 (seconds 30) (new_scheduler_state 100)"

definition ex_view :: cycle_view where
  "ex_view =
     (case observe_cycle (\<lambda>_. False) ex_scheduler_options None 100 ex_leased
             (ex_queued_db\<lparr>db_scheduler := Some ex_leased\<rparr>) of
        Inr v \<Rightarrow> v)"

definition ex_queue_candidate :: "uuid \<Rightarrow> uuid \<Rightarrow> scheduler_candidate" where
  "ex_queue_candidate t u =
     \<lparr>torrent_id = t, user_id = u, remaining_bytes = 75000, queued_at = Aware 0, user_weight = 1,
      stalled = False, beneficiary_user_ids = [], beneficiary_weights = []\<rparr>"

definition ex_queue_policy :: scheduler_policy where
  "ex_queue_policy =
     \<lparr>max_active_global = 1, max_active_per_user = 2, small_torrent_bytes = 1000,
      medium_torrent_bytes = 5000, deficit_quantum = 4, aging_interval_seconds = 3600, aging_max_bonus = 2\<rparr>"

definition ex_queue_input :: selection_input where
  "ex_queue_input =
     \<lparr>in_policy = ex_queue_policy, in_now = Aware 100, in_active_global = 0, in_active_by_user = [],
      in_ledger = Some \<lparr>ledger_deficits = [], ledger_rounds = 0, cursor_user_id = None\<rparr>,
      in_fair_order = [], in_complete = False\<rparr>"

definition ex_queue_result :: scheduler_result where
  "ex_queue_result =
     \<lparr>selected = [decision ex_queue_policy (ex_queue_candidate 1 10) 100 10],
      result_ledger = \<lparr>ledger_deficits = [], ledger_rounds = 1, cursor_user_id = Some 10\<rparr>,
      stalled_torrent_ids = [], capacity_remaining = 0\<rparr>"

lemma ex_view_ok:
  "observe_cycle (\<lambda>_. False) ex_scheduler_options None 100 ex_leased
     (ex_queued_db\<lparr>db_scheduler := Some ex_leased\<rparr>) = Inr ex_view"
  by code_simp

lemma ex_view_candidates: "cv_candidates ex_view = [ex_queue_candidate 1 10, ex_queue_candidate 2 11]"
  by code_simp

lemma ex_view_retained: "cv_retained ex_view = []"
  by code_simp

lemma ex_view_input: "cv_input ex_view = ex_queue_input"
  by code_simp

lemma ex_queue_selection:
  "select_with_continuity [ex_queue_candidate 1 10, ex_queue_candidate 2 11] [] ex_queue_input =
     Some (Inr ex_queue_result)"
  by code_simp

lemma ex_plan_selection: "\<not> isl (plan_selection ex_scheduler_options 100 ex_view ex_queue_result)"
  by code_simp

section \<open>The properties\<close>

text \<open>
  C4: in every reachable state of schedulers that compete for the lease (transactions in any order,
  with any past clock reading, crashes, lost leases, and any other transaction that leaves the lease
  alone), at most one process believes to hold an unexpired lease; no two processes hold plans of the
  same generation; the recorded generation is never ahead of the desired one; and a plan that can
  still be recorded is the newest of all.
\<close>
theorem scheduler_leader_unique:
  assumes "reach election_init (election_step ttl) e"
  shows "(leading e p \<and> leading e q \<longrightarrow> p = q)
    \<and> (\<forall>P Q. el_plan e p = Some P \<and> el_plan e q = Some Q \<and> cy_generation P = cy_generation Q \<longrightarrow> p = q)
    \<and> (\<forall>s. db_scheduler (el_db e) = Some s \<longrightarrow> ss_applied_generation s \<le> ss_desired_generation s)
    \<and> (\<forall>P Q d'. el_plan e q = Some Q \<and> apply_cycle p P stopped now (el_db e) = Inr d'
        \<longrightarrow> cy_generation Q \<le> cy_generation P)"
proof (intro conjI allI impI; (elim conjE)?)
  have inv: "election_inv e" using assms by (rule election.reach_inv)
  { assume "leading e p" "leading e q"
    then show "p = q" using election_invD(1) [OF inv, of p] election_invD(1) [OF inv, of q]
      by (auto simp: leading_def split: option.splits) }
  { fix P Q assume "el_plan e p = Some P" "el_plan e q = Some Q" "cy_generation P = cy_generation Q"
    then show "p = q" by (rule election_invD(3) [OF inv]) }
  { fix s assume "db_scheduler (el_db e) = Some s"
    then show "ss_applied_generation s \<le> ss_desired_generation s"
      using election_invD(4) [OF inv] by (simp add: lease_view_def lease_of_def generations_def) }
  { fix P Q d' assume "el_plan e q = Some Q" "apply_cycle p P stopped now (el_db e) = Inr d'"
    then show "cy_generation Q \<le> cy_generation P"
      using election_invD(2) [OF inv] by (auto elim!: apply_cycle_lease simp: generations_def dest!: spec) }
qed

lemma ex_plan_cycle:
  obtains d plan where
    "plan_cycle ''a'' (seconds 30) (\<lambda>_. False) ex_scheduler_options None 100 ex_queued_db = Some (Inr (d, Some plan))"
    "plan_selection ex_scheduler_options 100 ex_view ex_queue_result = Inr (d, plan)"
proof -
  obtain d plan where p: "plan_selection ex_scheduler_options 100 ex_view ex_queue_result = Inr (d, plan)"
    using ex_plan_selection by (cases "plan_selection ex_scheduler_options 100 ex_view ex_queue_result") auto
  have "acquire_scheduler_lease ''a'' 100 (seconds 30) ex_queued_db =
      Inr (ex_queued_db\<lparr>db_scheduler := Some ex_leased\<rparr>, Some ex_leased)"
    by code_simp
  then have "plan_cycle ''a'' (seconds 30) (\<lambda>_. False) ex_scheduler_options None 100 ex_queued_db = Some (Inr (d, Some plan))"
    by (simp add: plan_cycle_def ex_view_ok ex_view_candidates ex_view_retained ex_view_input
        ex_queue_selection p lift_py_def)
  with p that show thesis by blast
qed

text \<open>A plans at time 100, its lease runs out, and B takes it at 40 s while A still holds its plan.\<close>

definition ex_election :: "db \<Rightarrow> instant \<Rightarrow> (string \<rightharpoonup> instant) \<Rightarrow> (string \<rightharpoonup> scheduler_plan) \<Rightarrow> election" where
  "ex_election d now held plans = \<lparr>el_db = d, el_now = now, el_held = held, el_plan = plans\<rparr>"

lemma ex_election_run:
  obtains d plan where
    "reach election_init (election_step (seconds 30))
       (ex_election d (seconds 40) [''a'' \<mapsto> 100 + seconds 30, ''b'' \<mapsto> seconds 40 + seconds 30] [''a'' \<mapsto> plan])"
proof -
  obtain d plan where p: "plan_cycle ''a'' (seconds 30) (\<lambda>_. False) ex_scheduler_options None 100 ex_queued_db
      = Some (Inr (d, Some plan))" by (rule ex_plan_cycle)
  let ?e0 = "ex_election ex_queued_db 100 Map.empty Map.empty"
  let ?e1 = "ex_election d 100 [''a'' \<mapsto> 100 + seconds 30] [''a'' \<mapsto> plan]"
  let ?e2 = "ex_election d (seconds 40) [''a'' \<mapsto> 100 + seconds 30] [''a'' \<mapsto> plan]"
  have "election_init ?e0" by (simp add: election_init_def ex_election_def ex_queued_db_def empty_db_def)
  then have r0: "reach election_init (election_step (seconds 30)) ?e0" by (rule reach_init)
  have "election_step (seconds 30) ?e0 ?e1"
    using el_planning [of 100 ?e0 "''a''" "seconds 30"] p by (fastforce simp: ex_election_def)
  with r0 have r1: "reach election_init (election_step (seconds 30)) ?e1" by (rule reach_step)
  have "election_step (seconds 30) ?e1 ?e2"
    using el_tick [of ?e1 "seconds 40" "seconds 30"] by (simp add: ex_election_def seconds_def)
  with r1 have r2: "reach election_init (election_step (seconds 30)) ?e2" by (rule reach_step)
  have "free_for ''b'' (seconds 40) (lease_view d)"
    using p by (cases rule: plan_cycle_lease) (auto simp: free_for_def seconds_def)
  then obtain d2 s2 where q: "acquire_scheduler_lease ''b'' (seconds 40) (seconds 30) d = Inr (d2, Some s2)"
    by (auto simp: acquire_scheduler_lease_def Let_def require_def lease_taken_iff seconds_def)
  have "election_step (seconds 30) ?e2
      (ex_election d2 (seconds 40) [''a'' \<mapsto> 100 + seconds 30, ''b'' \<mapsto> seconds 40 + seconds 30] [''a'' \<mapsto> plan])"
    using el_lease [of "seconds 40" ?e2 "''b''" "seconds 30" d2 "Some s2"] q by (simp add: ex_election_def)
  with r2 have "reach election_init (election_step (seconds 30))
      (ex_election d2 (seconds 40) [''a'' \<mapsto> 100 + seconds 30, ''b'' \<mapsto> seconds 40 + seconds 30] [''a'' \<mapsto> plan])"
    by (rule reach_step)
  then show thesis by (rule that)
qed

theorem scheduler_leader_unique_witness:
  "\<exists>d plan. leading (ex_election d (seconds 40) [''a'' \<mapsto> 100 + seconds 30, ''b'' \<mapsto> seconds 40 + seconds 30] [''a'' \<mapsto> plan]) ''b''
     \<and> \<not> leading (ex_election d (seconds 40) [''a'' \<mapsto> 100 + seconds 30, ''b'' \<mapsto> seconds 40 + seconds 30] [''a'' \<mapsto> plan]) ''a''"
proof -
  obtain d plan where r: "reach election_init (election_step (seconds 30))
       (ex_election d (seconds 40) [''a'' \<mapsto> 100 + seconds 30, ''b'' \<mapsto> seconds 40 + seconds 30] [''a'' \<mapsto> plan])"
    by (rule ex_election_run)
  let ?e = "ex_election d (seconds 40) [''a'' \<mapsto> 100 + seconds 30, ''b'' \<mapsto> seconds 40 + seconds 30] [''a'' \<mapsto> plan]"
  have b: "leading ?e ''b''" by (simp add: leading_def ex_election_def seconds_def)
  then have "\<not> leading ?e ''a''" using scheduler_leader_unique [OF r, of "''b''" "''a''"] by blast
  with b show ?thesis by blast
qed

end
