(* ===== verification/Scheduler_Rows.thy ===== *)
theory Scheduler_Rows
  imports Scheduler_Lease Platform_System
begin

text \<open>
  The rows a scheduler cycle writes: which torrents, which of their columns, and that every CHECK
  constraint and unique index of the tables the scheduler writes holds when its transactions commit.
\<close>

section \<open>Writing rows\<close>

definition overwrite :: "managed_torrent list \<Rightarrow> managed_torrent list \<Rightarrow> managed_torrent list" where
  "overwrite ws ts = map (\<lambda>t. case find_row t_id (t_id t) ws of None \<Rightarrow> t | Some t' \<Rightarrow> t') ts"

lemma overwrite_ids [simp]: "map t_id (overwrite ws ts) = map t_id ts"
  by (auto simp: overwrite_def dest: find_row_SomeD split: option.splits)

lemma overwrite_put:
  assumes "t_id w \<notin> set (map t_id ws)"
  shows "overwrite ws (update_row t_id (t_id w) (\<lambda>_. w) ts) = overwrite (w # ws) ts"
proof -
  have "find_row t_id (t_id w) ws = None" using assms by (simp add: find_row_None_iff)
  then show ?thesis by (auto simp: overwrite_def update_row_def find_row_def)
qed

lemma write_torrents_overwrite:
  assumes "distinct (map t_id ws)"
  shows "write_torrents ws d = d\<lparr>db_torrents := overwrite ws (db_torrents d)\<rparr>"
  using assms
proof (induction ws arbitrary: d)
  case Nil
  show ?case by (simp add: write_torrents_def overwrite_def find_row_def)
next
  case (Cons w ws)
  have "write_torrents (w # ws) d = write_torrents ws (put_torrent w d)" by (simp add: write_torrents_def)
  then show ?case using Cons overwrite_put [of w ws] by (simp add: put_torrent_def)
qed

lemma overwrite_overwrite:
  assumes "map t_id ws' = map t_id ws"
  shows "overwrite ws' (overwrite ws ts) = overwrite ws' ts"
proof -
  have none: "find_row t_id k ws' = None \<longleftrightarrow> find_row t_id k ws = None" for k
    using assms by (metis find_row_None_iff list.set_map)
  let ?h = "\<lambda>ws t. case find_row t_id (t_id t) ws of None \<Rightarrow> t | Some t' \<Rightarrow> t'"
  have "?h ws' (?h ws t) = ?h ws' t" for t
  proof (cases "find_row t_id (t_id t) ws")
    case (Some y)
    then have "t_id y = t_id t" "find_row t_id (t_id t) ws' \<noteq> None"
      using none [of "t_id t"] find_row_SomeD [OF Some] by simp_all
    then show ?thesis using Some by (auto split: option.splits)
  qed (simp split: option.splits)
  then show ?thesis by (simp add: overwrite_def comp_def)
qed

lemma in_overwrite:
  assumes "x \<in> set (overwrite ws ts)"
  obtains (written) "x \<in> set ws" "t_id x \<in> t_id ` set ts" | (kept) "x \<in> set ts" "t_id x \<notin> t_id ` set ws"
  using assms by (auto simp: overwrite_def find_row_None_iff split: option.splits dest!: find_row_SomeD)

lemma overwrite_map_filter:
  assumes "distinct (map t_id xs)" "\<And>x. t_id (f x) = t_id x" "\<And>x. P (f x) = P x"
  shows "filter P (overwrite (map f (filter P xs)) xs) = map f (filter P xs)"
proof -
  have "find_row t_id (t_id x) (map f (filter P xs)) = (if P x then Some (f x) else None)" if "x \<in> set xs" for x
  proof (cases "P x")
    case True
    have "distinct (map t_id (map f (filter P xs)))"
      using assms(1,2) by (simp add: comp_def distinct_map_filter)
    then show ?thesis using that True assms(2) by (simp add: find_row_Some_iff)
  next
    case False
    have "t_id x \<noteq> t_id y" if "y \<in> set xs" "P y" for y
      using assms(1) \<open>x \<in> set xs\<close> that False by (auto simp: distinct_map inj_on_def)
    then show ?thesis using False assms(2) by (auto simp: find_row_None_iff) blast
  qed
  then have "overwrite (map f (filter P xs)) xs = map (\<lambda>x. if P x then f x else x) xs"
    by (auto simp: overwrite_def)
  then show ?thesis using assms(3) by (simp add: filter_map comp_def if_distrib cong: filter_cong)
qed

section \<open>The rows of the control set\<close>

lemma distinct_map_appendI:
  "distinct (map f xs) \<Longrightarrow> distinct (map f ys) \<Longrightarrow> (\<And>x y. x \<in> set xs \<Longrightarrow> y \<in> set ys \<Longrightarrow> f x \<noteq> f y)
     \<Longrightarrow> distinct (map f (xs @ ys))"
  by auto

lemma scan_window_subset:
  assumes "distinct (map t_id base)"
  shows "set (scan_window s n base) \<subseteq> set base \<and> distinct (map t_id (scan_window s n base))"
proof -
  let ?w = "take n (filter (after_cursor s) base)"
  let ?r = "take (n - length ?w) (filter (\<lambda>t. t_id t \<notin> set (map t_id ?w)) base)"
  have sub: "set ?w \<subseteq> set base" "set ?r \<subseteq> set base" by (auto dest: in_set_takeD)
  have d: "distinct (map t_id ?w)" "distinct (map t_id ?r)"
    using assms by (simp_all add: distinct_map_filter take_map [symmetric])
  have "t_id y \<noteq> t_id x" if "x \<in> set ?r" "y \<in> set ?w" for x y
  proof -
    have "x \<in> set (filter (\<lambda>t. t_id t \<notin> set (map t_id ?w)) base)" using that(1) by (rule in_set_takeD)
    then have "t_id x \<notin> t_id ` set ?w" by simp
    then show ?thesis using that(2) by (metis imageI)
  qed
  then have "distinct (map t_id (?w @ ?r))" by (rule distinct_map_appendI [OF d])
  then show ?thesis using sub d(1) by (auto simp: scan_window_def Let_def)
qed

lemma load_control_set_rows:
  assumes "load_control_set s d = Inr (s1, loaded)" "distinct (map t_id (db_torrents d))"
  shows "set loaded \<subseteq> set (db_torrents d)" "distinct (map t_id loaded)"
    "\<And>t. t \<in> set loaded \<Longrightarrow> schedulable_state (t_state t)"
proof -
  let ?n = "MAX_SCHEDULER_CONTROL_SET"
  let ?a = "take (?n + 1) (sort_key priority_order (filter active_control (db_torrents d)))"
  let ?b = "sort_key scan_order (filter idle_control (db_torrents d))"
  have db: "distinct (map t_id ?b)" using assms(2)
    by (simp add: distinct_map distinct_sort inj_on_def)
  define w where "w = scan_window s (?n - length ?a) ?b"
  note w = scan_window_subset [OF db, of s "?n - length ?a", folded w_def]
  have a: "set ?a \<subseteq> set (db_torrents d)" "distinct (map t_id ?a)" "\<And>t. t \<in> set ?a \<Longrightarrow> active_control t"
    using assms(2) by (auto dest!: in_set_takeD simp: take_map [symmetric] distinct_map distinct_sort inj_on_def)
  have idle: "t \<in> set (db_torrents d) \<and> idle_control t" if "t \<in> set w" for t
    using w that by auto
  define a where "a = ?a"
  note a = a [folded a_def]
  have apart: "t_id x \<noteq> t_id y" if "x \<in> set a" "y \<in> set w" for x y
  proof -
    have "x \<in> set (db_torrents d)" "y \<in> set (db_torrents d)" "x \<noteq> y"
      using that a idle by (auto simp: active_control_def idle_control_def)
    then show ?thesis using assms(2) by (auto simp: distinct_map inj_on_def)
  qed
  have l: "loaded = a \<or> loaded = a @ w"
    using assms(1) by (auto simp: load_control_set_def Let_def a_def w_def split: if_splits)
  show "set loaded \<subseteq> set (db_torrents d)" using l a(1) idle by auto
  have "distinct (map t_id (a @ w))"
    by (rule distinct_map_appendI [OF a(2) conjunct2 [OF w] apart])
  then show "distinct (map t_id loaded)" using l a(2) by blast
  show "schedulable_state (t_state t)" if "t \<in> set loaded" for t
    using l a(3) idle that by (auto simp: active_control_def idle_control_def)
qed

lemma scheduling_write_refl: "scheduling_write t t"
  by (simp add: scheduling_write_def)

lemma scheduling_write_iff:
  "scheduling_write t t' \<longleftrightarrow>
     t_id t' = t_id t \<and> t_info_hash t' = t_info_hash t
     \<and> t_storage_key t' = t_storage_key t \<and> t_name t' = t_name t
     \<and> t_total_size t' = t_total_size t \<and> t_state t' = t_state t
     \<and> t_qb_state t' = t_qb_state t \<and> t_progress t' = t_progress t
     \<and> t_tracker_account_ref t' = t_tracker_account_ref t
     \<and> t_qbittorrent_account_ref t' = t_qbittorrent_account_ref t
     \<and> t_retry_at t' = t_retry_at t \<and> t_last_progress_at t' = t_last_progress_at t
     \<and> t_last_downloaded_bytes t' = t_last_downloaded_bytes t
     \<and> t_stall_count t' = t_stall_count t \<and> t_purge_after t' = t_purge_after t
     \<and> t_ready_at t' = t_ready_at t
     \<and> t_retention_expires_at t' = t_retention_expires_at t
     \<and> t_lifecycle_generation t' = t_lifecycle_generation t
     \<and> t_manifest_version t' = t_manifest_version t
     \<and> t_manifest_checksum t' = t_manifest_checksum t
     \<and> t_manifest_file_count t' = t_manifest_file_count t
     \<and> t_manifest_total_size t' = t_manifest_total_size t
     \<and> t_created_at t' = t_created_at t"
  by (cases t; cases t') (auto simp: scheduling_write_def)

lemma scheduling_write_trans: "scheduling_write t u \<Longrightarrow> scheduling_write u v \<Longrightarrow> scheduling_write t v"
  by (auto simp: scheduling_write_iff)

lemma scheduling_write_frame:
  "scheduling_write t t' \<Longrightarrow> t_id t' = t_id t \<and> t_info_hash t' = t_info_hash t
     \<and> t_storage_key t' = t_storage_key t \<and> t_state t' = t_state t \<and> t_total_size t' = t_total_size t
     \<and> t_lifecycle_generation t' = t_lifecycle_generation t"
  by (auto simp: scheduling_write_iff)

text \<open>The row after the release of its cooldown.\<close>

definition released_row :: "torrent_request list \<Rightarrow> instant \<Rightarrow> managed_torrent \<Rightarrow> managed_torrent" where
  "released_row requests now t =
     (if cooled requests now t then t\<lparr>t_scheduler_retry_at := None, t_updated_at := now\<rparr> else t)"

lemma released_row_simps [simp]:
  "t_id (released_row rs now t) = t_id t" "forced_slot (released_row rs now t) = forced_slot t"
  "scheduling_write t (released_row rs now t)" "torrent_check (released_row rs now t) = torrent_check t"
  by (simp_all add: released_row_def forced_slot_def scheduling_write_iff torrent_check_def)

lemma scheduled_row:
  assumes "torrent_check t" "0 \<le> g" "0 \<le> k" "0 \<le> download_limit_bytes_per_second c"
  shows "scheduling_write t (desired_row g now k c t)" "torrent_check (desired_row g now k c t)"
  using assms unfolding scheduling_write_iff desired_row_def torrent_check_def by simp_all

lemma released_rows:
  "release_elapsed_cooldowns ts rs now = (map (released_row rs now) ts, list_ex (cooled rs now) ts)"
  by (simp add: release_elapsed_cooldowns_def released_row_def)

text \<open>The torrents a cycle schedules: rows of the control set without a forced slot, cooldowns released.\<close>

lemma observe_cycle_rows:
  assumes "observe_cycle locked options last_rotation now s d = Inr v" "distinct (map t_id (db_torrents d))"
  obtains ts rs where "cv_schedulable v = map (released_row rs now) ts" "set ts \<subseteq> set (db_torrents d)"
    "distinct (map t_id ts)" "cv_db v = d\<lparr>db_torrents := overwrite (cv_schedulable v) (db_torrents d)\<rparr>"
    "\<And>t. t \<in> set ts \<Longrightarrow> schedulable_state (t_state t)"
  using assms(1)
proof (cases rule: observe_cases)
  case (1 s1 loaded requests schedulable released config ledger cs s2 dyn base policy)
  note l = load_control_set_rows [OF 1(1) assms(2)]
  let ?ts = "filter (\<lambda>t. \<not> forced_slot t) loaded"
  have sch: "schedulable = map (released_row requests now) ?ts" using 1(3) by (simp add: released_rows)
  have "cv_torrents v = overwrite schedulable loaded" using 1(7) by (simp add: overwrite_def)
  then have cv: "cv_schedulable v = map (released_row requests now) ?ts"
    using overwrite_map_filter [of loaded "released_row requests now" "\<lambda>t. \<not> forced_slot t"] l(2)
    by (simp add: cv_schedulable_def sch)
  have d: "distinct (map t_id ?ts)" using l(2) by (rule distinct_map_filter)
  then have "distinct (map t_id schedulable)" by (simp add: sch comp_def)
  then have "cv_db v = d\<lparr>db_torrents := overwrite (cv_schedulable v) (db_torrents d)\<rparr>"
    using 1(11) by (simp add: write_torrents_overwrite cv sch)
  then show thesis using that [OF cv _ d] l(1,3) by auto
qed

lemma plan_Inr_limits:
  assumes "build_qbittorrent_control_plan result identities options = Inr plan" "c \<in> set plan"
  shows "0 \<le> download_limit_bytes_per_second c"
proof -
  obtain limit ids where g: "global_download_limit options = Inr limit"
    and plan: "plan = map (\<lambda>(t, share). control_of (identity_of identities t) RUNNING share)
              (zip ids (download_limit_shares limit (length ids)))
        @ map (\<lambda>i. control_of i STOPPED 0)
            (filter (\<lambda>i. ci_torrent_id i \<notin> set ids) (sort_key ci_torrent_id identities))"
    using plan_Inr [OF assms(1)] by metis
  have "0 \<le> limit" using g by (auto simp: global_download_limit_def split: option.splits option_value.splits if_splits)
  then have "0 \<le> x" if "x \<in> set (download_limit_shares limit n)" for x n
    using that by (auto simp: download_limit_shares_def Let_def pos_imp_zdiv_nonneg_iff split: if_splits)
  then show ?thesis using assms(2) by (auto simp: plan dest: set_zip_rightD)
qed

text \<open>Ranks are given in the order of the rows, one per running torrent.\<close>

lemma list_all2_left: "list_all2 P xs ys \<Longrightarrow> y \<in> set ys \<Longrightarrow> \<exists>x\<in>set xs. P x y"
  by (induction rule: list_all2_induct) auto

lemma persist_ConsE:
  assumes "persist_desired_controls by_hash g now rank (t # ts) = Inr rows"
  obtains c rs where "by_hash (t_info_hash t) = Some c" "rows = desired_row g now rank c t # rs"
    "persist_desired_controls by_hash g now (if run_state c = RUNNING then rank + 1 else rank) ts = Inr rs"
  using assms by (auto simp: rbind_Inr_iff split: option.splits)

lemma desired_row_sel [simp]:
  "t_id (desired_row g now k c t) = t_id t" "t_desired_active (desired_row g now k c t) \<longleftrightarrow> run_state c = RUNNING"
  "t_schedule_generation (desired_row g now k c t) = g"
  "t_desired_priority (desired_row g now k c t) = (if run_state c = RUNNING then Some k else None)"
  by (simp_all add: desired_row_def)

lemma persist_desired_controls_rows:
  assumes "persist_desired_controls by_hash g now rank ts = Inr rows" "0 \<le> rank"
  shows "list_all2 (\<lambda>t r. \<exists>c k. by_hash (t_info_hash t) = Some c \<and> 0 \<le> k \<and> r = desired_row g now k c t) ts rows"
  using assms
proof (induction ts arbitrary: rank rows)
  case (Cons t ts)
  from Cons.prems(1) show ?case
  proof (cases rule: persist_ConsE)
    case (1 c rs)
    then show ?thesis using Cons.IH [OF 1(3)] Cons.prems(2) by (simp split: if_splits) blast+
  qed
qed simp

lemma persist_desired_controls_ranked:
  assumes "persist_desired_controls by_hash g now rank ts = Inr rows" "r \<in> set rows" "t_desired_active r"
  shows "\<exists>k\<ge>rank. t_desired_priority r = Some k"
  using assms
proof (induction ts arbitrary: rank rows)
  case (Cons t ts)
  from Cons.prems(1) show ?case
  proof (cases rule: persist_ConsE)
    case (1 c rs)
    show ?thesis
    proof (cases "r \<in> set rs")
      case True
      obtain k where "(if run_state c = RUNNING then rank + 1 else rank) \<le> k" "t_desired_priority r = Some k"
        using Cons.IH [OF 1(3) True Cons.prems(3)] by blast
      then show ?thesis by (intro exI [of _ k]) (simp split: if_splits)
    next
      case False
      then show ?thesis using Cons.prems(2,3) 1(2) by simp
    qed
  qed
qed simp

lemma persist_desired_controls_distinct:
  assumes "persist_desired_controls by_hash g now rank ts = Inr rows"
  shows "distinct (map t_desired_priority (filter t_desired_active rows))"
  using assms
proof (induction ts arbitrary: rank rows)
  case (Cons t ts)
  from Cons.prems(1) show ?case
  proof (cases rule: persist_ConsE)
    case (1 c rs)
    have "t_desired_priority r \<noteq> Some rank" if h: "run_state c = RUNNING" "r \<in> set rs" "t_desired_active r" for r
    proof -
      obtain k where "rank + 1 \<le> k" "t_desired_priority r = Some k"
        using persist_desired_controls_ranked [OF 1(3) h(2,3)] h(1) by auto
      then show ?thesis by simp
    qed
    then show ?thesis using Cons.IH [OF 1(3)] 1(2) by (auto simp: image_iff) blast
  qed
qed simp

section \<open>The transaction of a plan\<close>

text \<open>
  A plan overwrites some rows of the torrent table: only their scheduling columns, with the
  generation of the plan and a rank of their own for the running ones.
\<close>

lemma plan_selection_rows:
  assumes "observe_cycle locked options last_rotation now s d = Inr v" "distinct (map t_id (db_torrents d))"
    and plan: "plan_selection options now v selection = Inr (d', plan)"
    and checks: "list_all torrent_check (db_torrents d)" "0 \<le> cy_generation plan"
  obtains rows where "distinct (map t_id rows)"
    "\<And>r. r \<in> set rows \<Longrightarrow> \<exists>t\<in>set (db_torrents d). scheduling_write t r"
    "\<And>r. r \<in> set rows \<Longrightarrow> torrent_check r \<and> t_schedule_generation r = cy_generation plan"
    "distinct (map t_desired_priority (filter t_desired_active rows))"
    "db_torrents d' = overwrite rows (db_torrents d)"
proof -
  obtain ts rs where sch: "cv_schedulable v = map (released_row rs now) ts" and ts: "set ts \<subseteq> set (db_torrents d)"
    and dist: "distinct (map t_id ts)" and db: "cv_db v = d\<lparr>db_torrents := overwrite (cv_schedulable v) (db_torrents d)\<rparr>"
    using observe_cycle_rows [OF assms(1,2)] .
  obtain scheduled rows s' where
    c: "build_qbittorrent_control_plan selection (map identity_of_torrent (cv_schedulable v)) options = Inr scheduled"
    and rows: "persist_desired_controls (map_of (map (\<lambda>c. (dc_info_hash c, c)) (rev scheduled)))
      (cy_generation plan) now 0 (cv_schedulable v) = Inr rows"
    and d': "d' = persist_scheduler_ledger s' (result_ledger selection) now (write_torrents rows (cv_db v))"
    using plan by (auto simp: plan_selection_def rbind_Inr_iff Let_def)
  note each = persist_desired_controls_rows [OF rows order_refl]
  have "list_all2 (\<lambda>t r. t_id r = t_id t) (cv_schedulable v) rows"
    by (rule list_all2_mono [OF each]) auto
  then have ids: "map t_id rows = map t_id (cv_schedulable v)"
    by (induction rule: list_all2_induct) simp_all
  have ids': "distinct (map t_id rows)" using dist by (simp add: ids sch comp_def)
  have row: "(\<exists>t\<in>set (db_torrents d). scheduling_write t r) \<and> torrent_check r
      \<and> t_schedule_generation r = cy_generation plan" if r: "r \<in> set rows" for r
  proof -
    obtain x c k where x: "x \<in> set (cv_schedulable v)" "map_of (map (\<lambda>c. (dc_info_hash c, c)) (rev scheduled)) (t_info_hash x) = Some c"
      "0 \<le> k" "r = desired_row (cy_generation plan) now k c x"
      using list_all2_left [OF each r] by blast
    obtain t where t: "t \<in> set ts" "x = released_row rs now t" using x(1) by (auto simp: sch)
    have "c \<in> set scheduled" using map_of_SomeD [OF x(2)] by auto
    then have "0 \<le> download_limit_bytes_per_second c" by (rule plan_Inr_limits [OF c])
    moreover have "torrent_check x" using checks(1) ts t by (auto simp: list_all_iff)
    moreover have "scheduling_write t x" using t(2) by simp
    ultimately show ?thesis
      using scheduled_row [of x "cy_generation plan" k c now] checks(2) x(3,4) t(1) ts
      by (auto intro: scheduling_write_trans)
  qed
  have "db_torrents d' = overwrite rows (db_torrents d)"
    using overwrite_overwrite [OF ids]
    by (simp add: d' persist_scheduler_ledger_def write_torrents_overwrite [OF ids'] db)
  then show thesis using that [OF ids'] row persist_desired_controls_distinct [OF rows] by blast
qed

section \<open>The ledger and the measurements\<close>

lemma sched_loop_rounds:
  assumes "sched_loop env st = Some (Inr st')"
  shows "s_rounds st \<le> s_rounds st'"
proof -
  have step: "s_rounds a \<le> s_rounds b" if "sched_step env a = Inr b" for a b
    using that by (auto simp: sched_step_def rbind_Inr_iff credit_def)
  have "case Inr st' of Inl (e::py_error) \<Rightarrow> True | Inr x \<Rightarrow> s_rounds st \<le> s_rounds x"
    by (rule while_option_rule [OF _ assms [unfolded sched_loop_def]])
      (auto split: sum.splits dest: step)
  then show ?thesis by simp
qed

text \<open>What a selection leaves in the ledger, for any input it accepts.\<close>

definition ledger_rows_ok :: "int \<Rightarrow> scheduler_ledger \<Rightarrow> bool" where
  "ledger_rows_ok r l \<longleftrightarrow> r \<le> ledger_rounds l \<and> distinct (map fst (ledger_deficits l))
     \<and> list_all (\<lambda>(u, v). 0 \<le> v) (ledger_deficits l)"

lemma next_deficits_ok:
  "distinct users \<Longrightarrow> distinct (map fst (next_deficits users f)) \<and> list_all (\<lambda>(u, v). 0 \<le> v) (next_deficits users f)"
  by (auto simp: next_deficits_def list_all_iff comp_def)

lemma select_torrents_rows:
  assumes "select_torrents cs inp = Some (Inr res)"
  shows "ledger_rows_ok (ledger_rounds (previous_ledger inp)) (result_ledger res)"
proof -
  obtain adm st where a: "admit cs inp = Inr adm" and l: "sched_loop (selection_env inp adm) (initial_sched inp adm) = Some (Inr st)"
    and res: "res = finish_selection adm st"
    using assms by (auto simp: select_torrents_def rbind_Inr_iff split: sum.splits)
  show ?thesis
    using sched_loop_rounds [OF l] next_deficits_ok [OF admitted(7) [OF a]]
    by (simp add: res ledger_rows_ok_def finish_selection_def initial_sched_def Let_def)
qed

lemma select_with_continuity_rows:
  assumes "select_with_continuity cs retained inp = Some (Inr res)"
  shows "ledger_rows_ok (ledger_rounds (previous_ledger inp)) (result_ledger res)"
proof -
  obtain kept pu r where "select_torrents (filter (\<lambda>c. torrent_id c \<notin> set (map torrent_id kept)) cs)
      (inp\<lparr>in_active_global := in_active_global inp + int (length kept), in_active_by_user := pu\<rparr>) = Some (Inr r)"
    and res: "res = (if kept = [] then r else merge_kept cs kept inp r)"
    using assms by (auto simp: select_with_continuity_def Let_def rbind_Inr_iff split: prod.splits)
  from select_torrents_rows [OF this(1)] show ?thesis
    by (simp add: res ledger_rows_ok_def merge_kept_def Let_def next_deficits_ok previous_ledger_def)
qed

text \<open>The columns of the measurements; the limit of a cycle is the capacity it leaves.\<close>

definition measures_ok :: "scheduler_state \<Rightarrow> bool" where
  "measures_ok s \<longleftrightarrow> 0 \<le> ss_dynamic_observed_bytes_per_second s \<and> 0 \<le> ss_dynamic_active_count s
     \<and> 0 \<le> ss_dynamic_waiting_count s"

lemma measures_ok_simps [simp]:
  "measures_ok (start_measurement b now e s) = measures_ok s"
  "measures_ok (clear_measurement s) = measures_ok s"
  "measures_ok (completion_cooldown c b now u s) = measures_ok s"
  by (simp_all add: measures_ok_def start_measurement_def clear_measurement_def completion_cooldown_def Let_def)

lemma window_measures:
  "evaluate_window config n observed s = (s', scaled) \<Longrightarrow> measures_ok s \<Longrightarrow> measures_ok s'"
  by (auto simp: evaluate_window_def measures_ok_def split: if_splits)

lemma running_measures:
  assumes "measure_running config active n now s = (s', res)" "measures_ok s"
  shows "dd_active_limit res = ss_dynamic_current_active s' \<and> measures_ok s'"
proof (cases "ss_dynamic_sampled_at s")
  case None
  then show ?thesis
    using assms by (auto simp: measure_running_def Let_def plain_decision_def measures_ok_def start_measurement_def)
next
  case (Some at0)
  define s1 where "s1 = s\<lparr>ss_dynamic_observed_bytes_per_second := observed_rate (validated_baseline (ss_dynamic_sample_baseline s))
      (download_baseline active) (now - at0), ss_dynamic_last_evaluated_at := Some now\<rparr>"
  have ok: "measures_ok s1" using assms(2) by (simp add: measures_ok_def s1_def observed_rate_def)
  obtain s2 scaled where ev: "evaluate_window config n (observed_rate (validated_baseline (ss_dynamic_sample_baseline s))
      (download_baseline active) (now - at0)) s1 = (s2, scaled)" by fastforce
  have "measures_ok s2" by (rule window_measures [OF ev ok])
  then show ?thesis
    using assms Some ev
    by (auto simp: measure_running_def Let_def plain_decision_def s1_def [symmetric] split: if_splits)
      (simp_all add: measures_ok_def start_measurement_def)
qed

lemma dynamic_measures:
  assumes "apply_dynamic_concurrency s torrents cs config now = (s', res)"
    "0 \<le> ss_dynamic_observed_bytes_per_second s"
  shows "dd_active_limit res = ss_dynamic_current_active s' \<and> measures_ok s'"
proof -
  define active where "active = filter running_torrent torrents"
  define n where "n = int (length (filter (\<lambda>c. torrent_id c \<notin> set (map t_id active)) cs))"
  define s1 where "s1 = s\<lparr>ss_dynamic_active_count := int (length active), ss_dynamic_waiting_count := n,
      ss_dynamic_current_active := max (ss_dynamic_current_active s) (int (length active))\<rparr>"
  have ok: "measures_ok s1" "measures_ok (s1\<lparr>ss_dynamic_cooldown_until := None\<rparr>)"
    using assms(2) by (simp_all add: s1_def measures_ok_def n_def)
  show ?thesis
  proof (cases "dc_enabled config \<and> active \<noteq> []")
    case False
    then show ?thesis
      using assms by (auto simp: apply_dynamic_concurrency_def Let_def active_def [symmetric] n_def
          plain_decision_def measures_ok_def clear_measurement_def split: if_splits)
  next
    case True
    then have "(s', res) = (case ss_dynamic_cooldown_until s1 of
         Some until \<Rightarrow>
           if until > now then (completion_cooldown config (download_baseline active) now until s1,
             (plain_decision (ss_dynamic_current_active s1) active)\<lparr>dd_preserve_active_set := True\<rparr>)
           else measure_running config active n now (s1\<lparr>ss_dynamic_cooldown_until := None\<rparr>)
       | None \<Rightarrow> measure_running config active n now s1)"
      using assms(1) by (auto simp: apply_dynamic_concurrency_def Let_def active_def [symmetric] n_def s1_def split: option.splits)
    then show ?thesis
      using ok running_measures [of config active n now s1 s' res]
        running_measures [of config active n now "s1\<lparr>ss_dynamic_cooldown_until := None\<rparr>" s' res]
      by (auto simp: plain_decision_def split: option.splits if_splits)
  qed
qed

lemma align_measures:
  "measures_ok (align_measurement_after_selection s torrents ids config now) = measures_ok s"
  "ss_dynamic_current_active (align_measurement_after_selection s torrents ids config now) = ss_dynamic_current_active s"
  by (simp_all add: align_measurement_after_selection_def Let_def)

section \<open>The tables a cycle writes\<close>

text \<open>
  Every CHECK constraint and unique index of the tables the scheduler touches, and the fact the
  unique index on generations and ranks rests on: no torrent carries a generation of the future.
\<close>

definition cycle_ok :: "db \<Rightarrow> bool" where
  "cycle_ok d \<longleftrightarrow> db_ok d \<and> schedule_priority_unique (db_torrents d)
     \<and> distinct (map sd_user_id (db_deficits d)) \<and> list_all deficit_check (db_deficits d)
     \<and> (case db_scheduler d of None \<Rightarrow> True | Some s \<Rightarrow> scheduler_state_check s)
     \<and> list_all (\<lambda>t. t_schedule_generation t \<le> fst (generations (lease_view d))) (db_torrents d)"

lemma cycle_ok_scheduler:
  assumes "cycle_ok d" "scheduler_state_check s" "fst (generations (Some (lease_of s))) = fst (generations (lease_view d))"
  shows "cycle_ok (d\<lparr>db_scheduler := Some s\<rparr>)"
  using assms by (simp add: cycle_ok_def db_ok_def lease_view_def)

definition static_check :: "scheduler_state \<Rightarrow> bool" where
  "static_check s \<longleftrightarrow> (ss_lease_owner s = None \<longleftrightarrow> ss_lease_expires_at s = None)
     \<and> 0 \<le> ss_desired_generation s \<and> 0 \<le> ss_applied_generation s
     \<and> ss_applied_generation s \<le> ss_desired_generation s
     \<and> (ss_scan_cursor_created_at s = None \<longleftrightarrow> ss_scan_cursor_id s = None)"

lemma static_check_cong: "static_of s' = static_of s \<Longrightarrow> static_check s' = static_check s"
  by (simp add: static_check_def static_of_def lease_of_def)

lemma scheduler_state_check_iff:
  "scheduler_state_check s \<longleftrightarrow> static_check s \<and> 0 \<le> ss_rounds s \<and> 0 \<le> ss_dynamic_current_active s \<and> measures_ok s"
  by (auto simp: scheduler_state_check_def static_check_def measures_ok_def)

lemma ensured_check:
  assumes "cycle_ok d"
  shows "scheduler_state_check (ensure_scheduler_state now d)"
    "generations (Some (lease_of (ensure_scheduler_state now d))) = generations (lease_view d)"
proof -
  show "scheduler_state_check (ensure_scheduler_state now d)"
    using assms by (auto simp: cycle_ok_def ensure_scheduler_state_def scheduler_state_check_def
        new_scheduler_state_def split: option.splits)
  show "generations (Some (lease_of (ensure_scheduler_state now d))) = generations (lease_view d)"
    by (auto simp: ensured_lease generations_def split: option.splits)
qed

lemma acquire_check:
  assumes "cycle_ok d" "acquire_scheduler_lease owner now ttl d = Inr (d', r)"
  shows "cycle_ok d'" "r = Some s \<Longrightarrow> scheduler_state_check s \<and> d' = d\<lparr>db_scheduler := Some s\<rparr>"
proof -
  note e = ensured_check [OF assms(1), of now]
  have l: "scheduler_state_check (leased_state owner now ttl (ensure_scheduler_state now d))"
    "generations (Some (lease_of (leased_state owner now ttl (ensure_scheduler_state now d)))) = generations (lease_view d)"
    using e by (simp_all add: scheduler_state_check_def leased_state_def lease_of_def generations_def)
  from assms(2) show "cycle_ok d'"
    by (cases rule: acquire_cases) (use cycle_ok_scheduler [OF assms(1)] e l in auto)
  from assms(2) show "r = Some s \<Longrightarrow> scheduler_state_check s \<and> d' = d\<lparr>db_scheduler := Some s\<rparr>"
    by (cases rule: acquire_cases) (use l in auto)
qed

lemma control_set_check:
  assumes "load_control_set s d = Inr (s1, loaded)" "static_check s"
  shows "static_check s1" "ss_dynamic_observed_bytes_per_second s1 = ss_dynamic_observed_bytes_per_second s"
proof -
  have m: "s1 = s \<or> (\<exists>w. s1 = moved_cursor w s)"
    using assms(1) by (auto simp: load_control_set_def Let_def split: if_splits)
  have "static_check (moved_cursor w s)" for w
    using assms(2) by (simp add: moved_cursor_def static_check_def)
  then show "static_check s1" using m assms(2) by blast
  have "ss_dynamic_observed_bytes_per_second (moved_cursor w s) = ss_dynamic_observed_bytes_per_second s" for w
    by (simp add: moved_cursor_def)
  then show "ss_dynamic_observed_bytes_per_second s1 = ss_dynamic_observed_bytes_per_second s" using m by metis
qed

lemma load_ledger_rounds:
  assumes "load_scheduler_ledger s d = Inr l"
  shows "0 \<le> ledger_rounds l"
  using assms by (auto simp: load_scheduler_ledger_def ledger_post_init_def result_simps)

lemma observe_cycle_check:
  assumes "observe_cycle locked options last_rotation now s d = Inr v" "scheduler_state_check s"
  shows "static_check (cv_state v)" "measures_ok (cv_state v)" "0 \<le> ss_dynamic_current_active (cv_state v)"
    "0 \<le> ledger_rounds (previous_ledger (cv_input v))"
proof -
  note c = assms(2) [unfolded scheduler_state_check_iff]
  from assms(1) have "static_check (cv_state v) \<and> measures_ok (cv_state v) \<and> 0 \<le> ss_dynamic_current_active (cv_state v)
      \<and> 0 \<le> ledger_rounds (previous_ledger (cv_input v))"
  proof (cases rule: observe_cases)
    case (1 s1 loaded requests schedulable released config ledger cs s2 dyn base policy)
    note s1 = control_set_check [OF 1(1)]
    have "static_check s2" using static_check_cong [OF static_of_dynamic [OF 1(8)]] s1(1) c by simp
    moreover have "dd_active_limit dyn = ss_dynamic_current_active s2 \<and> measures_ok s2"
      by (rule dynamic_measures [OF 1(8)]) (use s1(2) c in \<open>simp add: measures_ok_def\<close>)
    moreover have "1 \<le> dd_active_limit dyn"
      using 1(9) by (auto simp: policy_post_init_def result_simps)
    ultimately show ?thesis using 1 load_ledger_rounds [OF 1(5)] by (simp add: previous_ledger_def)
  qed
  then show "static_check (cv_state v)" "measures_ok (cv_state v)" "0 \<le> ss_dynamic_current_active (cv_state v)"
    "0 \<le> ledger_rounds (previous_ledger (cv_input v))" by simp_all
qed

text \<open>Overwriting rows in their scheduling columns keeps the keys and the checks of the table.\<close>

lemma overwrite_same:
  assumes "distinct (map t_id ts)" "\<And>r. r \<in> set rows \<Longrightarrow> \<exists>t\<in>set ts. scheduling_write t r" "t \<in> set ts"
  shows "scheduling_write t (case find_row t_id (t_id t) rows of None \<Rightarrow> t | Some r \<Rightarrow> r)"
proof (cases "find_row t_id (t_id t) rows")
  case (Some r)
  obtain u where u: "u \<in> set ts" "scheduling_write u r" using assms(2) find_row_SomeD [OF Some] by blast
  then have "t_id u = t_id t" using scheduling_write_frame [OF u(2)] find_row_SomeD [OF Some] by simp
  then have "u = t" using assms(1,3) u(1) by (auto simp: distinct_map inj_on_def)
  then show ?thesis using u(2) Some by simp
qed (simp add: scheduling_write_refl)

lemma overwrite_frame:
  assumes "distinct (map t_id ts)" "\<And>r. r \<in> set rows \<Longrightarrow> \<exists>t\<in>set ts. scheduling_write t r"
    and "\<And>t t'. scheduling_write t t' \<Longrightarrow> f t' = f t"
  shows "map f (overwrite rows ts) = map f ts"
  using assms(3) [OF overwrite_same [OF assms(1,2)]] by (simp add: overwrite_def)

lemma torrents_unique_overwrite:
  assumes "torrents_unique ts" "\<And>r. r \<in> set rows \<Longrightarrow> \<exists>t\<in>set ts. scheduling_write t r"
  shows "torrents_unique (overwrite rows ts)"
  using assms overwrite_frame [of ts rows t_info_hash] overwrite_frame [of ts rows t_storage_key]
    scheduling_write_frame
  by (simp add: torrents_unique_def)

text \<open>Ranks of one generation are unique among the rows of that generation.\<close>

lemma schedule_priority_overwrite:
  assumes "distinct (map t_id ts)" "schedule_priority_unique ts"
    and old: "\<And>t. t \<in> set ts \<Longrightarrow> t_schedule_generation t < g"
    and rows: "distinct (map t_id rows)" "\<And>r. r \<in> set rows \<Longrightarrow> t_schedule_generation r = g"
      "distinct (map t_desired_priority (filter t_desired_active rows))"
  shows "schedule_priority_unique (overwrite rows ts)"
proof -
  let ?key = "\<lambda>t. (t_schedule_generation t, t_desired_priority t)"
  have src: "(x \<in> set rows \<and> t_schedule_generation x = g) \<or> (x \<in> set ts \<and> t_schedule_generation x < g)"
    if "x \<in> set (overwrite rows ts)" for x
    using that by (rule in_overwrite) (auto simp: rows(2) old)
  have ni: "inj_on t_desired_priority (set (filter t_desired_active rows))"
    using rows(3) by (simp add: distinct_map)
  have oi: "inj_on ?key (set (filter t_desired_active ts))"
    using assms(2) by (simp add: schedule_priority_unique_def distinct_map)
  have "inj_on ?key (set (filter t_desired_active (overwrite rows ts)))"
  proof (rule inj_onI)
    fix x y assume x: "x \<in> set (filter t_desired_active (overwrite rows ts))"
      and y: "y \<in> set (filter t_desired_active (overwrite rows ts))" and key: "?key x = ?key y"
    show "x = y"
    proof (cases "t_schedule_generation x = g")
      case True
      then have "x \<in> set rows" "y \<in> set rows" using src [of x] src [of y] x y key by auto
      then show ?thesis using inj_onD [OF ni, of x y] x y key by simp
    next
      case False
      then have "x \<in> set ts" "y \<in> set ts" using src [of x] src [of y] x y key by auto
      then show ?thesis using inj_onD [OF oi, of x y] x y key by simp
    qed
  qed
  moreover have "distinct (overwrite rows ts)"
    using assms(1) distinct_map [of t_id "overwrite rows ts"] by simp
  ultimately show ?thesis by (simp add: schedule_priority_unique_def distinct_map)
qed

lemma plan_selection_check:
  assumes ok: "cycle_ok d" and obs: "observe_cycle locked options last_rotation now s d = Inr v"
    and s: "scheduler_state_check s" "db_scheduler d = Some s"
    and sel: "select_with_continuity (cv_candidates v) (cv_retained v) (cv_input v) = Some (Inr selection)"
    and plan: "plan_selection options now v selection = Inr (d', plan)"
  shows "cycle_ok d'"
proof -
  note pl = plan_selection_lease [OF plan]
  note oc = observe_cycle_check [OF obs s(1)]
  have dist: "distinct (map t_id (db_torrents d))" and checks: "list_all torrent_check (db_torrents d)"
    and uniq: "torrents_unique (db_torrents d)"
    using ok by (simp_all add: cycle_ok_def db_ok_def torrents_unique_def)
  have g: "cy_generation plan = ss_desired_generation s + 1"
    using pl(1) observe_cycle_lease [OF obs] by (simp add: lease_of_def)
  have g0: "0 \<le> cy_generation plan" using s(1) by (simp add: g scheduler_state_check_def)
  have old: "t_schedule_generation t < cy_generation plan" if "t \<in> set (db_torrents d)" for t
    using ok that s(2) by (auto simp: g cycle_ok_def list_all_iff lease_view_def lease_of_def generations_def)
  obtain rows where rows: "distinct (map t_id rows)"
    "\<And>r. r \<in> set rows \<Longrightarrow> \<exists>t\<in>set (db_torrents d). scheduling_write t r"
    "\<And>r. r \<in> set rows \<Longrightarrow> torrent_check r \<and> t_schedule_generation r = cy_generation plan"
    "distinct (map t_desired_priority (filter t_desired_active rows))"
    "db_torrents d' = overwrite rows (db_torrents d)"
    by (rule plan_selection_rows [OF obs dist plan checks g0]) blast
  obtain ts ids c ws where d0: "d' = persist_scheduler_ledger
      ((align_measurement_after_selection (cv_state v) ts ids c now)\<lparr>ss_desired_generation := cy_generation plan\<rparr>)
      (result_ledger selection) now (write_torrents ws (cv_db v))"
    using plan by (auto simp: plan_selection_def rbind_Inr_iff Let_def)
  define st where "st = align_measurement_after_selection (cv_state v) ts ids c now"
  note d' = d0 [folded st_def]
  have st: "measures_ok st" "0 \<le> ss_dynamic_current_active st"
    using oc(2,3) by (simp_all add: st_def align_measures)
  have "static_of st = static_of (cv_state v)" by (simp add: st_def)
  then have st': "static_check (st\<lparr>ss_desired_generation := cy_generation plan\<rparr>)"
    using oc(1) pl(1) by (simp add: static_check_def static_of_def lease_of_def)
  obtain ws' where db: "cv_db v = write_torrents ws' d"
    using obs by (cases rule: observe_cases) blast
  have led: "ledger_rows_ok (ledger_rounds (previous_ledger (cv_input v))) (result_ledger selection)"
    by (rule select_with_continuity_rows [OF sel])
  have "torrents_unique (db_torrents d')"
    by (simp only: rows(5)) (rule torrents_unique_overwrite [OF uniq rows(2)])
  moreover have "list_all torrent_check (db_torrents d')"
    using rows(3) checks by (auto simp: rows(5) list_all_iff elim: in_overwrite)
  moreover have "schedule_priority_unique (db_torrents d')"
    unfolding rows(5)
    by (rule schedule_priority_overwrite [OF dist _ old rows(1) _ rows(4)])
      (use ok rows(3) in \<open>auto simp: cycle_ok_def\<close>)
  moreover have "list_all (\<lambda>t. t_schedule_generation t \<le> fst (generations (lease_view d'))) (db_torrents d')"
    using rows(3) old by (auto simp: rows(5) list_all_iff pl(2) generations_def intro: order_less_imp_le elim!: in_overwrite)
  moreover have "distinct (map sd_user_id (db_deficits d')) \<and> list_all deficit_check (db_deficits d')"
    using led by (simp add: d' persist_scheduler_ledger_def ledger_rows_ok_def comp_def split_def list_all_iff deficit_check_def)
  moreover have "case db_scheduler d' of None \<Rightarrow> True | Some s \<Rightarrow> scheduler_state_check s"
    using led st st' oc(4) by (simp add: d' persist_scheduler_ledger_def scheduler_state_check_iff static_check_def
        measures_ok_def ledger_rows_ok_def)
  moreover have "db_users d' = db_users d" "db_ledger d' = db_ledger d" "db_usages d' = db_usages d"
    "db_requests d' = db_requests d" "db_jobs d' = db_jobs d"
    by (simp_all add: d' db persist_scheduler_ledger_def)
  ultimately show ?thesis using ok by (simp add: cycle_ok_def db_ok_def)
qed

section \<open>The transaction that records the application\<close>

lemmas acknowledge_defs = acknowledge_stops_def acknowledge_purge_def acknowledge_forced_def
  acknowledge_error_def stopped_error_torrent_def

lemma acknowledge_stops_write:
  "scheduling_write t (acknowledge_stops plan stopped now t)"
  "t_schedule_generation (acknowledge_stops plan stopped now t) = t_schedule_generation t"
  by (simp_all add: scheduling_write_iff acknowledge_defs)

lemma acknowledge_stops_active:
  "t_desired_active (acknowledge_stops plan stopped now t) \<Longrightarrow>
     t_desired_active t \<and> t_desired_priority (acknowledge_stops plan stopped now t) = t_desired_priority t"
  by (auto simp: acknowledge_defs split: if_splits)

lemma acknowledge_stops_check: "torrent_check t \<Longrightarrow> torrent_check (acknowledge_stops plan stopped now t)"
  by (simp add: torrent_check_def acknowledge_defs)

lemma acknowledge_stops_frame [simp]:
  "t_id (acknowledge_stops plan stopped now t) = t_id t"
  "t_info_hash (acknowledge_stops plan stopped now t) = t_info_hash t"
  "t_storage_key (acknowledge_stops plan stopped now t) = t_storage_key t"
  using scheduling_write_frame [OF acknowledge_stops_write(1)] by blast+

lemma schedule_priority_map:
  assumes "schedule_priority_unique ts"
    and "\<And>t. t_desired_active (f t) \<Longrightarrow> t_desired_active t \<and> t_desired_priority (f t) = t_desired_priority t"
      "\<And>t. t_schedule_generation (f t) = t_schedule_generation t"
  shows "schedule_priority_unique (map f ts)"
  using assms(1)
proof (induction ts)
  case (Cons t ts)
  then show ?case using assms(2,3) by (auto simp: schedule_priority_unique_def split: if_splits)
qed (simp add: schedule_priority_unique_def)

lemma apply_cycle_check:
  assumes ok: "cycle_ok d" and run: "apply_cycle owner plan stopped now d = Inr d'"
  shows "cycle_ok d'"
proof -
  obtain s where s: "db_scheduler d = Some s" "ss_desired_generation s = cy_generation plan"
    and d': "d' = d\<lparr>db_scheduler := Some (s\<lparr>ss_applied_generation := cy_generation plan, ss_updated_at := now\<rparr>),
        db_torrents := map (acknowledge_stops plan stopped now) (db_torrents d)\<rparr>"
    using run by (auto simp: apply_cycle_def mark_scheduler_generation_applied_def rbind_Inr_iff
        split: option.splits if_splits)
  have "cycle_ok (d\<lparr>db_scheduler := Some (s\<lparr>ss_applied_generation := cy_generation plan, ss_updated_at := now\<rparr>)\<rparr>)"
    by (rule cycle_ok_scheduler [OF ok])
      (use ok s in \<open>simp_all add: cycle_ok_def scheduler_state_check_def lease_view_def lease_of_def generations_def\<close>)
  moreover have "schedule_priority_unique (map (acknowledge_stops plan stopped now) (db_torrents d))"
    by (rule schedule_priority_map [OF _ acknowledge_stops_active acknowledge_stops_write(2)])
      (use ok in \<open>simp add: cycle_ok_def\<close>)
  ultimately show ?thesis
    by (simp add: d' cycle_ok_def db_ok_def torrents_unique_def comp_def list.pred_map acknowledge_stops_write(2)
        lease_view_def list_all_iff acknowledge_stops_check)
qed

section \<open>A cycle returns\<close>

lemma policy_post_init_valid: "policy_post_init p = Inr q \<Longrightarrow> valid_policy q"
  by (auto simp: valid_policy_def policy_post_init_def result_simps)

lemma candidate_post_init_valid: "candidate_post_init c = Inr c' \<Longrightarrow> valid_candidate c'"
  by (auto simp: valid_candidate_def candidate_post_init_def result_simps)

lemma candidate_of_valid: "candidate_of requests now t = Inr (Some c) \<Longrightarrow> valid_candidate c"
  by (auto simp: candidate_of_def Let_def rbind_Inr_iff candidate_post_init_valid split: if_splits option.splits)

lemma scheduler_candidates_valid:
  "scheduler_candidates requests now ts = Inr cs \<Longrightarrow> list_all valid_candidate cs"
proof (induction ts arbitrary: cs)
  case (Cons t ts)
  then obtain c cs' where c: "candidate_of requests now t = Inr c" "scheduler_candidates requests now ts = Inr cs'"
    and cs: "cs = (case c of None \<Rightarrow> cs' | Some c \<Rightarrow> c # cs')"
    by (auto simp: rbind_Inr_iff)
  then show ?case using Cons.IH [OF c(2)] candidate_of_valid by (auto split: option.splits)
qed simp

lemma observe_cycle_valid:
  assumes "observe_cycle locked options last_rotation now s d = Inr v"
  shows "valid_input (cv_candidates v) (cv_input v)"
  using assms
proof (cases rule: observe_cases)
  case (1 s1 loaded requests schedulable released config ledger cs s2 dyn base policy)
  then show ?thesis
    using policy_post_init_valid [OF 1(9)] scheduler_candidates_valid [OF 1(6)]
    by (auto simp: valid_input_def list_all_iff)
qed

lemma select_with_continuity_returns:
  assumes "valid_input cs inp"
  shows "select_with_continuity cs retained inp \<noteq> None"
proof -
  have "select_torrents (filter P cs) (inp\<lparr>in_active_global := g, in_active_by_user := pu\<rparr>) \<noteq> None" for P g pu
  proof -
    let ?inp = "inp\<lparr>in_active_global := g, in_active_by_user := pu\<rparr>"
    have v: "valid_input (filter P cs) ?inp" using assms by (auto simp: valid_input_def list_all_iff)
    show ?thesis
    proof (cases "admit (filter P cs) ?inp")
      case (Inl e)
      then show ?thesis by (simp add: select_torrents_def)
    next
      case (Inr adm)
      then show ?thesis using select_torrents_run [OF v Inr] by auto
    qed
  qed
  then show ?thesis by (auto simp: select_with_continuity_def Let_def split: prod.splits)
qed

lemma plan_cycle_returns: "plan_cycle owner ttl locked options last_rotation now d \<noteq> None"
  using select_with_continuity_returns [OF observe_cycle_valid]
  by (auto simp: plan_cycle_def split: sum.splits option.splits)

section \<open>The property\<close>

text \<open>
  C6: the scheduler's transactions return and keep every row well formed, whatever the options, the clock and
  the rows other transactions lock. From a database where the CHECK constraints and unique indexes
  of the tables hold and no torrent has a generation of the future, the transaction of a plan and
  the one that records its application commit to such a database: the ranks of a generation stay
  unique, a rank is present exactly when a torrent is to run, limits, credits and counters are not
  negative, and the applied generation is not ahead of the desired one.
\<close>
theorem scheduler_cycle_well_typed:
  assumes "cycle_ok d"
  shows "plan_cycle owner ttl locked options last_rotation now d \<noteq> None
    \<and> (plan_cycle owner ttl locked options last_rotation now d = Some (Inr (d', r)) \<longrightarrow> cycle_ok d')
    \<and> (apply_cycle owner plan stopped now d = Inr d' \<longrightarrow> cycle_ok d')"
proof (intro conjI impI)
  show "plan_cycle owner ttl locked options last_rotation now d \<noteq> None" by (rule plan_cycle_returns)
next
  assume "plan_cycle owner ttl locked options last_rotation now d = Some (Inr (d', r))"
  then show "cycle_ok d'"
  proof (cases rule: plan_cycle_cases)
    case refused
    then show ?thesis using acquire_check(1) [OF assms] by blast
  next
    case (planned d1 s v selection plan)
    note a = acquire_check [OF assms planned(2)]
    show ?thesis by (rule plan_selection_check [OF a(1) planned(3) _ _ planned(4,5)]) (use a(2) in auto)
  qed
qed (rule apply_cycle_check [OF assms])

theorem scheduler_cycle_well_typed_witness:
  "\<exists>d plan. plan_cycle ''a'' (seconds 30) (\<lambda>_. False) ex_scheduler_options None 100 ex_queued_db = Some (Inr (d, Some plan))
     \<and> cycle_ok ex_queued_db \<and> cycle_ok d"
proof -
  have ok: "cycle_ok ex_queued_db" by code_simp
  obtain d plan where
    run: "plan_cycle ''a'' (seconds 30) (\<lambda>_. False) ex_scheduler_options None 100 ex_queued_db = Some (Inr (d, Some plan))"
    by (rule ex_plan_cycle)
  then have "cycle_ok d" using scheduler_cycle_well_typed [OF ok] by blast
  with ok run show ?thesis by blast
qed

end
