(* ===== verification/Scheduler_Safety.thy ===== *)
theory Scheduler_Safety
  imports Scheduler_Rows Sharing_Refinement
begin

text \<open>
  The scheduler inside the platform: its bulk writes are sequences of the single-row steps of the
  transition system of \<open>Platform_System\<close>, so every property of the reachable states survives its cycles,
  and no right and no content changes.
\<close>

section \<open>Bulk writes are platform steps\<close>

lemma put_other_torrent:
  "t \<in> set (db_torrents d) \<Longrightarrow> t_id t \<noteq> t_id w \<Longrightarrow> t \<in> set (db_torrents (put_torrent w d))"
  by (force simp: put_torrent_def in_update_row)

lemma write_torrents_steps:
  assumes "distinct (map t_id rows)"
    and "\<And>r. r \<in> set rows \<Longrightarrow> torrent_check r \<and> (\<exists>t\<in>set (db_torrents d). scheduling_write t r)"
  shows "transaction\<^sup>*\<^sup>* d (write_torrents rows d)"
  using assms
proof (induction rows arbitrary: d)
  case (Cons w rows)
  obtain t where "t \<in> set (db_torrents d)" "scheduling_write t w" "torrent_check w" using Cons.prems(2) by auto
  then have first: "transaction d (put_torrent w d)" by (rule tx_schedule)
  have "torrent_check r \<and> (\<exists>t\<in>set (db_torrents (put_torrent w d)). scheduling_write t r)" if r: "r \<in> set rows" for r
  proof -
    obtain t where t: "torrent_check r" "t \<in> set (db_torrents d)" "scheduling_write t r"
      using Cons.prems(2) [of r] r by auto
    have "t_id r \<in> set (map t_id rows)" using r by simp
    then have "t_id r \<noteq> t_id w" using Cons.prems(1) by (metis distinct.simps(2) list.simps(9))
    then have "t \<in> set (db_torrents (put_torrent w d))"
      using t(2) scheduling_write_frame [OF t(3)] by (intro put_other_torrent) auto
    then show ?thesis using t by blast
  qed
  then have "transaction\<^sup>*\<^sup>* (put_torrent w d) (write_torrents rows (put_torrent w d))"
    using Cons.prems(1) by (intro Cons.IH) auto
  then show ?case using first by (simp add: write_torrents_def converse_rtranclp_into_rtranclp)
qed (simp add: write_torrents_def)

lemma transactions_reach:
  assumes "transaction\<^sup>*\<^sup>* d d'" "pf_db s = d" "reach platform_init platform_step s"
  shows "reach platform_init platform_step (s\<lparr>pf_db := d'\<rparr>)"
  using assms
proof (induction rule: rtranclp_induct)
  case base
  then show ?case by (cases s) simp
next
  case (step y z)
  have "platform_step (s\<lparr>pf_db := y\<rparr>) (s\<lparr>pf_db := y\<rparr>\<lparr>pf_db := z\<rparr>)"
    by (rule ps_transaction) (use step(2) in simp)
  then show ?case using reach_step [OF step(3) [OF step(4,5)]] by simp
qed

text \<open>A bulk write followed by writes to the tables of the scheduler only.\<close>

lemma bulk_write_safe:
  assumes "reach platform_init platform_step s" "distinct (map t_id rows)"
    and rows: "\<And>r. r \<in> set rows \<Longrightarrow> torrent_check r \<and> (\<exists>t\<in>set (db_torrents (pf_db s)). scheduling_write t r)"
    and d': "db_torrents d' = overwrite rows (db_torrents (pf_db s))" "db_requests d' = db_requests (pf_db s)"
      "db_usages d' = db_usages (pf_db s)" "db_ledger d' = db_ledger (pf_db s)" "db_jobs d' = db_jobs (pf_db s)"
      "db_leases d' = db_leases (pf_db s)"
  shows "reach platform_init platform_step (s\<lparr>pf_db := d'\<rparr>)" "library_of d' = library_of (pf_db s)"
proof -
  let ?d = "pf_db s"
  have "safe_ok (pf_now s) ?d" using platform_system.reach_inv [OF assms(1)] by (simp add: platform_inv_def)
  then have dist: "distinct (map t_id (db_torrents ?d))"
    using torrents_distinct [OF platform_okD(1)] safe_okD(1) by blast
  have "transaction\<^sup>*\<^sup>* ?d (write_torrents rows ?d)" by (rule write_torrents_steps [OF assms(2) rows])
  moreover have "transaction (write_torrents rows ?d) d'"
    by (rule tx_other) (simp_all add: d' write_torrents_overwrite [OF assms(2)])
  ultimately have "transaction\<^sup>*\<^sup>* ?d d'" by (rule rtranclp.rtrancl_into_rtrancl)
  then show "reach platform_init platform_step (s\<lparr>pf_db := d'\<rparr>)" using transactions_reach assms(1) by blast
  define view where "view = (\<lambda>t :: managed_torrent. (t_id t, t_info_hash t, t_state t = PURGED))"
  have same: "view t' = view t" if "scheduling_write t t'" for t t'
    using scheduling_write_frame [OF that] by (simp add: view_def)
  have "map view (overwrite rows (db_torrents ?d)) = map view (db_torrents ?d)"
    by (rule overwrite_frame [OF dist]) (fact rows [THEN conjunct2], fact same)
  then have "content_view d' = content_view ?d"
    unfolding content_view_def d'(1) view_def [symmetric] list.set_map [symmetric] by simp
  then show "library_of d' = library_of ?d"
    by (intro keeps_library) (simp add: keeps_def rights_view_def d'(2))
qed

section \<open>The two transactions of a cycle\<close>

definition scheduler_row_ok :: "db \<Rightarrow> bool" where
  "scheduler_row_ok d = (case db_scheduler d of None \<Rightarrow> True | Some s \<Rightarrow> scheduler_state_check s)"

lemma reachable_rows:
  assumes "reach platform_init platform_step s"
  shows "distinct (map t_id (db_torrents (pf_db s)))" "list_all torrent_check (db_torrents (pf_db s))"
proof -
  have "safe_ok (pf_now s) (pf_db s)" using platform_system.reach_inv [OF assms] by (simp add: platform_inv_def)
  then have "system_ok (pf_db s)" using platform_okD(1) safe_okD(1) by blast
  then show "distinct (map t_id (db_torrents (pf_db s)))" "list_all torrent_check (db_torrents (pf_db s))"
    by (simp_all add: torrents_distinct list_all_iff torrent_row_ok)
qed

text \<open>The stops a plan lists are the purges that wait for one, and each has its control.\<close>

definition stop_is_planned :: "db \<Rightarrow> scheduler_plan \<Rightarrow> uuid \<Rightarrow> int \<Rightarrow> bool" where
  "stop_is_planned d P k g \<longleftrightarrow> (\<exists>t\<in>set (db_torrents d). t_id t = k \<and> t_lifecycle_generation t = g
     \<and> t_state t = PURGE_PENDING \<and> t_purge_stop_pending t \<and> control_of_torrent STOPPED 0 t \<in> set (cy_stop_controls P))"

lemma plan_selection_stops:
  assumes "observe_cycle locked options last_rotation now s d = Inr v"
    and "plan_selection options now v selection = Inr (d', P)" "(k, g) \<in> set (cy_purge_stops P)"
  shows "stop_is_planned d P k g"
proof -
  have v: "cv_purge_stops v = load_purge_stops locked d" using assms(1) by (rule observe_cases)
  have P: "cy_purge_stops P = stop_generations (load_purge_stops locked d)"
    "control_of_torrent STOPPED 0 ` set (load_purge_stops locked d) \<subseteq> set (cy_stop_controls P)"
    using assms(2) v by (auto simp: plan_selection_def rbind_Inr_iff Let_def)
  obtain t where t: "t \<in> set (load_purge_stops locked d)" "t_id t = k" "t_lifecycle_generation t = g"
    using assms(3) by (auto simp: P(1) stop_generations_def)
  have "t \<in> set (db_torrents d)" "t_state t = PURGE_PENDING" "t_purge_stop_pending t"
    using t(1) by (auto simp: load_purge_stops_def dest!: in_set_takeD)
  then show ?thesis using t P(2) by (auto simp: stop_is_planned_def)
qed

text \<open>The fields a bulk write of the scheduler keeps.\<close>

definition same_accounts :: "db \<Rightarrow> db \<Rightarrow> bool" where
  "same_accounts d d' \<longleftrightarrow> db_requests d' = db_requests d \<and> db_usages d' = db_usages d
     \<and> db_ledger d' = db_ledger d \<and> db_jobs d' = db_jobs d \<and> db_leases d' = db_leases d"

lemma acquired_generation:
  assumes "acquire_scheduler_lease owner now ttl d = Inr (d1, Some st)" "scheduler_row_ok d"
  shows "d1 = d\<lparr>db_scheduler := Some st\<rparr>" "0 \<le> ss_desired_generation st"
proof -
  from assms(1) have d1: "d1 = d\<lparr>db_scheduler := Some st\<rparr>" "st = leased_state owner now ttl (ensure_scheduler_state now d)"
    by (cases rule: acquire_cases; simp)+
  then show "d1 = d\<lparr>db_scheduler := Some st\<rparr>" by blast
  show "0 \<le> ss_desired_generation st"
    using assms(2) by (auto simp: d1(2) leased_state_def ensure_scheduler_state_def scheduler_row_ok_def
        new_scheduler_state_def scheduler_state_check_def split: option.splits)
qed

lemma plan_selection_accounts:
  assumes "observe_cycle locked options last_rotation now st d = Inr v"
    and "plan_selection options now v selection = Inr (d', plan)"
  shows "same_accounts d d'"
proof -
  obtain ws where "cv_db v = write_torrents ws d" using assms(1) by (cases rule: observe_cases) blast
  moreover obtain x ws' where "d' = persist_scheduler_ledger x (result_ledger selection) now (write_torrents ws' (cv_db v))"
    using assms(2) by (auto simp: plan_selection_def rbind_Inr_iff Let_def)
  ultimately show ?thesis by (simp add: same_accounts_def persist_scheduler_ledger_def)
qed

lemma plan_cycle_writes:
  assumes reach: "reach platform_init platform_step s" and row: "scheduler_row_ok (pf_db s)"
    and run: "plan_cycle owner ttl locked options last_rotation now (pf_db s) = Some (Inr (d', r))"
  obtains rows where "distinct (map t_id rows)" "same_accounts (pf_db s) d'"
    "\<And>x. x \<in> set rows \<Longrightarrow> torrent_check x \<and> (\<exists>t\<in>set (db_torrents (pf_db s)). scheduling_write t x)"
    "db_torrents d' = overwrite rows (db_torrents (pf_db s))"
    "\<And>P k g. r = Some P \<Longrightarrow> (k, g) \<in> set (cy_purge_stops P) \<Longrightarrow> stop_is_planned (pf_db s) P k g"
  using run
proof (cases rule: plan_cycle_cases)
  case refused
  have "overwrite [] ts = ts" for ts by (simp add: overwrite_def find_row_def)
  moreover from refused(2) have "db_torrents d' = db_torrents (pf_db s) \<and> same_accounts (pf_db s) d'"
    by (cases rule: acquire_cases) (simp_all add: same_accounts_def)
  ultimately show thesis using that [of "[]"] refused(1) by simp
next
  case (planned d1 st v selection plan)
  note d1 = acquired_generation [OF planned(2) row]
  have dist: "distinct (map t_id (db_torrents d1))" and chk: "list_all torrent_check (db_torrents d1)"
    using reachable_rows [OF reach] by (simp_all add: d1(1))
  have g: "0 \<le> cy_generation plan"
    using plan_selection_lease(1) [OF planned(5)] observe_cycle_lease [OF planned(3)] d1(2) by (simp add: lease_of_def)
  obtain rows where rows: "distinct (map t_id rows)"
    "\<And>x. x \<in> set rows \<Longrightarrow> \<exists>t\<in>set (db_torrents d1). scheduling_write t x"
    "\<And>x. x \<in> set rows \<Longrightarrow> torrent_check x \<and> t_schedule_generation x = cy_generation plan"
    "db_torrents d' = overwrite rows (db_torrents d1)"
    by (rule plan_selection_rows [OF planned(3) dist planned(5) chk g]) blast
  have "same_accounts (pf_db s) d'"
    using plan_selection_accounts [OF planned(3,5)] by (simp add: same_accounts_def d1(1))
  moreover have "stop_is_planned (pf_db s) P k g" if "r = Some P" "(k, g) \<in> set (cy_purge_stops P)" for P k g
    using plan_selection_stops [OF planned(3,5)] that planned(1) by (auto simp: stop_is_planned_def d1(1))
  ultimately show thesis using that [OF rows(1)] rows(2-4) by (simp add: d1(1))
qed

lemma apply_cycle_writes:
  assumes reach: "reach platform_init platform_step s"
    and run: "apply_cycle owner plan stopped now (pf_db s) = Inr d'"
  obtains rows where "distinct (map t_id rows)" "same_accounts (pf_db s) d'"
    "\<And>x. x \<in> set rows \<Longrightarrow> torrent_check x \<and> (\<exists>t\<in>set (db_torrents (pf_db s)). scheduling_write t x)"
    "db_torrents d' = overwrite rows (db_torrents (pf_db s))"
    "db_torrents d' = map (acknowledge_stops plan stopped now) (db_torrents (pf_db s))"
proof -
  let ?ts = "db_torrents (pf_db s)" and ?f = "acknowledge_stops plan stopped now"
  have d': "db_torrents d' = map ?f ?ts" "same_accounts (pf_db s) d'"
    using run by (auto simp: apply_cycle_def mark_scheduler_generation_applied_def rbind_Inr_iff same_accounts_def
        split: option.splits if_splits)
  note rows = reachable_rows [OF reach]
  have over: "overwrite (map ?f ?ts) ?ts = map ?f ?ts"
    using overwrite_map_filter [of ?ts ?f "\<lambda>_. True"] rows(1) by simp
  have "distinct (map t_id (map ?f ?ts))" using rows(1) by (simp add: comp_def)
  moreover have "torrent_check x \<and> (\<exists>t\<in>set ?ts. scheduling_write t x)" if h: "x \<in> set (map ?f ?ts)" for x
  proof -
    obtain t where t: "t \<in> set ?ts" "x = ?f t" using h by auto
    have "torrent_check t" using rows(2) t(1) by (simp add: list_all_iff)
    then have "torrent_check x" "scheduling_write t x"
      using acknowledge_stops_check acknowledge_stops_write(1) by (simp_all add: t(2))
    then show ?thesis using t(1) by blast
  qed
  ultimately show thesis using that [of "map ?f ?ts"] d' over by simp
qed

lemma acknowledged_stop:
  assumes "t_purge_stop_pending t" "\<not> t_purge_stop_pending (acknowledge_stops plan stopped now t)"
  shows "stopped \<and> t_state t = PURGE_PENDING \<and> planned_stop (cy_purge_stops plan) t
    \<or> planned_stop (cy_forced_stops plan) t"
  using assms by (auto simp: acknowledge_defs planned_stop_def split: if_splits)

section \<open>The property\<close>

text \<open>
  C5: the scheduler is safe for the platform. The two transactions of a cycle lead from a reachable
  state of the platform to a reachable state, so rights, counters and purges stay as they must be,
  and they grant, drop and store nothing. A purge waiting for its stop is listed by a plan only with
  a STOPPED control of its own. When the application is recorded, a pending stop is cleared only for
  a torrent of that plan in the same life: either its purge is pending and the stop controls
  succeeded, or the plan lists a forced stop of it, which is acknowledged even when the stop controls
  failed.
\<close>
theorem scheduler_cycle_safe:
  assumes reach: "reach platform_init platform_step s" and row: "scheduler_row_ok (pf_db s)"
  shows "(plan_cycle owner ttl locked options last_rotation now (pf_db s) = Some (Inr (d', r)) \<longrightarrow>
      reach platform_init platform_step (s\<lparr>pf_db := d'\<rparr>) \<and> library_of d' = library_of (pf_db s)
      \<and> (\<forall>P k g. r = Some P \<and> (k, g) \<in> set (cy_purge_stops P) \<longrightarrow> stop_is_planned (pf_db s) P k g))
    \<and> (apply_cycle owner plan stopped now (pf_db s) = Inr d' \<longrightarrow>
      reach platform_init platform_step (s\<lparr>pf_db := d'\<rparr>) \<and> library_of d' = library_of (pf_db s)
      \<and> (\<forall>t\<in>set (db_torrents (pf_db s)). \<exists>t'\<in>set (db_torrents d'). scheduling_write t t'
            \<and> (t_purge_stop_pending t \<and> \<not> t_purge_stop_pending t' \<longrightarrow>
                 stopped \<and> t_state t = PURGE_PENDING \<and> planned_stop (cy_purge_stops plan) t
                 \<or> planned_stop (cy_forced_stops plan) t)))"
proof (intro conjI impI)
  assume run: "plan_cycle owner ttl locked options last_rotation now (pf_db s) = Some (Inr (d', r))"
  obtain rows where w: "distinct (map t_id rows)" "same_accounts (pf_db s) d'"
    "\<And>x. x \<in> set rows \<Longrightarrow> torrent_check x \<and> (\<exists>t\<in>set (db_torrents (pf_db s)). scheduling_write t x)"
    "db_torrents d' = overwrite rows (db_torrents (pf_db s))"
    "\<And>P k g. r = Some P \<Longrightarrow> (k, g) \<in> set (cy_purge_stops P) \<Longrightarrow> stop_is_planned (pf_db s) P k g"
    by (rule plan_cycle_writes [OF reach row run]) blast
  note safe = bulk_write_safe [OF reach w(1,3,4)] w(2) [unfolded same_accounts_def]
  show "reach platform_init platform_step (s\<lparr>pf_db := d'\<rparr>)" "library_of d' = library_of (pf_db s)"
    using safe by simp_all
  show "\<forall>P k g. r = Some P \<and> (k, g) \<in> set (cy_purge_stops P) \<longrightarrow> stop_is_planned (pf_db s) P k g"
    using w(5) by blast
next
  assume run: "apply_cycle owner plan stopped now (pf_db s) = Inr d'"
  obtain rows where w: "distinct (map t_id rows)" "same_accounts (pf_db s) d'"
    "\<And>x. x \<in> set rows \<Longrightarrow> torrent_check x \<and> (\<exists>t\<in>set (db_torrents (pf_db s)). scheduling_write t x)"
    "db_torrents d' = overwrite rows (db_torrents (pf_db s))"
    "db_torrents d' = map (acknowledge_stops plan stopped now) (db_torrents (pf_db s))"
    by (rule apply_cycle_writes [OF reach run]) blast
  note safe = bulk_write_safe [OF reach w(1,3,4)] w(2) [unfolded same_accounts_def]
  show "reach platform_init platform_step (s\<lparr>pf_db := d'\<rparr>)" "library_of d' = library_of (pf_db s)"
    using safe by simp_all
  let ?ok = "\<lambda>t t'. scheduling_write t t' \<and> (t_purge_stop_pending t \<and> \<not> t_purge_stop_pending t' \<longrightarrow>
           stopped \<and> t_state t = PURGE_PENDING \<and> planned_stop (cy_purge_stops plan) t
           \<or> planned_stop (cy_forced_stops plan) t)"
  have "?ok t (acknowledge_stops plan stopped now t)" for t
    using acknowledge_stops_write(1) acknowledged_stop by blast
  then show "\<forall>t\<in>set (db_torrents (pf_db s)). \<exists>t'\<in>set (db_torrents d'). ?ok t t'"
    unfolding w(5) set_map by blast
qed

section \<open>A purge that waits for its stop\<close>

definition ex_stop_leased :: scheduler_state where
  "ex_stop_leased = leased_state ''a'' ex_late (seconds 30) (new_scheduler_state ex_late)"

definition ex_stop_view :: cycle_view where
  "ex_stop_view =
     (case observe_cycle (\<lambda>_. False) ex_scheduler_options None ex_late ex_stop_leased
             (ex_pending_db\<lparr>db_scheduler := Some ex_stop_leased\<rparr>) of
        Inr v \<Rightarrow> v)"

definition ex_stop_result :: scheduler_result where
  "ex_stop_result =
     \<lparr>selected = [], result_ledger = empty_ledger, stalled_torrent_ids = [], capacity_remaining = 1\<rparr>"

lemma ex_stop_view_ok:
  "observe_cycle (\<lambda>_. False) ex_scheduler_options None ex_late ex_stop_leased
     (ex_pending_db\<lparr>db_scheduler := Some ex_stop_leased\<rparr>) = Inr ex_stop_view"
  by code_simp

lemma ex_stop_selection:
  "select_with_continuity (cv_candidates ex_stop_view) (cv_retained ex_stop_view) (cv_input ex_stop_view)
     = Some (Inr ex_stop_result)"
  by code_simp

definition ex_stop_planned :: "db \<times> scheduler_plan" where
  "ex_stop_planned = (case plan_selection ex_scheduler_options ex_late ex_stop_view ex_stop_result of Inr x \<Rightarrow> x)"

lemma ex_stop_plan:
  "plan_selection ex_scheduler_options ex_late ex_stop_view ex_stop_result = Inr ex_stop_planned"
  "cy_purge_stops (snd ex_stop_planned) = [(40, 2)]"
  by code_simp+

lemma ex_stop_lists:
  "cy_error_stops (snd ex_stop_planned) = []" "cy_forced_stops (snd ex_stop_planned) = []"
  by code_simp+

lemma ex_stop_torrents: "db_torrents (fst ex_stop_planned) = [ex_pending]"
  by code_simp

lemma ex_stop_flags: "t_id ex_pending = 40" "t_lifecycle_generation ex_pending = 2" "t_state ex_pending = PURGE_PENDING"
  "t_purge_stop_pending ex_pending"
  by code_simp+

lemma ex_stop_row: "scheduler_row_ok (fst ex_stop_planned)"
  by code_simp

lemma ex_stop_cycle:
  "plan_cycle ''a'' (seconds 30) (\<lambda>_. False) ex_scheduler_options None ex_late ex_pending_db
     = Some (Inr (fst ex_stop_planned, Some (snd ex_stop_planned)))"
proof -
  have "acquire_scheduler_lease ''a'' ex_late (seconds 30) ex_pending_db =
      Inr (ex_pending_db\<lparr>db_scheduler := Some ex_stop_leased\<rparr>, Some ex_stop_leased)"
    by code_simp
  then show ?thesis
    by (simp add: plan_cycle_def ex_stop_view_ok ex_stop_selection ex_stop_plan(1) lift_py_def split_def)
qed

lemma apply_cycle_runs:
  assumes "lease_view d = Some (Some owner, e, cy_generation plan, a)"
  obtains d' where "apply_cycle owner plan stopped now d = Inr d'"
    "db_torrents d' = map (acknowledge_stops plan stopped now) (db_torrents d)"
  using assms by (auto simp: apply_cycle_def mark_scheduler_generation_applied_def lease_view_def lease_of_def)

lemma acknowledge_purge_only:
  assumes "cy_error_stops plan = []" "cy_forced_stops plan = []"
  shows "acknowledge_stops plan stopped now t = acknowledge_purge plan stopped now t"
  using assms by (simp add: acknowledge_stops_def acknowledge_error_def acknowledge_forced_def planned_stop_def)

lemma acknowledge_purge_clears:
  assumes "t_state t = PURGE_PENDING" "t_purge_stop_pending t" "planned_stop (cy_purge_stops plan) t"
  shows "\<not> t_purge_stop_pending (acknowledge_purge plan True now t)"
  using assms by (simp add: acknowledge_purge_def)

lemma ex_stop_apply:
  obtains d where "apply_cycle ''a'' (snd ex_stop_planned) True ex_late (fst ex_stop_planned) = Inr d"
    "map t_purge_stop_pending (db_torrents d) = [False]"
proof -
  obtain e a where "lease_view (fst ex_stop_planned) = Some (Some ''a'', e, cy_generation (snd ex_stop_planned), a)"
    using ex_stop_cycle by (cases rule: plan_cycle_lease) auto
  then obtain d where d: "apply_cycle ''a'' (snd ex_stop_planned) True ex_late (fst ex_stop_planned) = Inr d"
    "db_torrents d = map (acknowledge_stops (snd ex_stop_planned) True ex_late) (db_torrents (fst ex_stop_planned))"
    by (rule apply_cycle_runs)
  have planned: "planned_stop (cy_purge_stops (snd ex_stop_planned)) ex_pending"
    by (simp add: planned_stop_def ex_stop_flags(1,2) ex_stop_plan(2))
  have "map t_purge_stop_pending (db_torrents d) = [False]"
    unfolding d(2) ex_stop_torrents acknowledge_purge_only [OF ex_stop_lists] list.map
    using acknowledge_purge_clears [OF ex_stop_flags(3,4) planned] by simp
  then show thesis by (rule that [OF d(1)])
qed

theorem scheduler_cycle_safe_witness:
  "\<exists>d. apply_cycle ''a'' (snd ex_stop_planned) True ex_late (fst ex_stop_planned) = Inr d
   \<and> reach platform_init platform_step (ex_platform d ex_late) \<and> library_of d = library_of ex_pending_db
   \<and> stop_is_planned ex_pending_db (snd ex_stop_planned) 40 2 \<and> map t_purge_stop_pending (db_torrents d) = [False]"
proof -
  obtain d where d: "apply_cycle ''a'' (snd ex_stop_planned) True ex_late (fst ex_stop_planned) = Inr d"
    "map t_purge_stop_pending (db_torrents d) = [False]" by (rule ex_stop_apply)
  have "purge_snapshot ex_purge ex_cancelled_db" by code_simp
  then have reach: "reach platform_init platform_step (ex_platform ex_pending_db ex_late)"
    unfolding ex_pending_db_def by (rule ex_begin_step [OF ex_activate_run _ ex_reach_cancelled])
  have row: "scheduler_row_ok (pf_db (ex_platform ex_pending_db ex_late))" by code_simp
  have run: "plan_cycle ''a'' (seconds 30) (\<lambda>_. False) ex_scheduler_options None ex_late
      (pf_db (ex_platform ex_pending_db ex_late)) = Some (Inr (fst ex_stop_planned, Some (snd ex_stop_planned)))"
    using ex_stop_cycle by (simp add: ex_platform_def)
  have planned: "reach platform_init platform_step (ex_platform (fst ex_stop_planned) ex_late)"
    "library_of (fst ex_stop_planned) = library_of ex_pending_db"
    "stop_is_planned ex_pending_db (snd ex_stop_planned) 40 2"
    using scheduler_cycle_safe [OF reach row, THEN conjunct1, rule_format, OF run] ex_stop_plan(2)
    by (simp_all add: ex_platform_def)
  have row': "scheduler_row_ok (pf_db (ex_platform (fst ex_stop_planned) ex_late))"
    using ex_stop_row by (simp add: ex_platform_def)
  have run': "apply_cycle ''a'' (snd ex_stop_planned) True ex_late
      (pf_db (ex_platform (fst ex_stop_planned) ex_late)) = Inr d"
    using d(1) by (simp add: ex_platform_def)
  have "reach platform_init platform_step (ex_platform d ex_late)" "library_of d = library_of (fst ex_stop_planned)"
    using scheduler_cycle_safe [OF planned(1) row', THEN conjunct2, THEN mp, OF run']
    by (simp_all add: ex_platform_def)
  then show ?thesis using planned(2,3) d by (intro exI [of _ d]) simp
qed

end
