(* ===== verification/Bencode.thy ===== *)
theory Bencode
  imports Prelude
begin

text \<open>
  The bencode reader and writer of \<open>backend/app/torrents/metainfo.py\<close> (\<open>_Parser\<close>, \<open>_encode\<close>), and the
  second pass that finds the bytes of the \<open>info\<close> dictionary, whose SHA-1 digest is the identity of a
  torrent. The position of the parser is the list of the bytes that remain; \<open>self.items\<close> is passed along.
  The results are that the reader accepts exactly the canonical documents within its limits, and
  that the digested bytes are the encoding of the \<open>info\<close> value it read.
\<close>

section \<open>Values and errors\<close>

datatype bvalue =
    BInt int
  | BBytes string
  | BList "bvalue list"
  | BDict "(string \<times> bvalue) list"

text \<open>
  The messages of \<open>TorrentValidationError\<close> by name, and the plain \<open>ValueError\<close> Python raises when it
  converts a numeral of more than 4300 digits.
\<close>

datatype metainfo_error =
    FileInvalid | TooManyItems | FileTruncated | DictNotCanonical | FileEmpty | TrailingData
  | FieldInvalid string | StructureUnsupported | InfoMissing | PiecesInvalid | PieceLengthInvalid
  | TrackerUrlInvalid | TrackerNotAllowed | TrackerMissing | TrackerListInvalid
  | NameMissing | NameNotUtf8 | NameInvalid | PathInvalid | PathNotUtf8 | FilesInvalid | TooManyFiles
  | SizeInvalid | SizeTooLarge | AttributesInvalid string | AttributeUnsafe | PaddingInvalid
  | IntegerConversion

definition MAX_BENCODE_DEPTH :: nat where "MAX_BENCODE_DEPTH = 64"

definition MAX_BENCODE_ITEMS :: nat where "MAX_BENCODE_ITEMS = 200000"

definition MAX_INT_DIGITS :: nat where "MAX_INT_DIGITS = 4300"

section \<open>The reader\<close>

text \<open>\<open>content.find(c, position)\<close>: what stands before the next \<open>c\<close>, and what follows it.\<close>

definition find_char :: "char \<Rightarrow> string \<Rightarrow> (string \<times> string) option" where
  "find_char c s =
     (if c \<in> set s then Some (takeWhile (\<lambda>x. x \<noteq> c) s, tl (dropWhile (\<lambda>x. x \<noteq> c) s)) else None)"

definition int_of_digits :: "string \<Rightarrow> metainfo_error + nat" where
  "int_of_digits ds =
     (if MAX_INT_DIGITS < length ds then Inl IntegerConversion else Inr (decimal_value ds))"

definition signed_digits :: "string \<Rightarrow> string" where
  "signed_digits raw = (if take 1 raw = ''-'' then tl raw else raw)"

text \<open>After the marker \<open>i\<close>.\<close>

definition parse_integer :: "string \<Rightarrow> metainfo_error + int \<times> string" where
  "parse_integer s =
     (case find_char (CHR ''e'') s of
        None \<Rightarrow> Inl FileInvalid
      | Some (raw, rest) \<Rightarrow>
          let digits = signed_digits raw
          in if raw = [] \<or> raw = ''-0'' \<or> (take 1 raw = ''0'' \<and> 1 < length raw) \<or> take 2 raw = ''-0''
                \<or> digits = [] \<or> \<not> list_all is_digit digits
             then Inl FileInvalid
             else rbind (int_of_digits digits) (\<lambda>n.
                  Inr (if take 1 raw = ''-'' then - int n else int n, rest)))"

definition parse_bytes :: "string \<Rightarrow> metainfo_error + string \<times> string" where
  "parse_bytes s =
     (case find_char (CHR '':'') s of
        None \<Rightarrow> Inl FileInvalid
      | Some (raw, rest) \<Rightarrow>
          if raw = [] \<or> \<not> list_all is_digit raw \<or> (take 1 raw = ''0'' \<and> 1 < length raw)
          then Inl FileInvalid
          else rbind (int_of_digits raw) (\<lambda>n.
               if length rest < n then Inl FileTruncated else Inr (take n rest, drop n rest)))"

type_synonym value_parser = "nat \<Rightarrow> string \<Rightarrow> metainfo_error + bvalue \<times> nat \<times> string"

text \<open>
  The loops of \<open>_list\<close> and \<open>_dictionary\<close>, over the parser \<open>p\<close> of the level below. A value takes at
  least one byte (\<open>parse_progress\<close>), so the last branch of each loop is never taken; it is there
  for the termination of the definitions over any \<open>p\<close>.
\<close>

function parse_list :: "value_parser \<Rightarrow> nat \<Rightarrow> string \<Rightarrow> metainfo_error + bvalue list \<times> nat \<times> string" where
  "parse_list p items s =
     (case s of
        [] \<Rightarrow> Inl FileTruncated
      | c # rest \<Rightarrow>
          if c = CHR ''e'' then Inr ([], items, rest)
          else rbind (p items s) (\<lambda>(v, items', s').
               if length s' < length s
               then rbind (parse_list p items' s') (\<lambda>(vs, r). Inr (v # vs, r))
               else Inl FileInvalid))"
  by pat_completeness auto

termination by (relation "measure (\<lambda>(p, items, s). length s)") auto

declare parse_list.simps [simp del]

lemma parse_list_end [simp]: "parse_list p items (CHR ''e'' # r) = Inr ([], items, r)"
  by (simp add: parse_list.simps)

lemma parse_list_Cons:
  "c \<noteq> CHR ''e'' \<Longrightarrow> parse_list p items (c # rest) =
     rbind (p items (c # rest)) (\<lambda>(v, items', s').
       if length s' < Suc (length rest)
       then rbind (parse_list p items' s') (\<lambda>(vs, r). Inr (v # vs, r)) else Inl FileInvalid)"
  by (subst parse_list.simps) simp

function parse_dict ::
  "value_parser \<Rightarrow> (string \<times> bvalue) list \<Rightarrow> nat \<Rightarrow> string
     \<Rightarrow> metainfo_error + (string \<times> bvalue) list \<times> nat \<times> string" where
  "parse_dict p entries items s =
     (case s of
        [] \<Rightarrow> Inl FileTruncated
      | c # rest \<Rightarrow>
          if c = CHR ''e'' then Inr (entries, items, rest)
          else rbind (parse_bytes s) (\<lambda>(key, s1).
               if key \<in> set (map fst entries) \<or> (entries \<noteq> [] \<and> key < fst (last entries))
               then Inl DictNotCanonical
               else rbind (p items s1) (\<lambda>(v, items', s').
                    if length s' < length s
                    then parse_dict p (entries @ [(key, v)]) items' s'
                    else Inl FileInvalid)))"
  by pat_completeness auto

termination by (relation "measure (\<lambda>(p, entries, items, s). length s)") auto

declare parse_dict.simps [simp del]

lemma parse_dict_end [simp]: "parse_dict p entries items (CHR ''e'' # r) = Inr (entries, items, r)"
  by (simp add: parse_dict.simps)

lemma parse_dict_Cons:
  "c \<noteq> CHR ''e'' \<Longrightarrow> parse_dict p entries items (c # rest) =
     rbind (parse_bytes (c # rest)) (\<lambda>(key, s1).
       if key \<in> set (map fst entries) \<or> (entries \<noteq> [] \<and> key < fst (last entries)) then Inl DictNotCanonical
       else rbind (p items s1) (\<lambda>(v, items', s').
         if length s' < length (c # rest) then parse_dict p (entries @ [(key, v)]) items' s'
         else Inl FileInvalid))"
  by (subst parse_dict.simps) (simp del: list.size)

text \<open>\<open>parse\<close> at depth \<open>d\<close> is \<open>parse_value (MAX_BENCODE_DEPTH + 1 - d)\<close>.\<close>

primrec parse_value :: "nat \<Rightarrow> value_parser" where
  "parse_value 0 = (\<lambda>items s. Inl FileInvalid)"
| "parse_value (Suc k) = (\<lambda>items s.
     case s of
       [] \<Rightarrow> Inl FileInvalid
     | marker # rest \<Rightarrow>
         if MAX_BENCODE_ITEMS < items + 1 then Inl TooManyItems
         else if marker = CHR ''i''
         then rbind (parse_integer rest) (\<lambda>(n, r). Inr (BInt n, items + 1, r))
         else if marker = CHR ''l''
         then rbind (parse_list (parse_value k) (items + 1) rest) (\<lambda>(vs, r). Inr (BList vs, r))
         else if marker = CHR ''d''
         then rbind (parse_dict (parse_value k) [] (items + 1) rest) (\<lambda>(es, r). Inr (BDict es, r))
         else if is_digit marker
         then rbind (parse_bytes s) (\<lambda>(b, r). Inr (BBytes b, items + 1, r))
         else Inl FileInvalid)"

text \<open>The first pass over a document.\<close>

definition parse_document :: "string \<Rightarrow> metainfo_error + bvalue" where
  "parse_document content =
     rbind (require (content \<noteq> []) FileEmpty) (\<lambda>_.
     rbind (parse_value (MAX_BENCODE_DEPTH + 1) 0 content) (\<lambda>(v, items, rest).
     rbind (require (rest = []) TrailingData) (\<lambda>_. Inr v)))"

text \<open>The second pass: the bytes of the value of the last key \<open>info\<close> of the root dictionary.\<close>

function info_loop :: "string option \<Rightarrow> nat \<Rightarrow> string \<Rightarrow> metainfo_error + string option" where
  "info_loop raw items s =
     (if s = [] \<or> hd s = CHR ''e'' then Inr raw
      else rbind (parse_bytes s) (\<lambda>(key, start).
           rbind (parse_value MAX_BENCODE_DEPTH items start) (\<lambda>(v, items', s').
           if length s' < length s
           then info_loop (if key = ''info'' then Some (take (length start - length s') start) else raw) items' s'
           else Inl FileInvalid)))"
  by pat_completeness auto

termination by (relation "measure (\<lambda>(raw, items, s). length s)") auto

declare info_loop.simps [simp del]

definition info_raw :: "string \<Rightarrow> metainfo_error + string" where
  "info_raw content =
     rbind (require (take 1 content = ''d'') FileInvalid) (\<lambda>_.
     rbind (info_loop None 0 (tl content)) (\<lambda>raw.
     case raw of None \<Rightarrow> Inl InfoMissing | Some r \<Rightarrow> Inr r))"

section \<open>The writer\<close>

definition encode_bytes :: "string \<Rightarrow> string" where
  "encode_bytes b = nat_str (length b) @ CHR '':'' # b"

lemma bdict_size: "(k, v) \<in> set es \<Longrightarrow> size v < size (BDict es)"
  by (induction es) auto

lemma blist_size: "v \<in> set vs \<Longrightarrow> size v < size (BList vs)"
  by (induction vs) auto

function encode :: "bvalue \<Rightarrow> string" where
  "encode (BInt n) = CHR ''i'' # int_str n @ ''e''"
| "encode (BBytes b) = encode_bytes b"
| "encode (BList vs) = CHR ''l'' # concat (map encode vs) @ ''e''"
| "encode (BDict es) =
     CHR ''d'' # concat (map (\<lambda>(k, v). encode_bytes k @ encode v) (sort_key fst es)) @ ''e''"
  by pat_completeness auto

termination by (relation "measure size") (auto intro: bdict_size blist_size simp del: bvalue.size)

section \<open>Canonical values\<close>

text \<open>
  \<open>canonical\<close>: dictionaries in strictly increasing order of their keys, numerals Python converts.
  \<open>fits k\<close>: nested less than \<open>k\<close> levels. \<open>node_count\<close>: the calls of \<open>parse\<close> that read the value.
\<close>

definition bytes_ok :: "string \<Rightarrow> bool" where
  "bytes_ok b \<longleftrightarrow> length (nat_str (length b)) \<le> MAX_INT_DIGITS"

function canonical :: "bvalue \<Rightarrow> bool" where
  "canonical (BInt n) \<longleftrightarrow> length (nat_str (nat \<bar>n\<bar>)) \<le> MAX_INT_DIGITS"
| "canonical (BBytes b) \<longleftrightarrow> bytes_ok b"
| "canonical (BList vs) \<longleftrightarrow> list_all canonical vs"
| "canonical (BDict es) \<longleftrightarrow>
     sorted_wrt (<) (map fst es) \<and> list_all (\<lambda>(k, v). bytes_ok k \<and> canonical v) es"
  by pat_completeness auto

termination by (relation "measure size") (auto intro: bdict_size blist_size simp del: bvalue.size)

primrec fits :: "nat \<Rightarrow> bvalue \<Rightarrow> bool" where
  "fits 0 v = False"
| "fits (Suc k) v =
     (case v of BList vs \<Rightarrow> list_all (fits k) vs | BDict es \<Rightarrow> list_all (\<lambda>e. fits k (snd e)) es | _ \<Rightarrow> True)"

function node_count :: "bvalue \<Rightarrow> nat" where
  "node_count (BInt n) = 1"
| "node_count (BBytes b) = 1"
| "node_count (BList vs) = 1 + sum_list (map node_count vs)"
| "node_count (BDict es) = 1 + sum_list (map (\<lambda>(k, v). node_count v) es)"
  by pat_completeness auto

termination by (relation "measure size") (auto intro: bdict_size blist_size simp del: bvalue.size)

section \<open>Numerals\<close>

lemma find_char_append [simp]:
  assumes "c \<notin> set a"
  shows "find_char c (a @ c # b) = Some (a, b)"
proof -
  have "takeWhile (\<lambda>x. x \<noteq> c) (a @ c # b) = a" "dropWhile (\<lambda>x. x \<noteq> c) (a @ c # b) = c # b"
    using assms by (induction a) auto
  then show ?thesis by (simp add: find_char_def)
qed

lemma find_char_SomeD:
  assumes "find_char c s = Some (a, b)"
  shows "s = a @ c # b" "c \<notin> set a"
proof -
  have c: "c \<in> set s" "a = takeWhile (\<lambda>x. x \<noteq> c) s" "b = tl (dropWhile (\<lambda>x. x \<noteq> c) s)"
    using assms by (auto simp: find_char_def split: if_splits)
  have "dropWhile (\<lambda>x. x \<noteq> c) s \<noteq> []" using c(1) by (simp add: dropWhile_eq_Nil_conv)
  moreover have "hd (dropWhile (\<lambda>x. x \<noteq> c) s) = c" using hd_dropWhile [of "\<lambda>x. x \<noteq> c" s] calculation by simp
  ultimately have "dropWhile (\<lambda>x. x \<noteq> c) s = c # b" using c(3) by (metis list.collapse)
  then show "s = a @ c # b" using c(2) by (metis takeWhile_dropWhile_id)
  show "c \<notin> set a" using c(2) set_takeWhileD by fastforce
qed

lemma digit_cases: "is_digit c \<Longrightarrow> \<exists>n < 10. c = char_of (48 + n :: nat)"
proof -
  assume "is_digit c"
  then have b: "48 \<le> (of_char c :: nat)" "(of_char c :: nat) \<le> 57"
    by (simp_all add: is_digit_def char_in_def less_eq_char_def)
  have "c = char_of (of_char c :: nat)" by simp
  also have "\<dots> = char_of (48 + (of_char c - 48) :: nat)" using b(1) by simp
  finally show ?thesis using b(2) by (intro exI [of _ "of_char c - 48 :: nat"]) auto
qed

lemma nat_str_0 [simp]: "nat_str 0 = ''0''"
  by code_simp

lemma decimal_value_snoc: "decimal_value (ds @ [c]) = 10 * decimal_value ds + digit_value c"
  by (simp add: decimal_value_def)

text \<open>A numeral without leading zeros is the one \<open>str\<close> prints.\<close>

lemma nat_str_decimal_value:
  assumes "list_all is_digit ds" "ds \<noteq> []" "\<not> (take 1 ds = ''0'' \<and> 1 < length ds)"
  shows "nat_str (decimal_value ds) = ds"
  using assms
proof (induction ds rule: rev_induct)
  case (snoc c ds)
  obtain n where n: "n < 10" "c = char_of (48 + n :: nat)" using digit_cases [of c] snoc.prems(1) by auto
  show ?case
  proof (cases "ds = []")
    case True
    then show ?thesis using n by (subst nat_str.simps) (simp add: decimal_value_def)
  next
    case False
    have nz: "take 1 ds \<noteq> ''0''" using snoc.prems(3) False by (cases ds) auto
    have ih: "nat_str (decimal_value ds) = ds" using snoc nz False by auto
    have "decimal_value ds \<noteq> 0"
    proof
      assume "decimal_value ds = 0"
      then have "ds = nat_str 0" using ih by simp
      then show False using nz by simp
    qed
    then have "\<not> 10 * decimal_value ds + n < 10" by simp
    moreover have "(10 * decimal_value ds + n) div 10 = decimal_value ds" "(10 * decimal_value ds + n) mod 10 = n"
      using n(1) by simp_all
    ultimately show ?thesis using n ih by (subst nat_str.simps) (simp add: decimal_value_snoc)
  qed
qed simp

lemma nat_str_no_leading_zero: "\<not> (take 1 (nat_str n) = ''0'' \<and> 1 < length (nat_str n))"
proof (induction n rule: nat_str.induct)
  case (1 n)
  show ?case
  proof (cases "n < 10")
    case True
    then show ?thesis by (subst (2) nat_str.simps) simp
  next
    case False
    have r: "nat_str n = nat_str (n div 10) @ [char_of (48 + n mod 10)]" using False by (subst nat_str.simps) simp
    have "take 1 (nat_str (n div 10)) \<noteq> ''0''"
    proof
      assume z: "take 1 (nat_str (n div 10)) = ''0''"
      then have "nat_str (n div 10) = ''0''" using 1 [OF False] by (cases "nat_str (n div 10)") auto
      then have "nat_str (n div 10) = nat_str 0" by simp
      then have "n div 10 = 0" unfolding nat_str_inject .
      then show False using False by simp
    qed
    then show ?thesis using nat_str_nonempty [of "n div 10"] by (cases "nat_str (n div 10)") (auto simp: r)
  qed
qed

lemma digits_no_mark:
  assumes "list_all is_digit ds" "\<not> is_digit c"
  shows "c \<notin> set ds"
  using assms by (auto simp: list_all_iff)

lemma marks [simp]: "\<not> is_digit (CHR '':'')" "\<not> is_digit (CHR ''e'')" "\<not> is_digit (CHR ''-'')"
    "\<not> is_digit (CHR ''i'')" "\<not> is_digit (CHR ''l'')" "\<not> is_digit (CHR ''d'')"
  by (simp_all add: is_digit_def char_in_def less_eq_char_def)

lemma nat_str_no_mark: "\<not> is_digit c \<Longrightarrow> c \<notin> set (nat_str n)"
  by (rule digits_no_mark [OF nat_str_digits])

lemma hd_digit: "list_all is_digit ds \<Longrightarrow> ds \<noteq> [] \<Longrightarrow> \<exists>c cs. ds = c # cs \<and> is_digit c"
  by (cases ds) auto

text \<open>Each numeral reader accepts exactly what the writer prints.\<close>

lemma parse_bytes_iff: "parse_bytes s = Inr (b, r) \<longleftrightarrow> s = encode_bytes b @ r \<and> bytes_ok b"
proof
  assume run: "parse_bytes s = Inr (b, r)"
  obtain raw rest where f: "find_char (CHR '':'') s = Some (raw, rest)"
    and d: "list_all is_digit raw" "raw \<noteq> []" "\<not> (take 1 raw = ''0'' \<and> 1 < length raw)"
      "length raw \<le> MAX_INT_DIGITS" "decimal_value raw \<le> length rest"
    and br: "b = take (decimal_value raw) rest" "r = drop (decimal_value raw) rest"
    using run by (auto simp: parse_bytes_def int_of_digits_def rbind_Inr_iff split: option.splits if_splits)
  have n: "nat_str (decimal_value raw) = raw" by (rule nat_str_decimal_value [OF d(1-3)])
  have len: "length b = decimal_value raw" using d(5) br(1) by simp
  then show "s = encode_bytes b @ r \<and> bytes_ok b"
    using find_char_SomeD(1) [OF f] n d(4) br by (simp add: encode_bytes_def bytes_ok_def)
next
  assume h: "s = encode_bytes b @ r \<and> bytes_ok b"
  have f: "find_char (CHR '':'') s = Some (nat_str (length b), b @ r)"
    using h find_char_append [OF nat_str_no_mark [OF marks(1)], of "length b" "b @ r"] by (simp add: encode_bytes_def)
  show "parse_bytes s = Inr (b, r)"
    using conjunct2 [OF h] nat_str_digits [of "length b"] nat_str_no_leading_zero [of "length b"]
    by (simp add: parse_bytes_def f int_of_digits_def bytes_ok_def)
qed

lemma parse_integer_iff:
  "parse_integer s = Inr (n, r) \<longleftrightarrow> s = int_str n @ CHR ''e'' # r \<and> canonical (BInt n)"
proof
  assume run: "parse_integer s = Inr (n, r)"
  obtain raw where f: "find_char (CHR ''e'') s = Some (raw, r)"
    and ne: "raw \<noteq> []" "raw \<noteq> ''-0''" "\<not> (take 1 raw = ''0'' \<and> 1 < length raw)" "take 2 raw \<noteq> ''-0''"
    and d: "list_all is_digit (signed_digits raw)" "signed_digits raw \<noteq> []" "length (signed_digits raw) \<le> MAX_INT_DIGITS"
    and n: "n = (if take 1 raw = ''-'' then - int (decimal_value (signed_digits raw)) else int (decimal_value (signed_digits raw)))"
    using run by (auto simp: parse_integer_def int_of_digits_def rbind_Inr_iff Let_def split: option.splits if_splits)
  have "int_str n = raw \<and> length (nat_str (nat \<bar>n\<bar>)) \<le> MAX_INT_DIGITS"
  proof (cases "take 1 raw = ''-''")
    case True
    then obtain ds where raw: "raw = CHR ''-'' # ds" by (cases raw) auto
    then have ds: "signed_digits raw = ds" by (simp add: signed_digits_def)
    have z: "\<not> (take 1 ds = ''0'' \<and> 1 < length ds)" "take 1 ds \<noteq> ''0''" using ne(4) raw by (cases ds; simp)+
    have s: "nat_str (decimal_value ds) = ds" using nat_str_decimal_value [of ds] d(1,2) z(1) ds by simp
    have "decimal_value ds \<noteq> 0"
    proof
      assume "decimal_value ds = 0"
      then have "ds = ''0''" using s by simp
      then show False using z(2) by simp
    qed
    then show ?thesis using n True raw s d(3) ds by (simp add: int_str_def)
  next
    case False
    then have ds: "signed_digits raw = raw" by (simp add: signed_digits_def)
    have "nat_str (decimal_value raw) = raw" using nat_str_decimal_value [of raw] d(1,2) ne(3) ds by simp
    then show ?thesis using n False d(3) ds by (simp add: int_str_def)
  qed
  then show "s = int_str n @ CHR ''e'' # r \<and> canonical (BInt n)" using find_char_SomeD(1) [OF f] by simp
next
  assume h: "s = int_str n @ CHR ''e'' # r \<and> canonical (BInt n)"
  have ne: "CHR ''e'' \<notin> set (int_str n)" using nat_str_no_mark [OF marks(2)] by (auto simp: int_str_def)
  have f: "find_char (CHR ''e'') s = Some (int_str n, r)" using h find_char_append [OF ne] by simp
  note dz = nat_str_digits nat_str_no_leading_zero
  show "parse_integer s = Inr (n, r)"
  proof (cases "n < 0")
    case True
    then have str: "int_str n = CHR ''-'' # nat_str (nat (- n))" by (simp add: int_str_def)
    have nz: "take 1 (nat_str (nat (- n))) \<noteq> ''0''"
    proof
      assume z: "take 1 (nat_str (nat (- n))) = ''0''"
      then have "nat_str (nat (- n)) = nat_str 0" using dz(2) [of "nat (- n)"] by (cases "nat_str (nat (- n))") auto
      then have "nat (- n) = 0" unfolding nat_str_inject .
      then show False using True by simp
    qed
    then have "take 2 (int_str n) \<noteq> ''-0''" "int_str n \<noteq> ''-0''"
      using nat_str_nonempty [of "nat (- n)"] by (cases "nat_str (nat (- n))"; simp add: str)+
    then show ?thesis
      using conjunct2 [OF h] True dz(1) [of "nat (- n)"] by (simp add: parse_integer_def f [unfolded str] signed_digits_def Let_def int_of_digits_def str)
  next
    case False
    then have str: "int_str n = nat_str (nat n)" by (simp add: int_str_def)
    obtain c cs where c: "nat_str (nat n) = c # cs" "is_digit c" using hd_digit [OF dz(1) nat_str_nonempty] by blast
    then have "c \<noteq> CHR ''-''" by auto
    then have "take 1 (int_str n) \<noteq> ''-''" "take 2 (int_str n) \<noteq> ''-0''" "int_str n \<noteq> ''-0''"
      by (cases cs; simp add: str c(1))+
    then show ?thesis
      using conjunct2 [OF h] False dz(1) [of "nat n"] dz(2) [of "nat n"]
      by (simp add: parse_integer_def f [unfolded str] signed_digits_def Let_def int_of_digits_def str)
  qed
qed

text \<open>A longer numeral is not refused by the reader: the conversion raises a plain \<open>ValueError\<close>.\<close>

lemma parse_integer_overlong:
  assumes "list_all is_digit ds" "take 1 ds \<noteq> ''0''" "MAX_INT_DIGITS < length ds"
  shows "parse_integer (ds @ CHR ''e'' # r) = Inl IntegerConversion"
proof -
  have f: "find_char (CHR ''e'') (ds @ CHR ''e'' # r) = Some (ds, r)"
    by (rule find_char_append [OF digits_no_mark [OF assms(1)]]) simp
  obtain c cs where c: "ds = c # cs" using assms(3) by (cases ds) auto
  then have "c \<noteq> CHR ''-''" using assms(1) by auto
  then have "take 1 ds \<noteq> ''-''" "take 2 ds \<noteq> ''-0''" "ds \<noteq> ''-0''" by (simp_all add: c numeral_2_eq_2)
  then show ?thesis
    using assms f c by (simp add: parse_integer_def signed_digits_def Let_def int_of_digits_def)
qed

section \<open>The reader accepts what the writer prints\<close>

definition encode_entry :: "string \<times> bvalue \<Rightarrow> string" where
  "encode_entry e = encode_bytes (fst e) @ encode (snd e)"

definition entry_ok :: "nat \<Rightarrow> string \<times> bvalue \<Rightarrow> bool" where
  "entry_ok k e \<longleftrightarrow> bytes_ok (fst e) \<and> canonical (snd e) \<and> fits k (snd e)"

lemma encode_dict:
  assumes "sorted_wrt (<) (map fst es)"
  shows "encode (BDict es) = CHR ''d'' # concat (map encode_entry es) @ ''e''"
proof -
  have "sort_key fst es = es" using assms by (intro sort_key_id_if_sorted strict_sorted_imp_sorted)
  then show ?thesis by (simp add: encode_entry_def split_def cong: map_cong)
qed

lemma encode_bytes_hd: "\<exists>c cs. encode_bytes b = c # cs \<and> is_digit c"
  using hd_digit [OF nat_str_digits nat_str_nonempty, of "length b"] by (auto simp: encode_bytes_def)

text \<open>\<open>reads p k\<close>: the parser accepts exactly the encodings of canonical values of less than \<open>k\<close> levels.\<close>

definition reads :: "value_parser \<Rightarrow> nat \<Rightarrow> bool" where
  "reads p k \<longleftrightarrow> (\<forall>items s v items' s'. p items s = Inr (v, items', s') \<longleftrightarrow>
     s = encode v @ s' \<and> canonical v \<and> fits k v \<and> items' = items + node_count v \<and> items' \<le> MAX_BENCODE_ITEMS)"

lemma encode_hd: "\<exists>c cs. encode v = c # cs \<and> c \<noteq> CHR ''e''"
  using encode_bytes_hd by (cases v) fastforce+

lemma encode_length: "0 < length (encode v)"
  using encode_hd [of v] by auto

lemma readsD:
  assumes "reads p k" "p items s = Inr (v, items', s')"
  shows "s = encode v @ s'" "canonical v" "fits k v" "items' = items + node_count v" "items' \<le> MAX_BENCODE_ITEMS"
    "length s' < length s"
proof -
  have "s = encode v @ s' \<and> canonical v \<and> fits k v \<and> items' = items + node_count v \<and> items' \<le> MAX_BENCODE_ITEMS"
    using assms unfolding reads_def by blast
  then show "s = encode v @ s'" "canonical v" "fits k v" "items' = items + node_count v" "items' \<le> MAX_BENCODE_ITEMS"
    "length s' < length s"
    using encode_length [of v] by simp_all
qed

lemma readsI:
  assumes "reads p k" "canonical v" "fits k v" "items + node_count v \<le> MAX_BENCODE_ITEMS"
  shows "p items (encode v @ s') = Inr (v, items + node_count v, s')"
  using assms unfolding reads_def by blast

lemma parse_list_sound:
  assumes "reads p k" "parse_list p items s = Inr (vs, items', s')" "items \<le> MAX_BENCODE_ITEMS"
  shows "s = concat (map encode vs) @ CHR ''e'' # s' \<and> list_all canonical vs \<and> list_all (fits k) vs
    \<and> items' = items + sum_list (map node_count vs) \<and> items' \<le> MAX_BENCODE_ITEMS"
  using assms(2,3)
proof (induction "length s" arbitrary: items s vs rule: less_induct)
  case less
  obtain c rest where s: "s = c # rest" using less.prems(1) by (cases s) (auto simp: parse_list.simps)
  show ?case
  proof (cases "c = CHR ''e''")
    case True
    then show ?thesis using less.prems s by auto
  next
    case False
    obtain v i1 s1 vs' where r: "p items s = Inr (v, i1, s1)" "length s1 < length s"
      "parse_list p i1 s1 = Inr (vs', items', s')" "vs = v # vs'"
      using less.prems(1) unfolding s parse_list_Cons [OF False] by (auto simp: rbind_Inr_iff split: if_splits)
    note v = readsD [OF assms(1) r(1)]
    have "s1 = concat (map encode vs') @ CHR ''e'' # s' \<and> list_all canonical vs' \<and> list_all (fits k) vs'
        \<and> items' = i1 + sum_list (map node_count vs') \<and> items' \<le> MAX_BENCODE_ITEMS"
      by (rule less.hyps [OF r(2,3) v(5)])
    then show ?thesis using v(1-4) r(4) by simp
  qed
qed

lemma parse_list_complete:
  assumes "reads p k" "list_all canonical vs" "list_all (fits k) vs"
    and "items + sum_list (map node_count vs) \<le> MAX_BENCODE_ITEMS"
  shows "parse_list p items (concat (map encode vs) @ CHR ''e'' # s') = Inr (vs, items + sum_list (map node_count vs), s')"
  using assms(2-4)
proof (induction vs arbitrary: items)
  case Nil
  show ?case by (simp add: parse_list.simps)
next
  case (Cons v vs)
  let ?t = "concat (map encode vs) @ CHR ''e'' # s'"
  obtain c cs where e: "encode v = c # cs" "c \<noteq> CHR ''e''" using encode_hd by blast
  have p: "p items (encode v @ ?t) = Inr (v, items + node_count v, ?t)"
    by (rule readsI [OF assms(1)]) (use Cons.prems in auto)
  have "parse_list p (items + node_count v) ?t = Inr (vs, items + node_count v + sum_list (map node_count vs), s')"
    by (rule Cons.IH) (use Cons.prems in auto)
  then show ?case using p e by (simp add: parse_list_Cons add.assoc)
qed

lemma sorted_snoc:
  fixes key :: string
  assumes "sorted_wrt (<) (map fst es)"
  shows "sorted_wrt (<) (map fst (es @ [(key, v)])) \<longleftrightarrow>
    \<not> (key \<in> set (map fst es) \<or> (es \<noteq> [] \<and> key < fst (last es)))"
proof (cases es rule: rev_cases)
  case (snoc ys y)
  have below: "\<forall>x\<in>set ys. fst x < fst y" "sorted_wrt (<) (map fst ys)"
    using assms by (simp_all add: snoc sorted_wrt_append)
  show ?thesis
  proof
    assume "sorted_wrt (<) (map fst (es @ [(key, v)]))"
    then have "\<forall>x\<in>set ys. fst x < key" "fst y < key" by (simp_all add: snoc sorted_wrt_append)
    then show "\<not> (key \<in> set (map fst es) \<or> (es \<noteq> [] \<and> key < fst (last es)))" by (auto simp: snoc)
  next
    assume "\<not> (key \<in> set (map fst es) \<or> (es \<noteq> [] \<and> key < fst (last es)))"
    then have "fst y < key" by (auto simp: snoc)
    then show "sorted_wrt (<) (map fst (es @ [(key, v)]))"
      using below by (auto simp: snoc sorted_wrt_append intro: less_trans)
  qed
qed simp

lemma parse_dict_sound:
  assumes "reads p k" "parse_dict p entries items s = Inr (es, items', s')"
    and "sorted_wrt (<) (map fst entries)" "items \<le> MAX_BENCODE_ITEMS"
  shows "\<exists>new. es = entries @ new \<and> s = concat (map encode_entry new) @ CHR ''e'' # s'
    \<and> sorted_wrt (<) (map fst es) \<and> list_all (entry_ok k) new
    \<and> items' = items + sum_list (map (node_count \<circ> snd) new) \<and> items' \<le> MAX_BENCODE_ITEMS"
  using assms(2-4)
proof (induction "length s" arbitrary: entries items s rule: less_induct)
  case less
  obtain c rest where s: "s = c # rest" using less.prems(1) by (cases s) (auto simp: parse_dict.simps)
  show ?case
  proof (cases "c = CHR ''e''")
    case True
    then show ?thesis using less.prems s by auto
  next
    case False
    obtain key s1 v i1 s2 where r: "parse_bytes s = Inr (key, s1)"
      "\<not> (key \<in> set (map fst entries) \<or> (entries \<noteq> [] \<and> key < fst (last entries)))"
      "p items s1 = Inr (v, i1, s2)" "length s2 < length s"
      "parse_dict p (entries @ [(key, v)]) i1 s2 = Inr (es, items', s')"
      using less.prems(1) unfolding s parse_dict_Cons [OF False] by (auto simp: rbind_Inr_iff split: if_splits)
    note v = readsD [OF assms(1) r(3)]
    have srt: "sorted_wrt (<) (map fst (entries @ [(key, v)]))" using sorted_snoc [OF less.prems(2)] r(2) by blast
    obtain new where new: "es = (entries @ [(key, v)]) @ new" "s2 = concat (map encode_entry new) @ CHR ''e'' # s'"
      "sorted_wrt (<) (map fst es)" "list_all (entry_ok k) new"
      "items' = i1 + sum_list (map (node_count \<circ> snd) new)" "items' \<le> MAX_BENCODE_ITEMS"
      using less.hyps [OF r(4,5) srt v(5)] by blast
    have "s = encode_entry (key, v) @ s2" "entry_ok k (key, v)"
      using r(1) v(1-3) by (simp_all add: parse_bytes_iff encode_entry_def entry_ok_def)
    then show ?thesis using new v(4) by (intro exI [of _ "(key, v) # new"]) simp
  qed
qed

lemma parse_dict_complete:
  assumes "reads p k" "list_all (entry_ok k) new" "sorted_wrt (<) (map fst (entries @ new))"
    and "items + sum_list (map (node_count \<circ> snd) new) \<le> MAX_BENCODE_ITEMS"
  shows "parse_dict p entries items (concat (map encode_entry new) @ CHR ''e'' # s') =
    Inr (entries @ new, items + sum_list (map (node_count \<circ> snd) new), s')"
  using assms(2-4)
proof (induction new arbitrary: entries items)
  case Nil
  show ?case by (simp add: parse_dict.simps)
next
  case (Cons e new)
  obtain key v where e: "e = (key, v)" by fastforce
  let ?t = "concat (map encode_entry new) @ CHR ''e'' # s'"
  have ok: "bytes_ok key" "canonical v" "fits k v" using Cons.prems(1) by (simp_all add: e entry_ok_def)
  obtain c cs where h: "encode_bytes key = c # cs" "is_digit c" using encode_bytes_hd by blast
  then have c: "c \<noteq> CHR ''e''" by auto
  have srt: "sorted_wrt (<) (map fst entries)" "sorted_wrt (<) (map fst (entries @ [(key, v)]))"
    using Cons.prems(2) by (auto simp: e sorted_wrt_append)
  then have fresh: "\<not> (key \<in> set (map fst entries) \<or> (entries \<noteq> [] \<and> key < fst (last entries)))"
    using sorted_snoc [OF srt(1), of key v] by blast
  have b: "parse_bytes (encode_bytes key @ encode v @ ?t) = Inr (key, encode v @ ?t)"
    using ok(1) by (simp add: parse_bytes_iff)
  have p: "p items (encode v @ ?t) = Inr (v, items + node_count v, ?t)"
    by (rule readsI [OF assms(1) ok(2,3)]) (use Cons.prems(3) e in auto)
  have "parse_dict p (entries @ [(key, v)]) (items + node_count v) ?t =
      Inr ((entries @ [(key, v)]) @ new, items + node_count v + sum_list (map (node_count \<circ> snd) new), s')"
    by (rule Cons.IH) (use Cons.prems e in auto)
  then have rec: "parse_dict p (entries @ [(key, v)]) (items + node_count v) ?t =
      Inr (entries @ (key, v) # new, items + (node_count v + sum_list (map (node_count \<circ> snd) new)), s')"
    by (simp add: add.assoc)
  have t: "concat (map encode_entry (e # new)) @ CHR ''e'' # s' = c # cs @ encode v @ ?t"
    using h(1) by (simp add: e encode_entry_def [of "(key, v)"])
  have "parse_bytes (c # cs @ encode v @ ?t) = Inr (key, encode v @ ?t)" using b h(1) by simp
  then show ?case
    unfolding t parse_dict_Cons [OF c] using p rec fresh by (simp add: e comp_def)
qed

lemma canonical_list_reads:
  assumes "reads p k"
  shows "parse_list p items s = Inr (vs, items', s') \<and> items \<le> MAX_BENCODE_ITEMS \<longleftrightarrow>
    s = concat (map encode vs) @ CHR ''e'' # s' \<and> list_all canonical vs \<and> list_all (fits k) vs
    \<and> items' = items + sum_list (map node_count vs) \<and> items' \<le> MAX_BENCODE_ITEMS"
  using parse_list_sound [OF assms, of items s vs items' s'] parse_list_complete [OF assms, of vs items s'] by auto

lemma node_count_dict: "node_count (BDict es) = 1 + sum_list (map (node_count \<circ> snd) es)"
  by (simp add: comp_def split_def)

lemma dict_ok:
  "sorted_wrt (<) (map fst es) \<and> list_all (entry_ok k) es \<longleftrightarrow>
     canonical (BDict es) \<and> list_all (\<lambda>e. fits k (snd e)) es"
  by (auto simp: entry_ok_def list_all_iff split_def)

lemma canonical_dict_reads:
  assumes "reads p k"
  shows "parse_dict p [] items s = Inr (es, items', s') \<and> items \<le> MAX_BENCODE_ITEMS \<longleftrightarrow>
    s = concat (map encode_entry es) @ CHR ''e'' # s' \<and> (canonical (BDict es) \<and> list_all (\<lambda>e. fits k (snd e)) es)
    \<and> items' = items + sum_list (map (node_count \<circ> snd) es) \<and> items' \<le> MAX_BENCODE_ITEMS"
  unfolding dict_ok [symmetric]
  using parse_dict_sound [OF assms, of "[]" items s es items' s'] parse_dict_complete [OF assms, of es "[]" items s'] by auto

lemma digit_markers:
  assumes "is_digit c"
  shows "c \<noteq> CHR ''i''" "c \<noteq> CHR ''l''" "c \<noteq> CHR ''d''" "c \<noteq> CHR ''e''"
  using assms by auto

text \<open>The first byte of an encoding tells the kind of the value.\<close>

lemma encode_bytes_marker: "c # rest = encode_bytes b @ s' \<Longrightarrow> is_digit c"
  using encode_bytes_hd [of b] by auto

lemma encode_int_marker:
  "CHR ''i'' # rest = encode v @ s' \<longleftrightarrow> (\<exists>n. v = BInt n \<and> rest = int_str n @ CHR ''e'' # s')"
  by (cases v) (auto dest: encode_bytes_marker)

lemma encode_list_marker:
  "CHR ''l'' # rest = encode v @ s' \<longleftrightarrow> (\<exists>vs. v = BList vs \<and> rest = concat (map encode vs) @ CHR ''e'' # s')"
  by (cases v) (auto dest: encode_bytes_marker)

lemma encode_dict_marker:
  assumes "canonical v"
  shows "CHR ''d'' # rest = encode v @ s' \<longleftrightarrow>
    (\<exists>es. v = BDict es \<and> rest = concat (map encode_entry es) @ CHR ''e'' # s')"
proof (cases v)
  case (BDict es)
  then have "sorted_wrt (<) (map fst es)" using assms by simp
  note e = encode_dict [OF this]
  show ?thesis unfolding BDict e by auto
qed (auto dest: encode_bytes_marker)

lemma encode_digit_marker:
  assumes "is_digit c"
  shows "c # rest = encode v @ s' \<longleftrightarrow> (\<exists>b. v = BBytes b \<and> c # rest = encode_bytes b @ s')"
  using digit_markers [OF assms] by (cases v) auto

lemma encode_no_marker:
  assumes "c \<noteq> CHR ''i''" "c \<noteq> CHR ''l''" "c \<noteq> CHR ''d''" "\<not> is_digit c"
  shows "c # rest \<noteq> encode v @ s'"
  using assms by (cases v) (auto dest: encode_bytes_marker)

lemma fits_Suc [simp]:
  "fits (Suc k) (BInt n)" "fits (Suc k) (BBytes b)" "fits (Suc k) (BList vs) = list_all (fits k) vs"
  "fits (Suc k) (BDict es) = list_all (\<lambda>e. fits k (snd e)) es"
  by simp_all

theorem parse_value_reads: "reads (parse_value k) k"
proof (induction k)
  case 0
  show ?case by (simp add: reads_def)
next
  case (Suc k)
  have "parse_value (Suc k) items s = Inr (v, items', s') \<longleftrightarrow>
      s = encode v @ s' \<and> canonical v \<and> fits (Suc k) v \<and> items' = items + node_count v \<and> items' \<le> MAX_BENCODE_ITEMS"
    (is "?run \<longleftrightarrow> ?ok")
    for items s v items' s'
  proof (cases s)
    case Nil
    then show ?thesis using encode_hd [of v] by auto
  next
    case (Cons m rest)
    show ?thesis
    proof (cases "MAX_BENCODE_ITEMS < items + 1")
      case True
      then show ?thesis unfolding Cons by (cases v) auto
    next
      case room: False
      consider (i) "m = CHR ''i''" | (l) "m = CHR ''l''" | (d) "m = CHR ''d''" | (b) "is_digit m"
        | (n) "m \<noteq> CHR ''i''" "m \<noteq> CHR ''l''" "m \<noteq> CHR ''d''" "\<not> is_digit m"
        by blast
      then show ?thesis
      proof cases
        case i
        have "?run \<longleftrightarrow> (\<exists>n. v = BInt n \<and> parse_integer rest = Inr (n, s') \<and> items' = items + 1)"
          using room by (auto simp: Cons i rbind_Inr_iff)
        also have "\<dots> \<longleftrightarrow> ?ok"
          using room by (auto simp: Cons i encode_int_marker parse_integer_iff)
        finally show ?thesis .
      next
        case l
        have "?run \<longleftrightarrow> (\<exists>vs. v = BList vs \<and> parse_list (parse_value k) (items + 1) rest = Inr (vs, items', s')
            \<and> items + 1 \<le> MAX_BENCODE_ITEMS)"
          using room by (auto simp: Cons l rbind_Inr_iff)
        also have "\<dots> \<longleftrightarrow> ?ok"
          unfolding canonical_list_reads [OF Suc] by (auto simp: Cons l encode_list_marker)
        finally show ?thesis .
      next
        case d
        have "?run \<longleftrightarrow> (\<exists>es. v = BDict es \<and> parse_dict (parse_value k) [] (items + 1) rest = Inr (es, items', s')
            \<and> items + 1 \<le> MAX_BENCODE_ITEMS)"
          using room by (auto simp: Cons d rbind_Inr_iff)
        also have "\<dots> \<longleftrightarrow> (\<exists>es. v = BDict es \<and> rest = concat (map encode_entry es) @ CHR ''e'' # s' \<and> canonical v
            \<and> fits (Suc k) v \<and> items' = items + node_count v \<and> items' \<le> MAX_BENCODE_ITEMS)"
          unfolding canonical_dict_reads [OF Suc] by (auto simp: node_count_dict simp del: node_count.simps canonical.simps)
        also have "\<dots> \<longleftrightarrow> ?ok"
          using encode_dict_marker [of v rest s'] unfolding Cons d by blast
        finally show ?thesis .
      next
        case b
        have "?run \<longleftrightarrow> (\<exists>w. v = BBytes w \<and> parse_bytes s = Inr (w, s') \<and> items' = items + 1)"
          using room digit_markers [OF b] b by (auto simp: Cons rbind_Inr_iff)
        also have "\<dots> \<longleftrightarrow> ?ok"
          using room by (auto simp: Cons encode_digit_marker [OF b] parse_bytes_iff)
        finally show ?thesis .
      next
        case n
        then show ?thesis using encode_no_marker [OF n, of rest v s'] by (simp add: Cons)
      qed
    qed
  qed
  then show ?case unfolding reads_def by blast
qed


section \<open>Documents\<close>

lemma document_canonical:
  "parse_document content = Inr v \<longleftrightarrow>
     content = encode v \<and> canonical v \<and> fits (MAX_BENCODE_DEPTH + 1) v \<and> node_count v \<le> MAX_BENCODE_ITEMS"
proof -
  have "content \<noteq> []" if "content = encode v" using that encode_length [of v] by auto
  then show ?thesis
    using parse_value_reads [of "MAX_BENCODE_DEPTH + 1", unfolded reads_def]
    by (auto simp: parse_document_def rbind_Inr_iff require_def simp del: parse_value.simps split: if_splits)
qed

text \<open>
  C11: The reader accepts exactly the canonical documents within its limits, and then the value is the
  one the document encodes: no other bytes decode, and nothing trails.
\<close>

theorem bencode_canonical:
  "parse_document content = Inr v \<longleftrightarrow>
     content = encode v \<and> canonical v \<and> fits (MAX_BENCODE_DEPTH + 1) v \<and> node_count v \<le> MAX_BENCODE_ITEMS"
  by (rule document_canonical)

lemma map_of_rev: "distinct (map fst es) \<Longrightarrow> map_of (rev es) = map_of es"
proof (induction es)
  case (Cons e es)
  then have "map_of es (fst e) = None" by (simp add: map_of_eq_None_iff)
  then show ?case using Cons by (auto simp: map_add_def fun_eq_iff split: option.splits)
qed simp

lemma info_loop_entries:
  assumes "list_all (entry_ok MAX_BENCODE_DEPTH) es"
    and "items + sum_list (map (node_count \<circ> snd) es) \<le> MAX_BENCODE_ITEMS"
  shows "info_loop raw items (concat (map encode_entry es) @ ''e'') =
    Inr (case map_of (rev es) ''info'' of None \<Rightarrow> raw | Some v \<Rightarrow> Some (encode v))"
  using assms
proof (induction es arbitrary: raw items)
  case Nil
  show ?case by (simp add: info_loop.simps)
next
  case (Cons e es)
  obtain key v where e: "e = (key, v)" by fastforce
  let ?t = "concat (map encode_entry es) @ ''e''"
  have ok: "bytes_ok key" "canonical v" "fits MAX_BENCODE_DEPTH v" using Cons.prems(1) by (simp_all add: e entry_ok_def)
  have s: "concat (map encode_entry (e # es)) @ ''e'' = encode_bytes key @ encode v @ ?t"
    by (simp add: e encode_entry_def [of "(key, v)"])
  obtain c cs where h: "encode_bytes key = c # cs" "is_digit c" using encode_bytes_hd by blast
  have b: "parse_bytes (encode_bytes key @ encode v @ ?t) = Inr (key, encode v @ ?t)"
    using ok(1) by (simp add: parse_bytes_iff)
  have p: "parse_value MAX_BENCODE_DEPTH items (encode v @ ?t) = Inr (v, items + node_count v, ?t)"
    by (rule readsI [OF parse_value_reads ok(2,3)]) (use Cons.prems(2) e in auto)
  have rec: "info_loop r (items + node_count v) ?t =
      Inr (case map_of (rev es) ''info'' of None \<Rightarrow> r | Some v \<Rightarrow> Some (encode v))" for r
    by (rule Cons.IH) (use Cons.prems e in auto)
  have "info_loop raw items (encode_bytes key @ encode v @ ?t) =
      info_loop (if key = ''info'' then Some (encode v) else raw) (items + node_count v) ?t"
    using b p h digit_markers(4) [OF h(2)] by (subst info_loop.simps) simp
  then show ?case unfolding s rec by (auto simp: e map_add_def split: option.splits)
qed

lemma document_keys:
  "parse_document content = Inr (BDict es) \<Longrightarrow> sorted_wrt (<) (map fst es)"
  unfolding document_canonical by simp

lemma document_info:
  assumes "parse_document content = Inr (BDict es)"
  shows "info_raw content = (case map_of es ''info'' of None \<Rightarrow> Inl InfoMissing | Some v \<Rightarrow> Inr (encode v))"
proof -
  have ok: "content = encode (BDict es)" "canonical (BDict es)" "list_all (\<lambda>e. fits MAX_BENCODE_DEPTH (snd e)) es"
    "node_count (BDict es) \<le> MAX_BENCODE_ITEMS"
    using document_canonical [THEN iffD1, OF assms] by simp_all
  have srt: "sorted_wrt (<) (map fst es)" "list_all (entry_ok MAX_BENCODE_DEPTH) es"
    using dict_ok [of es MAX_BENCODE_DEPTH] ok(2,3) by blast+
  have c: "content = CHR ''d'' # concat (map encode_entry es) @ ''e''" unfolding ok(1) by (rule encode_dict [OF srt(1)])
  have loop: "info_loop None 0 (concat (map encode_entry es) @ ''e'') =
      Inr (case map_of es ''info'' of None \<Rightarrow> None | Some v \<Rightarrow> Some (encode v))"
    using info_loop_entries [OF srt(2), of 0 None] ok(4) map_of_rev [of es] srt(1)
    by (simp add: node_count_dict strict_sorted_iff del: node_count.simps)
  show ?thesis unfolding c info_raw_def by (simp add: loop split: option.splits)
qed

text \<open>
  C1: The bytes that are digested are the encoding of the \<open>info\<close> value the first pass returned: the
  identity of a torrent is a function of the value that was validated.
\<close>

theorem info_raw_exact:
  assumes "parse_document content = Inr (BDict es)"
  shows "info_raw content = (case map_of es ''info'' of None \<Rightarrow> Inl InfoMissing | Some v \<Rightarrow> Inr (encode v))"
  by (rule document_info [OF assms])

theorem info_raw_exact_witness:
  "info_raw ''d4:infod1:ai7eee'' = Inr ''d1:ai7ee''"
proof -
  let ?v = "BDict [(''info'', BDict [(''a'', BInt 7)])]"
  have "encode ?v = ''d4:infod1:ai7eee''" by code_simp
  moreover have "canonical ?v" by code_simp
  moreover have "fits (MAX_BENCODE_DEPTH + 1) ?v" by (simp add: MAX_BENCODE_DEPTH_def eval_nat_numeral)
  moreover have "node_count ?v \<le> MAX_BENCODE_ITEMS" by (simp add: MAX_BENCODE_ITEMS_def)
  ultimately have p: "parse_document ''d4:infod1:ai7eee'' = Inr ?v" unfolding document_canonical by (simp only: simp_thms)
  have m: "map_of [(''info'', BDict [(''a'', BInt 7)])] ''info'' = Some (BDict [(''a'', BInt 7)])" by simp
  have e: "encode (BDict [(''a'', BInt 7)]) = ''d1:ai7ee''" by code_simp
  show ?thesis unfolding info_raw_exact [OF p] m by (simp only: option.case e)
qed

end
