(* ===== verification/Metainfo.thy ===== *)
theory Metainfo
  imports Bencode Text_Encoding "HOL-Library.Sublist"
begin

text \<open>
  The validation of a torrent's name and file list and the rewriting of its trackers, of
  \<open>backend/app/torrents/metainfo.py\<close> (\<open>_validate_component\<close>, \<open>_PathNode\<close>, \<open>_torrent_files\<close>,
  \<open>_tracker_url\<close>, \<open>_rewrite_torrent\<close>). A Python \<open>str\<close> is the list of its code points here; \<open>NFC\<close> and
  \<open>casefold\<close> of the Unicode tables and SHA-1 are parameters. The results are that the accepted
  paths stay below the torrent's directory and never collide, that no tracker outside the
  allow-list survives, and that the bytes of \<open>info\<close> are kept.
\<close>

section \<open>Decoding\<close>

definition decode_utf8 :: "string \<Rightarrow> metainfo_error \<Rightarrow> metainfo_error + pytext" where
  "decode_utf8 raw e = (case utf8_decode (map of_char raw) of None \<Rightarrow> Inl e | Some t \<Rightarrow> Inr t)"

section \<open>Path components\<close>

definition MAX_PATH_COMPONENT_BYTES :: nat where "MAX_PATH_COMPONENT_BYTES = 255"

definition MAX_TORRENT_PATH_BYTES :: nat where "MAX_TORRENT_PATH_BYTES = 2048"

text \<open>The characters of the categories Cc, Zl and Zp.\<close>

definition unsafe_category :: "nat \<Rightarrow> bool" where
  "unsafe_category c \<longleftrightarrow> c < 32 \<or> (127 \<le> c \<and> c < 160) \<or> c = 0x2028 \<or> c = 0x2029"

definition bidi_control :: "nat \<Rightarrow> bool" where
  "bidi_control c \<longleftrightarrow> (0x202A \<le> c \<and> c < 0x202F) \<or> (0x2066 \<le> c \<and> c < 0x206A)"

definition windows_drive :: "pytext \<Rightarrow> bool" where
  "windows_drive t \<longleftrightarrow>
     (case t of [a, b] \<Rightarrow> ((65 \<le> a \<and> a \<le> 90) \<or> (97 \<le> a \<and> a \<le> 122)) \<and> b = 58 | _ \<Rightarrow> False)"

definition component_ok :: "pytext \<Rightarrow> bool \<Rightarrow> bool" where
  "component_ok t first \<longleftrightarrow>
     \<not> (t = [] \<or> t = lit ''.'' \<or> t = lit ''..'' \<or> 47 \<in> set t \<or> 92 \<in> set t \<or> 0 \<in> set t
        \<or> MAX_PATH_COMPONENT_BYTES < encoded_length t \<or> last t = 32 \<or> last t = 46
        \<or> list_ex (\<lambda>c. unsafe_category c \<or> bidi_control c) t \<or> (first \<and> windows_drive t))"

definition validate_component :: "pytext \<Rightarrow> bool \<Rightarrow> metainfo_error + unit" where
  "validate_component t first = require (component_ok t first) PathInvalid"

section \<open>The tree of paths\<close>

datatype path_node = PathNode (children: "(pytext \<times> path_node) list") (is_file: bool)

definition empty_node :: path_node where "empty_node = PathNode [] False"

fun add_file :: "path_node \<Rightarrow> pytext list \<Rightarrow> metainfo_error + path_node" where
  "add_file (PathNode ch f) [] =
     (if f \<or> ch \<noteq> [] then Inl PathInvalid else Inr (PathNode ch True))"
| "add_file (PathNode ch f) (p # ps) =
     (if f then Inl PathInvalid
      else case map_of ch p of
        None \<Rightarrow> rbind (add_file empty_node ps) (\<lambda>c. Inr (PathNode (ch @ [(p, c)]) f))
      | Some c \<Rightarrow> rbind (add_file c ps) (\<lambda>c'. Inr (PathNode (AList.update p c' ch) f)))"

text \<open>
  The paths of the files of a tree, and the shape of the trees \<open>add_file\<close> builds: a file has no
  children, and a child that is not a file has some below it.
\<close>

inductive node_path :: "path_node \<Rightarrow> pytext list \<Rightarrow> bool" where
  here: "is_file n \<Longrightarrow> node_path n []"
| below: "map_of (children n) p = Some c \<Longrightarrow> node_path c ps \<Longrightarrow> node_path n (p # ps)"

inductive_simps node_path_Nil [simp]: "node_path n []"
inductive_simps node_path_Cons [simp]: "node_path n (p # ps)"

inductive node_ok :: "path_node \<Rightarrow> bool" where
  "distinct (map fst ch) \<Longrightarrow> (\<And>p c. map_of ch p = Some c \<Longrightarrow> node_ok c \<and> (is_file c \<or> children c \<noteq> []))
   \<Longrightarrow> f \<longrightarrow> ch = [] \<Longrightarrow> node_ok (PathNode ch f)"

inductive_simps node_ok_PathNode [simp]: "node_ok (PathNode ch f)"

lemma node_ok_empty [simp]: "node_ok empty_node"
  by (simp add: empty_node_def)

lemma node_path_empty [simp]: "\<not> node_path empty_node ps"
  by (cases ps) (simp_all add: empty_node_def)

text \<open>Below a node that is not empty there is a file.\<close>

lemma node_path_ex:
  assumes "node_ok n" "is_file n \<or> children n \<noteq> []"
  shows "\<exists>ps. node_path n ps"
  using assms
proof (induction n rule: node_ok.induct)
  case (1 ch f)
  show ?case
  proof (cases f)
    case True
    then show ?thesis by (intro exI [of _ "[]"]) simp
  next
    case False
    then obtain p c rest where "ch = (p, c) # rest" using 1 by (cases ch) auto
    then have c: "map_of ch p = Some c" by simp
    then obtain ps where "node_path c ps" using 1 by blast
    then show ?thesis using c by (intro exI [of _ "p # ps"]) simp
  qed
qed

lemma add_file_nonempty: "add_file n ps = Inr n' \<Longrightarrow> is_file n' \<or> children n' \<noteq> []"
  by (induction n ps arbitrary: n' rule: add_file.induct)
    (auto simp: rbind_Inr_iff split: if_splits option.splits)

definition incomparable :: "'a list \<Rightarrow> 'a list \<Rightarrow> bool" where
  "incomparable xs ys \<longleftrightarrow> \<not> prefix xs ys \<and> \<not> prefix ys xs"

lemma incomparable_simps [simp]:
  "\<not> incomparable [] ys" "\<not> incomparable xs []"
  "incomparable (x # xs) (y # ys) \<longleftrightarrow> x \<noteq> y \<or> incomparable xs ys"
  by (auto simp: incomparable_def)

lemma incomparable_sym: "incomparable xs ys \<Longrightarrow> incomparable ys xs"
  by (auto simp: incomparable_def)

definition child_of :: "(pytext \<times> path_node) list \<Rightarrow> pytext \<Rightarrow> path_node" where
  "child_of ch p = (case map_of ch p of None \<Rightarrow> empty_node | Some c \<Rightarrow> c)"

lemma update_new: "map_of ch p = None \<Longrightarrow> AList.update p c ch = ch @ [(p, c)]"
  by (induction ch) (auto split: if_splits)

lemma add_file_Cons:
  "add_file (PathNode ch f) (p # ps) =
     (if f then Inl PathInvalid
      else rbind (add_file (child_of ch p) ps) (\<lambda>c. Inr (PathNode (AList.update p c ch) f)))"
  by (auto simp: child_of_def update_new split: option.splits)

lemma child_of_ok: "node_ok (PathNode ch f) \<Longrightarrow> node_ok (child_of ch p)"
  by (auto simp: child_of_def split: option.splits)

lemma child_of_path: "node_path (PathNode ch f) (p # ps) \<longleftrightarrow> node_path (child_of ch p) ps"
  by (auto simp: child_of_def split: option.splits)

text \<open>A path is added if and only if it is comparable with none of the paths of the tree.\<close>

lemma add_file_adds:
  assumes "node_ok n" "add_file n ps = Inr n'"
  shows "node_ok n' \<and> (\<forall>qs. node_path n' qs \<longleftrightarrow> node_path n qs \<or> qs = ps)
    \<and> (\<forall>qs. node_path n qs \<longrightarrow> incomparable qs ps)"
  using assms
proof (induction ps arbitrary: n n')
  case Nil
  obtain ch f where n: "n = PathNode ch f" by (cases n)
  then have r: "\<not> f" "ch = []" "n' = PathNode ch True" using Nil(2) by (auto split: if_splits)
  have "node_path n' qs \<longleftrightarrow> qs = []" "\<not> node_path n qs" for qs by (cases qs; simp add: n r)+
  then show ?case by (simp add: n r)
next
  case (Cons p ps)
  obtain ch f where n: "n = PathNode ch f" by (cases n)
  obtain c where c: "\<not> f" "add_file (child_of ch p) ps = Inr c" "n' = PathNode (AList.update p c ch) f"
    using Cons.prems(2) unfolding n add_file_Cons by (auto simp: rbind_Inr_iff split: if_splits)
  have ok: "node_ok (PathNode ch f)" using Cons.prems(1) n by simp
  note ih = Cons.IH [OF child_of_ok [OF ok] c(2)]
  have "distinct (map fst (AList.update p c ch))" using ok by (simp add: distinct_update)
  moreover have "node_ok d \<and> (is_file d \<or> children d \<noteq> [])" if "map_of (AList.update p c ch) q = Some d" for q d
  proof (cases "q = p")
    case True
    then have "d = c" using that by (simp add: update_conv')
    then show ?thesis using conjunct1 [OF ih] add_file_nonempty [OF c(2)] by blast
  next
    case False
    then have "map_of ch q = Some d" using that by (simp add: update_conv')
    then show ?thesis using ok by simp
  qed
  ultimately have ok': "node_ok n'" using c(1) by (simp add: c(3))
  have path: "node_path n' qs \<longleftrightarrow> node_path n qs \<or> qs = p # ps" for qs
  proof (cases qs)
    case Nil
    then show ?thesis by (simp add: n c(3))
  next
    case (Cons q rs)
    show ?thesis
    proof (cases "q = p")
      case True
      have "node_path n' (p # rs) \<longleftrightarrow> node_path c rs" by (simp add: c(3) update_conv')
      also have "\<dots> \<longleftrightarrow> node_path (child_of ch p) rs \<or> rs = ps" using ih by blast
      finally show ?thesis using child_of_path [of ch f p rs] by (simp add: n Cons True)
    next
      case False
      then show ?thesis by (simp add: n c(3) Cons update_conv')
    qed
  qed
  have "incomparable qs (p # ps)" if q: "node_path n qs" for qs
  proof (cases qs)
    case Nil
    then show ?thesis using q c(1) by (simp add: n)
  next
    case (Cons q' rs)
    show ?thesis
    proof (cases "q' = p")
      case True
      then have "node_path (child_of ch p) rs" using q child_of_path [of ch f p rs] by (simp add: n Cons)
      then show ?thesis using ih by (simp add: Cons)
    next
      case False
      then show ?thesis by (simp add: Cons)
    qed
  qed
  then show ?case using ok' path by blast
qed

lemma add_file_refuses:
  assumes "node_ok n" "is_file n \<or> children n \<noteq> []" "add_file n ps = Inl e"
  shows "e = PathInvalid \<and> (\<exists>qs. node_path n qs \<and> \<not> incomparable qs ps)"
  using assms
proof (induction ps arbitrary: n)
  case Nil
  obtain ch f where n: "n = PathNode ch f" by (cases n)
  then have "e = PathInvalid" using Nil(3) by (auto split: if_splits)
  then show ?case using node_path_ex [OF Nil(1,2)] by auto
next
  case (Cons p ps)
  obtain ch f where n: "n = PathNode ch f" by (cases n)
  show ?case
  proof (cases f)
    case True
    then show ?thesis using Cons.prems(3) by (auto simp: n intro!: exI [of _ "[]"])
  next
    case False
    then have run: "add_file (child_of ch p) ps = Inl e" using Cons.prems(3) unfolding n add_file_Cons by (auto simp: rbind_Inl_iff)
    show ?thesis
    proof (cases "map_of ch p")
      case None
      then have "add_file empty_node ps = Inl e" using run by (simp add: child_of_def)
      moreover have "\<exists>m. add_file empty_node qs = Inr m" for qs
        by (induction qs) (auto simp: empty_node_def)
      ultimately show ?thesis by (metis sum.distinct(1))
    next
      case (Some c)
      have "node_ok c" "is_file c \<or> children c \<noteq> []" using Cons.prems(1) Some by (auto simp: n)
      moreover have "add_file c ps = Inl e" using run by (simp add: child_of_def Some)
      ultimately obtain qs where "e = PathInvalid" "node_path c qs" "\<not> incomparable qs ps" using Cons.IH by blast
      then show ?thesis using Some by (auto simp: n intro!: exI [of _ "p # qs"])
    qed
  qed
qed

lemma add_file_iff:
  assumes "node_ok n"
  shows "(\<exists>n'. add_file n ps = Inr n') \<longleftrightarrow> (\<forall>qs. node_path n qs \<longrightarrow> incomparable qs ps)"
proof
  assume "\<exists>n'. add_file n ps = Inr n'"
  then show "\<forall>qs. node_path n qs \<longrightarrow> incomparable qs ps" using add_file_adds [OF assms] by blast
next
  assume free: "\<forall>qs. node_path n qs \<longrightarrow> incomparable qs ps"
  show "\<exists>n'. add_file n ps = Inr n'"
  proof (cases "is_file n \<or> children n \<noteq> []")
    case True
    then show ?thesis using add_file_refuses [OF assms True] free by (cases "add_file n ps") blast+
  next
    case False
    then have "n = empty_node" by (cases n) (simp add: empty_node_def)
    moreover have "\<exists>m. add_file empty_node qs = Inr m" for qs
      by (induction qs) (auto simp: empty_node_def)
    ultimately show ?thesis by simp
  qed
qed

text \<open>The calls of \<open>add_file\<close> of one torrent, in order.\<close>

fun add_files :: "path_node \<Rightarrow> pytext list list \<Rightarrow> metainfo_error + path_node" where
  "add_files n [] = Inr n"
| "add_files n (p # ps) = rbind (add_file n p) (\<lambda>n'. add_files n' ps)"

lemma add_files_iff:
  assumes "node_ok n"
  shows "(\<exists>n'. add_files n pss = Inr n') \<longleftrightarrow>
    sorted_wrt incomparable pss \<and> (\<forall>ps\<in>set pss. \<forall>qs. node_path n qs \<longrightarrow> incomparable qs ps)"
  using assms
proof (induction pss arbitrary: n)
  case (Cons ps pss)
  show ?case
  proof (cases "add_file n ps")
    case (Inl e)
    then show ?thesis using add_file_iff [OF Cons.prems, of ps] by auto
  next
    case (Inr m)
    note a = add_file_adds [OF Cons.prems Inr]
    have "(\<exists>n'. add_files n (ps # pss) = Inr n') \<longleftrightarrow> (\<exists>n'. add_files m pss = Inr n')" by (simp add: Inr)
    also have "\<dots> \<longleftrightarrow> sorted_wrt incomparable pss \<and> (\<forall>rs\<in>set pss. \<forall>qs. node_path m qs \<longrightarrow> incomparable qs rs)"
      using Cons.IH a by blast
    also have "\<dots> \<longleftrightarrow> sorted_wrt incomparable (ps # pss)
        \<and> (\<forall>rs\<in>set (ps # pss). \<forall>qs. node_path n qs \<longrightarrow> incomparable qs rs)"
      using a by auto
    finally show ?thesis .
  qed
qed simp

text \<open>
  The tree of paths accepts the paths of a torrent if and only if no two of them are equal and
  none is a directory of another, whatever their order.
\<close>

theorem path_tree_prefix_free:
  "(\<exists>n. add_files empty_node pss = Inr n) \<longleftrightarrow>
     (\<forall>i<length pss. \<forall>j<length pss. i \<noteq> j \<longrightarrow> \<not> prefix (pss ! i) (pss ! j))"
proof -
  have "(\<exists>n. add_files empty_node pss = Inr n) \<longleftrightarrow> sorted_wrt incomparable pss"
    by (simp add: add_files_iff)
  also have "\<dots> \<longleftrightarrow> (\<forall>i<length pss. \<forall>j<length pss. i \<noteq> j \<longrightarrow> \<not> prefix (pss ! i) (pss ! j))"
  proof
    assume srt: "sorted_wrt incomparable pss"
    have "\<not> prefix (pss ! i) (pss ! j)" if "i < length pss" "j < length pss" "i \<noteq> j" for i j
      using sorted_wrt_nth_less [OF srt, of i j] sorted_wrt_nth_less [OF srt, of j i] that
      by (cases i j rule: linorder_cases) (simp_all add: incomparable_def)
    then show "\<forall>i<length pss. \<forall>j<length pss. i \<noteq> j \<longrightarrow> \<not> prefix (pss ! i) (pss ! j)" by blast
  next
    assume free: "\<forall>i<length pss. \<forall>j<length pss. i \<noteq> j \<longrightarrow> \<not> prefix (pss ! i) (pss ! j)"
    have "incomparable (pss ! i) (pss ! j)" if "i < j" "j < length pss" for i j
      using free that less_trans [OF that] by (simp add: incomparable_def)
    then show "sorted_wrt incomparable pss" by (simp add: sorted_wrt_iff_nth_less)
  qed
  finally show ?thesis .
qed

theorem path_tree_prefix_free_witness:
  "\<not> (\<exists>n. add_files empty_node [[lit ''a'', lit ''b''], [lit ''a'']] = Inr n)"
proof -
  have "prefix ([[lit ''a'', lit ''b''], [lit ''a'']] ! 1) ([[lit ''a'', lit ''b''], [lit ''a'']] ! 0)" by simp
  then show ?thesis unfolding path_tree_prefix_free by force
qed

section \<open>Fields\<close>

type_synonym bdict = "(string \<times> bvalue) list"

definition required_dictionary :: "bvalue option \<Rightarrow> string \<Rightarrow> metainfo_error + bdict" where
  "required_dictionary v field = (case v of Some (BDict es) \<Rightarrow> Inr es | _ \<Rightarrow> Inl (FieldInvalid field))"

definition select_utf8_bytes ::
  "(pytext \<Rightarrow> pytext) \<Rightarrow> bdict \<Rightarrow> string \<Rightarrow> metainfo_error \<Rightarrow> metainfo_error + string" where
  "select_utf8_bytes nfc value field e =
     (let raw = map_of value field; raw_utf8 = map_of value (field @ ''.utf-8'')
      in case raw_utf8 of
           None \<Rightarrow> (case raw of Some (BBytes b) \<Rightarrow> Inr b | _ \<Rightarrow> Inl e)
         | Some (BBytes u) \<Rightarrow>
             (case raw of
                None \<Rightarrow> Inr u
              | Some (BBytes b) \<Rightarrow>
                  rbind (decode_utf8 b e) (\<lambda>decoded.
                  rbind (decode_utf8 u e) (\<lambda>decoded_utf8.
                  rbind (require (nfc decoded = nfc decoded_utf8) e) (\<lambda>_. Inr u)))
              | Some _ \<Rightarrow> Inl e)
         | Some _ \<Rightarrow> Inl e)"

definition validate_attributes :: "bdict \<Rightarrow> string \<Rightarrow> metainfo_error + char set" where
  "validate_attributes entry field =
     rbind (case map_of entry ''attr'' of
              None \<Rightarrow> Inr {}
            | Some (BBytes b) \<Rightarrow>
                if list_all (\<lambda>c. of_char c < (128::nat)) b then Inr (set b) else Inl (AttributesInvalid field)
            | Some _ \<Rightarrow> Inl (AttributesInvalid field)) (\<lambda>attributes.
     rbind (require (map_of entry ''symlink path'' = None \<and> attributes \<subseteq> set ''ph'') AttributeUnsafe) (\<lambda>_.
     Inr attributes))"

definition torrent_name :: "(pytext \<Rightarrow> pytext) \<Rightarrow> bdict \<Rightarrow> metainfo_error + pytext" where
  "torrent_name nfc info =
     rbind (select_utf8_bytes nfc info ''name'' NameMissing) (\<lambda>raw_name.
     rbind (decode_utf8 raw_name NameNotUtf8) (\<lambda>name.
     case validate_component name True of Inl _ \<Rightarrow> Inl NameInvalid | Inr _ \<Rightarrow> Inr name))"

section \<open>The list of files\<close>

record metainfo_file =
  mf_index :: nat
  mf_path :: pytext
  mf_size :: int

definition MAX_FILES :: nat where "MAX_FILES = 100000"

text \<open>The loop over \<open>selected_path\<close>; \<open>first\<close> is \<open>component_index == 0\<close>.\<close>

fun path_components :: "bool \<Rightarrow> bvalue list \<Rightarrow> metainfo_error + pytext list" where
  "path_components first [] = Inr []"
| "path_components first (BBytes b # vs) =
     rbind (decode_utf8 b PathNotUtf8) (\<lambda>decoded.
     rbind (validate_component decoded first) (\<lambda>_.
     rbind (path_components False vs) (\<lambda>components. Inr (decoded # components))))"
| "path_components first (_ # vs) = Inl PathInvalid"

fun fallback_components :: "bvalue list \<Rightarrow> metainfo_error + pytext list" where
  "fallback_components [] = Inr []"
| "fallback_components (BBytes b # vs) =
     rbind (decode_utf8 b PathNotUtf8) (\<lambda>decoded.
     rbind (fallback_components vs) (\<lambda>components. Inr (decoded # components)))"
| "fallback_components (_ # vs) = Inl PathInvalid"

text \<open>\<open>PurePosixPath(*parts).as_posix()\<close> where no part is absolute: empty segments and \<open>.\<close> go.\<close>

fun segments :: "'a \<Rightarrow> 'a list \<Rightarrow> 'a list list" where
  "segments sep [] = [[]]"
| "segments sep (x # xs) =
     (if x = sep then [] # segments sep xs
      else case segments sep xs of [] \<Rightarrow> [[x]] | y # ys \<Rightarrow> (x # y) # ys)"

fun join_path :: "pytext list \<Rightarrow> pytext" where
  "join_path [] = []"
| "join_path [p] = p"
| "join_path (p # ps) = p @ 47 # join_path ps"

definition posix_path :: "pytext list \<Rightarrow> pytext" where
  "posix_path parts =
     (case filter (\<lambda>p. p \<noteq> [] \<and> p \<noteq> lit ''.'') (concat (map (segments 47) parts)) of
        [] \<Rightarrow> lit ''.'' | ps \<Rightarrow> join_path ps)"

definition path_collision_key ::
  "(pytext \<Rightarrow> pytext) \<Rightarrow> (pytext \<Rightarrow> pytext) \<Rightarrow> pytext list \<Rightarrow> pytext list" where
  "path_collision_key nfc casefold parts = map (\<lambda>p. casefold (nfc p)) parts"

text \<open>
  The optional field \<open>path.utf-8\<close>: it is a list that is not empty, it is preferred, and \<open>path\<close> must
  then decode to the same components.
\<close>

definition path_utf8_ok :: "bvalue option \<Rightarrow> bool" where
  "path_utf8_ok path_utf8 =
     (case path_utf8 of None \<Rightarrow> True | Some (BList us) \<Rightarrow> us \<noteq> [] | _ \<Rightarrow> False)"

definition selected_path :: "bvalue list \<Rightarrow> bvalue option \<Rightarrow> bvalue list" where
  "selected_path path path_utf8 = (case path_utf8 of Some (BList us) \<Rightarrow> us | _ \<Rightarrow> path)"

definition check_fallback ::
  "(pytext \<Rightarrow> pytext) \<Rightarrow> bvalue list \<Rightarrow> bvalue option \<Rightarrow> pytext list \<Rightarrow> metainfo_error + unit" where
  "check_fallback nfc path path_utf8 components =
     (case path_utf8 of
        Some (BList us) \<Rightarrow>
          rbind (require (length path = length us) PathInvalid) (\<lambda>_.
          rbind (fallback_components path) (\<lambda>fallback.
          require (map nfc fallback = map nfc components) PathInvalid))
      | _ \<Rightarrow> Inr ())"

text \<open>One round of the loop over \<open>files\<close>: the checks of the entry, then those of its path.\<close>

definition entry_step ::
  "(pytext \<Rightarrow> pytext) \<Rightarrow> (pytext \<Rightarrow> pytext) \<Rightarrow> pytext \<Rightarrow> nat \<Rightarrow> char set \<Rightarrow> int \<Rightarrow> bvalue list \<Rightarrow> bvalue option
     \<Rightarrow> path_node \<Rightarrow> metainfo_error + metainfo_file \<times> path_node" where
  "entry_step nfc casefold name i attributes file_length path path_utf8 paths =
     rbind (require (\<not> file_length < 0 \<and> path \<noteq> [] \<and> path_utf8_ok path_utf8) FilesInvalid) (\<lambda>_.
     rbind (path_components True (selected_path path path_utf8)) (\<lambda>components.
     rbind (check_fallback nfc path path_utf8 components) (\<lambda>_.
     let full_parts = name # components;
         relative_path = posix_path full_parts;
         collision_key = path_collision_key nfc casefold full_parts
     in rbind (require (take 1 relative_path \<noteq> [47] \<and> encoded_length relative_path \<le> MAX_TORRENT_PATH_BYTES)
                 PathInvalid) (\<lambda>_.
        rbind (require (CHR ''p'' \<in> attributes \<longrightarrow> hd components = lit ''.pad'' \<and> attributes = {CHR ''p''})
                 PaddingInvalid) (\<lambda>_.
        rbind (add_file paths collision_key) (\<lambda>paths'.
        Inr (\<lparr>mf_index = i, mf_path = relative_path, mf_size = file_length\<rparr>, paths')))))))"

definition file_step ::
  "(pytext \<Rightarrow> pytext) \<Rightarrow> (pytext \<Rightarrow> pytext) \<Rightarrow> pytext \<Rightarrow> nat \<Rightarrow> bvalue \<Rightarrow> path_node
     \<Rightarrow> metainfo_error + metainfo_file \<times> path_node" where
  "file_step nfc casefold name i raw_file paths =
     rbind (required_dictionary (Some raw_file) ''files'') (\<lambda>file_entry.
     rbind (validate_attributes file_entry ''files'') (\<lambda>attributes.
     case (map_of file_entry ''length'', map_of file_entry ''path'') of
       (Some (BInt file_length), Some (BList path)) \<Rightarrow>
         entry_step nfc casefold name i attributes file_length path (map_of file_entry ''path.utf-8'') paths
     | _ \<Rightarrow> Inl FilesInvalid))"

fun files_loop ::
  "(pytext \<Rightarrow> pytext) \<Rightarrow> (pytext \<Rightarrow> pytext) \<Rightarrow> pytext \<Rightarrow> nat \<Rightarrow> bvalue list \<Rightarrow> path_node
     \<Rightarrow> metainfo_error + metainfo_file list" where
  "files_loop nfc casefold name i [] paths = Inr []"
| "files_loop nfc casefold name i (v # vs) paths =
     rbind (file_step nfc casefold name i v paths) (\<lambda>(f, paths').
     rbind (files_loop nfc casefold name (i + 1) vs paths') (\<lambda>fs. Inr (f # fs)))"

definition torrent_files ::
  "(pytext \<Rightarrow> pytext) \<Rightarrow> (pytext \<Rightarrow> pytext) \<Rightarrow> bdict \<Rightarrow> pytext \<Rightarrow> metainfo_error + metainfo_file list" where
  "torrent_files nfc casefold info name =
     rbind (validate_attributes info ''info'') (\<lambda>_.
     case (map_of info ''length'', map_of info ''files'') of
       (Some (BInt n), None) \<Rightarrow>
         if 0 \<le> n then Inr [\<lparr>mf_index = 0, mf_path = name, mf_size = n\<rparr>] else Inl SizeInvalid
     | (None, Some (BList files)) \<Rightarrow>
         if files = [] then Inl SizeInvalid
         else rbind (require (length files \<le> MAX_FILES) TooManyFiles) (\<lambda>_.
              files_loop nfc casefold name 0 files empty_node)
     | _ \<Rightarrow> Inl SizeInvalid)"

section \<open>Paths that are accepted\<close>

lemma component_okD:
  assumes "component_ok t first"
  shows "t \<noteq> []" "t \<noteq> lit ''.''" "47 \<notin> set t"
    "t \<noteq> lit ''..''" "92 \<notin> set t" "0 \<notin> set t" "encoded_length t \<le> 255"
  using assms by (auto simp: component_ok_def MAX_PATH_COMPONENT_BYTES_def)

lemma component_ok_weaken: "component_ok t True \<Longrightarrow> component_ok t b"
  by (auto simp: component_ok_def)

lemma segments_plain: "sep \<notin> set p \<Longrightarrow> segments sep p = [p]"
  by (induction p) auto

lemma segments_append: "sep \<notin> set p \<Longrightarrow> segments sep (p @ sep # q) = p # segments sep q"
  by (induction p) auto

lemma segments_join:
  assumes "ps \<noteq> []" "\<And>p. p \<in> set ps \<Longrightarrow> 47 \<notin> set p"
  shows "segments 47 (join_path ps) = ps"
  using assms by (induction ps rule: join_path.induct) (auto simp: segments_plain segments_append)

lemma posix_path_components:
  assumes "ps \<noteq> []" "list_all (\<lambda>p. component_ok p False) ps"
  shows "posix_path ps = join_path ps"
proof -
  have c: "47 \<notin> set p" "p \<noteq> []" "p \<noteq> lit ''.''" if "p \<in> set ps" for p
    using assms(2) that component_okD [of p False] by (auto simp: list_all_iff)
  have "concat (map (segments 47) ps) = concat (map (\<lambda>p. [p]) ps)"
    using c(1) by (intro arg_cong [of _ _ concat] map_cong) (auto simp: segments_plain)
  then have "filter (\<lambda>p. p \<noteq> [] \<and> p \<noteq> lit ''.'') (concat (map (segments 47) ps)) = ps"
    using c(2,3) by (simp add: filter_id_conv)
  then show ?thesis using assms(1) by (cases ps) (simp_all add: posix_path_def)
qed

lemma validate_component_simps [simp]:
  "validate_component t b = Inr u \<longleftrightarrow> component_ok t b"
  by (simp add: validate_component_def require_Inr_iff)

lemma path_components_ok:
  assumes "path_components first vs = Inr ps"
  shows "list_all (\<lambda>p. component_ok p False) ps \<and> length ps = length vs \<and> (first \<longrightarrow> ps \<noteq> [] \<longrightarrow> component_ok (hd ps) True)"
  using assms
proof (induction first vs arbitrary: ps rule: path_components.induct)
  case (2 first b vs)
  obtain d qs where d: "component_ok d first" "path_components False vs = Inr qs" "ps = d # qs"
    using 2(2) by (auto simp: rbind_Inr_iff)
  have "component_ok d False" using d(1) component_ok_weaken by (cases first) auto
  then show ?case using d 2(1) [OF _ _ d(2)] 2(2) by (auto simp: rbind_Inr_iff)
qed auto

text \<open>
  What an accepted path promises: it is the name and further parts, each of them a plain name below
  its directory, said without reference to the check of the code, and accepted by that check.\<close>

definition plain_part :: "pytext \<Rightarrow> bool" where
  "plain_part p \<longleftrightarrow> p \<noteq> [] \<and> p \<noteq> lit ''.'' \<and> p \<noteq> lit ''..'' \<and> 47 \<notin> set p \<and> 92 \<notin> set p \<and> 0 \<notin> set p
     \<and> encoded_length p \<le> 255"

lemma component_plain: "list_all (\<lambda>p. component_ok p b) ps \<Longrightarrow> list_all plain_part ps"
  unfolding list_all_iff plain_part_def by (auto dest: component_okD)

definition file_safe :: "pytext \<Rightarrow> metainfo_file \<Rightarrow> bool" where
  "file_safe name f \<longleftrightarrow> (let parts = segments 47 (mf_path f)
     in hd parts = name \<and> list_all plain_part parts \<and> list_all (\<lambda>p. component_ok p False) parts
        \<and> encoded_length (mf_path f) \<le> MAX_TORRENT_PATH_BYTES \<and> 0 \<le> mf_size f)"

definition file_key :: "(pytext \<Rightarrow> pytext) \<Rightarrow> (pytext \<Rightarrow> pytext) \<Rightarrow> metainfo_file \<Rightarrow> pytext list" where
  "file_key nfc casefold f = path_collision_key nfc casefold (segments 47 (mf_path f))"

lemma file_step_ok:
  assumes "component_ok name True" "file_step nfc casefold name i v paths = Inr (f, paths')"
  shows "mf_index f = i \<and> file_safe name f \<and> add_file paths (file_key nfc casefold f) = Inr paths'"
proof -
  obtain es attributes where
    "(case (map_of es ''length'', map_of es ''path'') of
        (Some (BInt n), Some (BList path)) \<Rightarrow>
          entry_step nfc casefold name i attributes n path (map_of es ''path.utf-8'') paths
      | _ \<Rightarrow> Inl FilesInvalid) = Inr (f, paths')"
    using assms(2) unfolding file_step_def rbind_Inr_iff by blast
  then obtain n path u where step: "entry_step nfc casefold name i attributes n path u paths = Inr (f, paths')"
    by (auto split: option.split_asm bvalue.split_asm)
  obtain components where run: "path_components True (selected_path path u) = Inr components" "0 \<le> n"
    and r: "encoded_length (posix_path (name # components)) \<le> MAX_TORRENT_PATH_BYTES"
      "add_file paths (path_collision_key nfc casefold (name # components)) = Inr paths'"
      "f = \<lparr>mf_index = i, mf_path = posix_path (name # components), mf_size = n\<rparr>"
    using step by (auto simp: entry_step_def rbind_Inr_iff require_Inr_iff Let_def)
  have c: "list_all (\<lambda>p. component_ok p False) components" "0 \<le> n"
    using path_components_ok [OF run(1)] run(2) by blast+
  have ok: "list_all (\<lambda>p. component_ok p False) (name # components)"
    using c(1) component_ok_weaken [OF assms(1)] by simp
  have "posix_path (name # components) = join_path (name # components)"
    by (rule posix_path_components [OF _ ok]) simp
  moreover have "segments 47 (join_path (name # components)) = name # components"
    by (rule segments_join) (use ok component_okD(3) in \<open>auto simp: list_all_iff\<close>)
  ultimately have seg: "segments 47 (posix_path (name # components)) = name # components" by simp
  show ?thesis using r c(2) ok component_plain [OF ok] by (simp add: file_safe_def file_key_def seg Let_def)
qed

lemma files_loop_ok:
  assumes "component_ok name True" "node_ok paths" "files_loop nfc casefold name i vs paths = Inr fs"
  shows "map mf_index fs = [i..<i + length vs] \<and> list_all (file_safe name) fs
    \<and> (\<forall>qs f. node_path paths qs \<longrightarrow> f \<in> set fs \<longrightarrow> incomparable qs (file_key nfc casefold f))
    \<and> sorted_wrt incomparable (map (file_key nfc casefold) fs)"
  using assms(2,3)
proof (induction vs arbitrary: i paths fs)
  case (Cons v vs)
  obtain f paths' fs' where r: "file_step nfc casefold name i v paths = Inr (f, paths')"
    "files_loop nfc casefold name (i + 1) vs paths' = Inr fs'" "fs = f # fs'"
    using Cons.prems(2) by (auto simp: rbind_Inr_iff)
  note f = file_step_ok [OF assms(1) r(1)]
  have add: "node_ok paths'" "node_path paths' qs \<longleftrightarrow> node_path paths qs \<or> qs = file_key nfc casefold f"
      "node_path paths qs \<Longrightarrow> incomparable qs (file_key nfc casefold f)" for qs
    using add_file_adds [OF Cons.prems(1), of "file_key nfc casefold f" paths'] f by blast+
  note ih = Cons.IH [OF add(1) r(2)]
  have "map mf_index fs = i # [Suc i..<Suc i + length vs]" using ih f by (simp add: r(3) del: upt_Suc)
  also have "\<dots> = [i..<i + length (v # vs)]" by (simp add: upt_conv_Cons del: upt_Suc)
  finally have "map mf_index fs = [i..<i + length (v # vs)]" .
  moreover have "\<forall>qs g. node_path paths qs \<longrightarrow> g \<in> set fs \<longrightarrow> incomparable qs (file_key nfc casefold g)"
    using ih add(2,3) by (auto simp: r(3))
  moreover have "sorted_wrt incomparable (map (file_key nfc casefold) fs)"
    using ih add(2) by (auto simp: r(3))
  ultimately show ?case using ih f by (simp add: r(3))
qed simp

text \<open>
  C10: The paths of an accepted torrent stay below the directory of its name: each is the name and
  parts that are never empty, \<open>.\<close> or \<open>..\<close>, hold no slash, backslash or NUL, have at most 255
  bytes and pass the other checks on components; the path has at most 2048 bytes; the files are
  numbered in order; and no two paths are equal or nested once Unicode forms and case are folded, so
  files never overwrite each other on a case-insensitive file system.
\<close>

theorem torrent_files_safe:
  assumes "torrent_name nfc info = Inr name" "torrent_files nfc casefold info name = Inr fs"
  shows "fs \<noteq> [] \<and> length fs \<le> MAX_FILES \<and> map mf_index fs = [0..<length fs]
    \<and> list_all (file_safe name) fs \<and> sorted_wrt incomparable (map (file_key nfc casefold) fs)"
proof -
  have ok: "component_ok name True"
    using assms(1) by (auto simp: torrent_name_def rbind_Inr_iff validate_component_def require_def split: if_splits)
  have "(case (map_of info ''length'', map_of info ''files'') of
      (Some (BInt n), None) \<Rightarrow>
        if 0 \<le> n then Inr [\<lparr>mf_index = 0, mf_path = name, mf_size = n\<rparr>] else Inl SizeInvalid
    | (None, Some (BList files)) \<Rightarrow>
        if files = [] then Inl SizeInvalid
        else rbind (require (length files \<le> MAX_FILES) TooManyFiles) (\<lambda>_.
             files_loop nfc casefold name 0 files empty_node)
    | _ \<Rightarrow> Inl SizeInvalid) = Inr fs"
    using assms(2) unfolding torrent_files_def rbind_Inr_iff by blast
  then consider n where "0 \<le> n" "fs = [\<lparr>mf_index = 0, mf_path = name, mf_size = n\<rparr>]"
    | vs where "vs \<noteq> []" "length vs \<le> MAX_FILES" "files_loop nfc casefold name 0 vs empty_node = Inr fs"
    by (auto simp: rbind_Inr_iff require_Inr_iff split: option.split_asm bvalue.split_asm if_split_asm)
  then show ?thesis
  proof cases
    case 1
    have "encoded_length name \<le> MAX_PATH_COMPONENT_BYTES" using ok by (simp add: component_ok_def)
    moreover have "plain_part name" using component_plain [of True "[name]"] ok by simp
    ultimately show ?thesis using 1 component_ok_weaken [OF ok] segments_plain [OF component_okD(3) [OF ok]]
      by (simp add: file_safe_def Let_def MAX_FILES_def MAX_PATH_COMPONENT_BYTES_def MAX_TORRENT_PATH_BYTES_def)
  next
    case 2
    note l = files_loop_ok [OF ok node_ok_empty 2(3)]
    then have "length fs = length vs" by (metis length_map length_upt add_diff_cancel_left')
    then show ?thesis using l 2(1,2) by auto
  qed
qed

definition ex_info :: "bdict" where
  "ex_info = [(''files'', BList [BDict [(''length'', BInt 5), (''path'', BList [BBytes ''a''])],
     BDict [(''length'', BInt 3), (''path'', BList [BBytes ''b'', BBytes ''c''])]]), (''name'', BBytes ''t'')]"

lemmas eval_simps = ex_info_def lit_def torrent_name_def torrent_files_def validate_attributes_def required_dictionary_def
  file_step_def entry_step_def select_utf8_bytes_def decode_utf8_def validate_component_def component_ok_def require_def
  unsafe_category_def bidi_control_def windows_drive_def path_utf8_ok_def selected_path_def check_fallback_def
  posix_path_def path_collision_key_def empty_node_def utf8_width_def MAX_PATH_COMPONENT_BYTES_def
  MAX_TORRENT_PATH_BYTES_def MAX_FILES_def Let_def

theorem torrent_files_safe_witness:
  "list_all (file_safe (lit ''t'')) [\<lparr>mf_index = 0, mf_path = lit ''t/a'', mf_size = 5\<rparr>,
     \<lparr>mf_index = 1, mf_path = lit ''t/b/c'', mf_size = 3\<rparr>]"
proof -
  have "torrent_name (\<lambda>t. t) ex_info = Inr (lit ''t'')" by (simp add: eval_simps)
  moreover have "torrent_files (\<lambda>t. t) (\<lambda>t. t) ex_info (lit ''t'') =
      Inr [\<lparr>mf_index = 0, mf_path = lit ''t/a'', mf_size = 5\<rparr>, \<lparr>mf_index = 1, mf_path = lit ''t/b/c'', mf_size = 3\<rparr>]"
    by (simp add: eval_simps)
  ultimately show ?thesis using torrent_files_safe by blast
qed

section \<open>Trackers\<close>

text \<open>
  \<open>urllib.parse.urlsplit\<close> on an ASCII URL, and the attributes of its result that are read.
  \<open>bracketed_ok\<close> stands for the check of a bracketed IP address, whose parser is the module
  \<open>ipaddress\<close> of the library; it is asked about the network location.
\<close>

record split_url =
  su_scheme :: string
  su_netloc :: string

definition ascii_alpha :: "char \<Rightarrow> bool" where
  "ascii_alpha c \<longleftrightarrow> char_in (CHR ''a'') (CHR ''z'') c \<or> char_in (CHR ''A'') (CHR ''Z'') c"

definition ascii_lower :: "string \<Rightarrow> string" where
  "ascii_lower s = map (\<lambda>c. if char_in (CHR ''A'') (CHR ''Z'') c then char_of (of_char c + (32::nat)) else c) s"

definition scheme_char :: "char \<Rightarrow> bool" where
  "scheme_char c \<longleftrightarrow> ascii_alpha c \<or> is_digit c \<or> c \<in> set ''+-.''"

definition clean_url :: "string \<Rightarrow> string" where
  "clean_url url =
     filter (\<lambda>c. (of_char c :: nat) \<notin> {9, 10, 13}) (dropWhile (\<lambda>c. (of_char c :: nat) \<le> 32) url)"

definition url_scheme :: "string \<Rightarrow> string \<times> string" where
  "url_scheme url =
     (case find_char (CHR '':'') url of
        Some (head, rest) \<Rightarrow>
          if head \<noteq> [] \<and> ascii_alpha (hd url) \<and> list_all scheme_char head then (ascii_lower head, rest) else ([], url)
      | None \<Rightarrow> ([], url))"

definition urlsplit :: "(string \<Rightarrow> bool) \<Rightarrow> string \<Rightarrow> split_url option" where
  "urlsplit bracketed_ok url =
     (let (scheme, rest) = url_scheme (clean_url url)
      in if take 2 rest = ''//''
         then let netloc = takeWhile (\<lambda>c. c \<notin> set ''/?#'') (drop 2 rest)
              in if (CHR ''['' \<in> set netloc) \<noteq> (CHR '']'' \<in> set netloc) then None
                 else if CHR ''['' \<in> set netloc \<and> \<not> bracketed_ok netloc then None
                 else Some \<lparr>su_scheme = scheme, su_netloc = netloc\<rparr>
         else Some \<lparr>su_scheme = scheme, su_netloc = []\<rparr>)"

text \<open>\<open>s.partition(c)\<close> without the separator; \<open>s.rpartition(c)[2]\<close>.\<close>

definition partition_at :: "char \<Rightarrow> string \<Rightarrow> string \<times> string" where
  "partition_at c s = (case find_char c s of None \<Rightarrow> (s, []) | Some (a, b) \<Rightarrow> (a, b))"

definition after_last :: "char \<Rightarrow> string \<Rightarrow> string" where
  "after_last c s = rev (takeWhile (\<lambda>x. x \<noteq> c) (rev s))"

text \<open>\<open>username\<close> and \<open>password\<close> are not None: there is an \<open>@\<close>, and a colon before it.\<close>

definition has_username :: "split_url \<Rightarrow> bool" where
  "has_username u \<longleftrightarrow> CHR ''@'' \<in> set (su_netloc u)"

definition has_password :: "split_url \<Rightarrow> bool" where
  "has_password u \<longleftrightarrow> has_username u
     \<and> CHR '':'' \<in> set (take (length (su_netloc u) - length (after_last (CHR ''@'') (su_netloc u)) - 1) (su_netloc u))"

definition host_port :: "split_url \<Rightarrow> string \<times> string" where
  "host_port u =
     (let hostinfo = after_last (CHR ''@'') (su_netloc u)
      in if CHR ''['' \<in> set hostinfo
         then let (host, rest) = partition_at (CHR '']'') (snd (partition_at (CHR ''['') hostinfo))
              in (host, snd (partition_at (CHR '':'') rest))
         else partition_at (CHR '':'') hostinfo)"

definition url_hostname :: "split_url \<Rightarrow> string option" where
  "url_hostname u = (let host = fst (host_port u) in if host = [] then None else Some (ascii_lower host))"

text \<open>\<open>parsed.port\<close>: \<open>Inl\<close> where it raises \<open>ValueError\<close>.\<close>

definition url_port :: "split_url \<Rightarrow> unit + nat option" where
  "url_port u =
     (let port = snd (host_port u)
      in if port = [] then Inr None
         else if list_all is_digit port \<and> length port \<le> MAX_INT_DIGITS \<and> decimal_value port \<le> 65535
         then Inr (Some (decimal_value port)) else Inl ())"

text \<open>\<open>quote(passkey, safe='')\<close>, on the UTF-8 bytes of the passkey.\<close>

definition hex_upper :: "nat \<Rightarrow> char" where
  "hex_upper n = ''0123456789ABCDEF'' ! n"

definition quote_char :: "char \<Rightarrow> string" where
  "quote_char c =
     (if ascii_alpha c \<or> is_digit c \<or> c \<in> set ''_.-~'' then [c]
      else [CHR ''%'', hex_upper (of_char c div 16), hex_upper (of_char c mod 16)])"

definition quote :: "string \<Rightarrow> string" where
  "quote s = concat (map quote_char s)"

definition tracker_url ::
  "(string \<Rightarrow> bool) \<Rightarrow> string option \<Rightarrow> string set \<Rightarrow> string \<Rightarrow> metainfo_error + string" where
  "tracker_url bracketed_ok passkey allowed_hosts raw =
     (if list_ex (\<lambda>c. 128 \<le> (of_char c :: nat)) raw then Inl TrackerUrlInvalid
      else case urlsplit bracketed_ok raw of
        None \<Rightarrow> Inl TrackerUrlInvalid
      | Some parsed \<Rightarrow>
          (case url_port parsed of
             Inl _ \<Rightarrow> Inl TrackerUrlInvalid
           | Inr port \<Rightarrow>
               (case url_hostname parsed of
                  None \<Rightarrow> Inl TrackerNotAllowed
                | Some hostname \<Rightarrow>
                    if su_scheme parsed \<notin> {''http'', ''https''} \<or> hostname \<notin> allowed_hosts
                       \<or> has_username parsed \<or> has_password parsed \<or> port \<notin> {None, Some 80, Some 443}
                    then Inl TrackerNotAllowed
                    else
                      let clear = passkey \<noteq> None \<and> su_scheme parsed = ''http'';
                          scheme = (if clear then ''https'' else su_scheme parsed);
                          port' = (if clear \<and> port = Some 80 then None else port);
                          netloc = (case port' of None \<Rightarrow> hostname | Some p \<Rightarrow> hostname @ '':'' @ nat_str p);
                          path = (case passkey of None \<Rightarrow> ''/announce'' | Some k \<Rightarrow> ''/announce/'' @ quote k)
                      in Inr (scheme @ ''://'' @ netloc @ path))))"

fun tracker_tier ::
  "(string \<Rightarrow> bool) \<Rightarrow> string option \<Rightarrow> string set \<Rightarrow> bvalue list \<Rightarrow> metainfo_error + bvalue list" where
  "tracker_tier bok passkey hosts [] = Inr []"
| "tracker_tier bok passkey hosts (BBytes b # vs) =
     rbind (tracker_url bok passkey hosts b) (\<lambda>u.
     rbind (tracker_tier bok passkey hosts vs) (\<lambda>us. Inr (BBytes u # us)))"
| "tracker_tier bok passkey hosts (_ # vs) = Inl TrackerListInvalid"

fun tracker_tiers ::
  "(string \<Rightarrow> bool) \<Rightarrow> string option \<Rightarrow> string set \<Rightarrow> bvalue list \<Rightarrow> metainfo_error + bvalue list" where
  "tracker_tiers bok passkey hosts [] = Inr []"
| "tracker_tiers bok passkey hosts (BList tier # vs) =
     rbind (require (tier \<noteq> []) TrackerListInvalid) (\<lambda>_.
     rbind (tracker_tier bok passkey hosts tier) (\<lambda>t.
     rbind (tracker_tiers bok passkey hosts vs) (\<lambda>ts. Inr (BList t # ts))))"
| "tracker_tiers bok passkey hosts (_ # vs) = Inl TrackerListInvalid"

definition normalize_trackers ::
  "(string \<Rightarrow> bool) \<Rightarrow> string option \<Rightarrow> string set \<Rightarrow> bdict \<Rightarrow> metainfo_error + bdict" where
  "normalize_trackers bok passkey hosts metainfo =
     (case map_of metainfo ''announce'' of
        Some (BBytes announce) \<Rightarrow>
          rbind (tracker_url bok passkey hosts announce) (\<lambda>u.
          let metainfo' = AList.update ''announce'' (BBytes u) metainfo
          in case map_of metainfo' ''announce-list'' of
               None \<Rightarrow> Inr metainfo'
             | Some (BList tiers) \<Rightarrow>
                 rbind (require (tiers \<noteq> []) TrackerListInvalid) (\<lambda>_.
                 rbind (tracker_tiers bok passkey hosts tiers) (\<lambda>ts.
                 Inr (AList.update ''announce-list'' (BList ts) metainfo')))
             | Some _ \<Rightarrow> Inl TrackerListInvalid)
      | _ \<Rightarrow> Inl TrackerMissing)"

section \<open>Rewriting a torrent\<close>

record parsed_metainfo =
  pm_content :: string
  pm_info_hash :: string
  pm_name :: pytext
  pm_total_size :: int
  pm_files :: "metainfo_file list"

definition PEER_DISCOVERY_FIELDS :: "string list" where
  "PEER_DISCOVERY_FIELDS =
     [''url-list'', ''httpseeds'', ''nodes'', ''comment'', ''comment.utf-8'', ''created by'', ''publisher'',
      ''publisher.utf-8'', ''publisher-url'', ''publisher-url.utf-8'']"

definition encode_metainfo :: "string \<Rightarrow> bdict \<Rightarrow> string" where
  "encode_metainfo raw metainfo =
     CHR ''d'' # concat (map (\<lambda>(k, v). encode_bytes k @ (if k = ''info'' then raw else encode v))
       (sort_key fst metainfo)) @ ''e''"

text \<open>The library functions the rewriting relies on.\<close>

record metainfo_library =
  lib_nfc :: "pytext \<Rightarrow> pytext"
  lib_casefold :: "pytext \<Rightarrow> pytext"
  lib_bracketed_ok :: "string \<Rightarrow> bool"
  lib_sha1 :: "string \<Rightarrow> string"

definition check_structure :: "bdict \<Rightarrow> metainfo_error + unit" where
  "check_structure info =
     require (\<not> list_ex (\<lambda>f. map_of info f \<noteq> None) [''file tree'', ''meta version'', ''pieces root''])
       StructureUnsupported"

definition check_pieces :: "bdict \<Rightarrow> metainfo_error + unit" where
  "check_pieces info =
     rbind (case map_of info ''pieces'' of
              Some (BBytes b) \<Rightarrow> require (b \<noteq> [] \<and> length b mod 20 = 0) PiecesInvalid
            | _ \<Rightarrow> Inl PiecesInvalid) (\<lambda>_.
     case map_of info ''piece length'' of
       Some (BInt n) \<Rightarrow> require (\<not> n \<le> 0) PieceLengthInvalid
     | _ \<Rightarrow> Inl PieceLengthInvalid)"

definition describe_info ::
  "metainfo_library \<Rightarrow> int \<Rightarrow> bdict \<Rightarrow> metainfo_error + pytext \<times> metainfo_file list" where
  "describe_info L max_total_size info =
     rbind (torrent_name (lib_nfc L) info) (\<lambda>name.
     rbind (torrent_files (lib_nfc L) (lib_casefold L) info name) (\<lambda>files.
     rbind (require (sum_list (map mf_size files) \<le> max_total_size) SizeTooLarge) (\<lambda>_.
     Inr (name, files))))"

definition drop_discovery :: "bdict \<Rightarrow> bdict" where
  "drop_discovery metainfo = filter (\<lambda>e. fst e \<notin> set PEER_DISCOVERY_FIELDS) metainfo"

definition rewrite_torrent ::
  "metainfo_library \<Rightarrow> string option \<Rightarrow> string list \<Rightarrow> int \<Rightarrow> string \<Rightarrow> metainfo_error + parsed_metainfo" where
  "rewrite_torrent L passkey allowed_tracker_hosts max_total_size content =
     rbind (parse_document content) (\<lambda>metainfo_value.
     rbind (required_dictionary (Some metainfo_value) ''racine'') (\<lambda>metainfo.
     rbind (required_dictionary (map_of metainfo ''info'') ''info'') (\<lambda>info.
     rbind (check_structure info) (\<lambda>_.
     rbind (info_raw content) (\<lambda>raw.
     rbind (check_pieces info) (\<lambda>_.
     rbind (describe_info L max_total_size info) (\<lambda>(name, files).
     rbind (normalize_trackers (lib_bracketed_ok L) passkey (set (map ascii_lower allowed_tracker_hosts)) metainfo)
       (\<lambda>metainfo'.
     Inr \<lparr>pm_content = encode_metainfo raw (drop_discovery metainfo'), pm_info_hash = lib_sha1 L raw,
          pm_name = name, pm_total_size = sum_list (map mf_size files), pm_files = files\<rparr>))))))))"

definition normalize_torrent ::
  "metainfo_library \<Rightarrow> string \<Rightarrow> string list \<Rightarrow> int \<Rightarrow> string \<Rightarrow> metainfo_error + parsed_metainfo" where
  "normalize_torrent L passkey hosts max_total_size content = rewrite_torrent L (Some passkey) hosts max_total_size content"

definition sanitize_torrent ::
  "metainfo_library \<Rightarrow> string list \<Rightarrow> int \<Rightarrow> string \<Rightarrow> metainfo_error + parsed_metainfo" where
  "sanitize_torrent L hosts max_total_size content = rewrite_torrent L None hosts max_total_size content"

section \<open>What the rewriting keeps and what it drops\<close>

lemma encode_metainfo_info:
  assumes "distinct (map fst es)" "map_of es ''info'' = Some v"
  shows "encode_metainfo (encode v) es = encode (BDict es)"
proof -
  have "w = v" if "(''info'', w) \<in> set es" for w
    using assms that by (simp add: map_of_eq_Some_iff)
  then have "map (\<lambda>(k, w). encode_bytes k @ (if k = ''info'' then encode v else encode w)) (sort_key fst es) =
      map (\<lambda>(k, w). encode_bytes k @ encode w) (sort_key fst es)"
    by (intro map_cong) auto
  then show ?thesis unfolding encode_metainfo_def encode.simps by (simp only:)
qed

text \<open>The trackers of a rewritten torrent: the shape of the fields, and the form of each URL.\<close>

definition tracker_ok :: "string option \<Rightarrow> string set \<Rightarrow> string \<Rightarrow> bool" where
  "tracker_ok passkey hosts u \<longleftrightarrow>
     (\<exists>h\<in>hosts. \<exists>scheme\<in>(if passkey = None then {''http'', ''https''} else {''https''}). \<exists>port\<in>{'''', '':80'', '':443''}.
        u = scheme @ ''://'' @ h @ port @ ''/announce'' @ (case passkey of None \<Rightarrow> '''' | Some k \<Rightarrow> CHR ''/'' # quote k))"

definition tracker_value_ok :: "string option \<Rightarrow> string set \<Rightarrow> bvalue \<Rightarrow> bool" where
  "tracker_value_ok passkey hosts v = (case v of BBytes u \<Rightarrow> tracker_ok passkey hosts u | _ \<Rightarrow> False)"

definition tracker_tier_ok :: "string option \<Rightarrow> string set \<Rightarrow> bvalue \<Rightarrow> bool" where
  "tracker_tier_ok passkey hosts v =
     (case v of BList us \<Rightarrow> us \<noteq> [] \<and> list_all (tracker_value_ok passkey hosts) us | _ \<Rightarrow> False)"

definition trackers_ok :: "string option \<Rightarrow> string set \<Rightarrow> bdict \<Rightarrow> bool" where
  "trackers_ok passkey hosts metainfo \<longleftrightarrow>
     (case map_of metainfo ''announce'' of Some v \<Rightarrow> tracker_value_ok passkey hosts v | None \<Rightarrow> False)
     \<and> (case map_of metainfo ''announce-list'' of
          None \<Rightarrow> True
        | Some (BList ts) \<Rightarrow> ts \<noteq> [] \<and> list_all (tracker_tier_ok passkey hosts) ts
        | Some _ \<Rightarrow> False)"

lemma nat_str_80_443 [simp]: "nat_str 80 = ''80''" "nat_str 443 = ''443''"
  by code_simp+

lemma tracker_url_ok:
  assumes "tracker_url bok passkey hosts raw = Inr u"
  shows "tracker_ok passkey hosts u"
proof -
  obtain parsed port h where p: "urlsplit bok raw = Some parsed" "url_port parsed = Inr port" "url_hostname parsed = Some h"
    using assms by (auto simp: tracker_url_def split: if_split_asm option.split_asm sum.split_asm)
  have c: "su_scheme parsed \<in> {''http'', ''https''}" "h \<in> hosts" "port \<in> {None, Some 80, Some 443}"
    using assms by (auto simp: tracker_url_def p Let_def split: if_split_asm)
  show ?thesis
    using assms c unfolding tracker_ok_def
    by (intro bexI [OF _ c(2)]) (auto simp: tracker_url_def p Let_def split: if_split_asm option.splits)
qed

lemma tracker_tier_run:
  assumes "tracker_tier bok passkey hosts vs = Inr us"
  shows "list_all (tracker_value_ok passkey hosts) us \<and> length us = length vs
    \<and> list_all (\<lambda>v. case v of BBytes _ \<Rightarrow> True | _ \<Rightarrow> False) vs"
  using assms
  by (induction vs arbitrary: us rule: tracker_tier.induct [where ?a0.0 = bok and ?a1.0 = passkey and ?a2.0 = hosts])
    (auto simp: rbind_Inr_iff tracker_value_ok_def dest: tracker_url_ok)

lemma tier_counts:
  assumes "list_all (\<lambda>v. case v of BBytes _ \<Rightarrow> True | _ \<Rightarrow> False) vs"
  shows "node_count (BList vs) = 1 + length vs" "fits (Suc (Suc k)) (BList vs)"
  using assms by (induction vs) (auto split: bvalue.splits)

lemma tracker_values_bytes:
  "list_all (tracker_value_ok passkey hosts) us \<Longrightarrow> list_all (\<lambda>v. case v of BBytes _ \<Rightarrow> True | _ \<Rightarrow> False) us"
  by (auto simp: list_all_iff tracker_value_ok_def split: bvalue.splits)

lemma fits_tier: "fits k (BList us) \<Longrightarrow> us \<noteq> [] \<Longrightarrow> \<exists>j. k = Suc (Suc j)"
  by (cases k; cases us; cases "k - 1") auto

lemma tracker_tiers_run:
  assumes "tracker_tiers bok passkey hosts vs = Inr ts"
  shows "list_all (tracker_tier_ok passkey hosts) ts \<and> length ts = length vs
    \<and> map node_count ts = map node_count vs \<and> (\<forall>k. list_all (fits k) vs \<longrightarrow> list_all (fits k) ts)"
  using assms
proof (induction vs arbitrary: ts)
  case Nil
  then show ?case by simp
next
  case (Cons v vs)
  obtain tier us ts' where r: "v = BList tier" "tier \<noteq> []" "tracker_tier bok passkey hosts tier = Inr us"
    "tracker_tiers bok passkey hosts vs = Inr ts'" "ts = BList us # ts'"
    using Cons.prems by (cases v) (auto simp: rbind_Inr_iff require_Inr_iff)
  note t = tracker_tier_run [OF r(3)]
  have u: "us \<noteq> []" using t r(2) by auto
  note b = tracker_values_bytes [OF conjunct1 [OF t]]
  have "node_count (BList us) = node_count v"
    using tier_counts(1) [OF b] tier_counts(1) [of tier] t by (simp add: r(1))
  moreover have "fits k (BList us)" if "fits k v" for k
    using fits_tier [of k tier] that r(1,2) tier_counts(2) [OF b] by auto
  ultimately show ?case using Cons.IH [OF r(4)] t u by (auto simp: r(5) tracker_tier_ok_def)
qed

lemma update_sum:
  "map_of m k = Some v0 \<Longrightarrow> node_count v = node_count v0 \<Longrightarrow>
     sum_list (map (node_count \<circ> snd) (AList.update k v m)) = sum_list (map (node_count \<circ> snd) m)"
  by (induction m) (auto split: if_splits)

lemma update_all: "list_all P m \<Longrightarrow> P (k, v) \<Longrightarrow> list_all P (AList.update k v m)"
  by (induction m) auto

lemma update_fst: "map_of m k = Some v0 \<Longrightarrow> map fst (AList.update k v m) = map fst m"
  by (induction m) (auto split: if_splits)

lemma fits_map_of: "list_all (\<lambda>e. fits k (snd e)) m \<Longrightarrow> map_of m x = Some v \<Longrightarrow> fits k v"
  by (fastforce simp: list_all_iff dest: map_of_SomeD)

lemma fits_bytes: "fits k v \<Longrightarrow> fits k (BBytes b)"
  by (cases k) auto

lemma normalize_trackers_run:
  assumes "normalize_trackers bok passkey hosts m = Inr m'"
  shows "trackers_ok passkey hosts m' \<and> map fst m' = map fst m
    \<and> (\<forall>k. k \<noteq> ''announce'' \<longrightarrow> k \<noteq> ''announce-list'' \<longrightarrow> map_of m' k = map_of m k)
    \<and> sum_list (map (node_count \<circ> snd) m') = sum_list (map (node_count \<circ> snd) m)
    \<and> (\<forall>k. list_all (\<lambda>e. fits k (snd e)) m \<longrightarrow> list_all (\<lambda>e. fits k (snd e)) m')"
proof -
  obtain b u where b: "map_of m ''announce'' = Some (BBytes b)" "tracker_url bok passkey hosts b = Inr u"
    using assms by (auto simp: normalize_trackers_def rbind_Inr_iff split: option.split_asm bvalue.split_asm)
  note u = tracker_url_ok [OF b(2)]
  define m1 where "m1 = AList.update ''announce'' (BBytes u) m"
  have m1: "map fst m1 = map fst m" "sum_list (map (node_count \<circ> snd) m1) = sum_list (map (node_count \<circ> snd) m)"
    "\<And>k. map_of m1 k = (if k = ''announce'' then Some (BBytes u) else map_of m k)"
    unfolding m1_def using update_fst [OF b(1)] update_sum [OF b(1), of "BBytes u"] by (auto simp: update_conv')
  have m1_fits: "list_all (\<lambda>e. fits k (snd e)) m1" if "list_all (\<lambda>e. fits k (snd e)) m" for k
    unfolding m1_def by (rule update_all [OF that]) (simp add: fits_bytes [OF fits_map_of [OF that b(1)]])
  consider (none) "map_of m1 ''announce-list'' = None" "m' = m1"
    | (tiers) tiers ts where "map_of m1 ''announce-list'' = Some (BList tiers)" "tiers \<noteq> []"
        "tracker_tiers bok passkey hosts tiers = Inr ts" "m' = AList.update ''announce-list'' (BList ts) m1"
    using assms
    by (auto simp: normalize_trackers_def b Let_def m1_def [symmetric] rbind_Inr_iff require_Inr_iff
        split: option.split_asm bvalue.split_asm)
  then show ?thesis
  proof cases
    case none
    then show ?thesis using u m1 m1_fits by (simp add: trackers_ok_def tracker_value_ok_def)
  next
    case tiers
    note t = tracker_tiers_run [OF tiers(3)]
    have ne: "ts \<noteq> []" using t tiers(2) by auto
    have cnt: "node_count (BList ts) = node_count (BList tiers)" using t by simp
    have "trackers_ok passkey hosts m'"
      using u t ne m1(3) by (simp add: tiers(4) trackers_ok_def tracker_value_ok_def update_conv')
    moreover have "list_all (\<lambda>e. fits k (snd e)) m'" if "list_all (\<lambda>e. fits k (snd e)) m" for k
    proof -
      have "fits k (BList tiers)" by (rule fits_map_of [OF m1_fits [OF that] tiers(1)])
      then have "fits k (BList ts)" using t by (cases k) auto
      then show ?thesis using update_all [OF m1_fits [OF that], of "''announce-list''" "BList ts"] by (simp add: tiers(4))
    qed
    ultimately show ?thesis
      using update_fst [OF tiers(1)] update_sum [OF tiers(1) cnt] m1(1-3) by (simp add: tiers(4) update_conv')
  qed
qed

lemma drop_discovery_map_of:
  "map_of (drop_discovery m) k = (if k \<in> set PEER_DISCOVERY_FIELDS then None else map_of m k)"
  unfolding drop_discovery_def by (induction m) auto

lemma drop_discovery_distinct: "distinct (map fst m) \<Longrightarrow> distinct (map fst (drop_discovery m))"
  unfolding drop_discovery_def by (rule distinct_map_filter)

lemma discovery_fields [simp]:
  "''info'' \<notin> set PEER_DISCOVERY_FIELDS" "''announce'' \<notin> set PEER_DISCOVERY_FIELDS"
  "''announce-list'' \<notin> set PEER_DISCOVERY_FIELDS"
  by (simp_all add: PEER_DISCOVERY_FIELDS_def)

lemma required_dictionary_Inr [simp]: "required_dictionary v field = Inr es \<longleftrightarrow> v = Some (BDict es)"
  by (auto simp: required_dictionary_def split: option.splits bvalue.splits)

lemma rewrite_torrent_run:
  assumes "rewrite_torrent L passkey hosts max_size content = Inr p"
  obtains m info m' where "parse_document content = Inr (BDict m)" "map_of m ''info'' = Some (BDict info)"
    "check_structure info = Inr ()" "check_pieces info = Inr ()"
    "describe_info L max_size info = Inr (pm_name p, pm_files p)"
    "normalize_trackers (lib_bracketed_ok L) passkey (set (map ascii_lower hosts)) m = Inr m'"
    "pm_content p = encode (BDict (drop_discovery m'))" "pm_info_hash p = lib_sha1 L (encode (BDict info))"
    "pm_total_size p = sum_list (map mf_size (pm_files p))"
proof -
  obtain m info raw name files m' where r: "parse_document content = Inr (BDict m)" "map_of m ''info'' = Some (BDict info)"
    "check_structure info = Inr ()" "info_raw content = Inr raw" "check_pieces info = Inr ()"
    "describe_info L max_size info = Inr (name, files)"
    "normalize_trackers (lib_bracketed_ok L) passkey (set (map ascii_lower hosts)) m = Inr m'"
    "p = \<lparr>pm_content = encode_metainfo raw (drop_discovery m'), pm_info_hash = lib_sha1 L raw,
          pm_name = name, pm_total_size = sum_list (map mf_size files), pm_files = files\<rparr>"
    using assms
    by (auto simp: rewrite_torrent_def rbind_Inr_iff)
  have raw: "raw = encode (BDict info)" using r(4) document_info [OF r(1)] r(2) by simp
  have d: "distinct (map fst m)" using document_keys [OF r(1)] by (simp add: strict_sorted_iff)
  note n = normalize_trackers_run [OF r(7)]
  have "distinct (map fst m')" "map_of m' ''info'' = Some (BDict info)" using n d r(2) by simp_all
  then have "encode_metainfo raw (drop_discovery m') = encode (BDict (drop_discovery m'))"
    unfolding raw by (intro encode_metainfo_info drop_discovery_distinct) (simp_all add: drop_discovery_map_of)
  then show thesis using that [OF r(1-3,5) _ r(7)] r(6) by (simp add: r(8) raw)
qed

text \<open>
  C9: A rewritten torrent keeps the \<open>info\<close> value of the upload, byte for byte, so its identity is
  unchanged; every tracker left in it is on an allowed host in the form the server writes, over
  https where the passkey is part of the URL, and no field that names other peers remains.
\<close>

theorem rewrite_torrent_safe:
  assumes "rewrite_torrent L passkey hosts max_size content = Inr p"
  shows "\<exists>m info kept. parse_document content = Inr (BDict m) \<and> map_of m ''info'' = Some info
    \<and> pm_content p = encode (BDict kept) \<and> map_of kept ''info'' = Some info \<and> distinct (map fst kept)
    \<and> pm_info_hash p = lib_sha1 L (encode info)
    \<and> trackers_ok passkey (set (map ascii_lower hosts)) kept
    \<and> (\<forall>k\<in>set PEER_DISCOVERY_FIELDS. map_of kept k = None)
    \<and> pm_total_size p \<le> max_size"
proof (rule rewrite_torrent_run [OF assms])
  fix m info m'
  assume r: "parse_document content = Inr (BDict m)" "map_of m ''info'' = Some (BDict info)"
    "describe_info L max_size info = Inr (pm_name p, pm_files p)"
    "normalize_trackers (lib_bracketed_ok L) passkey (set (map ascii_lower hosts)) m = Inr m'"
    "pm_content p = encode (BDict (drop_discovery m'))" "pm_info_hash p = lib_sha1 L (encode (BDict info))"
    "pm_total_size p = sum_list (map mf_size (pm_files p))"
  note n = normalize_trackers_run [OF r(4)]
  have d: "distinct (map fst m)" using document_keys [OF r(1)] by (simp add: strict_sorted_iff)
  have "trackers_ok passkey (set (map ascii_lower hosts)) (drop_discovery m')"
    using n by (simp add: trackers_ok_def drop_discovery_map_of)
  moreover have "distinct (map fst (drop_discovery m'))" using n d by (simp add: drop_discovery_distinct)
  moreover have "pm_total_size p \<le> max_size"
    using r(3) by (auto simp: describe_info_def rbind_Inr_iff require_Inr_iff r(7))
  ultimately show ?thesis
    using r(1,2,5,6) n by (intro exI [of _ m] exI [of _ "BDict info"] exI [of _ "drop_discovery m'"])
      (simp add: drop_discovery_map_of)
qed

section \<open>Staged torrents\<close>

text \<open>
  What \<open>sanitize_torrent\<close> writes is read again by \<open>normalize_torrent\<close>. A DNS name has at most 253
  characters, which bounds the URLs the server writes.
\<close>

lemma nat_str_short: "n < 1000 \<Longrightarrow> length (nat_str n) \<le> 3"
  by (subst nat_str.simps, subst nat_str.simps, subst nat_str.simps) auto

lemma tracker_ok_None:
  "tracker_ok None hosts u \<longleftrightarrow>
     (\<exists>h\<in>hosts. \<exists>scheme\<in>{''http'', ''https''}. \<exists>port\<in>{'''', '':80'', '':443''}.
        u = scheme @ ''://'' @ h @ port @ ''/announce'')"
  unfolding tracker_ok_def by simp

lemma tracker_ok_bytes:
  assumes "tracker_ok None hosts u" "\<forall>h\<in>hosts. length h \<le> 253"
  shows "bytes_ok u"
proof -
  obtain h scheme port where u: "h \<in> hosts" "scheme \<in> {''http'', ''https''}" "port \<in> {'''', '':80'', '':443''}"
    "u = scheme @ ''://'' @ h @ port @ ''/announce''"
    using assms(1) unfolding tracker_ok_None by blast
  have "length scheme \<le> 5" "length port \<le> 4" "length h \<le> 253" using u(1-3) assms(2) by auto
  then have "length u < 1000" by (simp add: u(4))
  then show ?thesis using nat_str_short by (fastforce simp: bytes_ok_def MAX_INT_DIGITS_def)
qed

lemma tracker_value_canonical:
  "tracker_value_ok None hosts v \<Longrightarrow> \<forall>h\<in>hosts. length h \<le> 253 \<Longrightarrow> canonical v"
  by (auto simp: tracker_value_ok_def tracker_ok_bytes split: bvalue.splits)

lemma tracker_tier_canonical:
  "tracker_tier_ok None hosts v \<Longrightarrow> \<forall>h\<in>hosts. length h \<le> 253 \<Longrightarrow> canonical v"
  by (auto simp: tracker_tier_ok_def list_all_iff tracker_value_canonical split: bvalue.splits)

lemma trackers_canonical:
  assumes "trackers_ok None hosts m" "\<forall>h\<in>hosts. length h \<le> 253"
    and "k = ''announce'' \<or> k = ''announce-list''" "map_of m k = Some v"
  shows "canonical v"
proof (cases "k = ''announce''")
  case True
  then have "tracker_value_ok None hosts v" using assms(1,4) by (simp add: trackers_ok_def)
  then show ?thesis by (rule tracker_value_canonical [OF _ assms(2)])
next
  case False
  then obtain ts where "v = BList ts" "list_all (tracker_tier_ok None hosts) ts"
    using assms(1,3,4) by (cases v) (auto simp: trackers_ok_def)
  then show ?thesis using tracker_tier_canonical [OF _ assms(2)] by (auto simp: list_all_iff)
qed

lemma map_of_sort: "distinct (map fst es) \<Longrightarrow> map_of (sort_key fst es) = map_of (es :: bdict)"
  by (subst map_of_inject_set) (simp_all add: distinct_map inj_on_def)

lemma sum_list_sort: "sum_list (map f (sort_key g xs)) = (sum_list (map f xs) :: nat)"
  by (metis mset_map mset_sort sum_mset_sum_list)

lemma sanitized_document:
  assumes "parse_document content = Inr (BDict m)" "normalize_trackers bok None hosts m = Inr m'"
    and "\<forall>h\<in>hosts. length h \<le> 253"
  shows "parse_document (encode (BDict (drop_discovery m'))) = Inr (BDict (sort_key fst (drop_discovery m')))"
proof -
  let ?k = "drop_discovery m'"
  have c: "canonical (BDict m)" "list_all (\<lambda>e. fits MAX_BENCODE_DEPTH (snd e)) m"
    "node_count (BDict m) \<le> MAX_BENCODE_ITEMS"
    using assms(1) unfolding document_canonical by simp_all
  have n: "trackers_ok None hosts m'" "map fst m' = map fst m"
    "\<And>k. k \<noteq> ''announce'' \<Longrightarrow> k \<noteq> ''announce-list'' \<Longrightarrow> map_of m' k = map_of m k"
    "sum_list (map (node_count \<circ> snd) m') = sum_list (map (node_count \<circ> snd) m)"
    "list_all (\<lambda>e. fits MAX_BENCODE_DEPTH (snd e)) m'"
    using normalize_trackers_run [OF assms(2)] c(2) by blast+
  have d: "distinct (map fst m)" using c(1) by (simp add: strict_sorted_iff)
  then have d': "distinct (map fst m')" "distinct (map fst ?k)"
    using drop_discovery_distinct [of m'] unfolding n(2) by blast+
  have m: "bytes_ok k \<and> canonical v" if "(k, v) \<in> set m" for k v
    using c(1) that by (auto simp: list_all_iff)
  have srt: "sorted_wrt (<) (map fst (sort_key fst ?k))"
    using d'(2) by (simp add: strict_sorted_iff distinct_map inj_on_def)
  have entry: "bytes_ok k \<and> canonical v" if "(k, v) \<in> set m'" for k v
  proof -
    have "k \<in> fst ` set m'" using that by (rule rev_image_eqI) simp
    then have "k \<in> fst ` set m" using arg_cong [OF n(2), of set] by simp
    then have "bytes_ok k" using m by fastforce
    moreover have v: "map_of m' k = Some v" by (rule map_of_is_SomeI [OF d'(1) that])
    have "canonical v"
    proof (cases "k = ''announce'' \<or> k = ''announce-list''")
      case True
      then show ?thesis by (rule trackers_canonical [OF n(1) assms(3) _ v])
    next
      case False
      then have "map_of m k = Some v" using n(3) [of k] v by simp
      then show ?thesis using m map_of_SomeD by fastforce
    qed
    ultimately show ?thesis by blast
  qed
  have "canonical (BDict (sort_key fst ?k))"
    using srt entry by (auto simp: list_all_iff drop_discovery_def)
  moreover have "fits (MAX_BENCODE_DEPTH + 1) (BDict (sort_key fst ?k))"
    using n(5) by (auto simp: list_all_iff drop_discovery_def)
  moreover have "node_count (BDict (sort_key fst ?k)) \<le> MAX_BENCODE_ITEMS"
  proof -
    have "sum_list (map (node_count \<circ> snd) (sort_key fst ?k)) = sum_list (map (node_count \<circ> snd) ?k)"
      by (rule sum_list_sort)
    also have "\<dots> \<le> sum_list (map (node_count \<circ> snd) m')"
      unfolding drop_discovery_def by (rule sum_list_filter_le_nat)
    finally show ?thesis using n(4) c(3) unfolding node_count_dict by simp
  qed
  moreover have "encode (BDict ?k) = encode (BDict (sort_key fst ?k))"
    by (simp add: sort_key_id_if_sorted)
  ultimately show ?thesis unfolding document_canonical by simp
qed

definition tracker_errors :: "metainfo_error set" where
  "tracker_errors = {TrackerUrlInvalid, TrackerNotAllowed}"

lemma tracker_url_error:
  "tracker_url bok passkey hosts b = Inl e \<Longrightarrow> e \<in> tracker_errors"
  by (auto simp: tracker_url_def tracker_errors_def Let_def split: if_split_asm option.split_asm sum.split_asm)

lemma tracker_tier_error:
  assumes "list_all (tracker_value_ok passkey hosts) vs" "tracker_tier bok passkey' hosts' vs = Inl e"
  shows "e \<in> tracker_errors"
  using assms
proof (induction vs)
  case (Cons v vs)
  then obtain b where "v = BBytes b" by (cases v) (auto simp: tracker_value_ok_def)
  then show ?case using Cons tracker_url_error by (auto simp: rbind_Inl_iff)
qed simp

lemma tracker_tiers_error:
  assumes "list_all (tracker_tier_ok passkey hosts) vs" "tracker_tiers bok passkey' hosts' vs = Inl e"
  shows "e \<in> tracker_errors"
  using assms
proof (induction vs)
  case (Cons v vs)
  then obtain us where "v = BList us" "us \<noteq> []" "list_all (tracker_value_ok passkey hosts) us"
    by (cases v) (auto simp: tracker_tier_ok_def)
  then show ?case using Cons tracker_tier_error by (auto simp: rbind_Inl_iff)
qed simp

lemma normalize_trackers_error:
  assumes "trackers_ok passkey hosts m" "normalize_trackers bok passkey' hosts' m = Inl e"
  shows "e \<in> tracker_errors"
proof -
  obtain b where b: "map_of m ''announce'' = Some (BBytes b)"
    using assms(1) by (auto simp: trackers_ok_def tracker_value_ok_def split: option.split_asm bvalue.split_asm)
  show ?thesis
  proof (cases "tracker_url bok passkey' hosts' b")
    case (Inl e')
    then show ?thesis using assms(2) b tracker_url_error [OF Inl] by (simp add: normalize_trackers_def)
  next
    case (Inr u)
    let ?m = "AList.update ''announce'' (BBytes u) m"
    obtain ts where "map_of m ''announce-list'' = Some (BList ts)" "ts \<noteq> []" "list_all (tracker_tier_ok passkey hosts) ts"
      using assms b Inr
      by (auto simp: trackers_ok_def normalize_trackers_def Let_def update_conv' split: option.split_asm bvalue.split_asm)
    then show ?thesis
      using assms(2) b Inr tracker_tiers_error
      by (auto simp: normalize_trackers_def Let_def update_conv' rbind_Inl_iff)
  qed
qed

lemma describe_info_size:
  "describe_info L max_size info = Inr (name, files) \<Longrightarrow>
     describe_info L max_size' info =
       (if sum_list (map mf_size files) \<le> max_size' then Inr (name, files) else Inl SizeTooLarge)"
  by (auto simp: describe_info_def rbind_Inr_iff require_def)

text \<open>
  C12: Reading a staged torrent again finds the same identity, name and files: the validation done at
  the upload holds for the bytes submitted later, where only the size limit or the allow-list of
  the trackers can refuse them.
\<close>

theorem normalize_staged_torrent:
  assumes "sanitize_torrent L hosts max_size content = Inr p" "\<forall>h\<in>set hosts. length h \<le> 253"
  shows "case normalize_torrent L passkey hosts' max_size' (pm_content p) of
      Inl e \<Rightarrow> e = SizeTooLarge \<and> max_size' < pm_total_size p \<or> e \<in> tracker_errors
    | Inr q \<Rightarrow> pm_info_hash q = pm_info_hash p \<and> pm_name q = pm_name p \<and> pm_files q = pm_files p
        \<and> pm_total_size q = pm_total_size p"
proof (rule rewrite_torrent_run [OF assms(1) [unfolded sanitize_torrent_def]])
  fix m info m'
  let ?hosts = "set (map ascii_lower hosts)" and ?k = "sort_key fst (drop_discovery m')"
  assume r: "parse_document content = Inr (BDict m)" "map_of m ''info'' = Some (BDict info)"
    "check_structure info = Inr ()" "check_pieces info = Inr ()"
    "describe_info L max_size info = Inr (pm_name p, pm_files p)"
    "normalize_trackers (lib_bracketed_ok L) None ?hosts m = Inr m'"
    "pm_content p = encode (BDict (drop_discovery m'))" "pm_info_hash p = lib_sha1 L (encode (BDict info))"
    "pm_total_size p = sum_list (map mf_size (pm_files p))"
  have short: "\<forall>h\<in>?hosts. length h \<le> 253" using assms(2) by (simp add: ascii_lower_def)
  note doc = sanitized_document [OF r(1,6) short, folded r(7)]
  have n: "trackers_ok None ?hosts m'" "map fst m' = map fst m" "map_of m' ''info'' = Some (BDict info)"
    using normalize_trackers_run [OF r(6)] r(2) by simp_all
  have "distinct (map fst m')" using document_keys [OF r(1)] n(2) by (simp add: strict_sorted_iff)
  then have k: "map_of ?k = map_of (drop_discovery m')" by (intro map_of_sort drop_discovery_distinct)
  then have i: "map_of ?k ''info'' = Some (BDict info)" using n(3) by (simp add: drop_discovery_map_of)
  have t: "trackers_ok None ?hosts ?k" using n(1) unfolding trackers_ok_def k by (simp add: drop_discovery_map_of)
  have raw: "info_raw (pm_content p) = Inr (encode (BDict info))" using document_info [OF doc] i by simp
  have run: "normalize_torrent L passkey hosts' max_size' (pm_content p) =
      rbind (describe_info L max_size' info) (\<lambda>(name, files).
      rbind (normalize_trackers (lib_bracketed_ok L) (Some passkey) (set (map ascii_lower hosts')) ?k) (\<lambda>m2.
      Inr \<lparr>pm_content = encode_metainfo (encode (BDict info)) (drop_discovery m2),
           pm_info_hash = lib_sha1 L (encode (BDict info)), pm_name = name,
           pm_total_size = sum_list (map mf_size files), pm_files = files\<rparr>))"
    unfolding normalize_torrent_def rewrite_torrent_def doc
    by (simp add: required_dictionary_def i r(3,4) raw del: set_map)
  show ?thesis
  proof (cases "normalize_trackers (lib_bracketed_ok L) (Some passkey) (set (map ascii_lower hosts')) ?k")
    case (Inl e)
    then show ?thesis unfolding run describe_info_size [OF r(5), of max_size'] Inl
      using normalize_trackers_error [OF t Inl] by (simp add: r(9))
  next
    case (Inr m2)
    then show ?thesis unfolding run describe_info_size [OF r(5), of max_size'] Inr by (simp add: r(8,9))
  qed
qed

section \<open>An upload\<close>

lemma rewrite_torrent_Inr:
  assumes "parse_document content = Inr (BDict m)" "map_of m ''info'' = Some (BDict info)"
    "check_structure info = Inr ()" "check_pieces info = Inr ()" "describe_info L max_size info = Inr (name, files)"
    "normalize_trackers (lib_bracketed_ok L) passkey (set (map ascii_lower hosts)) m = Inr m'"
  shows "rewrite_torrent L passkey hosts max_size content =
    Inr \<lparr>pm_content = encode_metainfo (encode (BDict info)) (drop_discovery m'),
         pm_info_hash = lib_sha1 L (encode (BDict info)), pm_name = name,
         pm_total_size = sum_list (map mf_size files), pm_files = files\<rparr>"
  using assms document_info [OF assms(1)] by (simp add: rewrite_torrent_def required_dictionary_def del: set_map encode.simps)

definition ex_library :: metainfo_library where
  "ex_library = \<lparr>lib_nfc = \<lambda>t. t, lib_casefold = \<lambda>t. t, lib_bracketed_ok = \<lambda>_. False, lib_sha1 = \<lambda>s. s\<rparr>"

definition ex_single :: bdict where
  "ex_single = [(''length'', BInt 5), (''name'', BBytes ''a''), (''piece length'', BInt 1),
     (''pieces'', BBytes ''01234567890123456789'')]"

definition ex_upload :: bdict where
  "ex_upload = [(''announce'', BBytes ''http://T.io/x?k=1''), (''comment'', BBytes ''c''), (''info'', BDict ex_single)]"

definition ex_staged :: bdict where
  "ex_staged = [(''announce'', BBytes ''http://t.io/announce''), (''info'', BDict ex_single)]"

definition ex_submitted :: bdict where
  "ex_submitted = [(''announce'', BBytes ''https://t.io/announce/k%2F''), (''info'', BDict ex_single)]"

lemma ex_single_checks:
  "check_structure ex_single = Inr ()" "check_pieces ex_single = Inr ()"
  "describe_info ex_library 10 ex_single = Inr (lit ''a'', [\<lparr>mf_index = 0, mf_path = lit ''a'', mf_size = 5\<rparr>])"
  by (simp_all add: check_structure_def check_pieces_def describe_info_def ex_library_def ex_single_def eval_simps)

lemma short_bytes_ok: "length b < 1000 \<Longrightarrow> bytes_ok b"
  using nat_str_short [of "length b"] by (simp add: bytes_ok_def MAX_INT_DIGITS_def)

lemma nat_str_1_5: "nat_str (Suc 0) = ''1''" "nat_str 5 = ''5''"
  by code_simp+

lemma ex_fits: "fits (MAX_BENCODE_DEPTH + 1) (BDict ex_upload)" "fits (MAX_BENCODE_DEPTH + 1) (BDict ex_staged)"
  by (simp_all add: ex_upload_def ex_staged_def ex_single_def MAX_BENCODE_DEPTH_def eval_nat_numeral)

lemma ex_canonical: "canonical (BDict ex_upload)" "canonical (BDict ex_staged)"
  by (simp_all add: ex_upload_def ex_staged_def ex_single_def short_bytes_ok nat_str_1_5 MAX_INT_DIGITS_def)

lemma ex_documents:
  "parse_document (encode (BDict ex_upload)) = Inr (BDict ex_upload)"
  "parse_document (encode (BDict ex_staged)) = Inr (BDict ex_staged)"
  unfolding document_canonical
  by (simp_all only: ex_fits ex_canonical simp_thms)
    (simp_all add: ex_upload_def ex_staged_def ex_single_def MAX_BENCODE_ITEMS_def)

lemma ex_trackers:
  "normalize_trackers (lib_bracketed_ok ex_library) None (set (map ascii_lower [''t.io''])) ex_upload =
     Inr (AList.update ''announce'' (BBytes ''http://t.io/announce'') ex_upload)"
  "normalize_trackers (lib_bracketed_ok ex_library) (Some ''k/'') (set (map ascii_lower [''t.io''])) ex_staged =
     Inr ex_submitted"
  by code_simp+

lemma ex_kept:
  "drop_discovery (AList.update ''announce'' (BBytes ''http://t.io/announce'') ex_upload) = ex_staged"
  "drop_discovery ex_submitted = ex_submitted"
  by (simp_all add: drop_discovery_def ex_upload_def ex_staged_def ex_submitted_def PEER_DISCOVERY_FIELDS_def)

lemma ex_infos:
  "map_of ex_upload ''info'' = Some (BDict ex_single)" "map_of ex_staged ''info'' = Some (BDict ex_single)"
  "encode_metainfo (encode (BDict ex_single)) ex_staged = encode (BDict ex_staged)"
  by (simp_all add: ex_upload_def ex_staged_def del: encode.simps) (rule encode_metainfo_info; simp)

definition ex_parsed :: "bdict \<Rightarrow> string \<Rightarrow> parsed_metainfo" where
  "ex_parsed info content = \<lparr>pm_content = content, pm_info_hash = encode (BDict info), pm_name = lit ''a'',
     pm_total_size = 5, pm_files = [\<lparr>mf_index = 0, mf_path = lit ''a'', mf_size = 5\<rparr>]\<rparr>"

lemma ex_sanitize:
  "sanitize_torrent ex_library [''t.io''] 10 (encode (BDict ex_upload)) =
     Inr (ex_parsed ex_single (encode (BDict ex_staged)))"
  unfolding sanitize_torrent_def
    rewrite_torrent_Inr [OF ex_documents(1) ex_infos(1) ex_single_checks ex_trackers(1)] ex_kept ex_infos(3)
  by (simp add: ex_parsed_def ex_library_def del: encode.simps)

lemma ex_normalize:
  "normalize_torrent ex_library ''k/'' [''t.io''] 10 (encode (BDict ex_staged)) =
     Inr (ex_parsed ex_single (encode_metainfo (encode (BDict ex_single)) ex_submitted))"
  unfolding normalize_torrent_def
    rewrite_torrent_Inr [OF ex_documents(2) ex_infos(2) ex_single_checks ex_trackers(2)] ex_kept
  by (simp add: ex_parsed_def ex_library_def del: encode.simps)

theorem rewrite_torrent_safe_witness:
  "\<exists>kept. encode (BDict ex_staged) = encode (BDict kept) \<and> trackers_ok None {''t.io''} kept
     \<and> map_of kept ''comment'' = None"
proof -
  have h: "set (map ascii_lower [''t.io'']) = {''t.io''}" by code_simp
  have c: "''comment'' \<in> set PEER_DISCOVERY_FIELDS" by (simp add: PEER_DISCOVERY_FIELDS_def)
  have "pm_content (ex_parsed ex_single (encode (BDict ex_staged))) = encode (BDict ex_staged)"
    by (simp only: ex_parsed_def parsed_metainfo.simps)
  then show ?thesis
    using rewrite_torrent_safe [OF ex_sanitize [unfolded sanitize_torrent_def]] c unfolding h by (metis (no_types))
qed

theorem normalize_staged_torrent_witness:
  "\<exists>q. normalize_torrent ex_library ''k/'' [''t.io''] 10 (encode (BDict ex_staged)) = Inr q
     \<and> pm_info_hash q = pm_info_hash (ex_parsed ex_single (encode (BDict ex_staged)))"
proof -
  have c: "pm_content (ex_parsed ex_single (encode (BDict ex_staged))) = encode (BDict ex_staged)"
    by (simp only: ex_parsed_def parsed_metainfo.simps)
  have s: "\<forall>h\<in>set [''t.io'']. length h \<le> 253" by simp
  show ?thesis
    using normalize_staged_torrent [OF ex_sanitize s, where passkey = "''k/''" and hosts' = "[''t.io'']" and max_size' = 10]
    unfolding c ex_normalize sum.case by blast
qed

end
