(* ===== verification/Spec2Isabelle.thy ===== *)
theory Spec2Isabelle
  imports Route_Effects Scheduler_Safety Metainfo
begin

text \<open>
  A verification library for the backend of World of Seeds, a shared torrent platform: users submit
  torrents, the platform stores each content once for all of them, downloads it through qBittorrent
  under a fair schedule and a storage quota, serves it, and purges it when nobody holds it any more.
  Paths below are relative to \<open>backend/app/\<close>.

  \<^bold>\<open>How the parts interact.\<close> All durable state is in one PostgreSQL database. The routes
  (\<open>api/routes/torrents_v2.py\<close>) admit a submission through the deduplication
  (\<open>torrents/deduplication.py\<close>), which charges the storage accounts (\<open>storage/accounting.py\<close>), and put a
  job in the job table (\<open>jobs/torrent_jobs.py\<close>). Workers (\<open>jobs/worker.py\<close>) claim jobs under an expiring
  claim and run the handlers (\<open>jobs/torrent_effects.py\<close>), which add, observe and purge the content. The
  lifecycle (\<open>torrents/lifecycle.py\<close>) ends rights and schedules purges; downloads
  (\<open>torrents/downloads.py\<close>) hold leases a purge waits for. The singleton scheduler
  (\<open>scheduler/runtime.py\<close>) plans which torrents run, with a fair selection
  (\<open>scheduler/weighted_fair.py\<close>) within a capacity that follows the measured bandwidth
  (\<open>scheduler/dynamic_concurrency.py\<close>). In the model the database is the record \<open>db\<close>, a table the list of
  its rows, a transaction a function from \<open>db\<close> to an error or a \<open>db\<close>: an error is a rollback.

  \<^bold>\<open>Theories and the code they model.\<close>

  \<^item> \<open>Prelude\<close>: the Python values the modules exchange, exceptions as \<open>py_error\<close> and \<open>app_error\<close> with the
    result combinator \<open>rbind\<close>, rounding to binary64 (\<open>fl64\<close>), tables, and the locales
    \<open>invariant_system\<close> and \<open>refinement_system\<close> of the transition systems.
  \<^item> \<open>Text_Encoding\<close>: text as lists of code points and its UTF-8 encoding (all four lengths; a surrogate has
    none), with the strict decoder and the round trip. File paths and the names of a torrent file are such
    texts; the columns that hold hexadecimal digits, keys or codes are HOL strings.
  \<^item> \<open>Models\<close>: the rows, enumerations, CHECK constraints and unique indexes of \<open>models/torrent_v2.py\<close>, and
    what the torrent code reads of \<open>models/auth.py\<close> and \<open>models/options_v2.py\<close>.
  \<^item> \<open>Weighted_Fair\<close> is \<open>scheduler/weighted_fair.py\<close>; \<open>Fair_Selection\<close> proves its loop: it ends, respects the
    slots and the limit of each user, leaves no slot idle while somebody waits, serves each user in
    order, and keeps the ledger bounded. The locale \<open>selector\<close> is the contract of a selection; both
    \<open>select_torrents\<close> and \<open>select_with_continuity\<close> are instances. \<open>Qb_Control\<close> is
    \<open>scheduler/qbittorrent_control.py\<close> and extends the contract to the controls of a selection.
  \<^item> \<open>Dynamic_Concurrency\<close> is \<open>scheduler/dynamic_concurrency.py\<close>: the measurement window and its bounds.
  \<^item> \<open>Scheduler_Runtime\<close> is \<open>scheduler/runtime.py\<close> and \<open>scheduler/persistence.py\<close>: the lease, the ledger rows,
    the bounded control set, \<open>plan_cycle\<close> (the first transaction of \<open>run_once\<close>), \<open>apply_cycle\<close> (the
    second) and the pacing. \<open>Scheduler_Lease\<close> lets any number of schedulers compete for the lease,
    \<open>Scheduler_Rows\<close> shows that a cycle returns and keeps the tables well formed, and
    \<open>Scheduler_Safety\<close> places the cycle in the transition system of the platform.
  \<^item> \<open>Queue_Visibility\<close> is \<open>scheduler/queue_visibility.py\<close>: the public queue and its positions.
  \<^item> \<open>Storage_Accounting\<close> is \<open>storage/accounting.py\<close>: admission, capacity, pressure, reconciliation.
  \<^item> \<open>Torrent_Jobs\<close> is \<open>jobs/torrent_jobs.py\<close>, every transition of a job row; \<open>Worker\<close> is the part of
    \<open>jobs/worker.py\<close> that touches the database, with the fleet of tasks as a transition system.
  \<^item> \<open>Lifecycle\<close> is \<open>torrents/lifecycle.py\<close>, \<open>Deduplication\<close> is \<open>torrents/deduplication.py\<close>, \<open>Manifest\<close> is
    \<open>torrents/manifest.py\<close>, \<open>Torrent_Effects\<close> the transactions of \<open>jobs/torrent_effects.py\<close>,
    \<open>Downloads\<close> the leases of \<open>torrents/downloads.py\<close>, \<open>Torrents_Api\<close> the transactions of submission and
    retry of \<open>api/routes/torrents_v2.py\<close>; \<open>Route_Effects\<close> states what these two guarantee.
  \<^item> \<open>Bencode\<close> and \<open>Metainfo\<close> are \<open>torrents/metainfo.py\<close>: the bencode reader and writer over the bytes that
    remain, then the validation of names and paths, the tree of paths, and the rewriting of an upload.
  \<^item> \<open>Platform\<close> and \<open>Platform_System\<close> put the transactions together: a state is the database and the clock, a
    step the commit of one transaction of any component. The locale \<open>platform_transaction\<close> is the
    contract of a transaction that starts no purge. The recovery of expired claims and the failing of
    the ADD torrents they abandon, which \<open>jobs/worker.py\<close> commits separately, are steps of their own
    besides the round of both. \<open>Platform_Safety\<close> reads the guarantees off the
    invariant; \<open>Sharing_Refinement\<close> shows that the system refines an abstract library.

  \<^bold>\<open>What is shown.\<close> In every reachable state of the platform: content under deletion is held by nobody and
  read by no live download; the counters equal the sums over the rows they stand for; and users
  see an abstract library in which contents are granted, dropped and purged when nobody holds them.
  The operations users and workers call have functional theorems, errors included. A claim of a job
  is settled only by the task that holds it. Two schedulers never lead at once, a plan of
  an older generation is never recorded, and a cycle of the scheduler keeps every property above.
  Round trips and encodings: the manifest written is the manifest read, whatever lists were written
  before (\<open>manifest_life\<close> is the history of the rows: writes, and whatever leaves them and the manifest
  columns alone), and the bytes that its checksum digests determine it, for any Unicode path. The bencode reader accepts exactly the canonical documents within its limits; the paths of an
  accepted torrent stay below its directory and never collide; the rewriting keeps the bytes of
  \<open>info\<close>, leaves only trackers of the allow-list, and a staged torrent is read back as the same one.

  \<^bold>\<open>Termination and bounds.\<close> Every recursion is structural or over a list of rows, except the
  bencode reader, which recurs on the levels that are left (65, as the source) and on the bytes that
  remain, and the loop of \<open>select_torrents\<close>, which is \<open>while_option\<close>: a run without end is \<open>None\<close>, and it
  is proved that validated inputs never give \<open>None\<close>, nor does \<open>plan_cycle\<close> for any input. No fuel is used. The bounds are those
  of the source: 200 torrents in a control set, batches and limits as arguments. Python integers are
  \<open>int\<close>; UUIDs are 128-bit words; instants and durations are whole microseconds.

  \<^bold>\<open>Assumptions of the model.\<close> A transaction is atomic and reads the clock once; rows that other
  transactions lock and \<open>SKIP LOCKED\<close> passes over are a predicate argument, and so are generated
  identifiers (fresh), the jitter of a backoff, the hash function of a manifest (64 hexadecimal
  digits), NFC, casefold, SHA-1 and the check of a bracketed IP address (\<open>metainfo_library\<close>), the answers
  of qBittorrent, the staged payload and the disk snapshot. NULL sorts last, as in PostgreSQL. The
  clocks of competing schedulers agree, and a process may use any past reading of the clock.

  \<^bold>\<open>Not modelled.\<close> The asyncio loops (polling, wake-up, shutdown), Redis (a best-effort cache and signals),
  HTTP requests and responses, the qBittorrent, NewGreedy, Prometheus and C411 clients, the file system and the transfer
  of bytes, authentication (hashing and tokens are library code), the option registry, the
  administrative recovery and cleanup, the V1 import, the Discord bot, the operations
  scripts and the migrations.
\<close>

end
